(* ===== verification/Nufs_Prelude.thy ===== *)
theory Nufs_Prelude
  imports Complex_Main "HOL-Library.Word" "HOL-Library.AList" "HOL-Library.List_Lexorder"
    "HOL-Library.Char_ord" "HOL-Library.Sublist" "HOL-Library.Multiset"
begin

text \<open>
  Shared vocabulary of the development: the machine integer types of the Go sources, result
  types, the decimal printer and parser of the standard library that the key space uses,
  association lists as the contents of the ordered key-value store, and the generic lemmas on
  lists, maps and words on which the component theories build.
\<close>

type_synonym u8 = "8 word"
type_synonym u16 = "16 word"
type_synonym u32 = "32 word"
type_synonym u64 = "64 word"

text \<open>A Go byte slice and a Go string are both sequences of bytes; a \<open>char\<close> of HOL is one byte.\<close>

type_synonym bytes = string

named_theorems kv_lookup
named_theorems key_defs
named_theorems step_defs

section \<open>Decimal numbers (strconv.FormatUint and strconv.ParseUint in base 10)\<close>

definition digit :: "nat \<Rightarrow> char" where
  "digit d = char_of (48 + d)"

definition isDigit :: "char \<Rightarrow> bool" where
  "isDigit c \<longleftrightarrow> 48 \<le> (of_char c :: nat) \<and> (of_char c :: nat) \<le> 57"

definition digitVal :: "char \<Rightarrow> nat" where
  "digitVal c = of_char c - 48"

fun showDec :: "nat \<Rightarrow> string" where
  "showDec n = (if n < 10 then [digit n] else showDec (n div 10) @ [digit (n mod 10)])"

declare showDec.simps [simp del]

definition decVal :: "string \<Rightarrow> nat" where
  "decVal s = foldl (\<lambda>a c. 10 * a + digitVal c) 0 s"

definition FormatUint :: "u64 \<Rightarrow> string" where
  "FormatUint w = showDec (unat w)"

definition ParseUint :: "string \<Rightarrow> u64 option" where
  "ParseUint s =
     (if s = [] \<or> \<not> list_all isDigit s then None
      else if decVal s < 2 ^ 64 then Some (of_nat (decVal s)) else None)"

lemma isDigit_digit [simp]: "d < 10 \<Longrightarrow> isDigit (digit d)"
  by (simp add: isDigit_def digit_def)

lemma digitVal_digit [simp]: "d < 10 \<Longrightarrow> digitVal (digit d) = d"
  by (simp add: digitVal_def digit_def)

lemma isDigit_slash [simp]: "\<not> isDigit (CHR ''/'')"
  by (simp add: isDigit_def)

lemma showDec_digits: "list_all isDigit (showDec n)"
proof (induction n rule: showDec.induct)
  case (1 n)
  then show ?case by (subst showDec.simps) auto
qed

lemma showDec_not_Nil [simp]: "showDec n \<noteq> []"
  by (subst showDec.simps) simp

lemma decVal_snoc: "decVal (s @ [c]) = 10 * decVal s + digitVal c"
  by (simp add: decVal_def)

lemma decVal_showDec [simp]: "decVal (showDec n) = n"
proof (induction n rule: showDec.induct)
  case (1 n)
  show ?case
  proof (cases "n < 10")
    case True
    then show ?thesis by (subst showDec.simps) (simp add: decVal_def)
  next
    case False
    with 1 show ?thesis by (subst showDec.simps) (simp add: decVal_snoc)
  qed
qed

lemma showDec_inject [simp]: "showDec m = showDec n \<longleftrightarrow> m = n"
  by (metis decVal_showDec)

lemma FormatUint_inject [simp]: "FormatUint a = FormatUint b \<longleftrightarrow> a = b"
  by (auto simp: FormatUint_def intro: unsigned_word_eqI)

lemma FormatUint_not_Nil [simp]: "FormatUint a \<noteq> []"
  by (simp add: FormatUint_def)

lemma FormatUint_digits: "list_all isDigit (FormatUint a)"
  by (simp add: FormatUint_def showDec_digits)

lemma ParseUint_FormatUint [simp]: "ParseUint (FormatUint a) = Some a"
proof -
  have "unat a < 2 ^ 64" using unsigned_less [of a] by simp
  then show ?thesis
    using showDec_digits [of "unat a"] by (simp add: ParseUint_def FormatUint_def)
qed

lemma slash_notin_FormatUint [simp]: "CHR ''/'' \<notin> set (FormatUint a)"
  using FormatUint_digits [of a] by (auto simp: list_all_iff)

lemma digit_run_slash_inject:
  assumes "CHR ''/'' \<notin> set a" "CHR ''/'' \<notin> set b"
    and "a @ CHR ''/'' # x = b @ CHR ''/'' # y"
  shows "a = b \<and> x = y"
  using assms
proof (induction a arbitrary: b)
  case Nil
  then show ?case by (cases b) auto
next
  case (Cons c cs)
  then show ?case by (cases b) auto
qed

lemma FormatUint_slash_inject [simp]:
  "FormatUint a @ CHR ''/'' # x = FormatUint b @ CHR ''/'' # y \<longleftrightarrow> a = b \<and> x = y"
  using digit_run_slash_inject [of "FormatUint a" "FormatUint b" x y] by auto

section \<open>Association lists\<close>

text \<open>
  The persistent state is a finite map from keys to values. It is kept as an association list
  without duplicate keys, updated with \<^const>\<open>AList.update\<close> and \<^const>\<open>AList.delete\<close>.
\<close>

abbreviation keysOf :: "('k \<times> 'v) list \<Rightarrow> 'k list" where
  "keysOf al \<equiv> map fst al"

lemma map_of_update [simp, kv_lookup]:
  "map_of (AList.update k v al) k' = (if k' = k then Some v else map_of al k')"
  by (simp add: update_conv')

lemma map_of_delete [simp, kv_lookup]:
  "map_of (AList.delete k al) k' = (if k' = k then None else map_of al k')"
  by (simp add: delete_conv')

lemma distinct_keys_update [simp]: "distinct (keysOf al) \<Longrightarrow> distinct (keysOf (AList.update k v al))"
  by (simp add: distinct_update)

lemma distinct_keys_delete [simp]: "distinct (keysOf al) \<Longrightarrow> distinct (keysOf (AList.delete k al))"
  by (simp add: distinct_delete)

lemma map_of_filter_key:
  "map_of (filter (\<lambda>kv. P (fst kv)) al) k = (if P k then map_of al k else None)"
  by (induction al) auto

lemma set_alist_map_of:
  "distinct (keysOf al) \<Longrightarrow> (k, v) \<in> set al \<longleftrightarrow> map_of al k = Some v"
  by simp

lemma map_of_perm_distinct:
  assumes "distinct (keysOf xs)" "set xs = set ys" "distinct (keysOf ys)"
  shows "map_of xs = map_of ys"
  using assms by (metis map_of_inject_set)

section \<open>Sorting by a key\<close>

lemma distinct_map_sort_key [simp]: "distinct (map f (sort_key g xs)) \<longleftrightarrow> distinct (map f xs)"
proof -
  have "mset (map f (sort_key g xs)) = mset (map f xs)"
    by simp
  then show ?thesis by (metis mset_eq_imp_distinct_iff)
qed

text \<open>
  The sources detect duplicates by sorting and comparing neighbours; on a sorted list that is
  the same as the absence of duplicates.
\<close>

fun adjacentDup :: "'a list \<Rightarrow> bool" where
  "adjacentDup (x # y # zs) \<longleftrightarrow> x = y \<or> adjacentDup (y # zs)"
| "adjacentDup _ \<longleftrightarrow> False"

lemma adjacentDup_sorted:
  fixes xs :: "'a :: linorder list"
  shows "sorted xs \<Longrightarrow> adjacentDup xs \<longleftrightarrow> \<not> distinct xs"
proof (induction xs rule: adjacentDup.induct)
  case (1 x y zs)
  then show ?case by auto
qed simp_all

lemma adjacentDup_sort_key:
  fixes f :: "'b \<Rightarrow> 'a :: linorder"
  shows "adjacentDup (map f (sort_key f xs)) \<longleftrightarrow> \<not> distinct (map f xs)"
  using adjacentDup_sorted [OF sorted_sort_key [of f xs]] by simp

end
