(* ===== verification/Nufs_Types.thy ===== *)
theory Nufs_Types
  imports Nufs_Prelude
begin

text \<open>
  The data of the metadata service (\<open>nufs-core/metadata/types.go\<close>, \<open>errors.go\<close> and the row
  types declared beside the code that stores them). Every Go struct is a record whose fields keep
  their Go names behind a short prefix; unsigned integers keep their width, signed 64-bit sizes and
  times are integers, a nil pointer is \<^const>\<open>None\<close>, a Go map is an association list and a
  \<open>time.Time\<close> is its number of nanoseconds.
\<close>

section \<open>Identifiers and enumerations\<close>

type_synonym InodeID = u64
type_synonym ChunkID = u64
type_synonym NodeID = u64
type_synonym ExtentIDV2 = u64

datatype FileType =
    FileRegular | FileDirectory | FileSymlink | FileFIFO
  | FileCharDevice | FileBlockDevice | FileSocket

datatype InodeLayout = LayoutEmpty | LayoutInlineExtent | LayoutExtentPages

datatype ExtentLifecycle =
    LifecycleReady | LifecycleReadyDegraded | LifecycleMigrating
  | LifecycleDeleting | LifecycleDeleted | LifecycleECConverting

datatype StorageClass = StorageClassHotReplica | StorageClassColdEC

datatype ChunkState = ChunkCreated | ChunkSealed | ChunkReady | ChunkDegraded | ChunkOrphan

datatype ReplicaState = ReplicaSyncing | ReplicaReady | ReplicaStale | ReplicaFailed

datatype NodeState =
    NodeOnline | NodeDraining | NodeMaint | NodeOffline | NodeFailed | NodeDecommissioned

datatype ChangeEventKind =
    ChangeCorrupt | ChangeDiskLost | ChangeSegmentLost | ChangeRelocated
  | ChangeThirdReplicaComplete | ChangeRepairCreated | ChangeScrubFinding | ChangeDeleteComplete

datatype TopologySpread = SpreadNode | SpreadMachine | SpreadRack | SpreadZone

datatype StorageTier = StorageTierAny | TierHot | TierWarm | TierCold | TierArchive

definition OwnerPartition :: "ExtentIDV2 \<Rightarrow> u16" where
  "OwnerPartition i = ucast (drop_bit 48 i)"

section \<open>Inodes, extents and directory entries\<close>

record ChunkRef =
  cr_ID :: ChunkID
  cr_Offset :: int
  cr_Length :: int
  cr_Version :: int

record InodeMeta =
  i_ID :: InodeID
  i_Type :: FileType
  i_Size :: int
  i_NLink :: u32
  i_BucketRoot :: InodeID
  i_UID :: u32
  i_GID :: u32
  i_Mode :: u32
  i_CTime :: int
  i_MTime :: int
  i_ATime :: int
  i_Rdev :: u32
  i_ChunkMap :: "ChunkRef list"
  i_Symlink :: string
  i_XAttrs :: "(string \<times> bytes) list"

record ExtentMetaV2 =
  x_ID :: ExtentIDV2
  x_Generation :: u64
  x_LogicalLen :: int
  x_Checksum :: u32
  x_PGID :: u32
  x_PlacementEpoch :: u64
  x_Lifecycle :: ExtentLifecycle
  x_StorageClass :: StorageClass
  x_ECStripeID :: string
  x_CreatedAt :: int

record InodeMetaV2 =
  v_ID :: InodeID
  v_Type :: FileType
  v_Size :: int
  v_NLink :: u32
  v_BucketRoot :: InodeID
  v_UID :: u32
  v_GID :: u32
  v_Mode :: u32
  v_CTime :: int
  v_MTime :: int
  v_ATime :: int
  v_Layout :: InodeLayout
  v_InlineExtent :: "ExtentMetaV2 option"
  v_ExtentRoot :: u64
  v_ExtentPageCount :: u32
  v_ExtentRootVersion :: u64
  v_Symlink :: string
  v_XAttrs :: "(string \<times> bytes) list"

record ExtentRef =
  er_ExtentID :: ExtentIDV2
  er_LogicalOffset :: int

record ExtentPage =
  ep_InodeID :: InodeID
  ep_PageNo :: u32
  ep_Extents :: "ExtentRef list"

definition MaxExtentsPerPage :: nat where
  "MaxExtentsPerPage = 256"

definition MaxInlineExtentSize :: int where
  "MaxInlineExtentSize = 16 * 1024 * 1024"

record ExtentWrite =
  ew_Extent :: "ExtentMetaV2 option"
  ew_Offset :: int

record DirEntry =
  de_InodeID :: InodeID
  de_Type :: FileType
  de_Name :: string

section \<open>Placement policies and buckets\<close>

record ECConfig =
  ec_DataShards :: int
  ec_ParityShards :: int

record CrossZoneConfig =
  cz_RemoteZone :: string
  cz_ReplicaFactor :: int
  cz_AsyncMode :: bool
  cz_BandwidthMBps :: int

record PlacementPolicy =
  pp_ID :: string
  pp_ReplicationFactor :: int
  pp_ECConfig :: "ECConfig option"
  pp_TopologySpread :: TopologySpread
  pp_StorageTier :: StorageTier
  pp_WriteQuorum :: int
  pp_CrossZoneReplication :: "CrossZoneConfig option"
  pp_PlacementGroups :: bool

record BucketInfo =
  b_Name :: string
  b_RootInode :: InodeID
  b_Policy :: PlacementPolicy
  b_CreationDate :: int

section \<open>Chunks and replicas\<close>

record ReplicaInfo =
  r_NodeID :: NodeID
  r_Addr :: string
  r_State :: ReplicaState
  r_DiskPath :: string
  r_ShardIndex :: int

record ECGroupInfo =
  eg_GroupID :: string
  eg_ProfileID :: string
  eg_DataShards :: int
  eg_ParityShards :: int
  eg_ShardIndex :: int

record ChunkMeta =
  c_ID :: ChunkID
  c_Size :: int
  c_State :: ChunkState
  c_Replicas :: "ReplicaInfo list"
  c_ECGroup :: "ECGroupInfo option"
  c_Tier :: StorageTier
  c_CreateTime :: int
  c_Checksum :: u32
  c_PGID :: u32
  c_Epoch :: u64
  c_Generation :: u64
  c_ECStripeID :: string

section \<open>Nodes and their reports\<close>

record NodeInfo =
  n_ID :: NodeID
  n_Addr :: string
  n_DataDir :: string
  n_Rack :: string
  n_Zone :: string
  n_MachineID :: string
  n_Tier :: StorageTier
  n_CapacityGB :: int
  n_UsedGB :: int
  n_OnDiskGB :: int
  n_ChunkCount :: int
  n_UsedBytes :: int
  n_OnDiskBytes :: int
  n_CapacityBytes :: int
  n_State :: NodeState
  n_LastSeen :: int
  n_ChangeAck :: u64
  n_ShardDiskCount :: int

record DiskReport =
  dr_Index :: int
  dr_UsedBytes :: int
  dr_TotalBytes :: int
  dr_OnDiskBytes :: int
  dr_ChunkCount :: int
  dr_Failed :: bool

record ChangeEventRecord =
  ce_Seq :: u64
  ce_Kind :: ChangeEventKind
  ce_ExtentID :: u64
  ce_Generation :: u64
  ce_SegmentID :: u64
  ce_Reason :: string
  ce_AtUnix :: int

record NodeReport =
  nr_UsedGB :: int
  nr_UsedBytes :: int
  nr_ChunkCount :: int
  nr_DiskIO :: rat
  nr_WriteErrorRate :: rat
  nr_ChunkStates :: "(ChunkID \<times> ReplicaState) list"
  nr_DiskStats :: "DiskReport list"
  nr_TotalCapacityBytes :: int
  nr_OnDiskBytes :: int
  nr_ChangeEvents :: "ChangeEventRecord list"

record RepairTask =
  rt_ChunkID :: ChunkID
  rt_Reason :: string
  rt_Priority :: int
  rt_CreatedAt :: int

section \<open>Errors\<close>

text \<open>
  The sentinel errors of \<open>errors.go\<close> and of the files that declare their own. A wrapped error
  (\<open>fmt.Errorf("...: %w", err)\<close>) is the error it wraps, since callers test with \<open>errors.Is\<close>;
  errors that are only a message are \<open>ErrMessage\<close>.
\<close>

datatype Error =
    ErrBucketExists | ErrBucketNotFound | ErrBucketNotEmpty | ErrEntryExists | ErrEntryNotFound
  | ErrInodeNotFound | ErrDirNotEmpty | ErrNotDirectory | ErrNotFile | ErrNotSymlink
  | ErrNameTooLong | ErrCrossBucketRename | ErrXAttrNotFound | ErrExtentNotInline
  | ErrExtentNotFound | ErrInodeModelMismatch | ErrDirTooLarge | ErrAccessDenied | ErrQuotaExceeded
  | ErrStopIteration
  | ErrChunkNotFound | ErrChunkNotSealed | ErrChunkAlreadySealed | ErrChunkChecksum
  | ErrNodeNotFound | ErrNodeAlreadyExists | ErrNodeOffline | ErrInsufficientNodes
  | ErrPlacementFailed | ErrNodeDraining | ErrTooManyRequests
  | ErrServiceClosed | ErrInvalidArgument | ErrInternalError | ErrVersionConflict | ErrLeaseExpired
  | ErrScrubCorrupted | ErrNotLeader | ErrRaftApply | ErrTimeout
  | ErrLockBusy | ErrInvalidOwner
  | ErrRaftConditionalConflict | ErrRaftConditionalOutcomeUnknown
  | ErrChunkTombstoneLimit | ErrChunkPurgeIneligible | ErrBackupMetadataConflict
  | ErrMessage string

type_synonym 'a result = "Error + 'a"

end
