(* ===== verification/Key_Space.thy ===== *)
theory Key_Space
  imports Nufs_Types
begin

text \<open>
  The key space of the metadata store (\<open>keys.go\<close> and the key builders beside each row type), the
  parsers that recover identifiers from keys, and the upper bound of a prefix range
  (\<open>prefixUpperBound\<close> in \<open>pebble_store.go\<close>). Keys are byte strings ordered lexicographically, as
  \<open>bytes.Compare\<close> orders them. The lemmas give injectivity of every key builder, disjointness of
  the row families, and that a range scan between a prefix and its upper bound visits the keys
  with that prefix and no other.
\<close>

section \<open>Key prefixes\<close>

definition prefixBucket :: string where "prefixBucket = ''/bucket/''"
definition prefixBucketByRoot :: string where "prefixBucketByRoot = ''/bucket-by-root/''"
definition prefixBucketStats :: string where "prefixBucketStats = ''/bucket-stats/''"
definition prefixNS :: string where "prefixNS = ''/ns/''"
definition prefixInode :: string where "prefixInode = ''/inode/''"
definition prefixChunk :: string where "prefixChunk = ''/chunk/''"
definition prefixExtentPage :: string where "prefixExtentPage = ''/extent-page/''"
definition prefixExtentMeta :: string where "prefixExtentMeta = ''/extent-meta/''"
definition prefixPlacementGroup :: string where "prefixPlacementGroup = ''/placement-group/''"
definition prefixPGRebalance :: string where "prefixPGRebalance = ''/pg-rebalance/''"
definition prefixCrossShardTxn :: string where "prefixCrossShardTxn = ''/cross-shard-txn/''"
definition prefixGCBucket :: string where "prefixGCBucket = ''/gc-bucket/''"
definition prefixChunkTombstone :: string where "prefixChunkTombstone = ''chunk-tombstone/''"
definition prefixNode :: string where "prefixNode = ''/node/''"
definition prefixPolicy :: string where "prefixPolicy = ''/policy/''"
definition prefixRepair :: string where "prefixRepair = ''/repair/''"
definition prefixACL :: string where "prefixACL = ''/acl/''"
definition prefixQuota :: string where "prefixQuota = ''/quota/''"
definition prefixQuotaUsage :: string where "prefixQuotaUsage = ''/quota-usage/''"
definition prefixFreeList :: string where "prefixFreeList = ''/freelist/''"
definition prefixWriteAttempt :: string where "prefixWriteAttempt = ''/write-attempt/''"
definition prefixWriteAttemptState :: string where "prefixWriteAttemptState = ''/write-attempt-state/''"
definition prefixBackupTask :: string where "prefixBackupTask = ''backup/task/''"
definition prefixBackupCatalog :: string where "prefixBackupCatalog = ''backup/catalog/''"
definition keyBackupCatalog :: string where "keyBackupCatalog = ''backup/catalog-state''"
definition keyClusterID :: string where "keyClusterID = ''system/cluster-id''"
definition keyInodeReferenceEpoch :: string where "keyInodeReferenceEpoch = ''system/inode-reference-epoch''"
definition keyRestorePending :: string where "keyRestorePending = ''system/restore-pending''"

lemmas prefix_defs [key_defs] =
  prefixBucket_def prefixBucketByRoot_def prefixBucketStats_def prefixNS_def prefixInode_def
  prefixChunk_def prefixExtentPage_def prefixExtentMeta_def prefixPlacementGroup_def
  prefixPGRebalance_def prefixCrossShardTxn_def prefixGCBucket_def prefixChunkTombstone_def
  prefixNode_def prefixPolicy_def prefixRepair_def prefixACL_def prefixQuota_def
  prefixQuotaUsage_def prefixFreeList_def prefixWriteAttempt_def prefixWriteAttemptState_def
  prefixBackupTask_def prefixBackupCatalog_def keyBackupCatalog_def keyClusterID_def
  keyInodeReferenceEpoch_def keyRestorePending_def

section \<open>Key builders\<close>

definition bucketKey :: "string \<Rightarrow> string" where
  "bucketKey name = prefixBucket @ name"

definition policyKey :: "string \<Rightarrow> string" where
  "policyKey name = prefixPolicy @ name"

definition bucketByRootKey :: "InodeID \<Rightarrow> string" where
  "bucketByRootKey rootIno = prefixBucketByRoot @ FormatUint rootIno"

definition bucketStatsKey :: "InodeID \<Rightarrow> string" where
  "bucketStatsKey rootIno = prefixBucketStats @ FormatUint rootIno"

definition quotaKey :: "string \<Rightarrow> string" where
  "quotaKey name = prefixQuota @ name"

definition quotaUsageKey :: "string \<Rightarrow> string" where
  "quotaUsageKey name = prefixQuotaUsage @ name"

definition nsPrefix :: "InodeID \<Rightarrow> string" where
  "nsPrefix parent = prefixNS @ FormatUint parent @ ''/''"

definition nsKey :: "InodeID \<Rightarrow> string \<Rightarrow> string" where
  "nsKey parent name = nsPrefix parent @ name"

definition inodeKey :: "InodeID \<Rightarrow> string" where
  "inodeKey i = prefixInode @ FormatUint i"

definition freeListKey :: "InodeID \<Rightarrow> string" where
  "freeListKey i = prefixFreeList @ FormatUint i"

definition chunkMetadataKey :: "ChunkID \<Rightarrow> string" where
  "chunkMetadataKey i = prefixChunk @ FormatUint i"

definition chunkTombstoneKey :: "ChunkID \<Rightarrow> string" where
  "chunkTombstoneKey i = prefixChunkTombstone @ FormatUint i"

definition extentMetaKey :: "ExtentIDV2 \<Rightarrow> string" where
  "extentMetaKey i = prefixExtentMeta @ FormatUint i"

definition nodeKey :: "NodeID \<Rightarrow> string" where
  "nodeKey i = prefixNode @ FormatUint i"

definition repairKey :: "ChunkID \<Rightarrow> string" where
  "repairKey i = prefixRepair @ FormatUint i"

definition pgKey :: "u32 \<Rightarrow> string" where
  "pgKey i = prefixPlacementGroup @ FormatUint (ucast i)"

definition migrationKey :: "u32 \<Rightarrow> string" where
  "migrationKey i = prefixPGRebalance @ FormatUint (ucast i)"

definition txnKey :: "u64 \<Rightarrow> string" where
  "txnKey i = prefixCrossShardTxn @ FormatUint i"

definition writeAttemptKey :: "string \<Rightarrow> string" where
  "writeAttemptKey i = prefixWriteAttempt @ i"

text \<open>\<open>binary.PutUvarint\<close>: seven bits per byte, low bits first, the top bit marks continuation.\<close>

fun PutUvarint :: "nat \<Rightarrow> bytes" where
  "PutUvarint x = (if x < 128 then [char_of x] else char_of (x mod 128 + 128) # PutUvarint (x div 128))"

declare PutUvarint.simps [simp del]

definition extentPageKey :: "InodeID \<Rightarrow> u64 \<Rightarrow> u32 \<Rightarrow> string" where
  "extentPageKey inode rt pageNo =
     prefixExtentPage @ PutUvarint (unat inode) @ ''/'' @ PutUvarint (unat rt) @ ''/'' @
     PutUvarint (unat pageNo)"

lemmas key_builder_defs [key_defs] =
  bucketKey_def policyKey_def bucketByRootKey_def bucketStatsKey_def quotaKey_def quotaUsageKey_def
  nsKey_def nsPrefix_def inodeKey_def freeListKey_def chunkMetadataKey_def chunkTombstoneKey_def
  extentMetaKey_def nodeKey_def repairKey_def pgKey_def migrationKey_def txnKey_def
  writeAttemptKey_def extentPageKey_def

section \<open>Injectivity and disjointness of keys\<close>

lemma ucast_32_64_inject [simp]: "(ucast (a :: u32) :: u64) = ucast b \<longleftrightarrow> a = b"
proof -
  have "unat (ucast x :: u64) = unat x" for x :: u32
    using unsigned_less [of x, where 'a = nat] by (simp add: unsigned_ucast_eq take_bit_eq_mod)
  then show ?thesis by (metis unsigned_word_eqI)
qed

lemma key_inject [simp]:
  "bucketByRootKey a = bucketByRootKey b \<longleftrightarrow> a = b"
  "bucketStatsKey a = bucketStatsKey b \<longleftrightarrow> a = b"
  "inodeKey a = inodeKey b \<longleftrightarrow> a = b"
  "freeListKey a = freeListKey b \<longleftrightarrow> a = b"
  "chunkMetadataKey a = chunkMetadataKey b \<longleftrightarrow> a = b"
  "chunkTombstoneKey a = chunkTombstoneKey b \<longleftrightarrow> a = b"
  "extentMetaKey a = extentMetaKey b \<longleftrightarrow> a = b"
  "nodeKey a = nodeKey b \<longleftrightarrow> a = b"
  "repairKey a = repairKey b \<longleftrightarrow> a = b"
  "txnKey a = txnKey b \<longleftrightarrow> a = b"
  "pgKey c = pgKey d \<longleftrightarrow> c = d"
  "migrationKey c = migrationKey d \<longleftrightarrow> c = d"
  "bucketKey s = bucketKey t \<longleftrightarrow> s = t"
  "policyKey s = policyKey t \<longleftrightarrow> s = t"
  "quotaKey s = quotaKey t \<longleftrightarrow> s = t"
  "quotaUsageKey s = quotaUsageKey t \<longleftrightarrow> s = t"
  "writeAttemptKey s = writeAttemptKey t \<longleftrightarrow> s = t"
  by (simp_all add: key_defs)

lemma nsKey_inject [simp]: "nsKey p n = nsKey q m \<longleftrightarrow> p = q \<and> n = m"
  by (simp add: key_defs)

lemma bucketByRootKey_neq [simp]:
  "bucketByRootKey x \<noteq> bucketStatsKey y"
  "bucketByRootKey x \<noteq> inodeKey y"
  "bucketByRootKey x \<noteq> freeListKey y"
  "bucketByRootKey x \<noteq> chunkMetadataKey y"
  "bucketByRootKey x \<noteq> chunkTombstoneKey y"
  "bucketByRootKey x \<noteq> extentMetaKey y"
  "bucketByRootKey x \<noteq> nodeKey y"
  "bucketByRootKey x \<noteq> repairKey y"
  "bucketByRootKey x \<noteq> txnKey y"
  "bucketByRootKey x \<noteq> pgKey z"
  "bucketByRootKey x \<noteq> migrationKey z"
  "bucketByRootKey x \<noteq> bucketKey s"
  "bucketByRootKey x \<noteq> policyKey s"
  "bucketByRootKey x \<noteq> quotaKey s"
  "bucketByRootKey x \<noteq> quotaUsageKey s"
  "bucketByRootKey x \<noteq> writeAttemptKey s"
  "bucketByRootKey x \<noteq> nsKey y yn"
  "bucketByRootKey x \<noteq> extentPageKey y yr yp"
  by (simp_all add: key_defs)

lemma bucketStatsKey_neq [simp]:
  "bucketStatsKey x \<noteq> bucketByRootKey y"
  "bucketStatsKey x \<noteq> inodeKey y"
  "bucketStatsKey x \<noteq> freeListKey y"
  "bucketStatsKey x \<noteq> chunkMetadataKey y"
  "bucketStatsKey x \<noteq> chunkTombstoneKey y"
  "bucketStatsKey x \<noteq> extentMetaKey y"
  "bucketStatsKey x \<noteq> nodeKey y"
  "bucketStatsKey x \<noteq> repairKey y"
  "bucketStatsKey x \<noteq> txnKey y"
  "bucketStatsKey x \<noteq> pgKey z"
  "bucketStatsKey x \<noteq> migrationKey z"
  "bucketStatsKey x \<noteq> bucketKey s"
  "bucketStatsKey x \<noteq> policyKey s"
  "bucketStatsKey x \<noteq> quotaKey s"
  "bucketStatsKey x \<noteq> quotaUsageKey s"
  "bucketStatsKey x \<noteq> writeAttemptKey s"
  "bucketStatsKey x \<noteq> nsKey y yn"
  "bucketStatsKey x \<noteq> extentPageKey y yr yp"
  by (simp_all add: key_defs)

lemma inodeKey_neq [simp]:
  "inodeKey x \<noteq> bucketByRootKey y"
  "inodeKey x \<noteq> bucketStatsKey y"
  "inodeKey x \<noteq> freeListKey y"
  "inodeKey x \<noteq> chunkMetadataKey y"
  "inodeKey x \<noteq> chunkTombstoneKey y"
  "inodeKey x \<noteq> extentMetaKey y"
  "inodeKey x \<noteq> nodeKey y"
  "inodeKey x \<noteq> repairKey y"
  "inodeKey x \<noteq> txnKey y"
  "inodeKey x \<noteq> pgKey z"
  "inodeKey x \<noteq> migrationKey z"
  "inodeKey x \<noteq> bucketKey s"
  "inodeKey x \<noteq> policyKey s"
  "inodeKey x \<noteq> quotaKey s"
  "inodeKey x \<noteq> quotaUsageKey s"
  "inodeKey x \<noteq> writeAttemptKey s"
  "inodeKey x \<noteq> nsKey y yn"
  "inodeKey x \<noteq> extentPageKey y yr yp"
  by (simp_all add: key_defs)

lemma freeListKey_neq [simp]:
  "freeListKey x \<noteq> bucketByRootKey y"
  "freeListKey x \<noteq> bucketStatsKey y"
  "freeListKey x \<noteq> inodeKey y"
  "freeListKey x \<noteq> chunkMetadataKey y"
  "freeListKey x \<noteq> chunkTombstoneKey y"
  "freeListKey x \<noteq> extentMetaKey y"
  "freeListKey x \<noteq> nodeKey y"
  "freeListKey x \<noteq> repairKey y"
  "freeListKey x \<noteq> txnKey y"
  "freeListKey x \<noteq> pgKey z"
  "freeListKey x \<noteq> migrationKey z"
  "freeListKey x \<noteq> bucketKey s"
  "freeListKey x \<noteq> policyKey s"
  "freeListKey x \<noteq> quotaKey s"
  "freeListKey x \<noteq> quotaUsageKey s"
  "freeListKey x \<noteq> writeAttemptKey s"
  "freeListKey x \<noteq> nsKey y yn"
  "freeListKey x \<noteq> extentPageKey y yr yp"
  by (simp_all add: key_defs)

lemma chunkMetadataKey_neq [simp]:
  "chunkMetadataKey x \<noteq> bucketByRootKey y"
  "chunkMetadataKey x \<noteq> bucketStatsKey y"
  "chunkMetadataKey x \<noteq> inodeKey y"
  "chunkMetadataKey x \<noteq> freeListKey y"
  "chunkMetadataKey x \<noteq> chunkTombstoneKey y"
  "chunkMetadataKey x \<noteq> extentMetaKey y"
  "chunkMetadataKey x \<noteq> nodeKey y"
  "chunkMetadataKey x \<noteq> repairKey y"
  "chunkMetadataKey x \<noteq> txnKey y"
  "chunkMetadataKey x \<noteq> pgKey z"
  "chunkMetadataKey x \<noteq> migrationKey z"
  "chunkMetadataKey x \<noteq> bucketKey s"
  "chunkMetadataKey x \<noteq> policyKey s"
  "chunkMetadataKey x \<noteq> quotaKey s"
  "chunkMetadataKey x \<noteq> quotaUsageKey s"
  "chunkMetadataKey x \<noteq> writeAttemptKey s"
  "chunkMetadataKey x \<noteq> nsKey y yn"
  "chunkMetadataKey x \<noteq> extentPageKey y yr yp"
  by (simp_all add: key_defs)

lemma chunkTombstoneKey_neq [simp]:
  "chunkTombstoneKey x \<noteq> bucketByRootKey y"
  "chunkTombstoneKey x \<noteq> bucketStatsKey y"
  "chunkTombstoneKey x \<noteq> inodeKey y"
  "chunkTombstoneKey x \<noteq> freeListKey y"
  "chunkTombstoneKey x \<noteq> chunkMetadataKey y"
  "chunkTombstoneKey x \<noteq> extentMetaKey y"
  "chunkTombstoneKey x \<noteq> nodeKey y"
  "chunkTombstoneKey x \<noteq> repairKey y"
  "chunkTombstoneKey x \<noteq> txnKey y"
  "chunkTombstoneKey x \<noteq> pgKey z"
  "chunkTombstoneKey x \<noteq> migrationKey z"
  "chunkTombstoneKey x \<noteq> bucketKey s"
  "chunkTombstoneKey x \<noteq> policyKey s"
  "chunkTombstoneKey x \<noteq> quotaKey s"
  "chunkTombstoneKey x \<noteq> quotaUsageKey s"
  "chunkTombstoneKey x \<noteq> writeAttemptKey s"
  "chunkTombstoneKey x \<noteq> nsKey y yn"
  "chunkTombstoneKey x \<noteq> extentPageKey y yr yp"
  by (simp_all add: key_defs)

lemma extentMetaKey_neq [simp]:
  "extentMetaKey x \<noteq> bucketByRootKey y"
  "extentMetaKey x \<noteq> bucketStatsKey y"
  "extentMetaKey x \<noteq> inodeKey y"
  "extentMetaKey x \<noteq> freeListKey y"
  "extentMetaKey x \<noteq> chunkMetadataKey y"
  "extentMetaKey x \<noteq> chunkTombstoneKey y"
  "extentMetaKey x \<noteq> nodeKey y"
  "extentMetaKey x \<noteq> repairKey y"
  "extentMetaKey x \<noteq> txnKey y"
  "extentMetaKey x \<noteq> pgKey z"
  "extentMetaKey x \<noteq> migrationKey z"
  "extentMetaKey x \<noteq> bucketKey s"
  "extentMetaKey x \<noteq> policyKey s"
  "extentMetaKey x \<noteq> quotaKey s"
  "extentMetaKey x \<noteq> quotaUsageKey s"
  "extentMetaKey x \<noteq> writeAttemptKey s"
  "extentMetaKey x \<noteq> nsKey y yn"
  "extentMetaKey x \<noteq> extentPageKey y yr yp"
  by (simp_all add: key_defs)

lemma nodeKey_neq [simp]:
  "nodeKey x \<noteq> bucketByRootKey y"
  "nodeKey x \<noteq> bucketStatsKey y"
  "nodeKey x \<noteq> inodeKey y"
  "nodeKey x \<noteq> freeListKey y"
  "nodeKey x \<noteq> chunkMetadataKey y"
  "nodeKey x \<noteq> chunkTombstoneKey y"
  "nodeKey x \<noteq> extentMetaKey y"
  "nodeKey x \<noteq> repairKey y"
  "nodeKey x \<noteq> txnKey y"
  "nodeKey x \<noteq> pgKey z"
  "nodeKey x \<noteq> migrationKey z"
  "nodeKey x \<noteq> bucketKey s"
  "nodeKey x \<noteq> policyKey s"
  "nodeKey x \<noteq> quotaKey s"
  "nodeKey x \<noteq> quotaUsageKey s"
  "nodeKey x \<noteq> writeAttemptKey s"
  "nodeKey x \<noteq> nsKey y yn"
  "nodeKey x \<noteq> extentPageKey y yr yp"
  by (simp_all add: key_defs)

lemma repairKey_neq [simp]:
  "repairKey x \<noteq> bucketByRootKey y"
  "repairKey x \<noteq> bucketStatsKey y"
  "repairKey x \<noteq> inodeKey y"
  "repairKey x \<noteq> freeListKey y"
  "repairKey x \<noteq> chunkMetadataKey y"
  "repairKey x \<noteq> chunkTombstoneKey y"
  "repairKey x \<noteq> extentMetaKey y"
  "repairKey x \<noteq> nodeKey y"
  "repairKey x \<noteq> txnKey y"
  "repairKey x \<noteq> pgKey z"
  "repairKey x \<noteq> migrationKey z"
  "repairKey x \<noteq> bucketKey s"
  "repairKey x \<noteq> policyKey s"
  "repairKey x \<noteq> quotaKey s"
  "repairKey x \<noteq> quotaUsageKey s"
  "repairKey x \<noteq> writeAttemptKey s"
  "repairKey x \<noteq> nsKey y yn"
  "repairKey x \<noteq> extentPageKey y yr yp"
  by (simp_all add: key_defs)

lemma txnKey_neq [simp]:
  "txnKey x \<noteq> bucketByRootKey y"
  "txnKey x \<noteq> bucketStatsKey y"
  "txnKey x \<noteq> inodeKey y"
  "txnKey x \<noteq> freeListKey y"
  "txnKey x \<noteq> chunkMetadataKey y"
  "txnKey x \<noteq> chunkTombstoneKey y"
  "txnKey x \<noteq> extentMetaKey y"
  "txnKey x \<noteq> nodeKey y"
  "txnKey x \<noteq> repairKey y"
  "txnKey x \<noteq> pgKey z"
  "txnKey x \<noteq> migrationKey z"
  "txnKey x \<noteq> bucketKey s"
  "txnKey x \<noteq> policyKey s"
  "txnKey x \<noteq> quotaKey s"
  "txnKey x \<noteq> quotaUsageKey s"
  "txnKey x \<noteq> writeAttemptKey s"
  "txnKey x \<noteq> nsKey y yn"
  "txnKey x \<noteq> extentPageKey y yr yp"
  by (simp_all add: key_defs)

lemma pgKey_neq [simp]:
  "pgKey x \<noteq> bucketByRootKey y"
  "pgKey x \<noteq> bucketStatsKey y"
  "pgKey x \<noteq> inodeKey y"
  "pgKey x \<noteq> freeListKey y"
  "pgKey x \<noteq> chunkMetadataKey y"
  "pgKey x \<noteq> chunkTombstoneKey y"
  "pgKey x \<noteq> extentMetaKey y"
  "pgKey x \<noteq> nodeKey y"
  "pgKey x \<noteq> repairKey y"
  "pgKey x \<noteq> txnKey y"
  "pgKey x \<noteq> migrationKey z"
  "pgKey x \<noteq> bucketKey s"
  "pgKey x \<noteq> policyKey s"
  "pgKey x \<noteq> quotaKey s"
  "pgKey x \<noteq> quotaUsageKey s"
  "pgKey x \<noteq> writeAttemptKey s"
  "pgKey x \<noteq> nsKey y yn"
  "pgKey x \<noteq> extentPageKey y yr yp"
  by (simp_all add: key_defs)

lemma migrationKey_neq [simp]:
  "migrationKey x \<noteq> bucketByRootKey y"
  "migrationKey x \<noteq> bucketStatsKey y"
  "migrationKey x \<noteq> inodeKey y"
  "migrationKey x \<noteq> freeListKey y"
  "migrationKey x \<noteq> chunkMetadataKey y"
  "migrationKey x \<noteq> chunkTombstoneKey y"
  "migrationKey x \<noteq> extentMetaKey y"
  "migrationKey x \<noteq> nodeKey y"
  "migrationKey x \<noteq> repairKey y"
  "migrationKey x \<noteq> txnKey y"
  "migrationKey x \<noteq> pgKey z"
  "migrationKey x \<noteq> bucketKey s"
  "migrationKey x \<noteq> policyKey s"
  "migrationKey x \<noteq> quotaKey s"
  "migrationKey x \<noteq> quotaUsageKey s"
  "migrationKey x \<noteq> writeAttemptKey s"
  "migrationKey x \<noteq> nsKey y yn"
  "migrationKey x \<noteq> extentPageKey y yr yp"
  by (simp_all add: key_defs)

lemma bucketKey_neq [simp]:
  "bucketKey x \<noteq> bucketByRootKey y"
  "bucketKey x \<noteq> bucketStatsKey y"
  "bucketKey x \<noteq> inodeKey y"
  "bucketKey x \<noteq> freeListKey y"
  "bucketKey x \<noteq> chunkMetadataKey y"
  "bucketKey x \<noteq> chunkTombstoneKey y"
  "bucketKey x \<noteq> extentMetaKey y"
  "bucketKey x \<noteq> nodeKey y"
  "bucketKey x \<noteq> repairKey y"
  "bucketKey x \<noteq> txnKey y"
  "bucketKey x \<noteq> pgKey z"
  "bucketKey x \<noteq> migrationKey z"
  "bucketKey x \<noteq> policyKey s"
  "bucketKey x \<noteq> quotaKey s"
  "bucketKey x \<noteq> quotaUsageKey s"
  "bucketKey x \<noteq> writeAttemptKey s"
  "bucketKey x \<noteq> nsKey y yn"
  "bucketKey x \<noteq> extentPageKey y yr yp"
  by (simp_all add: key_defs)

lemma policyKey_neq [simp]:
  "policyKey x \<noteq> bucketByRootKey y"
  "policyKey x \<noteq> bucketStatsKey y"
  "policyKey x \<noteq> inodeKey y"
  "policyKey x \<noteq> freeListKey y"
  "policyKey x \<noteq> chunkMetadataKey y"
  "policyKey x \<noteq> chunkTombstoneKey y"
  "policyKey x \<noteq> extentMetaKey y"
  "policyKey x \<noteq> nodeKey y"
  "policyKey x \<noteq> repairKey y"
  "policyKey x \<noteq> txnKey y"
  "policyKey x \<noteq> pgKey z"
  "policyKey x \<noteq> migrationKey z"
  "policyKey x \<noteq> bucketKey s"
  "policyKey x \<noteq> quotaKey s"
  "policyKey x \<noteq> quotaUsageKey s"
  "policyKey x \<noteq> writeAttemptKey s"
  "policyKey x \<noteq> nsKey y yn"
  "policyKey x \<noteq> extentPageKey y yr yp"
  by (simp_all add: key_defs)

lemma quotaKey_neq [simp]:
  "quotaKey x \<noteq> bucketByRootKey y"
  "quotaKey x \<noteq> bucketStatsKey y"
  "quotaKey x \<noteq> inodeKey y"
  "quotaKey x \<noteq> freeListKey y"
  "quotaKey x \<noteq> chunkMetadataKey y"
  "quotaKey x \<noteq> chunkTombstoneKey y"
  "quotaKey x \<noteq> extentMetaKey y"
  "quotaKey x \<noteq> nodeKey y"
  "quotaKey x \<noteq> repairKey y"
  "quotaKey x \<noteq> txnKey y"
  "quotaKey x \<noteq> pgKey z"
  "quotaKey x \<noteq> migrationKey z"
  "quotaKey x \<noteq> bucketKey s"
  "quotaKey x \<noteq> policyKey s"
  "quotaKey x \<noteq> quotaUsageKey s"
  "quotaKey x \<noteq> writeAttemptKey s"
  "quotaKey x \<noteq> nsKey y yn"
  "quotaKey x \<noteq> extentPageKey y yr yp"
  by (simp_all add: key_defs)

lemma quotaUsageKey_neq [simp]:
  "quotaUsageKey x \<noteq> bucketByRootKey y"
  "quotaUsageKey x \<noteq> bucketStatsKey y"
  "quotaUsageKey x \<noteq> inodeKey y"
  "quotaUsageKey x \<noteq> freeListKey y"
  "quotaUsageKey x \<noteq> chunkMetadataKey y"
  "quotaUsageKey x \<noteq> chunkTombstoneKey y"
  "quotaUsageKey x \<noteq> extentMetaKey y"
  "quotaUsageKey x \<noteq> nodeKey y"
  "quotaUsageKey x \<noteq> repairKey y"
  "quotaUsageKey x \<noteq> txnKey y"
  "quotaUsageKey x \<noteq> pgKey z"
  "quotaUsageKey x \<noteq> migrationKey z"
  "quotaUsageKey x \<noteq> bucketKey s"
  "quotaUsageKey x \<noteq> policyKey s"
  "quotaUsageKey x \<noteq> quotaKey s"
  "quotaUsageKey x \<noteq> writeAttemptKey s"
  "quotaUsageKey x \<noteq> nsKey y yn"
  "quotaUsageKey x \<noteq> extentPageKey y yr yp"
  by (simp_all add: key_defs)

lemma writeAttemptKey_neq [simp]:
  "writeAttemptKey x \<noteq> bucketByRootKey y"
  "writeAttemptKey x \<noteq> bucketStatsKey y"
  "writeAttemptKey x \<noteq> inodeKey y"
  "writeAttemptKey x \<noteq> freeListKey y"
  "writeAttemptKey x \<noteq> chunkMetadataKey y"
  "writeAttemptKey x \<noteq> chunkTombstoneKey y"
  "writeAttemptKey x \<noteq> extentMetaKey y"
  "writeAttemptKey x \<noteq> nodeKey y"
  "writeAttemptKey x \<noteq> repairKey y"
  "writeAttemptKey x \<noteq> txnKey y"
  "writeAttemptKey x \<noteq> pgKey z"
  "writeAttemptKey x \<noteq> migrationKey z"
  "writeAttemptKey x \<noteq> bucketKey s"
  "writeAttemptKey x \<noteq> policyKey s"
  "writeAttemptKey x \<noteq> quotaKey s"
  "writeAttemptKey x \<noteq> quotaUsageKey s"
  "writeAttemptKey x \<noteq> nsKey y yn"
  "writeAttemptKey x \<noteq> extentPageKey y yr yp"
  by (simp_all add: key_defs)

lemma nsKey_neq [simp]:
  "nsKey x xn \<noteq> bucketByRootKey y"
  "nsKey x xn \<noteq> bucketStatsKey y"
  "nsKey x xn \<noteq> inodeKey y"
  "nsKey x xn \<noteq> freeListKey y"
  "nsKey x xn \<noteq> chunkMetadataKey y"
  "nsKey x xn \<noteq> chunkTombstoneKey y"
  "nsKey x xn \<noteq> extentMetaKey y"
  "nsKey x xn \<noteq> nodeKey y"
  "nsKey x xn \<noteq> repairKey y"
  "nsKey x xn \<noteq> txnKey y"
  "nsKey x xn \<noteq> pgKey z"
  "nsKey x xn \<noteq> migrationKey z"
  "nsKey x xn \<noteq> bucketKey s"
  "nsKey x xn \<noteq> policyKey s"
  "nsKey x xn \<noteq> quotaKey s"
  "nsKey x xn \<noteq> quotaUsageKey s"
  "nsKey x xn \<noteq> writeAttemptKey s"
  "nsKey x xn \<noteq> extentPageKey y yr yp"
  by (simp_all add: key_defs)

lemma extentPageKey_neq [simp]:
  "extentPageKey x xr xp \<noteq> bucketByRootKey y"
  "extentPageKey x xr xp \<noteq> bucketStatsKey y"
  "extentPageKey x xr xp \<noteq> inodeKey y"
  "extentPageKey x xr xp \<noteq> freeListKey y"
  "extentPageKey x xr xp \<noteq> chunkMetadataKey y"
  "extentPageKey x xr xp \<noteq> chunkTombstoneKey y"
  "extentPageKey x xr xp \<noteq> extentMetaKey y"
  "extentPageKey x xr xp \<noteq> nodeKey y"
  "extentPageKey x xr xp \<noteq> repairKey y"
  "extentPageKey x xr xp \<noteq> txnKey y"
  "extentPageKey x xr xp \<noteq> pgKey z"
  "extentPageKey x xr xp \<noteq> migrationKey z"
  "extentPageKey x xr xp \<noteq> bucketKey s"
  "extentPageKey x xr xp \<noteq> policyKey s"
  "extentPageKey x xr xp \<noteq> quotaKey s"
  "extentPageKey x xr xp \<noteq> quotaUsageKey s"
  "extentPageKey x xr xp \<noteq> writeAttemptKey s"
  "extentPageKey x xr xp \<noteq> nsKey y yn"
  by (simp_all add: key_defs)

section \<open>Identifiers recovered from keys\<close>

definition TrimPrefix :: "string \<Rightarrow> string \<Rightarrow> string" where
  "TrimPrefix s p = (if prefix p s then drop (length p) s else s)"

definition parseInodeKeyID :: "string \<Rightarrow> InodeID option" where
  "parseInodeKeyID key =
     (case ParseUint (TrimPrefix key prefixInode) of
        None \<Rightarrow> None
      | Some i \<Rightarrow> if i = 0 \<or> prefixInode @ FormatUint i \<noteq> key then None else Some i)"

definition parseChunkTombstoneKey :: "string \<Rightarrow> string \<Rightarrow> ChunkID option" where
  "parseChunkTombstoneKey key p =
     (case ParseUint (TrimPrefix key p) of
        None \<Rightarrow> None
      | Some i \<Rightarrow> if i = 0 \<or> p @ FormatUint i \<noteq> key then None else Some i)"

definition validInodeMetadataKey :: "string \<Rightarrow> bool" where
  "validInodeMetadataKey key =
     (let v = TrimPrefix key prefixInode in
      if v = [] then False
      else case ParseUint v of None \<Rightarrow> False | Some i \<Rightarrow> prefixInode @ FormatUint i = key)"

definition isInodeMetadataKey :: "string \<Rightarrow> bool" where
  "isInodeMetadataKey key \<longleftrightarrow> prefix prefixInode key \<and> validInodeMetadataKey key"

definition validChunkMetadataKey :: "string \<Rightarrow> bool" where
  "validChunkMetadataKey key \<longleftrightarrow> parseChunkTombstoneKey key prefixChunk \<noteq> None"

definition isChunkMetadataKey :: "string \<Rightarrow> bool" where
  "isChunkMetadataKey key \<longleftrightarrow> prefix prefixChunk key \<and> validChunkMetadataKey key"

definition validateInodeKeyIdentity :: "string \<Rightarrow> InodeID \<Rightarrow> bool" where
  "validateInodeKeyIdentity key i \<longleftrightarrow>
     validInodeMetadataKey key \<and> ParseUint (TrimPrefix key prefixInode) = Some i"

section \<open>The upper bound of a prefix range\<close>

text \<open>The loop of \<open>prefixUpperBound\<close> runs from the last byte down; here over the reversed prefix.\<close>

fun upperBoundLoop :: "bytes \<Rightarrow> bytes option" where
  "upperBoundLoop [] = None"
| "upperBoundLoop (c # rest) =
     (if (of_char c :: nat) < 255 then Some (rev (char_of ((of_char c :: nat) + 1) # rest))
      else upperBoundLoop rest)"

definition prefixUpperBound :: "string \<Rightarrow> bytes option" where
  "prefixUpperBound p = upperBoundLoop (rev p)"

definition inRange :: "bytes \<Rightarrow> bytes option \<Rightarrow> bytes \<Rightarrow> bool" where
  "inRange lower upper k \<longleftrightarrow> lower \<le> k \<and> (case upper of None \<Rightarrow> True | Some u \<Rightarrow> k < u)"

lemma TrimPrefix_append [simp]: "TrimPrefix (p @ x) p = x"
  by (simp add: TrimPrefix_def)

lemma parseInodeKeyID_inodeKey [simp]: "parseInodeKeyID (inodeKey i) = (if i = 0 then None else Some i)"
  by (simp add: parseInodeKeyID_def inodeKey_def)

lemma parseInodeKeyID_Some: "parseInodeKeyID key = Some i \<longleftrightarrow> i \<noteq> 0 \<and> key = inodeKey i"
  by (auto simp: parseInodeKeyID_def inodeKey_def split: option.splits if_splits)

lemma parseChunkTombstoneKey_Some:
  "parseChunkTombstoneKey key p = Some i \<longleftrightarrow> i \<noteq> 0 \<and> key = p @ FormatUint i"
  by (auto simp: parseChunkTombstoneKey_def split: option.splits if_splits)

lemma isInodeMetadataKey_iff: "isInodeMetadataKey key \<longleftrightarrow> (\<exists>i. key = inodeKey i)"
  by (auto simp: isInodeMetadataKey_def validInodeMetadataKey_def inodeKey_def Let_def
      split: option.splits if_splits)

lemma isChunkMetadataKey_iff: "isChunkMetadataKey key \<longleftrightarrow> (\<exists>i. i \<noteq> 0 \<and> key = chunkMetadataKey i)"
  by (auto simp: isChunkMetadataKey_def validChunkMetadataKey_def chunkMetadataKey_def
      parseChunkTombstoneKey_Some)

lemma validateInodeKeyIdentity_iff: "validateInodeKeyIdentity key i \<longleftrightarrow> key = inodeKey i"
  by (auto simp: validateInodeKeyIdentity_def validInodeMetadataKey_def inodeKey_def Let_def
      split: option.splits if_splits)

text \<open>Row families are told apart by the key predicates the store applies to raw keys.\<close>

lemma isInodeMetadataKey_simps [simp]:
  "isInodeMetadataKey (inodeKey i)"
  "\<not> isInodeMetadataKey (chunkMetadataKey i)"
  "\<not> isInodeMetadataKey (nsKey i n)"
  "\<not> isInodeMetadataKey (bucketKey n)"
  by (auto simp: isInodeMetadataKey_iff)

section \<open>Ranges and prefixes\<close>

lemma prefix_nsKey [simp]: "prefix (nsPrefix p) (nsKey q n) \<longleftrightarrow> p = q"
proof
  assume "prefix (nsPrefix p) (nsKey q n)"
  then obtain z where "FormatUint q @ CHR ''/'' # n = FormatUint p @ CHR ''/'' # z"
    by (auto simp: key_defs prefix_def)
  then show "p = q" by simp
qed (simp add: nsKey_def)

fun upperBoundSpec :: "bytes \<Rightarrow> bytes option" where
  "upperBoundSpec [] = None"
| "upperBoundSpec (c # cs) =
     (case upperBoundSpec cs of
        Some u \<Rightarrow> Some (c # u)
      | None \<Rightarrow> if (of_char c :: nat) < 255 then Some [char_of ((of_char c :: nat) + 1)] else None)"

lemma upperBoundSpec_snoc:
  "upperBoundSpec (xs @ [c]) =
     (if (of_char c :: nat) < 255 then Some (xs @ [char_of ((of_char c :: nat) + 1)])
      else upperBoundSpec xs)"
  by (induction xs) (auto split: option.splits)

lemma prefixUpperBound_spec: "prefixUpperBound p = upperBoundSpec p"
  by (induction p rule: rev_induct) (simp_all add: prefixUpperBound_def upperBoundSpec_snoc)

lemma char_less_succ:
  fixes c d :: char
  assumes "(of_char c :: nat) < 255"
  shows "d < char_of ((of_char c :: nat) + 1) \<longleftrightarrow> d \<le> c"
  using assms by (auto simp: less_char_def less_eq_char_def)

lemma char_le_255:
  fixes c d :: char
  assumes "\<not> (of_char c :: nat) < 255"
  shows "d \<le> c"
  using assms nat_of_char_less_256 [of d] unfolding less_eq_char_def by linarith

lemma inRange_upperBoundSpec: "inRange p (upperBoundSpec p) k \<longleftrightarrow> prefix p k"
proof (induction p arbitrary: k)
  case Nil
  show ?case by (simp add: inRange_def)
next
  case (Cons c cs)
  show ?case
  proof (cases k)
    case Nil
    then show ?thesis by (simp add: inRange_def)
  next
    case (Cons d ds)
    have step: "inRange (c # cs) (upperBoundSpec (c # cs)) (d # ds)
        \<longleftrightarrow> d = c \<and> inRange cs (upperBoundSpec cs) ds"
      using char_less_succ [of c d] char_le_255 [of c d]
      by (auto simp: inRange_def split: option.splits)
    show ?thesis using Cons.IH [of ds] step Cons by auto
  qed
qed

text \<open>
  C21. The half-open key range from a prefix to \<open>prefixUpperBound\<close> of it contains exactly the keys
  with that prefix. It holds for every prefix, also for the empty prefix and for prefixes that
  end in bytes 0xFF, where the source falls back to an unbounded range.
\<close>

theorem prefixUpperBound_range:
  "inRange p (prefixUpperBound p) k \<longleftrightarrow> prefix p k"
  by (simp add: prefixUpperBound_spec inRange_upperBoundSpec)

section \<open>Extent page keys\<close>

lemma PutUvarint_prefix_free:
  "PutUvarint x @ a = PutUvarint y @ b \<longleftrightarrow> x = y \<and> a = b"
proof (induction x arbitrary: y rule: PutUvarint.induct)
  case (1 x)
  have small: "char_of x \<noteq> (char_of (y mod 128 + 128) :: char)" if "x < 128" for x y :: nat
    using that by (auto dest: arg_cong [where f = "of_char :: char \<Rightarrow> nat"])
  have low: "char_of x = (char_of y :: char) \<longleftrightarrow> x = y" if "x < 256" "y < 256" for x y :: nat
    using that by (metis mod_less of_char_of)
  show ?case
    using 1 [of "y div 128"] small [of x y] small [of y x] low [of x y]
      low [of "x mod 128 + 128" "y mod 128 + 128"]
    by (subst (1 2) PutUvarint.simps) (auto, metis div_mod_decomp)
qed

lemma extentPageKey_inject [simp]:
  "extentPageKey i r p = extentPageKey j s q \<longleftrightarrow> i = j \<and> r = s \<and> p = q"
proof -
  have "PutUvarint (unat p) = PutUvarint (unat q) \<longleftrightarrow> p = q"
    using PutUvarint_prefix_free [of "unat p" "[]" "unat q" "[]"] by (auto intro: unsigned_word_eqI)
  then show ?thesis
    by (auto simp: extentPageKey_def PutUvarint_prefix_free intro: unsigned_word_eqI)
qed

end
