(* ===== verification/Meta_Rows.thy ===== *)
theory Meta_Rows
  imports Key_Space
begin

text \<open>
  The rows of the metadata store and their encoding. The structs that are declared beside the code
  that stores them are records here; \<open>row\<close> is the sum of everything a value of the store can
  encode. The value encoding (\<open>codec.go\<close>) dispatches between two third-party encoders, msgpack and
  JSON, which are the fields of a \<open>codec\<close> record: the store is polymorphic in the type \<open>'v\<close> of
  encoded values and in the codec. \<open>codec_ok\<close> states the documented behaviour of msgpack that the
  store relies on: a marshalled value is not empty, it does not start with a JSON opening bracket,
  and unmarshalling it gives the row back.
\<close>

section \<open>Rows declared beside their stores\<close>

type_synonym time = int

definition zeroTime :: time where
  "zeroTime = - 62135596800000000000"

definition nsPerHour :: int where
  "nsPerHour = 3600000000000"

record BucketUsage =
  bu_Name :: string
  bu_UsedBytes :: int
  bu_Objects :: int

record BucketQuota =
  bq_MaxSizeBytes :: int
  bq_MaxObjects :: int
  bq_MaxChunkCount :: int

record ChunkTombstone =
  t_ChunkID :: ChunkID
  t_Replicas :: "ReplicaInfo list"
  t_Size :: int
  t_Reason :: string
  t_DeletedAt :: time
  t_DeleteAfter :: time

record CommittedBackup =
  cb_ID :: string
  cb_SourceClusterID :: string
  cb_CreatedAt :: time
  cb_RaftTerm :: u64
  cb_AppliedIndex :: u64
  cb_TotalBytes :: int

record BackupCatalogState =
  bc_Backups :: "CommittedBackup list"
  bc_ReconciledAt :: time

datatype BackupTaskState =
    BackupTaskCreating | BackupTaskUploading | BackupTaskVerifying
  | BackupTaskCommitted | BackupTaskFailed | BackupTaskUnknown string

record BackupTask =
  bt_ID :: string
  bt_SourceClusterID :: string
  bt_OwnerNodeID :: string
  bt_LeadershipTerm :: u64
  bt_AppliedIndex :: u64
  bt_State :: BackupTaskState
  bt_StartedAt :: time
  bt_CompletedAt :: time
  bt_BytesUploaded :: int
  bt_FilesUploaded :: int
  bt_LastError :: string
  bt_UpdatedAt :: time

record RestorePendingMarker =
  rp_BackupID :: string
  rp_SourceClusterID :: string
  rp_AppliedIndex :: u64
  rp_RestoredAt :: time

datatype PGState = PGStable | PGMigrating | PGDraining

record PlacementGroup =
  pg_ID :: u32
  pg_Epoch :: u64
  pg_ReplicaNodes :: "NodeID list"
  pg_PrevEpoch :: u64
  pg_PrevReplicas :: "NodeID list"
  pg_State :: PGState

datatype MigrationState = MigPending | MigInProgress | MigCommitted | MigComplete

record PGMigration =
  m_PGID :: u32
  m_SourceEpoch :: u64
  m_TargetEpoch :: u64
  m_CutoverSeq :: u64
  m_SourceReplicas :: "NodeID list"
  m_TargetReplicas :: "NodeID list"
  m_InventoryPartition :: u32
  m_MigrationCursor :: u64
  m_State :: MigrationState

datatype TxnState = TxnPreparing | TxnCommitted | TxnApplied

record CrossShardRename =
  tx_TxnID :: u64
  tx_State :: TxnState
  tx_SourceShard :: u32
  tx_TargetShard :: u32
  tx_SourceDir :: InodeID
  tx_SourceName :: string
  tx_TargetDir :: InodeID
  tx_TargetName :: string
  tx_ChildInode :: InodeID
  tx_CommitDecision :: bool
  tx_Prepared :: bool

record GCExtent =
  ge_ExtentID :: u64
  ge_Generation :: u64

datatype GCBatchState = GCBatching | GCDeleting | GCDeleted

record GCBatch =
  gb_BatchID :: u64
  gb_DeleteAfter :: time
  gb_LogicalShard :: u16
  gb_Hour :: int
  gb_Extents :: "GCExtent list"
  gb_Cursor :: u32
  gb_State :: GCBatchState

record ObjectWriteAttempt =
  wa_ID :: string
  wa_Bucket :: string
  wa_Key :: string
  wa_InodeID :: InodeID
  wa_InodeCTime :: int
  wa_RecoveryIntent :: string
  wa_CleanupParent :: InodeID
  wa_CleanupNewObject :: bool
  wa_RollbackInode :: "InodeMeta option"
  wa_Chunks :: "ChunkRef list"
  wa_State :: string
  wa_LastError :: string
  wa_CreatedAt :: int
  wa_UpdatedAt :: int

section \<open>The sum of all rows\<close>

datatype row =
    RInode InodeMeta
  | RInodeV2 InodeMetaV2
  | RInodeVer InodeMeta u64
  | REntry DirEntry
  | RBucket BucketInfo
  | RPolicy PlacementPolicy
  | RText string
  | RInodeID InodeID
  | RUsage BucketUsage
  | RQuota BucketQuota
  | RChunk ChunkMeta
  | RTombstone ChunkTombstone
  | RExtent ExtentMetaV2
  | RPage ExtentPage
  | RNode NodeInfo
  | RRepair RepairTask
  | RGroup PlacementGroup
  | RMigration PGMigration
  | RTxn CrossShardRename
  | RGC GCBatch
  | RAttempt ObjectWriteAttempt
  | RBackup CommittedBackup
  | RCatalog BackupCatalogState
  | RTask BackupTask
  | RMarker RestorePendingMarker

text \<open>
  The two inode models share the row \<open>/inode/{id}\<close>. Both encoders match struct fields by name and
  leave fields without a counterpart at their zero value, so each kind of row also decodes as the
  other model: a V1 row has no layout, a V2 row has no chunk map.
\<close>

definition v2AsV1 :: "InodeMetaV2 \<Rightarrow> InodeMeta" where
  "v2AsV1 v = \<lparr>i_ID = v_ID v, i_Type = v_Type v, i_Size = v_Size v, i_NLink = v_NLink v,
     i_BucketRoot = v_BucketRoot v, i_UID = v_UID v, i_GID = v_GID v, i_Mode = v_Mode v,
     i_CTime = v_CTime v, i_MTime = v_MTime v, i_ATime = v_ATime v, i_Rdev = 0,
     i_ChunkMap = [], i_Symlink = v_Symlink v, i_XAttrs = v_XAttrs v\<rparr>"

definition v1AsV2 :: "InodeMeta \<Rightarrow> InodeMetaV2" where
  "v1AsV2 i = \<lparr>v_ID = i_ID i, v_Type = i_Type i, v_Size = i_Size i, v_NLink = i_NLink i,
     v_BucketRoot = i_BucketRoot i, v_UID = i_UID i, v_GID = i_GID i, v_Mode = i_Mode i,
     v_CTime = i_CTime i, v_MTime = i_MTime i, v_ATime = i_ATime i, v_Layout = LayoutEmpty,
     v_InlineExtent = None, v_ExtentRoot = 0, v_ExtentPageCount = 0, v_ExtentRootVersion = 0,
     v_Symlink = i_Symlink i, v_XAttrs = i_XAttrs i\<rparr>"

fun asInode :: "row \<Rightarrow> InodeMeta option" where
  "asInode (RInode i) = Some i"
| "asInode (RInodeVer i _) = Some i"
| "asInode (RInodeV2 v) = Some (v2AsV1 v)"
| "asInode _ = None"

fun asInodeV2 :: "row \<Rightarrow> InodeMetaV2 option" where
  "asInodeV2 (RInodeV2 v) = Some v"
| "asInodeV2 (RInode i) = Some (v1AsV2 i)"
| "asInodeV2 (RInodeVer i _) = Some (v1AsV2 i)"
| "asInodeV2 _ = None"

fun asEntry :: "row \<Rightarrow> DirEntry option" where
  "asEntry (REntry e) = Some e" | "asEntry _ = None"
fun asBucket :: "row \<Rightarrow> BucketInfo option" where
  "asBucket (RBucket b) = Some b" | "asBucket _ = None"
fun asText :: "row \<Rightarrow> string option" where
  "asText (RText s) = Some s" | "asText _ = None"
fun asInodeID :: "row \<Rightarrow> InodeID option" where
  "asInodeID (RInodeID i) = Some i" | "asInodeID _ = None"
fun asUsage :: "row \<Rightarrow> BucketUsage option" where
  "asUsage (RUsage u) = Some u" | "asUsage _ = None"
fun asQuota :: "row \<Rightarrow> BucketQuota option" where
  "asQuota (RQuota q) = Some q" | "asQuota _ = None"
fun asChunk :: "row \<Rightarrow> ChunkMeta option" where
  "asChunk (RChunk c) = Some c" | "asChunk _ = None"
fun asTombstone :: "row \<Rightarrow> ChunkTombstone option" where
  "asTombstone (RTombstone t) = Some t" | "asTombstone _ = None"
fun asExtent :: "row \<Rightarrow> ExtentMetaV2 option" where
  "asExtent (RExtent x) = Some x" | "asExtent _ = None"
fun asPage :: "row \<Rightarrow> ExtentPage option" where
  "asPage (RPage p) = Some p" | "asPage _ = None"
fun asNode :: "row \<Rightarrow> NodeInfo option" where
  "asNode (RNode n) = Some n" | "asNode _ = None"
fun asRepair :: "row \<Rightarrow> RepairTask option" where
  "asRepair (RRepair t) = Some t" | "asRepair _ = None"
fun asGroup :: "row \<Rightarrow> PlacementGroup option" where
  "asGroup (RGroup g) = Some g" | "asGroup _ = None"
fun asMigration :: "row \<Rightarrow> PGMigration option" where
  "asMigration (RMigration m) = Some m" | "asMigration _ = None"
fun asTxn :: "row \<Rightarrow> CrossShardRename option" where
  "asTxn (RTxn t) = Some t" | "asTxn _ = None"
fun asGC :: "row \<Rightarrow> GCBatch option" where
  "asGC (RGC b) = Some b" | "asGC _ = None"
fun asAttempt :: "row \<Rightarrow> ObjectWriteAttempt option" where
  "asAttempt (RAttempt a) = Some a" | "asAttempt _ = None"
fun asBackup :: "row \<Rightarrow> CommittedBackup option" where
  "asBackup (RBackup b) = Some b" | "asBackup _ = None"
fun asCatalog :: "row \<Rightarrow> BackupCatalogState option" where
  "asCatalog (RCatalog s) = Some s" | "asCatalog _ = None"
fun asMarker :: "row \<Rightarrow> RestorePendingMarker option" where
  "asMarker (RMarker m) = Some m" | "asMarker _ = None"
fun asTask :: "row \<Rightarrow> BackupTask option" where
  "asTask (RTask t) = Some t" | "asTask _ = None"

section \<open>The value codec\<close>

record 'v codec =
  vlen :: "'v \<Rightarrow> nat"
  vempty :: 'v
  firstByte :: "'v \<Rightarrow> char"
  msgpackMarshal :: "row \<Rightarrow> 'v"
  msgpackUnmarshal :: "'v \<Rightarrow> row option"
  jsonUnmarshal :: "'v \<Rightarrow> row option"

definition marshalValue :: "'v codec \<Rightarrow> row \<Rightarrow> 'v" where
  "marshalValue c r = msgpackMarshal c r"

definition unmarshalValue :: "'v codec \<Rightarrow> 'v \<Rightarrow> row option" where
  "unmarshalValue c data =
     (if vlen c data = 0 then None
      else if firstByte c data = CHR ''{'' \<or> firstByte c data = CHR ''['' then jsonUnmarshal c data
      else case msgpackUnmarshal c data of
             Some r \<Rightarrow> Some r
           | None \<Rightarrow> jsonUnmarshal c data)"

definition codec_ok :: "'v codec \<Rightarrow> bool" where
  "codec_ok c \<longleftrightarrow> vlen c (vempty c) = 0 \<and>
     (\<forall>r. 0 < vlen c (msgpackMarshal c r) \<and>
          firstByte c (msgpackMarshal c r) \<notin> {CHR ''{'', CHR ''[''} \<and>
          msgpackUnmarshal c (msgpackMarshal c r) = Some r)"

lemma unmarshal_marshal [simp]:
  "codec_ok c \<Longrightarrow> unmarshalValue c (marshalValue c r) = Some r"
  by (simp add: codec_ok_def unmarshalValue_def marshalValue_def)

lemma vlen_marshal: "codec_ok c \<Longrightarrow> 0 < vlen c (marshalValue c r)"
  by (simp add: codec_ok_def marshalValue_def)

lemma marshalValue_inject [simp]:
  "codec_ok c \<Longrightarrow> marshalValue c r = marshalValue c r' \<longleftrightarrow> r = r'"
  by (metis option.inject unmarshal_marshal)

text \<open>A concrete codec: an encoded value is absent or the row itself. It is used in witnesses.\<close>

definition plainCodec :: "row option codec" where
  "plainCodec = \<lparr>vlen = (\<lambda>v. case v of None \<Rightarrow> 0 | Some _ \<Rightarrow> 1), vempty = None,
     firstByte = (\<lambda>_. char_of (128 :: nat)), msgpackMarshal = Some, msgpackUnmarshal = id,
     jsonUnmarshal = (\<lambda>_. None)\<rparr>"

lemma plainCodec_ok [simp]: "codec_ok plainCodec"
  by (simp add: codec_ok_def plainCodec_def char_of_def)

lemma plainCodec_simps [simp]:
  "marshalValue plainCodec r = Some r"
  "unmarshalValue plainCodec v = v"
  "vempty plainCodec = None"
  by (cases v; simp add: plainCodec_def marshalValue_def unmarshalValue_def char_of_def)+

end
