(* ===== verification/Kv_Store.thy ===== *)
theory Kv_Store
  imports Meta_Rows
begin

text \<open>
  The ordered key-value store under the metadata service and the access paths of
  \<open>pebble_store.go\<close>: typed reads (\<open>getValue\<close>), batched reads (\<open>getValuesBatch\<close>), prefix scans with
  and without paging, and batches of writes. Pebble itself is an ordered map with atomic batches;
  its contents are an association list without duplicate keys. The locale \<open>ordered_kv\<close> is the
  interface the service relies on, interpreted below on that association list.
\<close>

type_synonym 'v db = "(string \<times> 'v) list"

section \<open>Reads and scans\<close>

definition dbGet :: "'v db \<Rightarrow> string \<Rightarrow> 'v option" where
  "dbGet d k = map_of d k"

definition dbSet :: "'v db \<Rightarrow> string \<Rightarrow> 'v \<Rightarrow> 'v db" where
  "dbSet d k v = AList.update k v d"

definition dbDelete :: "'v db \<Rightarrow> string \<Rightarrow> 'v db" where
  "dbDelete d k = AList.delete k d"

definition wf_db :: "'v db \<Rightarrow> bool" where
  "wf_db d \<longleftrightarrow> distinct (keysOf d)"

text \<open>An iterator between two bounds visits the keys of the range in ascending order.\<close>

definition dbRange :: "'v db \<Rightarrow> bytes \<Rightarrow> bytes option \<Rightarrow> (string \<times> 'v) list" where
  "dbRange d lower upper = sort_key fst (filter (\<lambda>kv. inRange lower upper (fst kv)) d)"

definition getValue :: "(row \<Rightarrow> 'a option) \<Rightarrow> 'v codec \<Rightarrow> 'v db \<Rightarrow> string \<Rightarrow> 'a option result" where
  "getValue prj c d key =
     (case dbGet d key of
        None \<Rightarrow> Inr None
      | Some v \<Rightarrow>
          (case unmarshalValue c v of
             None \<Rightarrow> Inl (ErrMessage ''unmarshal'')
           | Some r \<Rightarrow>
               (case prj r of
                  None \<Rightarrow> Inl (ErrMessage ''unmarshal'')
                | Some x \<Rightarrow> Inr (Some x))))"

definition scanPrefix :: "'v db \<Rightarrow> string \<Rightarrow> (string \<times> 'v) list" where
  "scanPrefix d p = dbRange d p (prefixUpperBound p)"

definition scanPrefixWithLimit :: "'v db \<Rightarrow> string \<Rightarrow> int \<Rightarrow> (string \<times> 'v) list" where
  "scanPrefixWithLimit d p limit = take (nat limit) (scanPrefix d p)"

record 'v ScanPageResult =
  sp_Keys :: "string list"
  sp_Values :: "'v list"
  sp_NextKey :: "bytes option"
  sp_HasMore :: bool

definition scanPrefixPaged :: "'v db \<Rightarrow> string \<Rightarrow> bytes \<Rightarrow> int \<Rightarrow> 'v ScanPageResult" where
  "scanPrefixPaged d p cursor pageSize0 =
     (let pageSize = (if pageSize0 \<le> 0 then 1000 else nat pageSize0);
          lower = (if cursor \<noteq> [] then cursor else p);
          range = dbRange d lower (prefixUpperBound p);
          rest = (if cursor \<noteq> []
                  then (case range of
                          [] \<Rightarrow> []
                        | kv # kvs \<Rightarrow> if fst kv = cursor then kvs else kv # kvs)
                  else range);
          got = take (pageSize + 1) rest;
          ks = map fst got; vs = map snd got
      in if pageSize < length ks
         then \<lparr>sp_Keys = take pageSize ks, sp_Values = take pageSize vs,
               sp_NextKey = Some (ks ! (pageSize - 1)), sp_HasMore = True\<rparr>
         else \<lparr>sp_Keys = ks, sp_Values = vs, sp_NextKey = None, sp_HasMore = False\<rparr>)"

text \<open>The loop that the comment of \<open>scanPrefixPaged\<close> gives as its usage, bounded by fuel.\<close>

fun pageLoop :: "nat \<Rightarrow> 'v db \<Rightarrow> string \<Rightarrow> bytes \<Rightarrow> int \<Rightarrow> (string \<times> 'v) list option" where
  "pageLoop 0 d p cursor n = None"
| "pageLoop (Suc fuel) d p cursor n =
     (let page = scanPrefixPaged d p cursor n;
          here = zip (sp_Keys page) (sp_Values page)
      in if \<not> sp_HasMore page then Some here
         else case sp_NextKey page of
                None \<Rightarrow> Some here
              | Some k \<Rightarrow> map_option (\<lambda>more. here @ more) (pageLoop fuel d p k n))"

text \<open>\<open>iter.SeekGE\<close> positions on the first key that is not smaller.\<close>

definition seekGE :: "'v db \<Rightarrow> string \<Rightarrow> (string \<times> 'v) option" where
  "seekGE d key = (case dbRange d key None of [] \<Rightarrow> None | kv # _ \<Rightarrow> Some kv)"

fun getValuesLoop :: "'v db \<Rightarrow> string list \<Rightarrow> (string \<times> 'v) list \<Rightarrow> (string \<times> 'v) list" where
  "getValuesLoop d [] acc = acc"
| "getValuesLoop d (key # keys) acc =
     (case seekGE d key of
        None \<Rightarrow> acc
      | Some (k, v) \<Rightarrow>
          if k \<noteq> key then getValuesLoop d keys acc
          else getValuesLoop d keys (AList.update key v acc))"

definition getValuesBatch :: "'v db \<Rightarrow> string list \<Rightarrow> (string \<times> 'v) list" where
  "getValuesBatch d keys = (if keys = [] then [] else getValuesLoop d (sort keys) [])"

section \<open>Write batches\<close>

record 'v BatchOp =
  bo_Delete :: bool
  bo_Key :: string
  bo_Value :: 'v

definition setOp :: "string \<Rightarrow> 'v \<Rightarrow> 'v BatchOp" where
  "setOp k v = \<lparr>bo_Delete = False, bo_Key = k, bo_Value = v\<rparr>"

definition delOp :: "'v codec \<Rightarrow> string \<Rightarrow> 'v BatchOp" where
  "delOp c k = \<lparr>bo_Delete = True, bo_Key = k, bo_Value = vempty c\<rparr>"

lemma BatchOp_simps [simp]:
  "bo_Delete (setOp k v) = False" "bo_Key (setOp k v) = k" "bo_Value (setOp k v) = v"
  "bo_Delete (delOp c k) = True" "bo_Key (delOp c k) = k" "bo_Value (delOp c k) = vempty c"
  by (simp_all add: setOp_def delOp_def)

definition applyOp :: "'v db \<Rightarrow> 'v BatchOp \<Rightarrow> 'v db" where
  "applyOp d op = (if bo_Delete op then dbDelete d (bo_Key op) else dbSet d (bo_Key op) (bo_Value op))"

definition commitBatch :: "'v db \<Rightarrow> 'v BatchOp list \<Rightarrow> 'v db" where
  "commitBatch d ops = foldl applyOp d ops"

definition opEffect :: "'v BatchOp \<Rightarrow> 'v option" where
  "opEffect op = (if bo_Delete op then None else Some (bo_Value op))"


section \<open>The interface of the store\<close>

text \<open>
  What the service relies on: a finite map with point reads and writes, and range iteration in
  key order. The client lemmas show what prefix iteration and batches mean in terms of it.
\<close>

locale ordered_kv =
  fixes get :: "'s \<Rightarrow> string \<Rightarrow> 'v option"
    and put :: "'s \<Rightarrow> string \<Rightarrow> 'v \<Rightarrow> 's"
    and del :: "'s \<Rightarrow> string \<Rightarrow> 's"
    and range :: "'s \<Rightarrow> bytes \<Rightarrow> bytes option \<Rightarrow> (string \<times> 'v) list"
    and inv :: "'s \<Rightarrow> bool"
  assumes get_put: "get (put s k v) = (get s)(k \<mapsto> v)"
    and get_del: "get (del s k) = (get s)(k := None)"
    and inv_put: "inv s \<Longrightarrow> inv (put s k v)"
    and inv_del: "inv s \<Longrightarrow> inv (del s k)"
    and range_sorted: "inv s \<Longrightarrow> sorted (map fst (range s lo up))"
    and range_distinct: "inv s \<Longrightarrow> distinct (map fst (range s lo up))"
    and range_set: "inv s \<Longrightarrow> set (range s lo up) = {(k, v). get s k = Some v \<and> inRange lo up k}"
begin

lemma range_prefix_set:
  "inv s \<Longrightarrow> set (range s p (prefixUpperBound p)) = {(k, v). get s k = Some v \<and> prefix p k}"
  by (simp add: range_set prefixUpperBound_spec inRange_upperBoundSpec)

lemma range_map_of:
  assumes "inv s"
  shows "map_of (range s lo up) k = (if inRange lo up k then get s k else None)"
proof -
  have "map_of (range s lo up) k = Some v \<longleftrightarrow> get s k = Some v \<and> inRange lo up k" for v
    using range_distinct [OF assms] range_set [OF assms] by (auto simp flip: set_alist_map_of)
  then show ?thesis by (metis not_None_eq)
qed

lemma prefix_empty_iff:
  "inv s \<Longrightarrow> range s p (prefixUpperBound p) = [] \<longleftrightarrow> (\<forall>k. prefix p k \<longrightarrow> get s k = None)"
  using range_prefix_set [of s p] by (auto simp flip: set_empty)

lemma get_foldl_batch:
  assumes "distinct (map fst ops)"
  shows "get (foldl (\<lambda>s (k, e). case e of None \<Rightarrow> del s k | Some v \<Rightarrow> put s k v) s ops) k
         = (case map_of ops k of None \<Rightarrow> get s k | Some e \<Rightarrow> e)"
  using assms
proof (induction ops arbitrary: s)
  case Nil
  then show ?case by simp
next
  case (Cons op ops)
  obtain k' e where op: "op = (k', e)" by (cases op)
  have "map_of ops k' = None" using Cons.prems op by (simp add: map_of_eq_None_iff image_iff)
  with Cons op show ?case
    by (auto simp: get_put get_del split: option.splits)
qed

end

lemma dbGet_dbSet: "dbGet (dbSet d k v) = (dbGet d)(k \<mapsto> v)"
  by (auto simp: dbGet_def dbSet_def)

lemma dbGet_dbDelete: "dbGet (dbDelete d k) = (dbGet d)(k := None)"
  by (auto simp: dbGet_def dbDelete_def)

lemmas dbGet_simps [simp, kv_lookup] = dbGet_dbSet dbGet_dbDelete

lemma wf_dbSet [simp, intro]: "wf_db d \<Longrightarrow> wf_db (dbSet d k v)"
  by (simp add: wf_db_def dbSet_def)

lemma wf_dbDelete [simp, intro]: "wf_db d \<Longrightarrow> wf_db (dbDelete d k)"
  by (simp add: wf_db_def dbDelete_def)

lemma wf_db_Nil [simp]: "wf_db []"
  by (simp add: wf_db_def)

lemma distinct_map_filter_fst: "distinct (map fst d) \<Longrightarrow> distinct (map fst (filter P d))"
  by (induction d) auto

interpretation kv: ordered_kv dbGet dbSet dbDelete dbRange wf_db
  by unfold_locales
    (auto simp: dbRange_def wf_db_def dbGet_def dbSet_def dbDelete_def distinct_map_filter_fst
      fun_eq_iff)

section \<open>Prefix scans\<close>

lemma scanPrefix_set: "wf_db d \<Longrightarrow> set (scanPrefix d p) = {(k, v). dbGet d k = Some v \<and> prefix p k}"
  by (simp add: scanPrefix_def kv.range_prefix_set)

lemma scanPrefix_sorted: "wf_db d \<Longrightarrow> sorted (map fst (scanPrefix d p))"
  by (simp add: scanPrefix_def kv.range_sorted)

lemma scanPrefix_distinct: "wf_db d \<Longrightarrow> distinct (map fst (scanPrefix d p))"
  by (simp add: scanPrefix_def kv.range_distinct)

lemma scanPrefix_Nil_iff:
  "wf_db d \<Longrightarrow> scanPrefix d p = [] \<longleftrightarrow> (\<forall>k. prefix p k \<longrightarrow> dbGet d k = None)"
  by (simp add: scanPrefix_def kv.prefix_empty_iff)

section \<open>Paging\<close>

lemma filter_ge_sorted_split:
  fixes xs :: "('k :: linorder \<times> 'v) list"
  assumes "sorted (map fst (as @ (c, v) # bs))" "distinct (map fst (as @ (c, v) # bs))"
  shows "filter (\<lambda>kv. c \<le> fst kv) (as @ (c, v) # bs) = (c, v) # bs"
proof -
  have "\<forall>kv\<in>set as. fst kv < c"
    using assms by (auto simp: sorted_append order_less_le)
  then have "filter (\<lambda>kv. c \<le> fst kv) as = []"
    by (auto simp: filter_empty_conv not_le)
  moreover have "filter (\<lambda>kv. c \<le> fst kv) bs = bs"
    using assms by (auto simp: sorted_append intro!: filter_True)
  ultimately show ?thesis by simp
qed

lemma dbRange_from_cursor:
  assumes "wf_db d" and split: "scanPrefix d p = as @ (c, v) # bs"
  shows "dbRange d c (prefixUpperBound p) = (c, v) # bs"
proof -
  have "(c, v) \<in> set (scanPrefix d p)" using split by simp
  then have "prefix p c" using scanPrefix_set [OF assms(1)] by auto
  then have "inRange p (prefixUpperBound p) c"
    by (simp add: prefixUpperBound_spec inRange_upperBoundSpec)
  then have "p \<le> c" by (simp add: inRange_def)
  then have eq: "(\<lambda>kv. inRange c (prefixUpperBound p) (fst kv)) =
      (\<lambda>kv. inRange p (prefixUpperBound p) (fst kv) \<and> c \<le> fst kv)"
    by (auto simp: inRange_def fun_eq_iff)
  have "dbRange d c (prefixUpperBound p) = filter (\<lambda>kv. c \<le> fst kv) (scanPrefix d p)"
    by (simp add: scanPrefix_def dbRange_def filter_sort eq conj_commute)
  then show ?thesis
    using filter_ge_sorted_split [of as c v bs] scanPrefix_sorted [OF assms(1), of p]
      scanPrefix_distinct [OF assms(1), of p] split by simp
qed

definition pageCount :: "int \<Rightarrow> nat" where
  "pageCount n = (if n \<le> 0 then 1000 else nat n)"

lemma pageCount_pos [simp]: "0 < pageCount n" "pageCount n \<noteq> 0"
  by (simp_all add: pageCount_def)

lemma scanPrefixPaged_at:
  assumes "wf_db d" "p \<noteq> []" and split: "scanPrefix d p = as @ bs"
    and cur: "cursor = (if as = [] then [] else fst (last as))"
  shows "zip (sp_Keys (scanPrefixPaged d p cursor n)) (sp_Values (scanPrefixPaged d p cursor n))
           = take (pageCount n) bs"
    and "sp_HasMore (scanPrefixPaged d p cursor n) \<longleftrightarrow> pageCount n < length bs"
    and "sp_HasMore (scanPrefixPaged d p cursor n) \<Longrightarrow>
           sp_NextKey (scanPrefixPaged d p cursor n) = Some (fst (last (as @ take (pageCount n) bs)))"
proof -
  have rest: "(if cursor \<noteq> []
      then (case dbRange d (if cursor \<noteq> [] then cursor else p) (prefixUpperBound p) of
              [] \<Rightarrow> [] | kv # kvs \<Rightarrow> if fst kv = cursor then kvs else kv # kvs)
      else dbRange d (if cursor \<noteq> [] then cursor else p) (prefixUpperBound p)) = bs"
  proof (cases "as = []")
    case True
    then show ?thesis using cur split by (simp add: scanPrefix_def)
  next
    case False
    then obtain as' c v where as: "as = as' @ [(c, v)]"
      by (metis rev_exhaust surj_pair)
    then have "(c, v) \<in> set (scanPrefix d p)" using split by simp
    then have "prefix p c" using scanPrefix_set [OF assms(1)] by auto
    then have "c \<noteq> []" using assms(2) by auto
    then show ?thesis
      using dbRange_from_cursor [OF assms(1), of p as' c v bs] split as cur by simp
  qed
  let ?n = "pageCount n"
  have page: "scanPrefixPaged d p cursor n =
      (let ks = map fst (take (?n + 1) bs); vs = map snd (take (?n + 1) bs)
       in if ?n < length ks
          then \<lparr>sp_Keys = take ?n ks, sp_Values = take ?n vs,
                sp_NextKey = Some (ks ! (?n - 1)), sp_HasMore = True\<rparr>
          else \<lparr>sp_Keys = ks, sp_Values = vs, sp_NextKey = None, sp_HasMore = False\<rparr>)"
    unfolding scanPrefixPaged_def Let_def rest pageCount_def by simp
  have lastk: "fst (bs ! (?n - 1)) = fst (last (as @ take ?n bs))" if "?n < length bs"
  proof -
    have "take ?n bs \<noteq> []" using that pageCount_pos [of n] by auto
    then have "last (as @ take ?n bs) = take ?n bs ! (?n - 1)"
      using that by (simp add: last_append last_conv_nth min_def)
    then show ?thesis using pageCount_pos [of n] by simp
  qed
  show "zip (sp_Keys (scanPrefixPaged d p cursor n)) (sp_Values (scanPrefixPaged d p cursor n))
           = take ?n bs"
    by (auto simp: page Let_def take_map zip_map_fst_snd min_def)
  show "sp_HasMore (scanPrefixPaged d p cursor n) \<longleftrightarrow> ?n < length bs"
    by (auto simp: page Let_def)
  show "sp_NextKey (scanPrefixPaged d p cursor n) = Some (fst (last (as @ take ?n bs)))"
    if "sp_HasMore (scanPrefixPaged d p cursor n)"
    using that lastk by (auto simp: page Let_def split: if_splits)
qed

lemma pageLoop_complete:
  assumes "wf_db d" "p \<noteq> []" "scanPrefix d p = as @ bs"
    and "cursor = (if as = [] then [] else fst (last as))" and "length bs < fuel"
  shows "pageLoop fuel d p cursor n = Some bs"
  using assms(3-)
proof (induction fuel arbitrary: as bs cursor)
  case 0
  then show ?case by simp
next
  case (Suc fuel)
  note at = scanPrefixPaged_at [OF assms(1,2) Suc.prems(1,2), of n]
  show ?case
  proof (cases "pageCount n < length bs")
    case False
    then show ?thesis using at by simp
  next
    case True
    let ?as = "as @ take (pageCount n) bs"
    have ne: "?as \<noteq> []" using True by auto
    have "pageLoop fuel d p (fst (last ?as)) n = Some (drop (pageCount n) bs)"
    proof (rule Suc.IH [of ?as])
      show "scanPrefix d p = ?as @ drop (pageCount n) bs" using Suc.prems(1) by simp
      show "fst (last ?as) = (if ?as = [] then [] else fst (last ?as))" using ne by (simp only: if_False)
      show "length (drop (pageCount n) bs) < fuel"
        using Suc.prems(3) True pageCount_pos(1) [of n] unfolding length_drop by linarith
    qed
    then show ?thesis using at True by simp
  qed
qed

text \<open>
  C18. Paging through a prefix the way the comment of \<open>scanPrefixPaged\<close> prescribes visits every row
  under the prefix exactly once, in key order, whatever the page size, and stops: as many rounds as
  there are rows, plus one, are enough. (The default of 1000 applies to a page size below one.)
\<close>

theorem scanPrefixPaged_complete:
  assumes "wf_db d" and "p \<noteq> []" and "length (scanPrefix d p) < fuel"
  shows "pageLoop fuel d p [] n = Some (scanPrefix d p)"
  using pageLoop_complete [OF assms(1,2), of "[]" "scanPrefix d p" "[]" fuel n] assms(3) by simp

theorem scanPrefixPaged_complete_witness:
  "pageLoop 4 [(''/b'', 11 :: nat), (''/ns/2'', 7), (''/ns/1'', 5), (''/ns/3'', 9)] ''/ns/'' [] 2
     = Some [(''/ns/1'', 5), (''/ns/2'', 7), (''/ns/3'', 9)]"
proof -
  let ?d = "[(''/b'', 11 :: nat), (''/ns/2'', 7), (''/ns/1'', 5), (''/ns/3'', 9)]"
  have sc: "scanPrefix ?d ''/ns/'' = [(''/ns/1'', 5), (''/ns/2'', 7), (''/ns/3'', 9)]"
    by code_simp
  show ?thesis
    using scanPrefixPaged_complete [of ?d "''/ns/''" 4 2] by (simp add: sc wf_db_def)
qed

section \<open>Batched reads\<close>

lemma seekGE_exact:
  assumes "wf_db d"
  shows "seekGE d key = Some (k, v) \<Longrightarrow> k = key \<Longrightarrow> dbGet d key = Some v"
    and "seekGE d key = Some (k, v) \<Longrightarrow> k \<noteq> key \<Longrightarrow> dbGet d key = None"
    and "seekGE d key = None \<Longrightarrow> key \<le> key' \<Longrightarrow> dbGet d key' = None"
proof -
  note set = kv.range_set [OF assms, of key None] and sorted = kv.range_sorted [OF assms, of key None]
  show "dbGet d key = Some v" if "seekGE d key = Some (k, v)" "k = key"
    using that set by (auto simp: seekGE_def split: list.splits)
  show "dbGet d key = None" if sk: "seekGE d key = Some (k, v)" and "k \<noteq> key"
  proof (rule ccontr)
    assume "dbGet d key \<noteq> None"
    then obtain w where "(key, w) \<in> set (dbRange d key None)"
      using set by (auto simp: inRange_def)
    moreover obtain kvs where r: "dbRange d key None = (k, v) # kvs"
      using sk by (auto simp: seekGE_def split: list.splits)
    moreover have "key \<le> k" using set r by (auto simp: inRange_def)
    ultimately show False using sorted \<open>k \<noteq> key\<close> by force
  qed
  show "dbGet d key' = None" if "seekGE d key = None" "key \<le> key'"
  proof (rule ccontr)
    assume "dbGet d key' \<noteq> None"
    with that set show False by (auto simp: seekGE_def inRange_def split: list.splits)
  qed
qed

lemma getValuesLoop_lookup:
  assumes "wf_db d" "sorted keys"
  shows "map_of (getValuesLoop d keys acc) k =
           (if k \<in> set keys \<and> dbGet d k \<noteq> None then dbGet d k else map_of acc k)"
  using assms(2)
proof (induction keys arbitrary: acc)
  case Nil
  then show ?case by simp
next
  case (Cons key keys)
  note ge = Cons.prems
  show ?case
  proof (cases "seekGE d key")
    case None
    then have "dbGet d k' = None" if "k' \<in> set (key # keys)" for k'
      using seekGE_exact(3) [OF assms(1)] ge that by auto
    then show ?thesis using None by auto
  next
    case (Some kv)
    obtain k' v where kv: "kv = (k', v)" by (cases kv)
    show ?thesis
    proof (cases "k' = key")
      case True
      then have "dbGet d key = Some v" using Some kv seekGE_exact(1) [OF assms(1)] by blast
      then show ?thesis using Some kv True Cons.IH ge by auto
    next
      case False
      then have "dbGet d key = None" using Some kv seekGE_exact(2) [OF assms(1)] by blast
      then show ?thesis using Some kv False Cons.IH ge by auto
    qed
  qed
qed

text \<open>
  C19. The batched read, which seeks once per key along one iterator in ascending order, returns the
  same values as one point read per key.
\<close>

theorem getValuesBatch_lookup:
  assumes "wf_db d"
  shows "map_of (getValuesBatch d keys) k = (if k \<in> set keys then dbGet d k else None)"
  using getValuesLoop_lookup [OF assms, of "sort keys" "[]" k] by (auto simp: getValuesBatch_def)

theorem getValuesBatch_lookup_witness:
  "map_of (getValuesBatch [(''b'', 2 :: nat), (''a'', 1)] [''c'', ''a'']) ''a'' = Some 1"
  using getValuesBatch_lookup [of "[(''b'', 2 :: nat), (''a'', 1)]" "[''c'', ''a'']" "''a''"]
  by (simp add: wf_db_def dbGet_def)

section \<open>Batches\<close>

lemma commitBatch_Nil [simp]: "commitBatch d [] = d"
  by (simp add: commitBatch_def)

lemma commitBatch_Cons [simp]: "commitBatch d (op # ops) = commitBatch (applyOp d op) ops"
  by (simp add: commitBatch_def)

lemma commitBatch_append: "commitBatch d (xs @ ys) = commitBatch (commitBatch d xs) ys"
  by (simp add: commitBatch_def)

lemma dbGet_applyOp [simp]:
  "dbGet (applyOp d op) k = (if k = bo_Key op then opEffect op else dbGet d k)"
  by (simp add: applyOp_def opEffect_def)

lemma wf_applyOp [simp, intro]: "wf_db d \<Longrightarrow> wf_db (applyOp d op)"
  by (simp add: applyOp_def)

lemma wf_commitBatch [simp, intro]: "wf_db d \<Longrightarrow> wf_db (commitBatch d ops)"
  by (induction ops arbitrary: d) auto

lemma commitBatch_as_fold:
  "commitBatch d ops =
     foldl (\<lambda>s (k, e). case e of None \<Rightarrow> dbDelete s k | Some v \<Rightarrow> dbSet s k v) d
       (map (\<lambda>op. (bo_Key op, opEffect op)) ops)"
  by (induction ops arbitrary: d) (simp_all add: applyOp_def opEffect_def)

text \<open>A batch that writes no key twice has the same effect in every order.\<close>

lemma dbGet_commitBatch:
  assumes "distinct (map bo_Key ops)"
  shows "dbGet (commitBatch d ops) k =
           (case map_of (map (\<lambda>op. (bo_Key op, opEffect op)) ops) k of None \<Rightarrow> dbGet d k | Some e \<Rightarrow> e)"
  unfolding commitBatch_as_fold
  by (rule kv.get_foldl_batch) (simp add: assms comp_def)

lemma dbGet_commitBatch_other:
  "k \<notin> bo_Key ` set ops \<Longrightarrow> dbGet (commitBatch d ops) k = dbGet d k"
  by (induction ops arbitrary: d) auto

end
