(* ===== verification/Backup_Rules.thy ===== *)
theory Backup_Rules
  imports Kv_Store "HOL-Library.Product_Lexorder"
begin

text \<open>
  The rules for backup records (\<open>backup_catalog.go\<close>, \<open>backup_repository.go\<close>) and chunk tombstones
  (\<open>chunk_tombstone.go\<close>): identifier syntax, normal forms, and the state machine of a backup task.
  They are pure checks; the raft log validates proposed batches with them and the stores apply them
  before writing. All times are instants, so the conversion to UTC is the identity.
\<close>

definition fail :: "string \<Rightarrow> 'a result" where
  "fail msg = Inl (ErrMessage msg)"

section \<open>Identifiers\<close>

definition maxBackupOpaqueIDBytes :: nat where "maxBackupOpaqueIDBytes = 255"
definition maxBackupTaskErrorBytes :: nat where "maxBackupTaskErrorBytes = 4096"

definition charIn :: "nat \<Rightarrow> nat \<Rightarrow> char \<Rightarrow> bool" where
  "charIn lo hi c \<longleftrightarrow> lo \<le> (of_char c :: nat) \<and> (of_char c :: nat) \<le> hi"

definition isAlphaNumeric :: "char \<Rightarrow> bool" where
  "isAlphaNumeric c \<longleftrightarrow> charIn 97 122 c \<or> charIn 65 90 c \<or> charIn 48 57 c"

definition validateOpaqueID :: "string \<Rightarrow> bool" where
  "validateOpaqueID i \<longleftrightarrow>
     i \<noteq> [] \<and> length i \<le> maxBackupOpaqueIDBytes \<and> isAlphaNumeric (hd i) \<and>
     list_all (\<lambda>c. isAlphaNumeric c \<or> c \<in> {CHR ''-'', CHR ''_'', CHR ''.'', CHR '':''}) i"

definition isWindowsVolumePath :: "string \<Rightarrow> bool" where
  "isWindowsVolumePath p \<longleftrightarrow>
     2 \<le> length p \<and> p ! 1 = CHR '':'' \<and> (charIn 65 90 (p ! 0) \<or> charIn 97 122 (p ! 0))"

text \<open>
  On a name without a slash \<open>filepath.Clean\<close> changes only the empty name, and on POSIX systems
  \<open>filepath.VolumeName\<close> is empty, so these two conditions of the source add nothing here.
\<close>

definition validateBackupID :: "string \<Rightarrow> bool" where
  "validateBackupID i \<longleftrightarrow>
     i \<noteq> [] \<and> i \<noteq> ''.'' \<and> i \<noteq> ''..'' \<and> CHR ''/'' \<notin> set i \<and> CHR 0x5C \<notin> set i \<and>
     CHR 0x00 \<notin> set i \<and> \<not> isWindowsVolumePath i"

definition validateCatalogBackupID :: "string \<Rightarrow> bool" where
  "validateCatalogBackupID i \<longleftrightarrow> validateBackupID i \<and> validateOpaqueID i"

text \<open>The UTF-8 encodings of the runes that \<open>unicode.IsSpace\<close> accepts, and \<open>strings.TrimSpace(s) == ""\<close>.\<close>

definition spaceRunes :: "nat list list" where
  "spaceRunes = map (\<lambda>b. [b]) [9, 10, 11, 12, 13, 32] @ [[0xC2, 0x85], [0xC2, 0xA0], [0xE1, 0x9A, 0x80]]
     @ map (\<lambda>b. [0xE2, 0x80, b]) ([0x80 ..< 0x8B] @ [0xA8, 0xA9, 0xAF])
     @ [[0xE2, 0x81, 0x9F], [0xE3, 0x80, 0x80]]"

fun isBlankFuel :: "nat \<Rightarrow> nat list \<Rightarrow> bool" where
  "isBlankFuel n [] \<longleftrightarrow> True"
| "isBlankFuel 0 (_ # _) \<longleftrightarrow> False"
| "isBlankFuel (Suc n) s \<longleftrightarrow>
     list_ex (\<lambda>r. prefix r s \<and> isBlankFuel n (drop (length r) s)) spaceRunes"

definition isBlank :: "string \<Rightarrow> bool" where
  "isBlank s \<longleftrightarrow> isBlankFuel (length s) (map of_char s)"

section \<open>Committed backups\<close>

definition normalizeCommittedBackup :: "CommittedBackup \<Rightarrow> CommittedBackup result" where
  "normalizeCommittedBackup e =
     (if \<not> validateCatalogBackupID (cb_ID e) then fail ''backup ID''
      else if \<not> validateOpaqueID (cb_SourceClusterID e) then fail ''source cluster ID''
      else if cb_CreatedAt e = zeroTime then fail ''creation time is required''
      else if cb_RaftTerm e = 0 then fail ''Raft term must be non-zero''
      else if cb_AppliedIndex e = 0 then fail ''applied index must be non-zero''
      else if cb_TotalBytes e < 0 then fail ''total bytes cannot be negative''
      else Inr e)"

fun normalizeEntries :: "string list \<Rightarrow> CommittedBackup list \<Rightarrow> CommittedBackup list result" where
  "normalizeEntries seen [] = Inr []"
| "normalizeEntries seen (b # bs) =
     (case normalizeCommittedBackup b of
        Inl e \<Rightarrow> Inl e
      | Inr entry \<Rightarrow>
          if cb_ID entry \<in> set seen then fail ''duplicate backup ID''
          else (case normalizeEntries (cb_ID entry # seen) bs of
                  Inl e \<Rightarrow> Inl e
                | Inr rest \<Rightarrow> Inr (entry # rest)))"

text \<open>Newest first, ties by identifier.\<close>

definition sortBackups :: "CommittedBackup list \<Rightarrow> CommittedBackup list" where
  "sortBackups = sort_key (\<lambda>b. (- cb_CreatedAt b, cb_ID b))"

definition normalizeBackupCatalog :: "CommittedBackup list \<Rightarrow> time \<Rightarrow> BackupCatalogState result" where
  "normalizeBackupCatalog backups reconciledAt =
     (if reconciledAt = zeroTime then fail ''reconciliation time is required''
      else case normalizeEntries [] backups of
             Inl e \<Rightarrow> Inl e
           | Inr es \<Rightarrow> Inr \<lparr>bc_Backups = sortBackups es, bc_ReconciledAt = reconciledAt\<rparr>)"

section \<open>Backup tasks\<close>

definition isTerminalBackupTaskState :: "BackupTaskState \<Rightarrow> bool" where
  "isTerminalBackupTaskState s \<longleftrightarrow> s = BackupTaskCommitted \<or> s = BackupTaskFailed"

definition stateFieldsOK :: "BackupTask \<Rightarrow> bool" where
  "stateFieldsOK t =
     (case bt_State t of
        BackupTaskCommitted \<Rightarrow> bt_CompletedAt t \<noteq> zeroTime \<and> bt_LastError t = []
      | BackupTaskFailed \<Rightarrow> bt_CompletedAt t \<noteq> zeroTime \<and> \<not> isBlank (bt_LastError t)
      | BackupTaskUnknown _ \<Rightarrow> False
      | _ \<Rightarrow> bt_CompletedAt t = zeroTime \<and> bt_LastError t = [])"

definition validateBackupTaskFields :: "BackupTask \<Rightarrow> bool" where
  "validateBackupTaskFields t \<longleftrightarrow>
     bt_LeadershipTerm t \<noteq> 0 \<and> bt_AppliedIndex t \<noteq> 0 \<and> bt_StartedAt t \<noteq> zeroTime \<and>
     0 \<le> bt_BytesUploaded t \<and> 0 \<le> bt_FilesUploaded t \<and>
     length (bt_LastError t) \<le> maxBackupTaskErrorBytes \<and>
     bt_StartedAt t \<le> bt_UpdatedAt t \<and> stateFieldsOK t \<and>
     (bt_CompletedAt t \<noteq> zeroTime \<longrightarrow>
        bt_StartedAt t \<le> bt_CompletedAt t \<and> bt_CompletedAt t \<le> bt_UpdatedAt t)"

definition normalizeBackupTask :: "BackupTask \<Rightarrow> BackupTask result" where
  "normalizeBackupTask t =
     (if \<not> validateCatalogBackupID (bt_ID t) then fail ''backup ID''
      else if \<not> validateOpaqueID (bt_SourceClusterID t) then fail ''source cluster ID''
      else if \<not> validateOpaqueID (bt_OwnerNodeID t) then fail ''owner node ID''
      else let t' = (if bt_UpdatedAt t = zeroTime
                     then t\<lparr>bt_UpdatedAt := (if bt_StartedAt t < bt_CompletedAt t
                                            then bt_CompletedAt t else bt_StartedAt t)\<rparr>
                     else t)
           in if validateBackupTaskFields t' then Inr t' else fail ''backup task fields'')"

definition validateStoredBackupTask :: "BackupTask \<Rightarrow> BackupTask result" where
  "validateStoredBackupTask t =
     (if bt_UpdatedAt t = zeroTime then fail ''updated time is required'' else normalizeBackupTask t)"

fun nextBackupTaskState :: "BackupTaskState \<Rightarrow> BackupTaskState option" where
  "nextBackupTaskState BackupTaskCreating = Some BackupTaskUploading"
| "nextBackupTaskState BackupTaskUploading = Some BackupTaskVerifying"
| "nextBackupTaskState BackupTaskVerifying = Some BackupTaskCommitted"
| "nextBackupTaskState _ = None"

definition validateBackupTaskUpdate :: "BackupTask \<Rightarrow> BackupTask \<Rightarrow> bool" where
  "validateBackupTaskUpdate old new \<longleftrightarrow>
     bt_SourceClusterID old = bt_SourceClusterID new \<and> bt_OwnerNodeID old = bt_OwnerNodeID new \<and>
     bt_LeadershipTerm old = bt_LeadershipTerm new \<and> bt_AppliedIndex old = bt_AppliedIndex new \<and>
     bt_StartedAt old = bt_StartedAt new \<and>
     bt_BytesUploaded old \<le> bt_BytesUploaded new \<and> bt_FilesUploaded old \<le> bt_FilesUploaded new \<and>
     bt_UpdatedAt old \<le> bt_UpdatedAt new \<and>
     (bt_State new = bt_State old \<or> bt_State new = BackupTaskFailed \<or>
      nextBackupTaskState (bt_State old) = Some (bt_State new))"

definition terminalBackupTasksEqual :: "BackupTask \<Rightarrow> BackupTask \<Rightarrow> bool" where
  "terminalBackupTasksEqual a b \<longleftrightarrow> a\<lparr>bt_UpdatedAt := 0\<rparr> = b\<lparr>bt_UpdatedAt := 0\<rparr>"

section \<open>Chunk tombstones\<close>

definition chunkTombstoneQuarantine :: time where
  "chunkTombstoneQuarantine = 25 * nsPerHour"

definition chunkCatalogMaxAge :: time where
  "chunkCatalogMaxAge = 2 * nsPerHour"

definition normalizeChunkTombstone :: "ChunkTombstone \<Rightarrow> ChunkTombstone result" where
  "normalizeChunkTombstone t =
     (if t_ChunkID t = 0 then fail ''chunk ID is required''
      else if t_Size t < 0 then fail ''size cannot be negative''
      else if isBlank (t_Reason t) then fail ''reason is required''
      else if t_DeletedAt t = zeroTime \<or> t_DeleteAfter t = zeroTime then fail ''deletion times are required''
      else if t_DeleteAfter t \<noteq> t_DeletedAt t + chunkTombstoneQuarantine
      then fail ''delete-after must be exactly the quarantine after deletion''
      else Inr t)"

definition decodeChunkTombstone :: "'v codec \<Rightarrow> 'v \<Rightarrow> ChunkTombstone result" where
  "decodeChunkTombstone c raw =
     (case Option.bind (unmarshalValue c raw) asTombstone of
        None \<Rightarrow> fail ''unmarshal''
      | Some t \<Rightarrow> normalizeChunkTombstone t)"

end
