(* ===== verification/Conditional_Batch.thy ===== *)
theory Conditional_Batch
  imports Backup_Rules
begin

text \<open>
  Compare-and-mutate batches (\<open>ConditionalBatch\<close> in \<open>pebble_raft.go\<close>) with their canonical form and
  validation, the shapes that the tombstone versions accept (\<open>chunk_tombstone.go\<close>), and the
  term-fenced backup shapes (\<open>backup_catalog.go\<close>). \<open>applyConditionalBatch\<close> evaluates all
  preconditions against the store and commits all writes, or changes nothing.

  All validation failures of the source are plain messages, so the validators are predicates and
  their failure is one error.
\<close>

section \<open>Types and limits\<close>

record 'v ConditionalPrecondition =
  cp_Key :: string
  cp_ExpectedValue :: 'v
  cp_ExpectAbsent :: bool

record 'v ConditionalPrefixReplacement =
  pr_Prefix :: string
  pr_Sets :: "'v BatchOp list"

record 'v ConditionalBatch =
  cd_Version :: u8
  cd_ExpectedRaftTerm :: u64
  cd_Preconditions :: "'v ConditionalPrecondition list"
  cd_Mutations :: "'v BatchOp list"
  cd_PrefixReplacements :: "'v ConditionalPrefixReplacement list"

definition conditionalBatchVersion :: u8 where "conditionalBatchVersion = 1"
definition conditionalBatchTermFencedVersion :: u8 where "conditionalBatchTermFencedVersion = 2"
definition chunkTombstoneConditionalBatchVersion :: u8 where "chunkTombstoneConditionalBatchVersion = 3"
definition chunkTombstoneFencedBatchVersion :: u8 where "chunkTombstoneFencedBatchVersion = 4"
definition maxConditionalPreconditions :: nat where "maxConditionalPreconditions = 1024"
definition maxConditionalMutations :: nat where "maxConditionalMutations = 4096"
definition maxConditionalPrefixReplacements :: nat where "maxConditionalPrefixReplacements = 64"
definition maxConditionalReplacementSets :: nat where "maxConditionalReplacementSets = 4096"
definition maxConditionalKeyBytes :: nat where "maxConditionalKeyBytes = 4096"
definition maxConditionalValueBytes :: nat where "maxConditionalValueBytes = 4194304"
definition maxRaftLogEntryBytes :: nat where "maxRaftLogEntryBytes = 8388608"
definition MaxChunkAllocationBatch :: nat where "MaxChunkAllocationBatch = 1024"

lemmas version_defs =
  conditionalBatchVersion_def conditionalBatchTermFencedVersion_def
  chunkTombstoneConditionalBatchVersion_def chunkTombstoneFencedBatchVersion_def

lemmas limit_defs =
  maxConditionalPreconditions_def maxConditionalMutations_def maxConditionalPrefixReplacements_def
  maxConditionalReplacementSets_def maxConditionalKeyBytes_def maxConditionalValueBytes_def
  maxRaftLogEntryBytes_def MaxChunkAllocationBatch_def

definition supportedVersion :: "u8 \<Rightarrow> bool" where
  "supportedVersion v \<longleftrightarrow> v \<in> {conditionalBatchVersion, conditionalBatchTermFencedVersion,
     chunkTombstoneConditionalBatchVersion, chunkTombstoneFencedBatchVersion}"

definition expectAbsent :: "'v codec \<Rightarrow> string \<Rightarrow> 'v ConditionalPrecondition" where
  "expectAbsent c k = \<lparr>cp_Key = k, cp_ExpectedValue = vempty c, cp_ExpectAbsent = True\<rparr>"

definition expectValue :: "string \<Rightarrow> 'v \<Rightarrow> 'v ConditionalPrecondition" where
  "expectValue k v = \<lparr>cp_Key = k, cp_ExpectedValue = v, cp_ExpectAbsent = False\<rparr>"

lemma expect_simps [simp]:
  "cp_Key (expectAbsent c k) = k" "cp_ExpectAbsent (expectAbsent c k)"
  "cp_ExpectedValue (expectAbsent c k) = vempty c"
  "cp_Key (expectValue k v) = k" "\<not> cp_ExpectAbsent (expectValue k v)"
  "cp_ExpectedValue (expectValue k v) = v"
  by (simp_all add: expectAbsent_def expectValue_def)

section \<open>Inode references in batches\<close>

text \<open>An inode that was not found is \<^const>\<open>None\<close>; the source passes a flag beside a zero inode.\<close>

fun chunkMapsDiffer :: "InodeMeta option \<Rightarrow> InodeMeta option \<Rightarrow> bool" where
  "chunkMapsDiffer (Some old) (Some new) \<longleftrightarrow> i_ChunkMap old \<noteq> i_ChunkMap new"
| "chunkMapsDiffer None None \<longleftrightarrow> False"
| "chunkMapsDiffer _ _ \<longleftrightarrow> True"

fun addedChunkReferences :: "InodeMeta option \<Rightarrow> InodeMeta option \<Rightarrow> ChunkID list" where
  "addedChunkReferences old None = []"
| "addedChunkReferences None (Some new) = remdups (map cr_ID (i_ChunkMap new))"
| "addedChunkReferences (Some old) (Some new) =
     remdups (filter (\<lambda>i. i \<notin> cr_ID ` set (i_ChunkMap old)) (map cr_ID (i_ChunkMap new)))"

definition decodeReferencedInode :: "'v codec \<Rightarrow> string \<Rightarrow> 'v option \<Rightarrow> InodeMeta option result" where
  "decodeReferencedInode c key raw =
     (case raw of
        None \<Rightarrow> Inr None
      | Some v \<Rightarrow>
          (case Option.bind (unmarshalValue c v) asInode of
             None \<Rightarrow> fail ''decode stored inode''
           | Some m \<Rightarrow>
               if validateInodeKeyIdentity key (i_ID m) then Inr (Some m)
               else fail ''inode key and value identities differ''))"

section \<open>Shapes of the tombstone versions\<close>

definition lastMatching :: "('a \<Rightarrow> bool) \<Rightarrow> 'a list \<Rightarrow> 'a option" where
  "lastMatching P xs = (case filter P xs of [] \<Rightarrow> None | ys \<Rightarrow> Some (last ys))"

definition isChunkPre :: "'v ConditionalPrecondition \<Rightarrow> bool" where
  "isChunkPre p \<longleftrightarrow> prefix prefixChunk (cp_Key p)"

definition isTombstonePre :: "'v ConditionalPrecondition \<Rightarrow> bool" where
  "isTombstonePre p \<longleftrightarrow> prefix prefixChunkTombstone (cp_Key p)"

text \<open>The part that the legacy and the fenced precondition checks share.\<close>

definition tombstonePair ::
  "'v codec \<Rightarrow> 'v ConditionalPrecondition list \<Rightarrow> bool
     \<Rightarrow> ('v ConditionalPrecondition \<times> 'v ConditionalPrecondition \<times> ChunkID) option" where
  "tombstonePair c pres create =
     (case (lastMatching isChunkPre pres, lastMatching isTombstonePre pres) of
        (Some cp, Some tp) \<Rightarrow>
          (case parseChunkTombstoneKey (cp_Key cp) prefixChunk of
             None \<Rightarrow> None
           | Some i \<Rightarrow>
               if parseChunkTombstoneKey (cp_Key tp) prefixChunkTombstone = Some i \<and>
                  \<not> cp_ExpectAbsent cp \<and> vlen c (cp_ExpectedValue cp) \<noteq> 0 \<and>
                  (if create then cp_ExpectAbsent tp
                   else \<not> cp_ExpectAbsent tp \<and> vlen c (cp_ExpectedValue tp) \<noteq> 0)
               then Some (cp, tp, i) else None)
      | _ \<Rightarrow> None)"

definition validateLegacyChunkTombstonePreconditions where
  "validateLegacyChunkTombstonePreconditions c pres create =
     (if list_all (\<lambda>p. isChunkPre p \<or> isTombstonePre p) pres then tombstonePair c pres create else None)"

definition validateChunkTombstonePreconditions where
  "validateChunkTombstonePreconditions c pres create =
     (if list_all (\<lambda>p. cp_Key p = keyInodeReferenceEpoch \<or> (cp_Key p = keyBackupCatalog \<and> \<not> create)
                     \<or> isChunkPre p \<or> isTombstonePre p) pres
      then tombstonePair c pres create else None)"

definition decodesChunk :: "'v codec \<Rightarrow> 'v \<Rightarrow> ChunkID \<Rightarrow> ChunkMeta option" where
  "decodesChunk c raw i =
     (case Option.bind (unmarshalValue c raw) asChunk of
        None \<Rightarrow> None
      | Some ch \<Rightarrow> if c_ID ch = i then Some ch else None)"

text \<open>The checks that a tombstone value is the canonical snapshot of a chunk.\<close>

definition tombstoneSnapshots :: "'v codec \<Rightarrow> 'v \<Rightarrow> ChunkID \<Rightarrow> ChunkMeta \<Rightarrow> bool" where
  "tombstoneSnapshots c raw i ch =
     (case decodeChunkTombstone c raw of
        Inl _ \<Rightarrow> False
      | Inr t \<Rightarrow> t_ChunkID t = i \<and> t_Size t = c_Size ch \<and> t_Replicas t = c_Replicas ch \<and>
                 marshalValue c (RTombstone t) = raw)"

definition tombstoneCreateOK where
  "tombstoneCreateOK c cp tp i (m :: 'v BatchOp) \<longleftrightarrow>
     \<not> bo_Delete m \<and> bo_Key m = cp_Key tp \<and>
     (case decodesChunk c (cp_ExpectedValue cp) i of
        None \<Rightarrow> False
      | Some ch \<Rightarrow> 0 \<le> c_Size ch \<and> tombstoneSnapshots c (bo_Value m) i ch)"

definition tombstonePurgeOK where
  "tombstonePurgeOK c cp tp i (ms :: 'v BatchOp list) \<longleftrightarrow>
     bo_Delete (ms ! 0) \<and> bo_Delete (ms ! 1) \<and>
     bo_Key (ms ! 0) = cp_Key cp \<and> bo_Key (ms ! 1) = cp_Key tp \<and>
     decodesChunk c (cp_ExpectedValue cp) i \<noteq> None \<and>
     (case decodeChunkTombstone c (cp_ExpectedValue tp) of
        Inl _ \<Rightarrow> False
      | Inr t \<Rightarrow> t_ChunkID t = i)"

definition validateChunkTombstoneConditionalBatch :: "'v codec \<Rightarrow> 'v ConditionalBatch \<Rightarrow> bool" where
  "validateChunkTombstoneConditionalBatch c b \<longleftrightarrow>
     cd_ExpectedRaftTerm b = 0 \<and> cd_PrefixReplacements b = [] \<and>
     length (cd_Preconditions b) = 2 \<and>
     (case cd_Mutations b of
        [m] \<Rightarrow>
          (case validateLegacyChunkTombstonePreconditions c (cd_Preconditions b) True of
             None \<Rightarrow> False
           | Some (cp, tp, i) \<Rightarrow> tombstoneCreateOK c cp tp i m)
      | [m, n] \<Rightarrow>
          (case validateLegacyChunkTombstonePreconditions c (cd_Preconditions b) False of
             None \<Rightarrow> False
           | Some (cp, tp, i) \<Rightarrow> tombstonePurgeOK c cp tp i [m, n])
      | _ \<Rightarrow> False)"

definition hasInodeAllocationPrecondition :: "'v ConditionalPrecondition list \<Rightarrow> bool" where
  "hasInodeAllocationPrecondition pres \<longleftrightarrow> list_ex (\<lambda>p. validInodeMetadataKey (cp_Key p)) pres"

definition canonicalCatalog :: "'v codec \<Rightarrow> 'v \<Rightarrow> BackupCatalogState option" where
  "canonicalCatalog c raw =
     (case Option.bind (unmarshalValue c raw) asCatalog of
        None \<Rightarrow> None
      | Some s \<Rightarrow>
          (case normalizeBackupCatalog (bc_Backups s) (bc_ReconciledAt s) of
             Inl _ \<Rightarrow> None
           | Inr n \<Rightarrow> if marshalValue c (RCatalog n) = raw then Some n else None))"

definition validateChunkMetadataUpdateBatch :: "'v codec \<Rightarrow> 'v ConditionalBatch \<Rightarrow> bool" where
  "validateChunkMetadataUpdateBatch c b \<longleftrightarrow>
     (let pres = cd_Preconditions b; m = hd (cd_Mutations b) in
      list_all (\<lambda>p. isChunkPre p \<or> isTombstonePre p) pres \<and>
      (case tombstonePair c pres True of
         None \<Rightarrow> False
       | Some (cp, tp, i) \<Rightarrow>
           \<not> bo_Delete m \<and> bo_Key m = cp_Key cp \<and>
           decodesChunk c (cp_ExpectedValue cp) i \<noteq> None \<and> decodesChunk c (bo_Value m) i \<noteq> None))"

definition validateChunkTombstoneFencedCreateBatch :: "'v codec \<Rightarrow> 'v ConditionalBatch \<Rightarrow> bool" where
  "validateChunkTombstoneFencedCreateBatch c b \<longleftrightarrow>
     (case validateChunkTombstonePreconditions c (cd_Preconditions b) True of
        None \<Rightarrow> False
      | Some (cp, tp, i) \<Rightarrow> tombstoneCreateOK c cp tp i (hd (cd_Mutations b)))"

definition validateChunkTombstoneFencedPurgeBatch :: "'v codec \<Rightarrow> 'v ConditionalBatch \<Rightarrow> bool" where
  "validateChunkTombstoneFencedPurgeBatch c b \<longleftrightarrow>
     (case validateChunkTombstonePreconditions c (cd_Preconditions b) False of
        None \<Rightarrow> False
      | Some (cp, tp, i) \<Rightarrow>
          (case List.find (\<lambda>p. cp_Key p = keyBackupCatalog) (cd_Preconditions b) of
             None \<Rightarrow> False
           | Some k \<Rightarrow> \<not> cp_ExpectAbsent k \<and> vlen c (cp_ExpectedValue k) \<noteq> 0 \<and>
                       canonicalCatalog c (cp_ExpectedValue k) \<noteq> None) \<and>
          tombstonePurgeOK c cp tp i (cd_Mutations b))"

section \<open>Chunk allocation batches\<close>

datatype preKind = PreInode | PreEpoch | PreChunk ChunkID | PreTombstone ChunkID | PreInvalid

definition preKindOf :: "string \<Rightarrow> preKind" where
  "preKindOf key =
     (if validInodeMetadataKey key then PreInode
      else if key = keyInodeReferenceEpoch then PreEpoch
      else case parseChunkTombstoneKey key prefixChunk of
             Some i \<Rightarrow> PreChunk i
           | None \<Rightarrow>
               (if prefix prefixChunkTombstone key
                then (case parseChunkTombstoneKey key prefixChunkTombstone of
                        Some i \<Rightarrow> PreTombstone i
                      | None \<Rightarrow> PreInvalid)
                else PreInvalid))"

definition allocPreOK :: "'v codec \<Rightarrow> 'v ConditionalPrecondition \<Rightarrow> bool" where
  "allocPreOK c p =
     (case preKindOf (cp_Key p) of
        PreInode \<Rightarrow> \<not> cp_ExpectAbsent p \<and> vlen c (cp_ExpectedValue p) \<noteq> 0
      | PreEpoch \<Rightarrow> True
      | PreChunk _ \<Rightarrow> cp_ExpectAbsent p
      | PreTombstone _ \<Rightarrow> cp_ExpectAbsent p
      | PreInvalid \<Rightarrow> False)"

definition chunkPreIDs :: "'v ConditionalPrecondition list \<Rightarrow> ChunkID list" where
  "chunkPreIDs pres = List.map_filter (\<lambda>p. case preKindOf (cp_Key p) of PreChunk i \<Rightarrow> Some i | _ \<Rightarrow> None) pres"

definition tombstonePreIDs :: "'v ConditionalPrecondition list \<Rightarrow> ChunkID list" where
  "tombstonePreIDs pres =
     List.map_filter (\<lambda>p. case preKindOf (cp_Key p) of PreTombstone i \<Rightarrow> Some i | _ \<Rightarrow> None) pres"

definition decodeInodeAt :: "'v codec \<Rightarrow> string \<Rightarrow> 'v \<Rightarrow> InodeMeta option" where
  "decodeInodeAt c key raw =
     (case Option.bind (unmarshalValue c raw) asInode of
        None \<Rightarrow> None
      | Some m \<Rightarrow> if validateInodeKeyIdentity key (i_ID m) then Some m else None)"

definition allocMutationOK :: "'v codec \<Rightarrow> string \<Rightarrow> ChunkID list \<Rightarrow> 'v BatchOp \<Rightarrow> bool" where
  "allocMutationOK c inoKey chunkIDs m \<longleftrightarrow>
     \<not> bo_Delete m \<and>
     (case parseChunkTombstoneKey (bo_Key m) prefixChunk of
        Some i \<Rightarrow> i \<in> set chunkIDs \<and> decodesChunk c (bo_Value m) i \<noteq> None
      | None \<Rightarrow>
          (if bo_Key m = inoKey then decodeInodeAt c inoKey (bo_Value m) \<noteq> None
           else bo_Key m = keyInodeReferenceEpoch))"

definition allocReferencesOK :: "ChunkID list \<Rightarrow> InodeMeta \<Rightarrow> InodeMeta \<Rightarrow> bool" where
  "allocReferencesOK chunkIDs old new \<longleftrightarrow>
     (let added = addedChunkReferences (Some old) (Some new) in
      length added = length chunkIDs \<and> length (i_ChunkMap old) \<le> length (i_ChunkMap new) \<and>
      distinct (map cr_ID (i_ChunkMap new)) \<and> set chunkIDs \<subseteq> set added)"

definition validateChunkAllocationBatch :: "'v codec \<Rightarrow> 'v ConditionalBatch \<Rightarrow> bool" where
  "validateChunkAllocationBatch c b \<longleftrightarrow>
     (let pres = cd_Preconditions b; muts = cd_Mutations b;
          inodePres = filter (\<lambda>p. preKindOf (cp_Key p) = PreInode) pres;
          chunkIDs = chunkPreIDs pres; tombIDs = tombstonePreIDs pres;
          chunkMuts = filter (\<lambda>m. validChunkMetadataKey (bo_Key m)) muts
      in cd_PrefixReplacements b = [] \<and> cd_ExpectedRaftTerm b = 0 \<and>
         list_all (allocPreOK c) pres \<and>
         length (filter (\<lambda>p. preKindOf (cp_Key p) = PreEpoch) pres) \<le> 1 \<and>
         distinct chunkIDs \<and> distinct tombIDs \<and>
         chunkIDs \<noteq> [] \<and> length chunkIDs = length tombIDs \<and> set chunkIDs \<subseteq> set tombIDs \<and>
         (case inodePres of
            [ip] \<Rightarrow>
              (case decodeInodeAt c (cp_Key ip) (cp_ExpectedValue ip) of
                 None \<Rightarrow> False
               | Some old \<Rightarrow>
                   list_all (allocMutationOK c (cp_Key ip) chunkIDs) muts \<and>
                   distinct (map bo_Key chunkMuts) \<and> length chunkMuts = length chunkIDs \<and>
                   length (filter (\<lambda>m. bo_Key m = keyInodeReferenceEpoch) muts) \<le> 1 \<and>
                   (case filter (\<lambda>m. bo_Key m = cp_Key ip) muts of
                      [im] \<Rightarrow>
                        (case decodeInodeAt c (cp_Key ip) (bo_Value im) of
                           None \<Rightarrow> False
                         | Some new \<Rightarrow> allocReferencesOK chunkIDs old new)
                    | _ \<Rightarrow> False))
          | _ \<Rightarrow> False))"

definition validateChunkTombstoneFencedBatch :: "'v codec \<Rightarrow> 'v ConditionalBatch \<Rightarrow> bool" where
  "validateChunkTombstoneFencedBatch c b \<longleftrightarrow>
     cd_ExpectedRaftTerm b = 0 \<and> cd_PrefixReplacements b = [] \<and> cd_Mutations b \<noteq> [] \<and>
     (if hasInodeAllocationPrecondition (cd_Preconditions b) then validateChunkAllocationBatch c b
      else if length (cd_Mutations b) = 1
      then (if length (cd_Preconditions b) = 2 then validateChunkMetadataUpdateBatch c b
            else if length (cd_Preconditions b) = 3 then validateChunkTombstoneFencedCreateBatch c b
            else False)
      else if length (cd_Mutations b) = 2
      then length (cd_Preconditions b) = 4 \<and> validateChunkTombstoneFencedPurgeBatch c b
      else False)"

section \<open>Term-fenced backup batches\<close>

definition storedTask :: "'v codec \<Rightarrow> 'v \<Rightarrow> BackupTask result" where
  "storedTask c raw =
     (case Option.bind (unmarshalValue c raw) asTask of
        None \<Rightarrow> fail ''unmarshal''
      | Some t \<Rightarrow> validateStoredBackupTask t)"

definition validateTermFencedBackupTaskBatch :: "'v codec \<Rightarrow> 'v ConditionalBatch \<Rightarrow> bool" where
  "validateTermFencedBackupTaskBatch c b \<longleftrightarrow>
     (case (cd_Preconditions b, cd_Mutations b, cd_PrefixReplacements b) of
        ([p], [m], []) \<Rightarrow>
          \<not> bo_Delete m \<and> cp_Key p = bo_Key m \<and> prefix prefixBackupTask (bo_Key m) \<and>
          (let i = TrimPrefix (bo_Key m) prefixBackupTask in
           validateCatalogBackupID i \<and>
           (case storedTask c (bo_Value m) of
              Inl _ \<Rightarrow> False
            | Inr new \<Rightarrow>
                bt_ID new = i \<and> marshalValue c (RTask new) = bo_Value m \<and>
                (if cp_ExpectAbsent p then bt_State new = BackupTaskCreating
                 else case storedTask c (cp_ExpectedValue p) of
                        Inl _ \<Rightarrow> False
                      | Inr old \<Rightarrow> bt_ID old = i \<and> \<not> isTerminalBackupTaskState (bt_State old) \<and>
                                   validateBackupTaskUpdate old new)))
      | _ \<Rightarrow> False)"

definition validateTermFencedBackupCatalogBatch :: "'v codec \<Rightarrow> 'v ConditionalBatch \<Rightarrow> bool" where
  "validateTermFencedBackupCatalogBatch c b \<longleftrightarrow>
     (case (cd_Preconditions b, cd_Mutations b, cd_PrefixReplacements b) of
        ([], [m], [r]) \<Rightarrow>
          \<not> bo_Delete m \<and> bo_Key m = keyBackupCatalog \<and> pr_Prefix r = prefixBackupCatalog \<and>
          (case canonicalCatalog c (bo_Value m) of
             None \<Rightarrow> False
           | Some n \<Rightarrow>
               length (pr_Sets r) = length (bc_Backups n) \<and>
               (let expected = map (\<lambda>e. (prefixBackupCatalog @ cb_ID e, marshalValue c (RBackup e))) (bc_Backups n)
                in list_all (\<lambda>st. \<not> bo_Delete st \<and> map_of expected (bo_Key st) = Some (bo_Value st)) (pr_Sets r)))
      | _ \<Rightarrow> False)"

definition validateTermFencedBackupConditionalBatch :: "'v codec \<Rightarrow> 'v ConditionalBatch \<Rightarrow> bool" where
  "validateTermFencedBackupConditionalBatch c b =
     (case cd_PrefixReplacements b of
        [] \<Rightarrow> validateTermFencedBackupTaskBatch c b
      | [_] \<Rightarrow> validateTermFencedBackupCatalogBatch c b
      | _ \<Rightarrow> False)"

section \<open>Validation and canonical form\<close>

definition validateConditionalKey :: "string \<Rightarrow> bool" where
  "validateConditionalKey key \<longleftrightarrow> key \<noteq> [] \<and> length key \<le> maxConditionalKeyBytes"

definition validateConditionalReplacementPrefix :: "string \<Rightarrow> bool" where
  "validateConditionalReplacementPrefix p \<longleftrightarrow> p = prefixBackupCatalog"

definition preSize :: "'v codec \<Rightarrow> 'v ConditionalPrecondition \<Rightarrow> nat" where
  "preSize c p = 1 + 4 + length (cp_Key p) + (if cp_ExpectAbsent p then 0 else 4 + vlen c (cp_ExpectedValue p))"

definition opSize :: "'v codec \<Rightarrow> 'v BatchOp \<Rightarrow> nat" where
  "opSize c m = 1 + 4 + length (bo_Key m) + (if bo_Delete m then 0 else 4 + vlen c (bo_Value m))"

definition replSize :: "'v codec \<Rightarrow> 'v ConditionalPrefixReplacement \<Rightarrow> nat" where
  "replSize c r = 4 + length (pr_Prefix r) + 4 +
     sum_list (map (\<lambda>st. 4 + length (bo_Key st) + 4 + vlen c (bo_Value st)) (pr_Sets r))"

definition conditionalBatchEncodedSize :: "'v codec \<Rightarrow> 'v ConditionalBatch \<Rightarrow> nat" where
  "conditionalBatchEncodedSize c b =
     2 + 3 * 4 + (if cd_Version b = conditionalBatchTermFencedVersion then 8 else 0) +
     sum_list (map (preSize c) (cd_Preconditions b)) + sum_list (map (opSize c) (cd_Mutations b)) +
     sum_list (map (replSize c) (cd_PrefixReplacements b))"

definition preOK :: "'v codec \<Rightarrow> 'v ConditionalPrecondition \<Rightarrow> bool" where
  "preOK c p \<longleftrightarrow> validateConditionalKey (cp_Key p) \<and>
     (if cp_ExpectAbsent p then vlen c (cp_ExpectedValue p) = 0
      else vlen c (cp_ExpectedValue p) \<le> maxConditionalValueBytes)"

definition mutationOK :: "'v codec \<Rightarrow> 'v BatchOp \<Rightarrow> bool" where
  "mutationOK c m \<longleftrightarrow> validateConditionalKey (bo_Key m) \<and>
     (if bo_Delete m then vlen c (bo_Value m) = 0 else vlen c (bo_Value m) \<le> maxConditionalValueBytes)"

definition replacementOK :: "'v codec \<Rightarrow> 'v BatchOp list \<Rightarrow> 'v ConditionalPrefixReplacement \<Rightarrow> bool" where
  "replacementOK c muts r \<longleftrightarrow>
     validateConditionalReplacementPrefix (pr_Prefix r) \<and>
     length (pr_Sets r) \<le> maxConditionalReplacementSets \<and>
     list_all (\<lambda>st. \<not> bo_Delete st \<and> validateConditionalKey (bo_Key st) \<and>
                 prefix (pr_Prefix r) (bo_Key st) \<and> length (bo_Key st) \<noteq> length (pr_Prefix r) \<and>
                 vlen c (bo_Value st) \<le> maxConditionalValueBytes) (pr_Sets r) \<and>
     \<not> adjacentDup (map bo_Key (pr_Sets r)) \<and>
     list_all (\<lambda>m. \<not> prefix (pr_Prefix r) (bo_Key m)) muts"

fun adjacentPrefix :: "string list \<Rightarrow> bool" where
  "adjacentPrefix (p # q # ps) \<longleftrightarrow> prefix p q \<or> adjacentPrefix (q # ps)"
| "adjacentPrefix _ \<longleftrightarrow> False"

definition validateConditionalBatch :: "'v codec \<Rightarrow> 'v ConditionalBatch \<Rightarrow> bool" where
  "validateConditionalBatch c b \<longleftrightarrow>
     supportedVersion (cd_Version b) \<and>
     (cd_Version b = conditionalBatchVersion \<longrightarrow> cd_ExpectedRaftTerm b = 0) \<and>
     (cd_Version b = conditionalBatchTermFencedVersion \<longrightarrow> cd_ExpectedRaftTerm b \<noteq> 0) \<and>
     list_all (preOK c) (cd_Preconditions b) \<and> \<not> adjacentDup (map cp_Key (cd_Preconditions b)) \<and>
     list_all (mutationOK c) (cd_Mutations b) \<and> \<not> adjacentDup (map bo_Key (cd_Mutations b)) \<and>
     list_all (replacementOK c (cd_Mutations b)) (cd_PrefixReplacements b) \<and>
     \<not> adjacentPrefix (map pr_Prefix (cd_PrefixReplacements b)) \<and>
     conditionalBatchEncodedSize c b \<le> maxRaftLogEntryBytes \<and>
     (cd_Version b = conditionalBatchTermFencedVersion \<longrightarrow> validateTermFencedBackupConditionalBatch c b) \<and>
     (cd_Version b = chunkTombstoneConditionalBatchVersion \<longrightarrow> validateChunkTombstoneConditionalBatch c b) \<and>
     (cd_Version b = chunkTombstoneFencedBatchVersion \<longrightarrow> validateChunkTombstoneFencedBatch c b)"

definition countLimits :: "'v ConditionalBatch \<Rightarrow> nat \<times> nat" where
  "countLimits b =
     (if cd_Version b = chunkTombstoneFencedBatchVersion \<and> hasInodeAllocationPrecondition (cd_Preconditions b)
      then (2 + 2 * MaxChunkAllocationBatch, 2 + MaxChunkAllocationBatch)
      else (maxConditionalPreconditions, maxConditionalMutations))"

definition sortedBatch :: "'v ConditionalBatch \<Rightarrow> 'v ConditionalBatch" where
  "sortedBatch b = b\<lparr>cd_Preconditions := sort_key cp_Key (cd_Preconditions b),
     cd_Mutations := sort_key bo_Key (cd_Mutations b),
     cd_PrefixReplacements :=
       map (\<lambda>r. r\<lparr>pr_Sets := sort_key bo_Key (pr_Sets r)\<rparr>) (sort_key pr_Prefix (cd_PrefixReplacements b))\<rparr>"

definition canonicalConditionalBatch :: "'v codec \<Rightarrow> 'v ConditionalBatch \<Rightarrow> 'v ConditionalBatch result" where
  "canonicalConditionalBatch c b =
     (if \<not> supportedVersion (cd_Version b) then fail ''unsupported conditional batch version''
      else if fst (countLimits b) < length (cd_Preconditions b) then fail ''conditional precondition count''
      else if snd (countLimits b) < length (cd_Mutations b) then fail ''conditional mutation count''
      else if maxConditionalPrefixReplacements < length (cd_PrefixReplacements b)
      then fail ''conditional prefix replacement count''
      else if validateConditionalBatch c (sortedBatch b) then Inr (sortedBatch b)
      else fail ''invalid conditional batch'')"

section \<open>Application\<close>

definition preHolds :: "'v db \<Rightarrow> 'v ConditionalPrecondition \<Rightarrow> bool" where
  "preHolds d p =
     (case dbGet d (cp_Key p) of
        Some v \<Rightarrow> \<not> cp_ExpectAbsent p \<and> v = cp_ExpectedValue p
      | None \<Rightarrow> cp_ExpectAbsent p)"

definition replacementOps :: "'v codec \<Rightarrow> 'v db \<Rightarrow> 'v ConditionalPrefixReplacement \<Rightarrow> 'v BatchOp list" where
  "replacementOps c d r =
     map (\<lambda>kv. delOp c (fst kv)) (dbRange d (pr_Prefix r) (prefixUpperBound (pr_Prefix r))) @
     map (\<lambda>st. setOp (bo_Key st) (bo_Value st)) (pr_Sets r)"

definition applyConditionalBatch :: "'v codec \<Rightarrow> 'v db \<Rightarrow> 'v ConditionalBatch \<Rightarrow> 'v db result" where
  "applyConditionalBatch c d b =
     (case canonicalConditionalBatch c b of
        Inl e \<Rightarrow> Inl e
      | Inr canon \<Rightarrow>
          if list_all (preHolds d) (cd_Preconditions canon)
          then Inr (commitBatch d
                      (cd_Mutations canon @ concat (map (replacementOps c d) (cd_PrefixReplacements canon))))
          else Inl ErrRaftConditionalConflict)"

section \<open>Canonical form is canonical\<close>

lemma sortedBatch_simps [simp]:
  "cd_Version (sortedBatch b) = cd_Version b"
  "cd_ExpectedRaftTerm (sortedBatch b) = cd_ExpectedRaftTerm b"
  "cd_Preconditions (sortedBatch b) = sort_key cp_Key (cd_Preconditions b)"
  "cd_Mutations (sortedBatch b) = sort_key bo_Key (cd_Mutations b)"
  "cd_PrefixReplacements (sortedBatch b) =
     map (\<lambda>r. r\<lparr>pr_Sets := sort_key bo_Key (pr_Sets r)\<rparr>) (sort_key pr_Prefix (cd_PrefixReplacements b))"
  by (simp_all add: sortedBatch_def)

lemma sort_key_map_id:
  assumes "\<And>x. f (g x) = f x"
  shows "sort_key f (map g (sort_key f xs)) = map g (sort_key f xs)"
proof (rule sort_key_id_if_sorted)
  show "sorted (map f (map g (sort_key f xs)))" by (simp add: comp_def assms)
qed

lemma sortedBatch_idem [simp]: "sortedBatch (sortedBatch b) = sortedBatch b"
  by (simp add: sortedBatch_def sort_key_id_if_sorted sort_key_map_id comp_def)

lemma hasInodeAllocationPrecondition_sort [simp]:
  "hasInodeAllocationPrecondition (sort_key f pres) = hasInodeAllocationPrecondition pres"
  by (simp add: hasInodeAllocationPrecondition_def list_ex_iff)

lemma countLimits_sorted [simp]: "countLimits (sortedBatch b) = countLimits b"
  by (simp add: countLimits_def)

lemma canonicalConditionalBatch_Inr:
  assumes "canonicalConditionalBatch c b = Inr canon"
  shows "canon = sortedBatch b" "validateConditionalBatch c (sortedBatch b)"
    "supportedVersion (cd_Version b)" "length (cd_Preconditions b) \<le> fst (countLimits b)"
    "length (cd_Mutations b) \<le> snd (countLimits b)"
    "length (cd_PrefixReplacements b) \<le> maxConditionalPrefixReplacements"
  using assms by (auto simp: canonicalConditionalBatch_def fail_def split: if_splits)

lemma canonicalConditionalBatch_idem:
  assumes "canonicalConditionalBatch c b = Inr canon"
  shows "canonicalConditionalBatch c canon = Inr canon"
  using canonicalConditionalBatch_Inr [OF assms] by (simp add: canonicalConditionalBatch_def)

section \<open>Effect of a conditional batch\<close>

text \<open>
  What a batch asks for, read off its unsorted lists: a mutated key gets its mutation, a key under
  the replaced prefix gets its new value or disappears, every other key keeps its value.
\<close>

definition batchSpec :: "'v ConditionalBatch \<Rightarrow> 'v db \<Rightarrow> string \<Rightarrow> 'v option" where
  "batchSpec b d k =
     (case map_of (map (\<lambda>op. (bo_Key op, opEffect op)) (cd_Mutations b)) k of
        Some e \<Rightarrow> e
      | None \<Rightarrow>
          (case List.find (\<lambda>r. prefix (pr_Prefix r) k) (cd_PrefixReplacements b) of
             Some r \<Rightarrow> map_of (map (\<lambda>st. (bo_Key st, bo_Value st)) (pr_Sets r)) k
           | None \<Rightarrow> dbGet d k))"

lemma map_of_map_sort_key:
  assumes "distinct (map f xs)"
  shows "map_of (map (\<lambda>x. (f x, g x)) (sort_key h xs)) = map_of (map (\<lambda>x. (f x, g x)) xs)"
  by (rule map_of_perm_distinct) (use assms in \<open>auto simp: comp_def\<close>)

lemma dbGet_replacementOps:
  assumes "wf_db d" "distinct (map bo_Key (pr_Sets r))"
    and under: "\<And>st. st \<in> set (pr_Sets r) \<Longrightarrow> prefix (pr_Prefix r) (bo_Key st)"
    and same: "\<And>k. prefix (pr_Prefix r) k \<Longrightarrow> dbGet d' k = dbGet d k"
  shows "dbGet (commitBatch d' (replacementOps c d r)) k =
    (if prefix (pr_Prefix r) k then map_of (map (\<lambda>st. (bo_Key st, bo_Value st)) (pr_Sets r)) k
     else dbGet d' k)"
proof -
  let ?rg = "dbRange d (pr_Prefix r) (prefixUpperBound (pr_Prefix r))"
  let ?dels = "map (\<lambda>kv. delOp c (fst kv)) ?rg"
  let ?sets = "map (\<lambda>st. setOp (bo_Key st) (bo_Value st)) (pr_Sets r)"
  have keys: "fst ` set ?rg = {k. prefix (pr_Prefix r) k \<and> dbGet d k \<noteq> None}"
    using kv.range_prefix_set [OF assms(1), of "pr_Prefix r"] by force
  have "dbGet (commitBatch d' ?dels) k = (if k \<in> fst ` set ?rg then None else dbGet d' k)" for k
  proof -
    have "distinct (map bo_Key ?dels)" using kv.range_distinct [OF assms(1)] by (simp add: comp_def)
    then show ?thesis
      by (auto simp: dbGet_commitBatch comp_def opEffect_def map_of_eq_None_iff image_image
          split: option.splits dest!: map_of_SomeD)
  qed
  then have dels: "dbGet (commitBatch d' ?dels) k = (if prefix (pr_Prefix r) k then None else dbGet d' k)" for k
    using keys same by auto
  have "distinct (map bo_Key ?sets)" using assms(2) by (simp add: comp_def)
  note get = dbGet_commitBatch [OF this, of "commitBatch d' ?dels"]
  have lookup: "map_of (map (\<lambda>op. (bo_Key op, opEffect op))
      (map (\<lambda>st. setOp (bo_Key st) (bo_Value st)) sts)) k =
      map_option Some (map_of (map (\<lambda>st. (bo_Key st, bo_Value st)) sts) k)" for sts :: "'a BatchOp list"
    by (induction sts) (auto simp: opEffect_def)
  have outside: "map_of (map (\<lambda>st. (bo_Key st, bo_Value st)) (pr_Sets r)) k = None"
    if "\<not> prefix (pr_Prefix r) k"
    using that under by (auto simp: map_of_eq_None_iff)
  show ?thesis
    unfolding replacementOps_def commitBatch_append get lookup dels
    using outside by (auto split: option.splits)
qed

lemma validate_distinct:
  assumes "validateConditionalBatch c (sortedBatch b)"
  shows "distinct (map cp_Key (cd_Preconditions b))" "distinct (map bo_Key (cd_Mutations b))"
    "\<And>r. r \<in> set (cd_PrefixReplacements b) \<Longrightarrow> distinct (map bo_Key (pr_Sets r))"
  using assms
  by (auto simp: validateConditionalBatch_def adjacentDup_sort_key list_all_iff replacementOK_def)

lemma validate_replacements:
  assumes "validateConditionalBatch c (sortedBatch b)"
  shows "cd_PrefixReplacements b = [] \<or> (\<exists>r. cd_PrefixReplacements b = [r] \<and>
     (\<forall>st\<in>set (pr_Sets r). prefix (pr_Prefix r) (bo_Key st)) \<and>
     (\<forall>m\<in>set (cd_Mutations b). \<not> prefix (pr_Prefix r) (bo_Key m)))"
proof -
  let ?rs = "cd_PrefixReplacements b"
  have pref: "pr_Prefix r = prefixBackupCatalog" if "r \<in> set ?rs" for r
    using assms that
    by (auto simp: validateConditionalBatch_def list_all_iff replacementOK_def
        validateConditionalReplacementPrefix_def)
  have noadj: "\<not> adjacentPrefix (map pr_Prefix (sort_key pr_Prefix ?rs))"
    using assms by (simp add: validateConditionalBatch_def comp_def)
  have "\<not> 2 \<le> length ?rs"
  proof
    assume "2 \<le> length ?rs"
    then obtain x y zs where xyz: "sort_key pr_Prefix ?rs = x # y # zs"
      by (metis (no_types) length_sort Suc_le_length_iff numeral_2_eq_2)
    then have "x \<in> set ?rs" "y \<in> set ?rs" by (metis list.set_intros set_sort)+
    then show False using noadj xyz pref by simp
  qed
  then consider "?rs = []" | r where "?rs = [r]"
    by (cases ?rs) (auto simp: Suc_le_eq)
  then show ?thesis
    using assms by cases (auto simp: validateConditionalBatch_def list_all_iff replacementOK_def)
qed

lemma find_map_prefix:
  "List.find (\<lambda>r. prefix (pr_Prefix r) k) [r] = (if prefix (pr_Prefix r) k then Some r else None)"
  by simp

lemma applyConditionalBatch_Inr:
  assumes "wf_db d" and ok: "applyConditionalBatch c d b = Inr d'"
  shows "dbGet d' k = batchSpec b d k" "wf_db d'" "\<And>p. p \<in> set (cd_Preconditions b) \<Longrightarrow> preHolds d p"
proof -
  obtain canon where canon: "canonicalConditionalBatch c b = Inr canon"
    using ok by (auto simp: applyConditionalBatch_def split: sum.splits)
  note cn = canonicalConditionalBatch_Inr [OF canon]
  have hold: "list_all (preHolds d) (cd_Preconditions canon)"
    and d': "d' = commitBatch d (cd_Mutations canon @ concat (map (replacementOps c d) (cd_PrefixReplacements canon)))"
    using ok canon by (auto simp: applyConditionalBatch_def split: if_splits)
  show "preHolds d p" if "p \<in> set (cd_Preconditions b)" for p
    using hold that cn(1) by (auto simp: list_all_iff)
  show "wf_db d'" using d' assms(1) by simp
  have muts: "dbGet (commitBatch d (cd_Mutations canon)) k =
      (case map_of (map (\<lambda>op. (bo_Key op, opEffect op)) (cd_Mutations b)) k of None \<Rightarrow> dbGet d k | Some e \<Rightarrow> e)" for k
    using validate_distinct [OF cn(2)] by (simp add: cn(1) dbGet_commitBatch map_of_map_sort_key)
  from validate_replacements [OF cn(2)] show "dbGet d' k = batchSpec b d k"
  proof (elim disjE exE conjE)
    assume "cd_PrefixReplacements b = []"
    then show ?thesis using d' muts cn(1) by (simp add: batchSpec_def split: option.splits)
  next
    fix r assume r: "cd_PrefixReplacements b = [r]"
      and under: "\<forall>st\<in>set (pr_Sets r). prefix (pr_Prefix r) (bo_Key st)"
      and out: "\<forall>m\<in>set (cd_Mutations b). \<not> prefix (pr_Prefix r) (bo_Key m)"
    let ?r = "r\<lparr>pr_Sets := sort_key bo_Key (pr_Sets r)\<rparr>"
    have dist: "distinct (map bo_Key (pr_Sets r))" using validate_distinct(3) [OF cn(2)] r by simp
    have nomut: "map_of (map (\<lambda>op. (bo_Key op, opEffect op)) (cd_Mutations b)) k = None"
      if "prefix (pr_Prefix r) k" for k
      using that out by (auto simp: map_of_eq_None_iff)
    have "dbGet d' k = (if prefix (pr_Prefix r) k
        then map_of (map (\<lambda>st. (bo_Key st, bo_Value st)) (pr_Sets r)) k
        else dbGet (commitBatch d (cd_Mutations canon)) k)"
      using dbGet_replacementOps [OF assms(1), of ?r "commitBatch d (cd_Mutations canon)" c k] dist under
        muts nomut d' cn(1) r
      by (simp add: commitBatch_append map_of_map_sort_key)
    then show ?thesis using muts nomut r by (simp add: batchSpec_def split: option.splits)
  qed
qed

text \<open>
  C5. A conditional batch is all or nothing. If it passes validation, then it is refused with a
  conflict exactly when one of its preconditions does not hold of the current store, and otherwise
  every key of the resulting store has the value the batch asks for: mutated keys their mutation,
  keys under a replaced prefix the replacement, all other keys their old value. The order in which
  preconditions, mutations and replacement entries are listed does not matter.
\<close>

theorem applyConditionalBatch_spec:
  assumes "wf_db d" and "canonicalConditionalBatch c b = Inr canon"
  shows "if \<exists>p\<in>set (cd_Preconditions b). \<not> preHolds d p
         then applyConditionalBatch c d b = Inl ErrRaftConditionalConflict
         else \<exists>d'. applyConditionalBatch c d b = Inr d' \<and> wf_db d' \<and> (\<forall>k. dbGet d' k = batchSpec b d k)"
proof -
  have pre: "list_all (preHolds d) (cd_Preconditions canon) \<longleftrightarrow> (\<forall>p\<in>set (cd_Preconditions b). preHolds d p)"
    using canonicalConditionalBatch_Inr(1) [OF assms(2)] by (simp add: list_all_iff)
  show ?thesis
  proof (cases "\<forall>p\<in>set (cd_Preconditions b). preHolds d p")
    case True
    then obtain d' where "applyConditionalBatch c d b = Inr d'"
      using assms(2) pre by (auto simp: applyConditionalBatch_def)
    with True applyConditionalBatch_Inr [OF assms(1) this] show ?thesis by auto
  next
    case False
    then have "applyConditionalBatch c d b = Inl ErrRaftConditionalConflict"
      using assms(2) pre by (simp add: applyConditionalBatch_def)
    with False show ?thesis by auto
  qed
qed

definition sampleBatch :: "row option ConditionalBatch" where
  "sampleBatch = \<lparr>cd_Version = conditionalBatchVersion, cd_ExpectedRaftTerm = 0,
     cd_Preconditions = [expectAbsent plainCodec ''k2'', expectValue ''k1'' (Some (RText ''a''))],
     cd_Mutations = [setOp ''k2'' (Some (RText ''b'')), delOp plainCodec ''k1''],
     cd_PrefixReplacements = []\<rparr>"

lemma sampleBatch_canonical:
  "canonicalConditionalBatch plainCodec sampleBatch = Inr (sortedBatch sampleBatch)"
  by (simp add: canonicalConditionalBatch_def sampleBatch_def countLimits_def supportedVersion_def
      validateConditionalBatch_def preOK_def mutationOK_def validateConditionalKey_def
      conditionalBatchEncodedSize_def preSize_def opSize_def version_defs limit_defs less_char_def
      hasInodeAllocationPrecondition_def plainCodec_def)

theorem applyConditionalBatch_spec_witness:
  "\<exists>d'. applyConditionalBatch plainCodec [(''k1'', Some (RText ''a''))] sampleBatch = Inr d' \<and>
     dbGet d' ''k1'' = None \<and> dbGet d' ''k2'' = Some (Some (RText ''b''))"
proof -
  let ?d = "[(''k1'', Some (RText ''a''))]"
  have pre: "\<not> (\<exists>p\<in>set (cd_Preconditions sampleBatch). \<not> preHolds ?d p)"
    by (simp add: sampleBatch_def preHolds_def dbGet_def)
  have "batchSpec sampleBatch ?d ''k1'' = None"
    "batchSpec sampleBatch ?d ''k2'' = Some (Some (RText ''b''))"
    by (simp_all add: batchSpec_def sampleBatch_def opEffect_def)
  with applyConditionalBatch_spec [OF _ sampleBatch_canonical, of ?d] pre show ?thesis
    by (auto simp: wf_db_def)
qed

end
