(* ===== verification/Reference_Batch.thy ===== *)
theory Reference_Batch
  imports Conditional_Batch
begin

text \<open>
  Reference-aware batches (\<open>applyReferenceAwareBatch\<close> and \<open>prepareReferenceAwareBatchWithEpoch\<close> in
  \<open>pebble_store.go\<close>), the path of every unconditional write. Before a batch commits, each inode row
  it sets is compared with the row it replaces: a chunk that becomes referenced must have a chunk
  row and no tombstone, and a tombstoned chunk row cannot be rewritten. The check runs over an overlay of
  the batch's own writes. The lemmas show that the overlay makes the check of a batch equal to
  checking and applying its operations one by one, and what the check guarantees.
\<close>

section \<open>The check\<close>

text \<open>\<open>rd\<close> reads the raw value of a key through the overlay.\<close>

definition decodeNewInode :: "'v codec \<Rightarrow> 'v BatchOp \<Rightarrow> InodeMeta option result" where
  "decodeNewInode c op =
     (if bo_Delete op then Inr None
      else case Option.bind (unmarshalValue c (bo_Value op)) asInode of
             None \<Rightarrow> fail ''decode new inode''
           | Some m \<Rightarrow>
               if validateInodeKeyIdentity (bo_Key op) (i_ID m) then Inr (Some m)
               else fail ''inode key and value identities differ'')"

definition attachable :: "(string \<Rightarrow> 'v option) \<Rightarrow> ChunkID \<Rightarrow> bool" where
  "attachable rd i \<longleftrightarrow> rd (chunkMetadataKey i) \<noteq> None \<and> rd (chunkTombstoneKey i) = None"

definition checkReferenceOp :: "'v codec \<Rightarrow> (string \<Rightarrow> 'v option) \<Rightarrow> 'v BatchOp \<Rightarrow> unit result" where
  "checkReferenceOp c rd op =
     (let key = bo_Key op in
      if key = keyInodeReferenceEpoch then fail ''inode reference epoch is internal''
      else if isInodeMetadataKey key then
        (case decodeReferencedInode c key (rd key) of
           Inl e \<Rightarrow> Inl e
         | Inr old \<Rightarrow>
             (case decodeNewInode c op of
                Inl e \<Rightarrow> Inl e
              | Inr new \<Rightarrow>
                  if chunkMapsDiffer old new \<and>
                     \<not> list_all (attachable rd) (addedChunkReferences old new)
                  then fail ''chunk is unavailable for attachment''
                  else Inr ()))
      else if isChunkMetadataKey key \<and> \<not> bo_Delete op then
        (case parseChunkTombstoneKey key prefixChunk of
           None \<Rightarrow> fail ''invalid chunk tombstone key''
         | Some i \<Rightarrow> if rd (chunkTombstoneKey i) \<noteq> None then fail ''chunk is tombstoned'' else Inr ())
      else Inr ())"

definition readRaw :: "'v db \<Rightarrow> (string \<times> 'v option) list \<Rightarrow> string \<Rightarrow> 'v option" where
  "readRaw d overlay key = (case map_of overlay key of Some r \<Rightarrow> r | None \<Rightarrow> dbGet d key)"

fun prepareLoop :: "'v codec \<Rightarrow> 'v db \<Rightarrow> (string \<times> 'v option) list \<Rightarrow> 'v BatchOp list \<Rightarrow> unit result" where
  "prepareLoop c d overlay [] = Inr ()"
| "prepareLoop c d overlay (op # ops) =
     (case checkReferenceOp c (readRaw d overlay) op of
        Inl e \<Rightarrow> Inl e
      | Inr _ \<Rightarrow> prepareLoop c d (AList.update (bo_Key op) (opEffect op) overlay) ops)"

definition prepareReferenceAwareBatch :: "'v codec \<Rightarrow> 'v db \<Rightarrow> 'v BatchOp list \<Rightarrow> 'v BatchOp list result" where
  "prepareReferenceAwareBatch c d ops =
     (case prepareLoop c d [] ops of Inl e \<Rightarrow> Inl e | Inr _ \<Rightarrow> Inr ops)"

definition applyReferenceAwareBatch :: "'v codec \<Rightarrow> 'v db \<Rightarrow> 'v BatchOp list \<Rightarrow> 'v db result" where
  "applyReferenceAwareBatch c d ops =
     (case prepareReferenceAwareBatch c d ops of
        Inl e \<Rightarrow> Inl e
      | Inr prepared \<Rightarrow> Inr (commitBatch d prepared))"

section \<open>Steps that may fail\<close>

text \<open>
  The contract of a checked step function and what follows for a run of steps that stops at the
  first error. It is interpreted for single checked operations here and for the log of the state
  machine, and it is where batch invariants come from.
\<close>

fun runSteps :: "('s \<Rightarrow> 'op \<Rightarrow> 'e + 's) \<Rightarrow> 's \<Rightarrow> 'op list \<Rightarrow> 'e + 's" where
  "runSteps step s [] = Inr s"
| "runSteps step s (op # ops) = (case step s op of Inl e \<Rightarrow> Inl e | Inr s' \<Rightarrow> runSteps step s' ops)"

lemma runSteps_append:
  "runSteps step s (xs @ ys) = (case runSteps step s xs of Inl e \<Rightarrow> Inl e | Inr s' \<Rightarrow> runSteps step s' ys)"
  by (induction xs arbitrary: s) (auto split: sum.splits)

locale checked_steps =
  fixes step :: "'s \<Rightarrow> 'op \<Rightarrow> 'e + 's"
    and inv :: "'s \<Rightarrow> bool"
    and allowed :: "'op \<Rightarrow> bool"
  assumes step_inv: "inv s \<Longrightarrow> allowed op \<Longrightarrow> step s op = Inr s' \<Longrightarrow> inv s'"
begin

lemma run_inv: "inv s \<Longrightarrow> list_all allowed ops \<Longrightarrow> runSteps step s ops = Inr s' \<Longrightarrow> inv s'"
  by (induction ops arbitrary: s) (auto split: sum.splits intro: step_inv)

end

section \<open>Checking a batch is checking its operations in order\<close>

definition checkedApply :: "'v codec \<Rightarrow> 'v db \<Rightarrow> 'v BatchOp \<Rightarrow> 'v db result" where
  "checkedApply c d op =
     (case checkReferenceOp c (dbGet d) op of Inl e \<Rightarrow> Inl e | Inr _ \<Rightarrow> Inr (applyOp d op))"

lemma readRaw_update:
  "readRaw d (AList.update k e ov) k' = (if k' = k then e else readRaw d ov k')"
  by (simp add: readRaw_def)

lemma prepareLoop_sequential:
  assumes "readRaw d ov = dbGet d'"
  shows "(case prepareLoop c d ov ops of Inl e \<Rightarrow> Inl e | Inr _ \<Rightarrow> Inr (commitBatch d' ops))
           = runSteps (checkedApply c) d' ops"
  using assms
proof (induction ops arbitrary: ov d')
  case Nil
  then show ?case by simp
next
  case (Cons op ops)
  have "readRaw d (AList.update (bo_Key op) (opEffect op) ov) = dbGet (applyOp d' op)"
    using Cons.prems by (auto simp: readRaw_update fun_eq_iff)
  from Cons.IH [OF this] Cons.prems show ?case
    by (auto simp: checkedApply_def split: sum.splits)
qed

lemma applyReferenceAwareBatch_runSteps:
  "applyReferenceAwareBatch c d ops = runSteps (checkedApply c) d ops"
proof -
  have "readRaw d [] = dbGet d" by (simp add: readRaw_def fun_eq_iff)
  from prepareLoop_sequential [OF this, where c = c and ops = ops] show ?thesis
    by (simp add: applyReferenceAwareBatch_def prepareReferenceAwareBatch_def split: sum.splits)
qed

text \<open>
  C20. The reference check of a batch, which reads the batch's own earlier writes through an
  overlay and commits once at the end, accepts the same batches and produces the same store as
  checking and applying the operations one at a time; in particular a batch may be cut anywhere.
\<close>

theorem applyReferenceAwareBatch_append:
  "applyReferenceAwareBatch c d (xs @ ys) =
     (case applyReferenceAwareBatch c d xs of Inl e \<Rightarrow> Inl e | Inr d' \<Rightarrow> applyReferenceAwareBatch c d' ys)"
  by (auto simp: applyReferenceAwareBatch_runSteps runSteps_append split: sum.splits)

lemma applyReferenceAwareBatch_commit:
  "applyReferenceAwareBatch c d ops = Inr d' \<Longrightarrow> d' = commitBatch d ops"
  by (auto simp: applyReferenceAwareBatch_def prepareReferenceAwareBatch_def split: sum.splits)

lemma applyReferenceAwareBatch_wf:
  "wf_db d \<Longrightarrow> applyReferenceAwareBatch c d ops = Inr d' \<Longrightarrow> wf_db d'"
  using applyReferenceAwareBatch_commit [of c d ops d'] by auto

section \<open>What the check guarantees\<close>

text \<open>The chunks that the V1 inode rows of a store reference.\<close>

definition inodeRefs :: "'v codec \<Rightarrow> 'v db \<Rightarrow> InodeID \<Rightarrow> ChunkID set" where
  "inodeRefs c d ino =
     (case Option.bind (Option.bind (dbGet d (inodeKey ino)) (unmarshalValue c)) asInode of
        None \<Rightarrow> {}
      | Some m \<Rightarrow> cr_ID ` set (i_ChunkMap m))"

definition chunkRefs :: "'v codec \<Rightarrow> 'v db \<Rightarrow> ChunkID set" where
  "chunkRefs c d = (\<Union>ino. inodeRefs c d ino)"

lemma set_addedChunkReferences:
  "set (addedChunkReferences old new) =
     (case new of None \<Rightarrow> {} | Some n \<Rightarrow> cr_ID ` set (i_ChunkMap n) -
        (case old of None \<Rightarrow> {} | Some m \<Rightarrow> cr_ID ` set (i_ChunkMap m)))"
  by (cases old; cases new) auto

lemma decodeReferencedInode_refs:
  "decodeReferencedInode c (inodeKey ino) (dbGet d (inodeKey ino)) = Inr old \<Longrightarrow>
     inodeRefs c d ino = (case old of None \<Rightarrow> {} | Some m \<Rightarrow> cr_ID ` set (i_ChunkMap m))"
  by (auto simp: decodeReferencedInode_def inodeRefs_def fail_def split: option.splits if_splits)

lemma decodeNewInode_refs:
  "decodeNewInode c op = Inr new \<Longrightarrow> bo_Key op = inodeKey ino \<Longrightarrow>
     inodeRefs c (applyOp d op) ino = (case new of None \<Rightarrow> {} | Some m \<Rightarrow> cr_ID ` set (i_ChunkMap m))"
  by (auto simp: decodeNewInode_def inodeRefs_def fail_def opEffect_def split: option.splits if_splits)

lemma chunkMapsDiffer_added: "\<not> chunkMapsDiffer old new \<Longrightarrow> addedChunkReferences old new = []"
  by (cases old; cases new) auto

lemma inodeKey_not_epoch [simp]: "inodeKey i \<noteq> keyInodeReferenceEpoch"
  by (simp add: key_defs)

lemma checkedApply_refs:
  assumes "checkedApply c d op = Inr d'"
  shows "i \<in> inodeRefs c d' ino \<Longrightarrow> i \<in> inodeRefs c d ino \<or> attachable (dbGet d) i"
proof (cases "bo_Key op = inodeKey ino")
  case True
  assume mem: "i \<in> inodeRefs c d' ino"
  have d': "d' = applyOp d op" and ok: "checkReferenceOp c (dbGet d) op = Inr ()"
    using assms by (auto simp: checkedApply_def split: sum.splits)
  from ok True obtain old new
    where old: "decodeReferencedInode c (inodeKey ino) (dbGet d (inodeKey ino)) = Inr old"
      and new: "decodeNewInode c op = Inr new"
      and att: "chunkMapsDiffer old new \<longrightarrow> list_all (attachable (dbGet d)) (addedChunkReferences old new)"
    by (auto simp: checkReferenceOp_def Let_def fail_def split: sum.splits if_splits)
  have "\<forall>j\<in>set (addedChunkReferences old new). attachable (dbGet d) j"
    using att chunkMapsDiffer_added [of old new] by (auto simp: list_all_iff)
  then show ?thesis
    using mem decodeReferencedInode_refs [OF old] decodeNewInode_refs [OF new True]
    by (auto simp: set_addedChunkReferences d' split: option.splits)
next
  case False
  assume "i \<in> inodeRefs c d' ino"
  moreover have "d' = applyOp d op" using assms by (auto simp: checkedApply_def split: sum.splits)
  ultimately show ?thesis using False by (simp add: inodeRefs_def)
qed

lemma attachable_tombstone: "dbGet d (chunkTombstoneKey i) \<noteq> None \<Longrightarrow> \<not> attachable (dbGet d) i"
  by (simp add: attachable_def)

lemma checkedApply_get:
  "checkedApply c d op = Inr d' \<Longrightarrow> dbGet d' k = (if k = bo_Key op then opEffect op else dbGet d k)"
  by (auto simp: checkedApply_def split: sum.splits)

lemma prefix_chunkMetadataKey: "prefix prefixChunk (chunkMetadataKey i)"
  by (simp add: chunkMetadataKey_def)

definition deletesChunkRow :: "'v BatchOp \<Rightarrow> bool" where
  "deletesChunkRow op \<longleftrightarrow> bo_Delete op \<and> prefix prefixChunk (bo_Key op)"

definition refsBacked :: "'v codec \<Rightarrow> 'v db \<Rightarrow> bool" where
  "refsBacked c d \<longleftrightarrow> (\<forall>i\<in>chunkRefs c d. dbGet d (chunkMetadataKey i) \<noteq> None)"

interpretation tombstoned: checked_steps "checkedApply c"
  "\<lambda>d. dbGet d (chunkTombstoneKey i) \<noteq> None \<and> i \<notin> chunkRefs c d" "\<lambda>op. bo_Key op \<noteq> chunkTombstoneKey i"
  for c :: "'v codec" and i
proof unfold_locales
  fix d d' :: "'v db" and op
  assume inv: "dbGet d (chunkTombstoneKey i) \<noteq> None \<and> i \<notin> chunkRefs c d"
    and key: "bo_Key op \<noteq> chunkTombstoneKey i" and step: "checkedApply c d op = Inr d'"
  have "dbGet d' (chunkTombstoneKey i) \<noteq> None"
    using inv key checkedApply_get [OF step] by auto
  moreover have "i \<notin> inodeRefs c d' ino" for ino
    using checkedApply_refs [OF step, of i ino] inv attachable_tombstone [of d i]
    by (auto simp: chunkRefs_def)
  ultimately show "dbGet d' (chunkTombstoneKey i) \<noteq> None \<and> i \<notin> chunkRefs c d'"
    by (auto simp: chunkRefs_def)
qed

interpretation backed: checked_steps "checkedApply c" "refsBacked c" "\<lambda>op. \<not> deletesChunkRow op"
  for c :: "'v codec"
proof unfold_locales
  fix d d' :: "'v db" and op
  assume inv: "refsBacked c d" and nd: "\<not> deletesChunkRow op" and step: "checkedApply c d op = Inr d'"
  have keep: "dbGet d' (chunkMetadataKey i) \<noteq> None" if "dbGet d (chunkMetadataKey i) \<noteq> None" for i
    using that nd checkedApply_get [OF step, of "chunkMetadataKey i"] prefix_chunkMetadataKey [of i]
    by (auto simp: deletesChunkRow_def opEffect_def split: if_splits)
  show "refsBacked c d'"
    using checkedApply_refs [OF step] inv keep
    by (fastforce simp: refsBacked_def chunkRefs_def attachable_def)
qed


text \<open>
  C7. Accepted batches create no dangling references: if every referenced chunk has a chunk row,
  that is still so after any accepted batch that deletes no chunk row.
\<close>

theorem references_stay_backed:
  assumes "applyReferenceAwareBatch c d ops = Inr d'" and "refsBacked c d"
    and "\<forall>op\<in>set ops. \<not> deletesChunkRow op"
  shows "refsBacked c d'"
  by (rule backed.run_inv [of c d ops])
    (use assms in \<open>simp_all add: applyReferenceAwareBatch_runSteps list_all_iff\<close>)

section \<open>A store on which the guarantees apply\<close>

definition sampleInode :: "InodeID \<Rightarrow> ChunkRef list \<Rightarrow> InodeMeta" where
  "sampleInode i cm = \<lparr>i_ID = i, i_Type = FileRegular, i_Size = 0, i_NLink = 1, i_BucketRoot = 1,
     i_UID = 0, i_GID = 0, i_Mode = 420, i_CTime = 0, i_MTime = 0, i_ATime = 0, i_Rdev = 0,
     i_ChunkMap = cm, i_Symlink = [], i_XAttrs = []\<rparr>"

definition sampleRef :: "ChunkID \<Rightarrow> ChunkRef" where
  "sampleRef i = \<lparr>cr_ID = i, cr_Offset = 0, cr_Length = 10, cr_Version = 1\<rparr>"

definition sampleChunk :: "ChunkID \<Rightarrow> ChunkMeta" where
  "sampleChunk i = \<lparr>c_ID = i, c_Size = 10, c_State = ChunkReady, c_Replicas = [], c_ECGroup = None,
     c_Tier = StorageTierAny, c_CreateTime = 0, c_Checksum = 0, c_PGID = 0, c_Epoch = 0,
     c_Generation = 0, c_ECStripeID = []\<rparr>"

definition sampleTombstone :: "ChunkID \<Rightarrow> ChunkTombstone" where
  "sampleTombstone i = \<lparr>t_ChunkID = i, t_Replicas = [], t_Size = 10, t_Reason = ''gc'', t_DeletedAt = 0,
     t_DeleteAfter = chunkTombstoneQuarantine\<rparr>"

definition sampleStore :: "row option db" where
  "sampleStore = [(chunkMetadataKey 7, Some (RChunk (sampleChunk 7))),
     (chunkMetadataKey 8, Some (RChunk (sampleChunk 8))),
     (chunkTombstoneKey 8, Some (RTombstone (sampleTombstone 8))),
     (inodeKey 2, Some (RInode (sampleInode 2 [])))]"

definition attachOp :: "ChunkID \<Rightarrow> row option BatchOp" where
  "attachOp i = setOp (inodeKey 2) (Some (RInode (sampleInode 2 [sampleRef i])))"

lemma sampleStore_refs: "chunkRefs plainCodec sampleStore = {}"
  by (auto simp: chunkRefs_def inodeRefs_def sampleStore_def dbGet_def sampleInode_def)

lemma attach_live:
  "applyReferenceAwareBatch plainCodec sampleStore [attachOp 7] = Inr (commitBatch sampleStore [attachOp 7])"
  by (simp add: applyReferenceAwareBatch_runSteps checkedApply_def checkReferenceOp_def attachOp_def
      sampleStore_def dbGet_def decodeReferencedInode_def decodeNewInode_def sampleInode_def sampleRef_def
      validateInodeKeyIdentity_iff attachable_def)

lemma attach_tombstoned_refused:
  "applyReferenceAwareBatch plainCodec sampleStore [attachOp 8] = fail ''chunk is unavailable for attachment''"
  by (simp add: applyReferenceAwareBatch_runSteps checkedApply_def checkReferenceOp_def attachOp_def
      sampleStore_def dbGet_def decodeReferencedInode_def decodeNewInode_def sampleInode_def sampleRef_def
      validateInodeKeyIdentity_iff attachable_def fail_def)


theorem references_stay_backed_witness:
  "refsBacked plainCodec (commitBatch sampleStore [attachOp 7])"
  using references_stay_backed [OF attach_live]
  by (simp add: refsBacked_def sampleStore_refs deletesChunkRow_def attachOp_def)

end
