(* ===== verification/Raft_Log.thy ===== *)
theory Raft_Log
  imports Reference_Batch
begin

text \<open>
  The binary format of raft log entries and the state machine that applies them (\<open>pebble_raft.go\<close>).
  Values are byte strings here. Reader functions take the unread bytes and return a value with the
  bytes after it, or \<^const>\<open>None\<close> for every read error of the source. The locale \<open>wire_format\<close> is the
  contract between one writer and its reader, interpreted for every item of the format; the
  theorems are that encoding and decoding an entry gives its canonical form back, and that applying
  an encoded entry is applying the operation itself.
\<close>

section \<open>Integers and byte strings\<close>

definition writeUint32 :: "nat \<Rightarrow> bytes" where
  "writeUint32 n = [char_of (n div 2 ^ 24), char_of (n div 2 ^ 16), char_of (n div 2 ^ 8), char_of n]"

definition writeUint64 :: "u64 \<Rightarrow> bytes" where
  "writeUint64 w = writeUint32 (unat w div 2 ^ 32) @ writeUint32 (unat w)"

definition writeBytes :: "bytes \<Rightarrow> bytes" where
  "writeBytes b = writeUint32 (length b) @ b"

definition readFull :: "nat \<Rightarrow> bytes \<Rightarrow> (bytes \<times> bytes) option" where
  "readFull n r = (if length r < n then None else Some (take n r, drop n r))"

definition readByte :: "bytes \<Rightarrow> (nat \<times> bytes) option" where
  "readByte r = (case r of [] \<Rightarrow> None | b # bs \<Rightarrow> Some (of_char b, bs))"

definition beVal :: "bytes \<Rightarrow> nat" where
  "beVal bs = foldl (\<lambda>a b. 256 * a + of_char b) 0 bs"

definition readUint32 :: "bytes \<Rightarrow> (nat \<times> bytes) option" where
  "readUint32 r = map_option (\<lambda>(b, rest). (beVal b, rest)) (readFull 4 r)"

definition readUint64 :: "bytes \<Rightarrow> (u64 \<times> bytes) option" where
  "readUint64 r = map_option (\<lambda>(b, rest). (of_nat (beVal b), rest)) (readFull 8 r)"

definition readBytes :: "bytes \<Rightarrow> (bytes \<times> bytes) option" where
  "readBytes r = Option.bind (readUint32 r) (\<lambda>(n, rest). readFull n rest)"

definition readBoundedBytes :: "nat \<Rightarrow> bytes \<Rightarrow> (bytes \<times> bytes) option" where
  "readBoundedBytes maximum r =
     Option.bind (readUint32 r) (\<lambda>(n, rest).
       if maximum < n then None else if length rest < n then None else readFull n rest)"

definition readBoundedCount :: "nat \<Rightarrow> bytes \<Rightarrow> (nat \<times> bytes) option" where
  "readBoundedCount maximum r =
     Option.bind (readUint32 r) (\<lambda>(n, rest). if maximum < n then None else Some (n, rest))"

fun readMany :: "(bytes \<Rightarrow> ('a \<times> bytes) option) \<Rightarrow> nat \<Rightarrow> bytes \<Rightarrow> ('a list \<times> bytes) option" where
  "readMany rd 0 r = Some ([], r)"
| "readMany rd (Suc n) r =
     Option.bind (rd r) (\<lambda>(x, r'). map_option (\<lambda>(xs, r''). (x # xs, r'')) (readMany rd n r'))"

section \<open>Items of a batch\<close>

definition writeBatchOp :: "bytes BatchOp \<Rightarrow> bytes" where
  "writeBatchOp op =
     (if bo_Delete op then char_of (1 :: nat) # writeBytes (bo_Key op)
      else char_of (0 :: nat) # writeBytes (bo_Key op) @ writeBytes (bo_Value op))"

definition readBatchOp :: "(bytes \<Rightarrow> (bytes \<times> bytes) option) \<Rightarrow> (bytes \<Rightarrow> (bytes \<times> bytes) option)
    \<Rightarrow> bytes \<Rightarrow> (bytes BatchOp \<times> bytes) option" where
  "readBatchOp readKey readVal r =
     Option.bind (readByte r) (\<lambda>(kind, r1).
       if 1 < kind then None
       else Option.bind (readKey r1) (\<lambda>(key, r2).
         if kind = 1 then Some (\<lparr>bo_Delete = True, bo_Key = key, bo_Value = []\<rparr>, r2)
         else map_option (\<lambda>(v, r3). (\<lparr>bo_Delete = False, bo_Key = key, bo_Value = v\<rparr>, r3)) (readVal r2)))"

definition writePrecondition :: "bytes ConditionalPrecondition \<Rightarrow> bytes" where
  "writePrecondition p =
     (if cp_ExpectAbsent p then char_of (1 :: nat) # writeBytes (cp_Key p)
      else char_of (0 :: nat) # writeBytes (cp_Key p) @ writeBytes (cp_ExpectedValue p))"

definition readPrecondition :: "bytes \<Rightarrow> (bytes ConditionalPrecondition \<times> bytes) option" where
  "readPrecondition r =
     Option.bind (readByte r) (\<lambda>(kind, r1).
       if 1 < kind then None
       else Option.bind (readBoundedBytes maxConditionalKeyBytes r1) (\<lambda>(key, r2).
         if kind = 1 then Some (\<lparr>cp_Key = key, cp_ExpectedValue = [], cp_ExpectAbsent = True\<rparr>, r2)
         else map_option (\<lambda>(v, r3). (\<lparr>cp_Key = key, cp_ExpectedValue = v, cp_ExpectAbsent = False\<rparr>, r3))
                (readBoundedBytes maxConditionalValueBytes r2)))"

definition writeSet :: "bytes BatchOp \<Rightarrow> bytes" where
  "writeSet st = writeBytes (bo_Key st) @ writeBytes (bo_Value st)"

definition readSet :: "bytes \<Rightarrow> (bytes BatchOp \<times> bytes) option" where
  "readSet r =
     Option.bind (readBoundedBytes maxConditionalKeyBytes r) (\<lambda>(key, r1).
       map_option (\<lambda>(v, r2). (\<lparr>bo_Delete = False, bo_Key = key, bo_Value = v\<rparr>, r2))
         (readBoundedBytes maxConditionalValueBytes r1))"

definition writeReplacement :: "bytes ConditionalPrefixReplacement \<Rightarrow> bytes" where
  "writeReplacement p =
     writeBytes (pr_Prefix p) @ writeUint32 (length (pr_Sets p)) @ concat (map writeSet (pr_Sets p))"

definition readReplacement :: "bytes \<Rightarrow> (bytes ConditionalPrefixReplacement \<times> bytes) option" where
  "readReplacement r =
     Option.bind (readBoundedBytes maxConditionalKeyBytes r) (\<lambda>(p, r1).
       Option.bind (readBoundedCount maxConditionalReplacementSets r1) (\<lambda>(n, r2).
         map_option (\<lambda>(sets, r3). (\<lparr>pr_Prefix = p, pr_Sets = sets\<rparr>, r3)) (readMany readSet n r2)))"

section \<open>Entries\<close>

definition OpSet :: u8 where "OpSet = 1"
definition OpDelete :: u8 where "OpDelete = 2"
definition OpBatch :: u8 where "OpBatch = 3"
definition OpCAS :: u8 where "OpCAS = 4"
definition OpConditionalBatch :: u8 where "OpConditionalBatch = 5"

lemmas op_defs = OpSet_def OpDelete_def OpBatch_def OpCAS_def OpConditionalBatch_def

record RaftLogEntry =
  e_Op :: u8
  e_Key :: bytes
  e_Value :: bytes
  e_Batch :: "bytes BatchOp list"
  e_Conditional :: "bytes ConditionalBatch option"

definition opByte :: "u8 \<Rightarrow> char" where
  "opByte op = char_of (unat op)"

definition writeConditional :: "bytes ConditionalBatch \<Rightarrow> bytes" where
  "writeConditional b =
     opByte (cd_Version b) #
     (if cd_Version b = conditionalBatchTermFencedVersion then writeUint64 (cd_ExpectedRaftTerm b) else []) @
     writeUint32 (length (cd_Preconditions b)) @ concat (map writePrecondition (cd_Preconditions b)) @
     writeUint32 (length (cd_Mutations b)) @ concat (map writeBatchOp (cd_Mutations b)) @
     writeUint32 (length (cd_PrefixReplacements b)) @ concat (map writeReplacement (cd_PrefixReplacements b))"

definition EncodeChecked :: "bytes codec \<Rightarrow> RaftLogEntry \<Rightarrow> bytes result" where
  "EncodeChecked c e =
     (if e_Op e = OpSet \<or> e_Op e = OpCAS
      then Inr (opByte (e_Op e) # writeBytes (e_Key e) @ writeBytes (e_Value e))
      else if e_Op e = OpDelete then Inr (opByte (e_Op e) # writeBytes (e_Key e))
      else if e_Op e = OpBatch
      then Inr (opByte (e_Op e) # writeUint32 (length (e_Batch e)) @ concat (map writeBatchOp (e_Batch e)))
      else if e_Op e = OpConditionalBatch
      then (case e_Conditional e of
              None \<Rightarrow> fail ''conditional batch is required''
            | Some b \<Rightarrow>
                (case canonicalConditionalBatch c b of
                   Inl err \<Rightarrow> Inl err
                 | Inr canon \<Rightarrow>
                     let data = opByte (e_Op e) # writeConditional canon in
                     if maxRaftLogEntryBytes < length data then fail ''raft log entry too large''
                     else Inr data))
      else fail ''unknown op type'')"

definition readConditionalBody :: "u8 \<Rightarrow> u64 \<Rightarrow> bytes \<Rightarrow> (bytes ConditionalBatch \<times> bytes) option" where
  "readConditionalBody v term r1 =
     (let preLimit = (if v = chunkTombstoneFencedBatchVersion then 2 + 2 * MaxChunkAllocationBatch
                      else maxConditionalPreconditions);
          mutLimit = (if v = chunkTombstoneFencedBatchVersion then 2 + MaxChunkAllocationBatch
                      else maxConditionalMutations)
      in Option.bind (readBoundedCount preLimit r1) (\<lambda>(np, r2).
         Option.bind (readMany readPrecondition np r2) (\<lambda>(pres, r3).
         Option.bind (readBoundedCount mutLimit r3) (\<lambda>(nm, r4).
         Option.bind (readMany (readBatchOp (readBoundedBytes maxConditionalKeyBytes)
                                  (readBoundedBytes maxConditionalValueBytes)) nm r4) (\<lambda>(muts, r5).
         Option.bind (readBoundedCount maxConditionalPrefixReplacements r5) (\<lambda>(nr, r6).
         map_option (\<lambda>(reps, r7).
           (\<lparr>cd_Version = v, cd_ExpectedRaftTerm = term, cd_Preconditions = pres, cd_Mutations = muts,
             cd_PrefixReplacements = reps\<rparr>, r7))
           (readMany readReplacement nr r6)))))))"

definition decodeConditionalBatch :: "bytes codec \<Rightarrow> bytes \<Rightarrow> (bytes ConditionalBatch \<times> bytes) option" where
  "decodeConditionalBatch c r =
     Option.bind (readByte r) (\<lambda>(vb, r1).
       let v = of_nat vb :: u8 in
       if \<not> supportedVersion v then None
       else Option.bind (if v = conditionalBatchTermFencedVersion then readUint64 r1 else Some (0, r1))
         (\<lambda>(term, r2). Option.bind (readConditionalBody v term r2) (\<lambda>(b, r3).
            case canonicalConditionalBatch c b of Inl _ \<Rightarrow> None | Inr canon \<Rightarrow> Some (canon, r3))))"

definition emptyEntry :: "u8 \<Rightarrow> RaftLogEntry" where
  "emptyEntry op = \<lparr>e_Op = op, e_Key = [], e_Value = [], e_Batch = [], e_Conditional = None\<rparr>"

definition decodeBody :: "bytes codec \<Rightarrow> u8 \<Rightarrow> bytes \<Rightarrow> (RaftLogEntry \<times> bytes) option" where
  "decodeBody c op r =
     (if op = OpSet \<or> op = OpCAS
      then Option.bind (readBytes r) (\<lambda>(k, r1).
             map_option (\<lambda>(v, r2). ((emptyEntry op)\<lparr>e_Key := k, e_Value := v\<rparr>, r2)) (readBytes r1))
      else if op = OpDelete
      then map_option (\<lambda>(k, r1). ((emptyEntry op)\<lparr>e_Key := k\<rparr>, r1)) (readBytes r)
      else if op = OpBatch
      then Option.bind (readUint32 r) (\<lambda>(n, r1).
             if length r1 div 5 < n then None
             else map_option (\<lambda>(ops, r2). ((emptyEntry op)\<lparr>e_Batch := ops\<rparr>, r2))
                    (readMany (readBatchOp readBytes readBytes) n r1))
      else if op = OpConditionalBatch
      then map_option (\<lambda>(b, r1). ((emptyEntry op)\<lparr>e_Conditional := Some b\<rparr>, r1)) (decodeConditionalBatch c r)
      else None)"

definition DecodeRaftLogEntry :: "bytes codec \<Rightarrow> bytes \<Rightarrow> RaftLogEntry result" where
  "DecodeRaftLogEntry c data =
     (case readByte data of
        None \<Rightarrow> fail ''empty raft log entry''
      | Some (ob, r) \<Rightarrow>
          let op = of_nat ob :: u8 in
          if op = OpConditionalBatch \<and> maxRaftLogEntryBytes < length data then fail ''raft log entry too large''
          else case decodeBody c op r of
                 None \<Rightarrow> fail ''malformed raft log entry''
               | Some (e, rest) \<Rightarrow> if rest \<noteq> [] then fail ''trailing bytes'' else Inr e)"

section \<open>Writers and their readers\<close>

locale wire_format =
  fixes wr :: "'a \<Rightarrow> bytes"
    and rd :: "bytes \<Rightarrow> ('a \<times> bytes) option"
    and norm :: "'a \<Rightarrow> 'a"
    and ok :: "'a \<Rightarrow> bool"
  assumes read_write: "ok x \<Longrightarrow> rd (wr x @ r) = Some (norm x, r)"
begin

lemma readMany_write:
  "list_all ok xs \<Longrightarrow> readMany rd (length xs) (concat (map wr xs) @ r) = Some (map norm xs, r)"
  by (induction xs) (auto simp: read_write)

end

lemma length_writeUint32 [simp]: "length (writeUint32 n) = 4"
  by (simp add: writeUint32_def)

lemma beVal_writeUint32: "beVal (writeUint32 n) = n mod 2 ^ 32"
proof -
  have "n mod (256 * (256 * (256 * 256))) =
      256 * (256 * (256 * (n div 256 div 256 div 256 mod 256) + n div 256 div 256 mod 256) + n div 256 mod 256) + n mod 256"
    by (simp only: mod_mult2_eq)
  then show ?thesis
    by (simp add: beVal_def writeUint32_def of_char_of div_mult2_eq [symmetric])
qed

lemma readFull_append [simp]: "n = length x \<Longrightarrow> readFull n (x @ r) = Some (x, r)"
  by (simp add: readFull_def)

lemma readUint32_write: "readUint32 (writeUint32 n @ r) = Some (n mod 2 ^ 32, r)"
  by (simp add: readUint32_def beVal_writeUint32)

lemma beVal_append: "beVal (xs @ ys) = beVal xs * 256 ^ length ys + beVal ys"
proof (induction ys rule: rev_induct)
  case Nil
  then show ?case by (simp add: beVal_def)
next
  case (snoc y ys)
  have "beVal (zs @ [y]) = 256 * beVal zs + of_char y" for zs by (simp add: beVal_def)
  then show ?case using snoc by (simp add: algebra_simps flip: append_assoc)
qed

lemma readUint64_write: "readUint64 (writeUint64 w @ r) = Some (w, r)"
proof -
  have lt: "unat w < 2 ^ 64" using unsigned_less [of w] by simp
  have "beVal (writeUint64 w) = (unat w div 2 ^ 32 mod 2 ^ 32) * 2 ^ 32 + unat w mod 2 ^ 32"
    by (simp add: writeUint64_def beVal_append beVal_writeUint32)
  also have "unat w div 2 ^ 32 mod 2 ^ 32 = unat w div 2 ^ 32"
    using lt by (simp add: div_less_iff_less_mult)
  finally have "beVal (writeUint64 w) = unat w" by simp
  moreover have "length (writeUint64 w) = 8" by (simp add: writeUint64_def)
  ultimately show ?thesis by (simp add: readUint64_def)
qed

lemma readByte_Cons [simp]: "readByte (b # r) = Some (of_char b, r)"
  by (simp add: readByte_def)

interpretation plainBytes: wire_format writeBytes readBytes id "\<lambda>b. length b < 2 ^ 32"
  by unfold_locales (simp add: readBytes_def writeBytes_def readUint32_write)

interpretation boundedBytes: wire_format writeBytes "readBoundedBytes m" id
    "\<lambda>b. length b \<le> m \<and> length b < 2 ^ 32" for m
  by unfold_locales (simp add: readBoundedBytes_def writeBytes_def readUint32_write)

lemma readBoundedCount_write:
  "n \<le> m \<Longrightarrow> n < 2 ^ 32 \<Longrightarrow> readBoundedCount m (writeUint32 n @ r) = Some (n, r)"
  by (simp add: readBoundedCount_def readUint32_write)

text \<open>A delete carries no value on the wire.\<close>

definition wireOp :: "bytes BatchOp \<Rightarrow> bytes BatchOp" where
  "wireOp op = (if bo_Delete op then op\<lparr>bo_Value := []\<rparr> else op)"

interpretation plainOps: wire_format writeBatchOp "readBatchOp readBytes readBytes" wireOp
    "\<lambda>op. length (bo_Key op) < 2 ^ 32 \<and> length (bo_Value op) < 2 ^ 32"
  by (unfold_locales, case_tac x, simp add: readBatchOp_def writeBatchOp_def wireOp_def plainBytes.read_write)

lemma small_lt_4G:
  "n \<le> maxConditionalKeyBytes \<Longrightarrow> n < 4294967296" "n \<le> maxConditionalValueBytes \<Longrightarrow> n < 4294967296"
  by (simp_all add: limit_defs)

interpretation mutations: wire_format writeBatchOp
    "readBatchOp (readBoundedBytes maxConditionalKeyBytes) (readBoundedBytes maxConditionalValueBytes)" wireOp
    "\<lambda>op. length (bo_Key op) \<le> maxConditionalKeyBytes \<and> length (bo_Value op) \<le> maxConditionalValueBytes"
  by (unfold_locales, case_tac x, simp add: readBatchOp_def writeBatchOp_def wireOp_def boundedBytes.read_write small_lt_4G)

interpretation preconditions: wire_format writePrecondition readPrecondition id
    "\<lambda>p. length (cp_Key p) \<le> maxConditionalKeyBytes \<and> length (cp_ExpectedValue p) \<le> maxConditionalValueBytes \<and>
         (cp_ExpectAbsent p \<longrightarrow> cp_ExpectedValue p = [])"
  by (unfold_locales, case_tac x, simp add: readPrecondition_def writePrecondition_def boundedBytes.read_write small_lt_4G)

interpretation replacementSets: wire_format writeSet readSet id
    "\<lambda>st. length (bo_Key st) \<le> maxConditionalKeyBytes \<and> length (bo_Value st) \<le> maxConditionalValueBytes \<and>
          \<not> bo_Delete st"
  by (unfold_locales, case_tac x, simp add: readSet_def writeSet_def boundedBytes.read_write small_lt_4G)

interpretation replacements: wire_format writeReplacement readReplacement id
    "\<lambda>p. length (pr_Prefix p) \<le> maxConditionalKeyBytes \<and> length (pr_Sets p) \<le> maxConditionalReplacementSets \<and>
         list_all (\<lambda>st. length (bo_Key st) \<le> maxConditionalKeyBytes \<and>
           length (bo_Value st) \<le> maxConditionalValueBytes \<and> \<not> bo_Delete st) (pr_Sets p)"
  by (unfold_locales, case_tac x, simp add: readReplacement_def writeReplacement_def boundedBytes.read_write small_lt_4G
      readBoundedCount_write replacementSets.readMany_write limit_defs)

section \<open>Round trip\<close>

definition wireCodec :: "bytes codec \<Rightarrow> bool" where
  "wireCodec c \<longleftrightarrow> vlen c = length \<and> vempty c = []"

text \<open>The part of an entry that its operation puts on the wire, with batches in canonical form.\<close>

definition wireEntry :: "bytes codec \<Rightarrow> RaftLogEntry \<Rightarrow> RaftLogEntry" where
  "wireEntry c e =
     (if e_Op e = OpSet \<or> e_Op e = OpCAS then (emptyEntry (e_Op e))\<lparr>e_Key := e_Key e, e_Value := e_Value e\<rparr>
      else if e_Op e = OpDelete then (emptyEntry (e_Op e))\<lparr>e_Key := e_Key e\<rparr>
      else if e_Op e = OpBatch then (emptyEntry (e_Op e))\<lparr>e_Batch := map wireOp (e_Batch e)\<rparr>
      else (emptyEntry (e_Op e))\<lparr>e_Conditional := map_option sortedBatch (e_Conditional e)\<rparr>)"

definition entryFits :: "RaftLogEntry \<Rightarrow> bool" where
  "entryFits e \<longleftrightarrow> length (e_Key e) < 2 ^ 32 \<and> length (e_Value e) < 2 ^ 32 \<and> length (e_Batch e) < 2 ^ 32 \<and>
     list_all (\<lambda>op. length (bo_Key op) < 2 ^ 32 \<and> length (bo_Value op) < 2 ^ 32) (e_Batch e)"

lemma validate_wire:
  assumes "wireCodec c" and valid: "validateConditionalBatch c b"
  shows "list_all (\<lambda>p. length (cp_Key p) \<le> maxConditionalKeyBytes \<and>
        length (cp_ExpectedValue p) \<le> maxConditionalValueBytes \<and>
        (cp_ExpectAbsent p \<longrightarrow> cp_ExpectedValue p = [])) (cd_Preconditions b)"
    and "list_all (\<lambda>op. length (bo_Key op) \<le> maxConditionalKeyBytes \<and>
        length (bo_Value op) \<le> maxConditionalValueBytes) (cd_Mutations b)"
    and "map wireOp (cd_Mutations b) = cd_Mutations b"
    and "list_all (\<lambda>p. length (pr_Prefix p) \<le> maxConditionalKeyBytes \<and>
        length (pr_Sets p) \<le> maxConditionalReplacementSets \<and>
        list_all (\<lambda>st. length (bo_Key st) \<le> maxConditionalKeyBytes \<and>
          length (bo_Value st) \<le> maxConditionalValueBytes \<and> \<not> bo_Delete st) (pr_Sets p)) (cd_PrefixReplacements b)"
proof -
  note v = valid [unfolded validateConditionalBatch_def] and w = assms(1) [unfolded wireCodec_def]
  show "list_all (\<lambda>p. length (cp_Key p) \<le> maxConditionalKeyBytes \<and>
        length (cp_ExpectedValue p) \<le> maxConditionalValueBytes \<and>
        (cp_ExpectAbsent p \<longrightarrow> cp_ExpectedValue p = [])) (cd_Preconditions b)"
    using v w by (auto simp: list_all_iff preOK_def validateConditionalKey_def split: if_splits)
  show "list_all (\<lambda>op. length (bo_Key op) \<le> maxConditionalKeyBytes \<and>
        length (bo_Value op) \<le> maxConditionalValueBytes) (cd_Mutations b)"
    using v w by (auto simp: list_all_iff mutationOK_def validateConditionalKey_def split: if_splits)
  have "wireOp m = m" if "m \<in> set (cd_Mutations b)" for m
    using v w that by (cases m) (auto simp: list_all_iff mutationOK_def wireOp_def split: if_splits)
  then show "map wireOp (cd_Mutations b) = cd_Mutations b" by (simp add: map_idI)
  have "length prefixBackupCatalog \<le> maxConditionalKeyBytes"
    by (simp add: prefixBackupCatalog_def limit_defs)
  then show "list_all (\<lambda>p. length (pr_Prefix p) \<le> maxConditionalKeyBytes \<and>
        length (pr_Sets p) \<le> maxConditionalReplacementSets \<and>
        list_all (\<lambda>st. length (bo_Key st) \<le> maxConditionalKeyBytes \<and>
          length (bo_Value st) \<le> maxConditionalValueBytes \<and> \<not> bo_Delete st) (pr_Sets p)) (cd_PrefixReplacements b)"
    using v w
    by (auto simp: list_all_iff replacementOK_def validateConditionalReplacementPrefix_def validateConditionalKey_def)
qed

lemma fenced_shape:
  assumes "validateConditionalBatch c b" "cd_Version b = chunkTombstoneFencedBatchVersion"
    and "\<not> hasInodeAllocationPrecondition (cd_Preconditions b)"
  shows "length (cd_Preconditions b) \<le> 4" "length (cd_Mutations b) \<le> 2"
  using assms
  by (auto simp: validateConditionalBatch_def validateChunkTombstoneFencedBatch_def split: if_splits)

lemma canonical_counts:
  assumes "canonicalConditionalBatch c b = Inr canon" and v: "v = cd_Version canon"
  shows "length (cd_Preconditions canon) \<le>
      (if v = chunkTombstoneFencedBatchVersion then 2 + 2 * MaxChunkAllocationBatch else maxConditionalPreconditions)"
    and "length (cd_Mutations canon) \<le>
      (if v = chunkTombstoneFencedBatchVersion then 2 + MaxChunkAllocationBatch else maxConditionalMutations)"
    and "length (cd_PrefixReplacements canon) \<le> maxConditionalPrefixReplacements"
proof -
  note cn = canonicalConditionalBatch_Inr [OF assms(1)]
  have fenced: "length (cd_Preconditions b) \<le> 4 \<and> length (cd_Mutations b) \<le> 2"
    if "cd_Version b = chunkTombstoneFencedBatchVersion" "\<not> hasInodeAllocationPrecondition (cd_Preconditions b)"
    using fenced_shape [OF cn(2)] that by simp
  show "length (cd_Preconditions canon) \<le>
      (if v = chunkTombstoneFencedBatchVersion then 2 + 2 * MaxChunkAllocationBatch else maxConditionalPreconditions)"
    using cn(1,4) v fenced by (auto simp: countLimits_def MaxChunkAllocationBatch_def split: if_splits)
  show "length (cd_Mutations canon) \<le>
      (if v = chunkTombstoneFencedBatchVersion then 2 + MaxChunkAllocationBatch else maxConditionalMutations)"
    using cn(1,5) v fenced by (auto simp: countLimits_def MaxChunkAllocationBatch_def split: if_splits)
  show "length (cd_PrefixReplacements canon) \<le> maxConditionalPrefixReplacements"
    using cn(1,6) by simp
qed

lemma unfenced_term:
  "validateConditionalBatch c b \<Longrightarrow> cd_Version b \<noteq> conditionalBatchTermFencedVersion \<Longrightarrow> cd_ExpectedRaftTerm b = 0"
  by (auto simp: validateConditionalBatch_def supportedVersion_def
      validateChunkTombstoneConditionalBatch_def validateChunkTombstoneFencedBatch_def)

lemma of_nat_opByte [simp]: "of_nat (of_char (opByte v)) = v"
proof -
  have "unat v < 256" using unsigned_less [of v] by simp
  then show ?thesis by (simp add: opByte_def)
qed

lemma readConditionalBody_write:
  assumes w: "wireCodec c" and canon: "canonicalConditionalBatch c b0 = Inr b"
  shows "readConditionalBody (cd_Version b) (cd_ExpectedRaftTerm b)
     (writeUint32 (length (cd_Preconditions b)) @ concat (map writePrecondition (cd_Preconditions b)) @
      writeUint32 (length (cd_Mutations b)) @ concat (map writeBatchOp (cd_Mutations b)) @
      writeUint32 (length (cd_PrefixReplacements b)) @ concat (map writeReplacement (cd_PrefixReplacements b)) @ r)
    = Some (b, r)"
proof -
  have valid: "validateConditionalBatch c b"
    using canonicalConditionalBatch_Inr [OF canon] by simp
  note counts = canonical_counts [OF canon refl] and vw = validate_wire [OF w valid]
  have lt: "length (cd_Preconditions b) < 2 ^ 32" "length (cd_Mutations b) < 2 ^ 32"
    "length (cd_PrefixReplacements b) < 2 ^ 32"
    using counts by (auto simp: limit_defs split: if_splits)
  show ?thesis
    unfolding readConditionalBody_def Let_def
    by (simp add: readBoundedCount_write [OF counts(1) lt(1)] readBoundedCount_write [OF counts(2) lt(2)]
        readBoundedCount_write [OF counts(3) lt(3)] preconditions.readMany_write [OF vw(1)]
        mutations.readMany_write [OF vw(2)] vw(3) replacements.readMany_write [OF vw(4)] del: power_numeral)
qed

lemma decodeConditionalBatch_write:
  assumes w: "wireCodec c" and canon: "canonicalConditionalBatch c b0 = Inr b"
  shows "decodeConditionalBatch c (writeConditional b @ r) = Some (b, r)"
proof -
  have valid: "validateConditionalBatch c b" and sup: "supportedVersion (cd_Version b)"
    using canonicalConditionalBatch_Inr [OF canon] by simp_all
  show ?thesis
    using readConditionalBody_write [OF w canon, of r] canonicalConditionalBatch_idem [OF canon] sup
      unfenced_term [OF valid]
    by (cases "cd_Version b = conditionalBatchTermFencedVersion")
      (simp_all add: decodeConditionalBatch_def writeConditional_def readUint64_write Let_def)
qed

lemma length_writeBatchOps: "5 * length ops \<le> length (concat (map writeBatchOp ops))"
  by (induction ops) (auto simp: writeBatchOp_def writeBytes_def)

lemma decodeBody_write:
  assumes w: "wireCodec c" and fits: "entryFits e" and enc: "EncodeChecked c e = Inr data"
  shows "\<exists>body. data = opByte (e_Op e) # body \<and> decodeBody c (e_Op e) body = Some (wireEntry c e, []) \<and>
     (e_Op e = OpConditionalBatch \<longrightarrow> length data \<le> maxRaftLogEntryBytes)"
proof -
  note fit = fits [unfolded entryFits_def]
  have bytes: "readBytes (writeBytes b @ r) = Some (b, r)" if "length b < 2 ^ 32" for b r
    using plainBytes.read_write [of b r] that by simp
  have bytes': "readBytes (writeBytes b) = Some (b, [])" if "length b < 2 ^ 32" for b
    using bytes [of b "[]"] that by simp
  consider (set) "e_Op e = OpSet \<or> e_Op e = OpCAS" | (del) "e_Op e = OpDelete" | (batch) "e_Op e = OpBatch"
    | (cond) "e_Op e = OpConditionalBatch"
    using enc by (auto simp: EncodeChecked_def fail_def split: if_splits)
  then show ?thesis
  proof cases
    case set
    then show ?thesis using enc fit bytes bytes'
      by (auto simp: EncodeChecked_def decodeBody_def wireEntry_def op_defs)
  next
    case del
    then show ?thesis using enc fit bytes'
      by (auto simp: EncodeChecked_def decodeBody_def wireEntry_def op_defs)
  next
    case batch
    have "readMany (readBatchOp readBytes readBytes) (length (e_Batch e)) (concat (map writeBatchOp (e_Batch e)))
        = Some (map wireOp (e_Batch e), [])"
      using plainOps.readMany_write [of "e_Batch e" "[]"] fit by simp
    moreover have "\<not> length (concat (map writeBatchOp (e_Batch e))) div 5 < length (e_Batch e)"
      using length_writeBatchOps [of "e_Batch e"] by simp
    ultimately show ?thesis using batch enc fit
      by (auto simp: EncodeChecked_def decodeBody_def wireEntry_def op_defs readUint32_write)
  next
    case cond
    then obtain b canon where b: "e_Conditional e = Some b" and cn: "canonicalConditionalBatch c b = Inr canon"
      and data: "data = opByte (e_Op e) # writeConditional canon" "\<not> maxRaftLogEntryBytes < length data"
      using enc by (auto simp: EncodeChecked_def op_defs Let_def fail_def split: option.splits sum.splits if_splits)
    moreover have "canon = sortedBatch b" using canonicalConditionalBatch_Inr(1) [OF cn] .
    ultimately show ?thesis
      using decodeConditionalBatch_write [OF w cn, of "[]"] cond
      by (auto simp: decodeBody_def wireEntry_def op_defs)
  qed
qed

lemma Decode_Encode_aux:
  assumes "wireCodec c" and "entryFits e" and "EncodeChecked c e = Inr data"
  shows "DecodeRaftLogEntry c data = Inr (wireEntry c e)"
  using decodeBody_write [OF assms] by (auto simp: DecodeRaftLogEntry_def Let_def)

text \<open>
  C8. Every entry that can be encoded decodes to itself: \<open>DecodeRaftLogEntry\<close> accepts the bytes of
  \<open>EncodeChecked\<close> and returns the fields its operation uses, with a conditional batch in its
  canonical order. The only condition on the entry is that its keys, values and batch have lengths
  below $2^{32}$, which the length prefixes of the format presuppose; for a conditional batch the
  validated limits imply it.
\<close>

theorem Decode_Encode:
  assumes "wireCodec c" and "entryFits e" and "EncodeChecked c e = Inr data"
  shows "DecodeRaftLogEntry c data = Inr (wireEntry c e)"
  by (rule Decode_Encode_aux [OF assms])

definition byteCodec :: "bytes codec" where
  "byteCodec = \<lparr>vlen = length, vempty = [], firstByte = hd, msgpackMarshal = (\<lambda>_. []),
     msgpackUnmarshal = (\<lambda>_. None), jsonUnmarshal = (\<lambda>_. None)\<rparr>"

definition sampleEntry :: RaftLogEntry where
  "sampleEntry = (emptyEntry OpBatch)\<lparr>e_Batch :=
     [setOp ''/node/1'' ''up'', delOp byteCodec ''/node/2'']\<rparr>"

theorem Decode_Encode_witness:
  "\<exists>data. EncodeChecked byteCodec sampleEntry = Inr data \<and> length data = 35 \<and>
     DecodeRaftLogEntry byteCodec data = Inr sampleEntry"
proof -
  have enc: "\<exists>data. EncodeChecked byteCodec sampleEntry = Inr data \<and> length data = 35"
    by (simp add: EncodeChecked_def sampleEntry_def emptyEntry_def op_defs writeBatchOp_def writeBytes_def)
  have "wireEntry byteCodec sampleEntry = sampleEntry"
    by (simp add: wireEntry_def sampleEntry_def emptyEntry_def op_defs wireOp_def setOp_def delOp_def byteCodec_def)
  moreover have "wireCodec byteCodec" "entryFits sampleEntry"
    by (simp_all add: wireCodec_def byteCodec_def entryFits_def sampleEntry_def emptyEntry_def)
  ultimately show ?thesis using enc Decode_Encode [of byteCodec sampleEntry] by auto
qed

section \<open>The state machine\<close>

text \<open>
  The durable state of \<open>PebbleFSM\<close>: the store and the watermarks of consumed and applied entries.
  A log carries an index, the term it was committed in, and the encoded entry. Cache invalidation is
  left to the theory of the inode cache.
\<close>

record raftLog =
  l_Index :: nat
  l_Term :: u64
  l_Data :: bytes

record fsm =
  f_db :: "bytes db"
  f_lastAppliedIndex :: nat
  f_lastAppliedTerm :: u64
  f_lastConsumedIndex :: nat
  f_inCache :: "(InodeID \<times> InodeMeta) list"

text \<open>The inode cache of the store loses the rows that an applied entry wrote. Conditional batches are not covered.\<close>

definition invalidateKey :: "string \<Rightarrow> (InodeID \<times> InodeMeta) list \<Rightarrow> (InodeID \<times> InodeMeta) list" where
  "invalidateKey key cache =
     (if \<not> validInodeMetadataKey key then cache
      else AList.delete (case ParseUint (TrimPrefix key prefixInode) of Some i \<Rightarrow> i | None \<Rightarrow> 0) cache)"

definition invalidateInodeCache :: "RaftLogEntry \<Rightarrow> (InodeID \<times> InodeMeta) list \<Rightarrow> (InodeID \<times> InodeMeta) list" where
  "invalidateInodeCache e cache =
     (if e_Op e \<in> {OpSet, OpDelete, OpCAS} then invalidateKey (e_Key e) cache
      else if e_Op e = OpBatch then fold (\<lambda>op. invalidateKey (bo_Key op)) (e_Batch e) cache
      else cache)"

definition asVersioned :: "row \<Rightarrow> (InodeMeta \<times> u64) option" where
  "asVersioned r =
     (case r of
        RInodeVer m v \<Rightarrow> Some (m, v)
      | _ \<Rightarrow> map_option (\<lambda>m. (m, 0)) (asInode r))"

definition applyCAS :: "bytes codec \<Rightarrow> bytes db \<Rightarrow> bytes \<Rightarrow> bytes \<Rightarrow> bytes db result" where
  "applyCAS c d key val =
     (if length val < 8 then fail ''value too short''
      else case dbGet d key of
             None \<Rightarrow> fail ''not found''
           | Some current \<Rightarrow>
               (case Option.bind (unmarshalValue c current) asVersioned of
                  None \<Rightarrow> fail ''unmarshal''
                | Some (m, ver) \<Rightarrow>
                    if ver \<noteq> of_nat (beVal (take 8 val)) then Inl ErrVersionConflict
                    else applyReferenceAwareBatch c d [setOp key (drop 8 val)]))"

definition applyEntry :: "bytes codec \<Rightarrow> bytes db \<Rightarrow> u64 \<Rightarrow> RaftLogEntry \<Rightarrow> bytes db result" where
  "applyEntry c d term e =
     (if e_Op e = OpSet then applyReferenceAwareBatch c d [setOp (e_Key e) (e_Value e)]
      else if e_Op e = OpDelete then applyReferenceAwareBatch c d [delOp c (e_Key e)]
      else if e_Op e = OpBatch then applyReferenceAwareBatch c d (e_Batch e)
      else if e_Op e = OpConditionalBatch
      then (case e_Conditional e of
              None \<Rightarrow> fail ''conditional batch is required''
            | Some b \<Rightarrow>
                if cd_ExpectedRaftTerm b \<noteq> 0 \<and> cd_ExpectedRaftTerm b \<noteq> term
                then Inl ErrRaftConditionalConflict
                else applyConditionalBatch c d b)
      else if e_Op e = OpCAS then applyCAS c d (e_Key e) (e_Value e)
      else Inr d)"

definition Apply :: "bytes codec \<Rightarrow> fsm \<Rightarrow> raftLog \<Rightarrow> unit result \<times> fsm" where
  "Apply c f l =
     (let consumed = f\<lparr>f_lastConsumedIndex := l_Index l\<rparr>;
          applied = (\<lambda>d. consumed\<lparr>f_db := d, f_lastAppliedIndex := l_Index l, f_lastAppliedTerm := l_Term l\<rparr>)
      in if l_Data l = [] then (Inr (), applied (f_db f))
         else case DecodeRaftLogEntry c (l_Data l) of
                Inl err \<Rightarrow> (Inl err, consumed)
              | Inr e \<Rightarrow>
                  (case applyEntry c (f_db f) (l_Term l) e of
                     Inl err \<Rightarrow> (Inl err, consumed)
                   | Inr d \<Rightarrow> (Inr (), (applied d)\<lparr>f_inCache := invalidateInodeCache e (f_inCache f)\<rparr>)))"

lemma wireOp_simps [simp]:
  "bo_Key (wireOp op) = bo_Key op" "bo_Delete (wireOp op) = bo_Delete op"
  "opEffect (wireOp op) = opEffect op"
  by (simp_all add: wireOp_def opEffect_def)

lemma applyOp_wireOp [simp]: "applyOp d (wireOp op) = applyOp d op"
  by (simp add: applyOp_def wireOp_def)

lemma decodeNewInode_wireOp [simp]: "decodeNewInode c (wireOp op) = decodeNewInode c op"
  by (simp add: decodeNewInode_def wireOp_def)

lemma checkedApply_wireOp [simp]: "checkedApply c d (wireOp op) = checkedApply c d op"
  unfolding checkedApply_def checkReferenceOp_def wireOp_simps decodeNewInode_wireOp applyOp_wireOp ..

lemma applyReferenceAwareBatch_wire:
  "applyReferenceAwareBatch c d (map wireOp ops) = applyReferenceAwareBatch c d ops"
proof -
  have "runSteps (checkedApply c) d (map wireOp ops) = runSteps (checkedApply c) d ops"
    by (induction ops arbitrary: d) (auto split: sum.splits)
  then show ?thesis by (simp add: applyReferenceAwareBatch_runSteps)
qed

lemma applyConditionalBatch_sorted:
  assumes "canonicalConditionalBatch c b = Inr canon"
  shows "applyConditionalBatch c d (sortedBatch b) = applyConditionalBatch c d b"
  using canonicalConditionalBatch_idem [OF assms] canonicalConditionalBatch_Inr(1) [OF assms] assms
  by (simp add: applyConditionalBatch_def)

lemma applyEntry_wire:
  assumes "EncodeChecked c e = Inr data"
  shows "applyEntry c d term (wireEntry c e) = applyEntry c d term e"
  using assms
  by (auto simp: applyEntry_def wireEntry_def emptyEntry_def op_defs applyReferenceAwareBatch_wire EncodeChecked_def
      applyConditionalBatch_sorted fail_def split: if_splits option.splits sum.splits)

lemma invalidate_wire:
  assumes "EncodeChecked c e = Inr data"
  shows "invalidateInodeCache (wireEntry c e) cache = invalidateInodeCache e cache"
  using assms
  by (auto simp: invalidateInodeCache_def wireEntry_def emptyEntry_def op_defs EncodeChecked_def fold_map comp_def
      fail_def split: if_splits option.splits sum.splits)

text \<open>
  C9. Replication is transparent. Applying the log entry that encodes an operation has, in every
  state of the machine, the effect of performing the operation directly on its store: an error
  leaves store and applied watermark alone and only advances the consumed watermark, a success
  installs the new store, advances both and drops the written inodes from the cache.
\<close>

theorem Apply_encoded:
  assumes "wireCodec c" and "entryFits e" and "EncodeChecked c e = Inr data"
  shows "Apply c f \<lparr>l_Index = n, l_Term = t, l_Data = data\<rparr> =
    (case applyEntry c (f_db f) t e of
       Inl err \<Rightarrow> (Inl err, f\<lparr>f_lastConsumedIndex := n\<rparr>)
     | Inr d \<Rightarrow> (Inr (), f\<lparr>f_db := d, f_lastAppliedIndex := n, f_lastAppliedTerm := t, f_lastConsumedIndex := n,
                    f_inCache := invalidateInodeCache e (f_inCache f)\<rparr>))"
proof -
  have "data \<noteq> []" using decodeBody_write [OF assms] by auto
  then show ?thesis
    using Decode_Encode_aux [OF assms] applyEntry_wire [OF assms(3)] invalidate_wire [OF assms(3)]
    by (simp add: Apply_def Let_def split: sum.splits)
qed

theorem Apply_encoded_witness:
  "\<exists>data. EncodeChecked byteCodec sampleEntry = Inr data \<and>
     dbGet (f_db (snd (Apply byteCodec \<lparr>f_db = [(''/node/2'', ''x'')], f_lastAppliedIndex = 4,
       f_lastAppliedTerm = 1, f_lastConsumedIndex = 4, f_inCache = []\<rparr> \<lparr>l_Index = 5, l_Term = 1, l_Data = data\<rparr>)))
     = [''/node/1'' \<mapsto> ''up'']"
proof -
  obtain data where enc: "EncodeChecked byteCodec sampleEntry = Inr data"
    by (simp add: EncodeChecked_def sampleEntry_def emptyEntry_def op_defs)
  have ok: "wireCodec byteCodec" "entryFits sampleEntry"
    by (simp_all add: wireCodec_def byteCodec_def entryFits_def sampleEntry_def emptyEntry_def)
  have ent: "applyEntry byteCodec [(''/node/2'', ''x'')] t sampleEntry = Inr [(''/node/1'', ''up'')]" for t
    by (simp add: applyEntry_def sampleEntry_def emptyEntry_def op_defs applyReferenceAwareBatch_runSteps
        checkedApply_def checkReferenceOp_def isInodeMetadataKey_def isChunkMetadataKey_def key_defs
        applyOp_def dbSet_def dbDelete_def)
  show ?thesis
    using Apply_encoded [OF ok enc] enc by (auto simp: ent dbGet_def fun_eq_iff)
qed

end
