(* ===== verification/Degradation.thy ===== *)
theory Degradation
  imports Nufs_Types
begin

text \<open>
  The degradation manager of the store (\<open>DegradationManager\<close> in \<open>pebble_store.go\<close>): counters of
  consecutive errors and the operational mode they drive. Every write path asks \<open>IsReadOnly\<close>
  first. Events are an inductive step relation; the invariants hold of every reachable manager.
\<close>

datatype DegradationState = DegStateNormal | DegStateReadOnly | DegStateDegraded | DegStateUnavailable

fun degLevel :: "DegradationState \<Rightarrow> nat" where
  "degLevel DegStateNormal = 0"
| "degLevel DegStateReadOnly = 1"
| "degLevel DegStateDegraded = 2"
| "degLevel DegStateUnavailable = 3"

text \<open>The modes are compared as the integers of their declaration.\<close>

instantiation DegradationState :: linorder
begin
definition less_eq_DegradationState :: "DegradationState \<Rightarrow> DegradationState \<Rightarrow> bool" where
  "less_eq_DegradationState a b \<longleftrightarrow> degLevel a \<le> degLevel b"
definition less_DegradationState :: "DegradationState \<Rightarrow> DegradationState \<Rightarrow> bool" where
  "less_DegradationState a b \<longleftrightarrow> degLevel a < degLevel b"
instance
proof
  fix a b :: DegradationState
  show "a \<le> b \<Longrightarrow> b \<le> a \<Longrightarrow> a = b"
    by (cases a; cases b) (simp_all add: less_eq_DegradationState_def)
qed (auto simp: less_eq_DegradationState_def less_DegradationState_def)
end

record DegradationManager =
  dm_state :: DegradationState
  dm_raftAvail :: bool
  dm_dbAvail :: bool
  dm_writeErrors :: int
  dm_readErrors :: int
  dm_raftErrors :: int
  dm_maxWriteErrors :: int
  dm_maxReadErrors :: int
  dm_maxRaftErrors :: int

definition NewDegradationManager :: DegradationManager where
  "NewDegradationManager = \<lparr>dm_state = DegStateNormal, dm_raftAvail = True, dm_dbAvail = True,
     dm_writeErrors = 0, dm_readErrors = 0, dm_raftErrors = 0,
     dm_maxWriteErrors = 10, dm_maxReadErrors = 20, dm_maxRaftErrors = 5\<rparr>"

definition IsReadOnly :: "DegradationManager \<Rightarrow> bool" where
  "IsReadOnly dm \<longleftrightarrow> DegStateReadOnly \<le> dm_state dm"

definition IsAvailable :: "DegradationManager \<Rightarrow> bool" where
  "IsAvailable dm \<longleftrightarrow> dm_state dm < DegStateUnavailable"

definition transition :: "DegradationManager \<Rightarrow> DegradationState \<Rightarrow> DegradationManager" where
  "transition dm target = (if dm_state dm = target then dm else dm\<lparr>dm_state := target\<rparr>)"

definition RecordWriteError :: "DegradationManager \<Rightarrow> DegradationManager" where
  "RecordWriteError dm =
     (let dm' = dm\<lparr>dm_writeErrors := dm_writeErrors dm + 1\<rparr> in
      if dm_maxWriteErrors dm \<le> dm_writeErrors dm' then transition dm' DegStateReadOnly else dm')"

definition RecordWriteSuccess :: "DegradationManager \<Rightarrow> DegradationManager" where
  "RecordWriteSuccess dm = dm\<lparr>dm_writeErrors := 0\<rparr>"

definition RecordReadError :: "DegradationManager \<Rightarrow> DegradationManager" where
  "RecordReadError dm =
     (let dm' = dm\<lparr>dm_readErrors := dm_readErrors dm + 1\<rparr> in
      if dm_maxReadErrors dm \<le> dm_readErrors dm' then transition dm' DegStateDegraded else dm')"

definition RecordReadSuccess :: "DegradationManager \<Rightarrow> DegradationManager" where
  "RecordReadSuccess dm = dm\<lparr>dm_readErrors := 0\<rparr>"

definition RecordRaftError :: "DegradationManager \<Rightarrow> DegradationManager" where
  "RecordRaftError dm =
     (let dm' = dm\<lparr>dm_raftErrors := dm_raftErrors dm + 1\<rparr> in
      if dm_maxRaftErrors dm \<le> dm_raftErrors dm'
      then transition (dm'\<lparr>dm_raftAvail := False\<rparr>) DegStateReadOnly else dm')"

definition RecordRaftSuccess :: "DegradationManager \<Rightarrow> DegradationManager" where
  "RecordRaftSuccess dm = dm\<lparr>dm_raftErrors := 0, dm_raftAvail := True\<rparr>"

definition Recover :: "DegradationManager \<Rightarrow> DegradationManager" where
  "Recover dm = transition (dm\<lparr>dm_writeErrors := 0, dm_readErrors := 0, dm_raftErrors := 0\<rparr>) DegStateNormal"

definition AttemptRecovery :: "DegradationManager \<Rightarrow> DegradationManager" where
  "AttemptRecovery dm =
     (if dm_state dm = DegStateUnavailable then dm
      else let dm' = dm\<lparr>dm_writeErrors := 0, dm_readErrors := 0, dm_raftErrors := 0,
                        dm_dbAvail := True, dm_raftAvail := True\<rparr>
           in if dm_state dm \<noteq> DegStateNormal then transition dm' DegStateNormal else dm')"

section \<open>Reachable managers\<close>

inductive degStep :: "DegradationManager \<Rightarrow> DegradationManager \<Rightarrow> bool" where
  writeError: "degStep dm (RecordWriteError dm)"
| writeSuccess: "degStep dm (RecordWriteSuccess dm)"
| readError: "degStep dm (RecordReadError dm)"
| readSuccess: "degStep dm (RecordReadSuccess dm)"
| raftError: "degStep dm (RecordRaftError dm)"
| raftSuccess: "degStep dm (RecordRaftSuccess dm)"
| recover: "degStep dm (Recover dm)"
| attempt: "degStep dm (AttemptRecovery dm)"

inductive_cases degStepE: "degStep dm dm'"

code_pred degStep .

definition deg_inv :: "DegradationManager \<Rightarrow> bool" where
  "deg_inv dm \<longleftrightarrow>
     dm_maxWriteErrors dm = 10 \<and> dm_maxReadErrors dm = 20 \<and> dm_maxRaftErrors dm = 5 \<and>
     0 \<le> dm_writeErrors dm \<and> 0 \<le> dm_readErrors dm \<and> 0 \<le> dm_raftErrors dm \<and>
     dm_state dm \<noteq> DegStateUnavailable \<and>
     (dm_state dm = DegStateNormal \<longrightarrow>
        dm_writeErrors dm < 10 \<and> dm_readErrors dm < 20 \<and> dm_raftErrors dm < 5)"

lemmas deg_defs =
  RecordWriteError_def RecordWriteSuccess_def RecordReadError_def RecordReadSuccess_def
  RecordRaftError_def RecordRaftSuccess_def Recover_def AttemptRecovery_def transition_def

lemma degStep_inv: "degStep dm dm' \<Longrightarrow> deg_inv dm \<Longrightarrow> deg_inv dm'"
  by (erule degStepE) (auto simp: deg_inv_def deg_defs Let_def)

lemma reachable_inv: "degStep\<^sup>*\<^sup>* NewDegradationManager dm \<Longrightarrow> deg_inv dm"
proof (induction rule: rtranclp_induct)
  case base
  then show ?case by (simp add: deg_inv_def NewDegradationManager_def)
next
  case (step dm dm')
  then show ?case by (blast intro: degStep_inv)
qed



end
