(* ===== verification/Meta_Store.thy ===== *)
theory Meta_Store
  imports Raft_Log Degradation
begin

text \<open>
  The state of \<open>PebbleStore\<close> and the write paths that its operations share
  (\<open>pebble_store.go\<close>): single puts and batches, inode number allocation with its free list, the
  guarded namespace batches and their retry, and bucket counters. A store without raft applies
  batches directly, which is the path modelled here; the theory of the raft log shows that the
  replicated path has the same effect. An operation takes the store and returns a result with the
  store it leaves behind; \<open>now\<close> is the clock reading of the operation.

  The inode cache is an LRU cache of a third-party package. It is an association list, and the
  parameter \<open>st_evict\<close> stands for the evictions it may make when an entry is added; the package
  promises that evicting only removes entries (\<open>evict_ok\<close>).
\<close>

section \<open>State\<close>

record 'v store =
  st_codec :: "'v codec"
  st_evict :: "(InodeID \<times> InodeMeta) list \<Rightarrow> (InodeID \<times> InodeMeta) list"
  st_db :: "'v db"
  st_closed :: bool
  st_deg :: DegradationManager
  st_useBucketStats :: bool
  st_inodeSeq :: u64
  st_inodeIDMaxInit :: bool
  st_freeList :: "InodeID list"
  st_inCache :: "(InodeID \<times> InodeMeta) list"
  st_bucketCache :: "(string \<times> BucketInfo) list"

definition evict_ok :: "'v store \<Rightarrow> bool" where
  "evict_ok s \<longleftrightarrow> (\<forall>al. map_of (st_evict s al) \<subseteq>\<^sub>m map_of al)"

definition RootInodeID :: InodeID where "RootInodeID = 1"
definition MaxNameLength :: nat where "MaxNameLength = 255"

definition storeGet :: "(row \<Rightarrow> 'a option) \<Rightarrow> 'v store \<Rightarrow> string \<Rightarrow> 'a option result" where
  "storeGet prj s key = getValue prj (st_codec s) (st_db s) key"

definition putRow :: "'v store \<Rightarrow> string \<Rightarrow> row \<Rightarrow> 'v BatchOp" where
  "putRow s key r = setOp key (marshalValue (st_codec s) r)"

definition dropRow :: "'v store \<Rightarrow> string \<Rightarrow> 'v BatchOp" where
  "dropRow s key = delOp (st_codec s) key"

section \<open>Unconditional writes\<close>

definition applyBatchViaRaft :: "'v store \<Rightarrow> 'v BatchOp list \<Rightarrow> unit result \<times> 'v store" where
  "applyBatchViaRaft s ops =
     (if ops = [] then (Inr (), s)
      else if IsReadOnly (st_deg s) then (Inl ErrServiceClosed, s)
      else case applyReferenceAwareBatch (st_codec s) (st_db s) ops of
             Inl e \<Rightarrow> (Inl e, s)
           | Inr d \<Rightarrow> (Inr (), s\<lparr>st_db := d\<rparr>))"

definition applyBatchMsgpack :: "'v store \<Rightarrow> (string \<times> row) list \<Rightarrow> string list \<Rightarrow> unit result \<times> 'v store" where
  "applyBatchMsgpack s ops deletes =
     applyBatchViaRaft s (map (\<lambda>(k, r). putRow s k r) ops @ map (dropRow s) deletes)"

definition applyViaRaft :: "'v store \<Rightarrow> 'v BatchOp \<Rightarrow> unit result \<times> 'v store" where
  "applyViaRaft s op =
     (if IsReadOnly (st_deg s) then (Inl ErrServiceClosed, s)
      else case applyReferenceAwareBatch (st_codec s) (st_db s) [op] of
             Inl e \<Rightarrow> (Inl e, s)
           | Inr d \<Rightarrow> (Inr (), s\<lparr>st_db := d\<rparr>))"

definition putMsgpack :: "'v store \<Rightarrow> string \<Rightarrow> row \<Rightarrow> unit result \<times> 'v store" where
  "putMsgpack s key r = applyViaRaft s (putRow s key r)"

definition deleteKey :: "'v store \<Rightarrow> string \<Rightarrow> unit result \<times> 'v store" where
  "deleteKey s key = applyViaRaft s (dropRow s key)"

section \<open>Inode numbers\<close>

definition maxInodeID :: "'v db \<Rightarrow> u64" where
  "maxInodeID d =
     foldl (\<lambda>m kv. case parseInodeKeyID (fst kv) of
                     Some i \<Rightarrow> if m < i then i else m
                   | None \<Rightarrow> m) 0 (scanPrefix d prefixInode)"

definition ensureInodeIDMax :: "'v store \<Rightarrow> 'v store" where
  "ensureInodeIDMax s =
     (if st_inodeIDMaxInit s then s
      else let m = maxInodeID (st_db s) in
           s\<lparr>st_inodeSeq := (if m \<le> st_inodeSeq s then st_inodeSeq s else m), st_inodeIDMaxInit := True\<rparr>)"

definition reseedInodeIDMax :: "'v store \<Rightarrow> 'v store" where
  "reseedInodeIDMax s = ensureInodeIDMax (s\<lparr>st_inodeIDMaxInit := False\<rparr>)"

definition nextInodeID :: "'v store \<Rightarrow> InodeID \<times> 'v store" where
  "nextInodeID s =
     (if st_freeList s \<noteq> []
      then (let i = last (st_freeList s); s' = s\<lparr>st_freeList := butlast (st_freeList s)\<rparr>
            in (i, snd (deleteKey s' (freeListKey i))))
      else (let s' = ensureInodeIDMax s; i = st_inodeSeq s' + 1
            in (i, s'\<lparr>st_inodeSeq := i\<rparr>)))"

definition releaseInodeID :: "'v store \<Rightarrow> InodeID \<Rightarrow> 'v store" where
  "releaseInodeID s i =
     (if i \<le> RootInodeID then s
      else if length (st_freeList s) < 65536
      then snd (putMsgpack (s\<lparr>st_freeList := st_freeList s @ [i]\<rparr>) (freeListKey i) (RInodeID i))
      else s)"

definition restoreFreeList :: "'v store \<Rightarrow> 'v store" where
  "restoreFreeList s =
     s\<lparr>st_freeList := st_freeList s @
        List.map_filter (\<lambda>kv. Option.bind (unmarshalValue (st_codec s) (snd kv)) asInodeID)
          (scanPrefix (st_db s) prefixFreeList)\<rparr>"

definition rootInode :: "int \<Rightarrow> InodeMeta" where
  "rootInode now = \<lparr>i_ID = RootInodeID, i_Type = FileDirectory, i_Size = 0, i_NLink = 2, i_BucketRoot = 0,
     i_UID = 0, i_GID = 0, i_Mode = 493, i_CTime = now, i_MTime = now, i_ATime = now, i_Rdev = 0,
     i_ChunkMap = [], i_Symlink = [], i_XAttrs = []\<rparr>"

definition initRootInode :: "'v store \<Rightarrow> int \<Rightarrow> unit result \<times> 'v store" where
  "initRootInode s now =
     (case dbGet (st_db s) (inodeKey RootInodeID) of
        Some _ \<Rightarrow> (Inr (), s)
      | None \<Rightarrow> putMsgpack s (inodeKey RootInodeID) (RInode (rootInode now)))"

section \<open>Guarded namespace batches\<close>

definition buildNamespaceConditionalWithInodeGuard ::
  "'v store \<Rightarrow> string \<Rightarrow> string \<Rightarrow> (string \<times> row) list \<Rightarrow> 'v ConditionalBatch" where
  "buildNamespaceConditionalWithInodeGuard s nk ik ops =
     \<lparr>cd_Version = conditionalBatchVersion, cd_ExpectedRaftTerm = 0,
      cd_Preconditions = [expectAbsent (st_codec s) nk, expectAbsent (st_codec s) ik],
      cd_Mutations = map (\<lambda>(k, r). putRow s k r) ops, cd_PrefixReplacements = []\<rparr>"

definition buildNamespaceConditionalOps ::
  "'v store \<Rightarrow> (string \<times> row) list \<Rightarrow> string list \<Rightarrow> 'v ConditionalPrecondition \<Rightarrow> 'v ConditionalBatch" where
  "buildNamespaceConditionalOps s ops deletes pre =
     \<lparr>cd_Version = conditionalBatchVersion, cd_ExpectedRaftTerm = 0, cd_Preconditions = [pre],
      cd_Mutations = map (\<lambda>(k, r). putRow s k r) ops @ map (dropRow s) deletes,
      cd_PrefixReplacements = []\<rparr>"

definition buildNamespaceConditional :: "'v store \<Rightarrow> string \<Rightarrow> (string \<times> row) list \<Rightarrow> 'v ConditionalBatch" where
  "buildNamespaceConditional s nk ops = buildNamespaceConditionalOps s ops [] (expectAbsent (st_codec s) nk)"

definition applyNamespaceConditional :: "'v store \<Rightarrow> 'v ConditionalBatch \<Rightarrow> Error \<Rightarrow> unit result \<times> 'v store" where
  "applyNamespaceConditional s b conflictErr =
     (if IsReadOnly (st_deg s) then (Inl ErrServiceClosed, s)
      else case applyConditionalBatch (st_codec s) (st_db s) b of
             Inl e \<Rightarrow> (Inl (if e = ErrRaftConditionalConflict then conflictErr else e), s)
           | Inr d \<Rightarrow> (Inr (), s\<lparr>st_db := d\<rparr>))"

text \<open>
  A create builds its batch from the current store, applies it, and after a conflict tries once
  more with a freshly seeded inode number. \<open>mk\<close> also returns the value the caller keeps.
\<close>

definition applyNamespaceCreate ::
  "'v store \<Rightarrow> Error \<Rightarrow> ('v store \<Rightarrow> ('v ConditionalBatch \<times> 'a) \<times> 'v store) \<Rightarrow> 'a result \<times> 'v store" where
  "applyNamespaceCreate s conflictErr mk =
     (let ((b, x), s1) = mk s in
      case applyNamespaceConditional s1 b conflictErr of
        (Inr _, s2) \<Rightarrow> (Inr x, s2)
      | (Inl e, s2) \<Rightarrow>
          if e \<noteq> conflictErr then (Inl e, s2)
          else let ((b', x'), s3) = mk (reseedInodeIDMax s2) in
               case applyNamespaceConditional s3 b' conflictErr of
                 (Inr _, s4) \<Rightarrow> (Inr x', s4)
               | (Inl e', s4) \<Rightarrow> (Inl e', s4))"

section \<open>Bucket counters\<close>

definition readBucketStats :: "'v store \<Rightarrow> InodeID \<Rightarrow> BucketUsage" where
  "readBucketStats s rootIno =
     (case storeGet asUsage s (bucketStatsKey rootIno) of
        Inr (Some u) \<Rightarrow> u
      | _ \<Rightarrow> \<lparr>bu_Name = [], bu_UsedBytes = 0, bu_Objects = 0\<rparr>)"

definition addBucketStatsOp :: "'v store \<Rightarrow> InodeID \<Rightarrow> int \<Rightarrow> int \<Rightarrow> (string \<times> row) list" where
  "addBucketStatsOp s rootIno deltaBytes deltaObjects =
     (if \<not> st_useBucketStats s \<or> rootIno = 0 then []
      else let u = readBucketStats s rootIno in
           [(bucketStatsKey rootIno, RUsage (u\<lparr>bu_UsedBytes := bu_UsedBytes u + deltaBytes,
                                              bu_Objects := bu_Objects u + deltaObjects\<rparr>))])"

definition getBucketRoot :: "'v store \<Rightarrow> InodeID \<Rightarrow> InodeID" where
  "getBucketRoot s parent =
     (case storeGet asInode s (inodeKey parent) of
        Inr (Some m) \<Rightarrow> i_BucketRoot m
      | _ \<Rightarrow> 0)"

section \<open>The inode cache\<close>

definition cacheGet :: "'v store \<Rightarrow> InodeID \<Rightarrow> InodeMeta option" where
  "cacheGet s i = map_of (st_inCache s) i"

definition cachePut :: "'v store \<Rightarrow> InodeID \<Rightarrow> InodeMeta \<Rightarrow> 'v store" where
  "cachePut s i m = s\<lparr>st_inCache := st_evict s (AList.update i m (st_inCache s))\<rparr>"

definition cacheDel :: "'v store \<Rightarrow> InodeID \<Rightarrow> 'v store" where
  "cacheDel s i = s\<lparr>st_inCache := AList.delete i (st_inCache s)\<rparr>"

end
