(* ===== verification/Namespace.thy ===== *)
theory Namespace
  imports Meta_Store
begin

text \<open>
  The namespace operations of the metadata store: buckets, directories, files and special nodes,
  hard and symbolic links, rename, inode reads through the cache, and extended attributes
  (\<open>pebble_store.go\<close>). Each operation is the whole handler on a store without raft. Metrics, events
  and the raft read index have no effect on the modelled state.
\<close>

section \<open>Creating entries\<close>

definition newInode :: "InodeID \<Rightarrow> FileType \<Rightarrow> u32 \<Rightarrow> u32 \<Rightarrow> InodeID \<Rightarrow> int \<Rightarrow> InodeMeta" where
  "newInode i ty mode nlink bucketRoot now =
     \<lparr>i_ID = i, i_Type = ty, i_Size = 0, i_NLink = nlink, i_BucketRoot = bucketRoot, i_UID = 0, i_GID = 0,
      i_Mode = mode, i_CTime = now, i_MTime = now, i_ATime = now, i_Rdev = 0, i_ChunkMap = [],
      i_Symlink = [], i_XAttrs = []\<rparr>"

text \<open>
  What \<open>CreateFile\<close>, \<open>CreateNode\<close> and \<open>Symlink\<close> share: mint an inode number, write the inode and
  the entry and the bucket counter in one guarded batch.
\<close>

definition mkEntryBatch ::
  "InodeID \<Rightarrow> string \<Rightarrow> InodeID \<Rightarrow> int \<Rightarrow> (InodeID \<Rightarrow> InodeMeta) \<Rightarrow> 'v store
     \<Rightarrow> ('v ConditionalBatch \<times> InodeMeta) \<times> 'v store" where
  "mkEntryBatch parent name bucketRoot deltaBytes mkMeta s =
     (let (i, s1) = nextInodeID s; meta = mkMeta i;
          entry = \<lparr>de_InodeID = i, de_Type = i_Type meta, de_Name = name\<rparr>;
          ops = [(inodeKey i, RInode meta), (nsKey parent name, REntry entry)]
                @ addBucketStatsOp s1 bucketRoot deltaBytes 1
      in ((buildNamespaceConditionalWithInodeGuard s1 (nsKey parent name) (inodeKey i) ops, meta), s1))"

definition CreateFile :: "'v store \<Rightarrow> InodeID \<Rightarrow> string \<Rightarrow> u32 \<Rightarrow> int \<Rightarrow> InodeMeta result \<times> 'v store" where
  "CreateFile s parent name mode now =
     (if st_closed s then (Inl ErrServiceClosed, s)
      else if MaxNameLength < length name then (Inl ErrNameTooLong, s)
      else let bucketRoot = getBucketRoot s parent in
           applyNamespaceCreate s ErrEntryExists
             (mkEntryBatch parent name bucketRoot 0 (\<lambda>i. newInode i FileRegular mode 1 bucketRoot now)))"

definition CreateNode ::
  "'v store \<Rightarrow> InodeID \<Rightarrow> string \<Rightarrow> FileType \<Rightarrow> u32 \<Rightarrow> u32 \<Rightarrow> int \<Rightarrow> InodeMeta result \<times> 'v store" where
  "CreateNode s parent name ftype mode rdev now =
     (if st_closed s then (Inl ErrServiceClosed, s)
      else if MaxNameLength < length name then (Inl ErrNameTooLong, s)
      else if ftype \<notin> {FileFIFO, FileCharDevice, FileBlockDevice, FileSocket}
      then (Inl (ErrMessage ''non-special type''), s)
      else let bucketRoot = getBucketRoot s parent in
           applyNamespaceCreate s ErrEntryExists
             (mkEntryBatch parent name bucketRoot 0
                (\<lambda>i. (newInode i ftype mode 1 bucketRoot now)\<lparr>i_Rdev := rdev\<rparr>)))"

definition Symlink :: "'v store \<Rightarrow> InodeID \<Rightarrow> string \<Rightarrow> string \<Rightarrow> int \<Rightarrow> InodeMeta result \<times> 'v store" where
  "Symlink s parent name target now =
     (if st_closed s then (Inl ErrServiceClosed, s)
      else let bucketRoot = getBucketRoot s parent in
           applyNamespaceCreate s ErrEntryExists
             (mkEntryBatch parent name bucketRoot (int (length target))
                (\<lambda>i. (newInode i FileSymlink 511 1 bucketRoot now)\<lparr>i_Symlink := target\<rparr>)))"

definition mkDirBatch ::
  "InodeID \<Rightarrow> string \<Rightarrow> u32 \<Rightarrow> int \<Rightarrow> 'v store \<Rightarrow> ('v ConditionalBatch \<times> InodeMeta) \<times> 'v store" where
  "mkDirBatch parent name mode now s =
     (let (i, s1) = nextInodeID s;
          entry = \<lparr>de_InodeID = i, de_Type = FileDirectory, de_Name = name\<rparr>
      in case storeGet asInode s1 (inodeKey parent) of
           Inr (Some p) \<Rightarrow>
             let meta = newInode i FileDirectory mode 2 (i_BucketRoot p) now;
                 p' = p\<lparr>i_NLink := i_NLink p + 1, i_MTime := now\<rparr>;
                 ops = [(inodeKey i, RInode meta), (nsKey parent name, REntry entry), (inodeKey parent, RInode p')]
             in ((buildNamespaceConditionalWithInodeGuard s1 (nsKey parent name) (inodeKey i) ops, meta), s1)
         | _ \<Rightarrow>
             let meta = newInode i FileDirectory mode 2 0 now;
                 ops = [(inodeKey i, RInode meta), (nsKey parent name, REntry entry)]
             in ((buildNamespaceConditionalWithInodeGuard s1 (nsKey parent name) (inodeKey i) ops, meta), s1))"

definition MkDir :: "'v store \<Rightarrow> InodeID \<Rightarrow> string \<Rightarrow> u32 \<Rightarrow> int \<Rightarrow> InodeMeta result \<times> 'v store" where
  "MkDir s parent name mode now =
     (if st_closed s then (Inl ErrServiceClosed, s)
      else if MaxNameLength < length name then (Inl ErrNameTooLong, s)
      else applyNamespaceCreate s ErrEntryExists (mkDirBatch parent name mode now))"

section \<open>Removing entries\<close>

definition RmDir :: "'v store \<Rightarrow> InodeID \<Rightarrow> string \<Rightarrow> int \<Rightarrow> unit result \<times> 'v store" where
  "RmDir s parent name now =
     (if st_closed s then (Inl ErrServiceClosed, s)
      else case storeGet asEntry s (nsKey parent name) of
             Inl e \<Rightarrow> (Inl e, s)
           | Inr None \<Rightarrow> (Inl ErrEntryNotFound, s)
           | Inr (Some entry) \<Rightarrow>
               if de_Type entry \<noteq> FileDirectory then (Inl ErrNotDirectory, s)
               else if scanPrefixWithLimit (st_db s) (nsPrefix (de_InodeID entry)) 1 \<noteq> [] then (Inl ErrDirNotEmpty, s)
               else case dbGet (st_db s) (nsKey parent name) of
                      None \<Rightarrow> (Inl ErrEntryNotFound, s)
                    | Some nsRaw \<Rightarrow>
                        let ops = (case storeGet asInode s (inodeKey parent) of
                                     Inr (Some p) \<Rightarrow>
                                       [(inodeKey parent,
                                         RInode (p\<lparr>i_MTime := now,
                                                   i_NLink := (if 0 < i_NLink p then i_NLink p - 1 else i_NLink p)\<rparr>))]
                                   | _ \<Rightarrow> []);
                            b = buildNamespaceConditionalOps s ops [inodeKey (de_InodeID entry), nsKey parent name]
                                  (expectValue (nsKey parent name) nsRaw)
                        in case applyNamespaceConditional s b ErrEntryNotFound of
                             (Inl e, s1) \<Rightarrow> (Inl e, s1)
                           | (Inr _, s1) \<Rightarrow> (Inr (), releaseInodeID s1 (de_InodeID entry)))"

text \<open>
  The link count is unsigned, so the comparison \<open>NLink <= 0\<close> of the source is a comparison with
  zero. The rewritten row keeps the inode model it was read in. The third component of
  \<open>unlinkPlan\<close> says that the inode goes, with the ID to release.
\<close>

definition unlinkPlan :: "'v store \<Rightarrow> InodeID \<Rightarrow> int \<Rightarrow> ((string \<times> row) list \<times> string list \<times> InodeID option) result" where
  "unlinkPlan s ino now =
     (case dbGet (st_db s) (inodeKey ino) of
        None \<Rightarrow> Inr ([], [], None)
      | Some raw \<Rightarrow>
          (case unmarshalValue (st_codec s) raw of
             None \<Rightarrow> fail ''unmarshal''
           | Some r \<Rightarrow>
               (case asInodeV2 r of
                  None \<Rightarrow> fail ''unmarshal''
                | Some v \<Rightarrow>
                    let v' = v\<lparr>v_NLink := v_NLink v - 1, v_MTime := now\<rparr> in
                    if v_NLink v' = 0
                    then Inr (addBucketStatsOp s (v_BucketRoot v) (- v_Size v) (- 1), [inodeKey ino], Some (v_ID v))
                    else if v_Layout v \<noteq> LayoutEmpty then Inr ([(inodeKey ino, RInodeV2 v')], [], None)
                    else (case asInode r of
                            None \<Rightarrow> fail ''unmarshal''
                          | Some m \<Rightarrow>
                              Inr ([(inodeKey ino, RInode (m\<lparr>i_NLink := v_NLink v', i_MTime := now\<rparr>))], [], None)))))"

definition Unlink :: "'v store \<Rightarrow> InodeID \<Rightarrow> string \<Rightarrow> int \<Rightarrow> unit result \<times> 'v store" where
  "Unlink s parent name now =
     (if st_closed s then (Inl ErrServiceClosed, s)
      else case storeGet asEntry s (nsKey parent name) of
             Inl e \<Rightarrow> (Inl e, s)
           | Inr None \<Rightarrow> (Inl ErrEntryNotFound, s)
           | Inr (Some entry) \<Rightarrow>
               if de_Type entry = FileDirectory then (Inl ErrNotFile, s)
               else case unlinkPlan s (de_InodeID entry) now of
                      Inl e \<Rightarrow> (Inl e, s)
                    | Inr (ops, dels, gone) \<Rightarrow>
                        (case dbGet (st_db s) (nsKey parent name) of
                           None \<Rightarrow> (Inl ErrEntryNotFound, s)
                         | Some nsRaw \<Rightarrow>
                             let b = buildNamespaceConditionalOps s ops (nsKey parent name # dels)
                                       (expectValue (nsKey parent name) nsRaw)
                             in case applyNamespaceConditional s b ErrEntryNotFound of
                                  (Inl e, s1) \<Rightarrow> (Inl e, s1)
                                | (Inr _, s1) \<Rightarrow>
                                    let s2 = (case gone of Some i \<Rightarrow> releaseInodeID s1 i | None \<Rightarrow> s1)
                                    in (Inr (), cacheDel s2 (de_InodeID entry))))"

section \<open>Reading inodes\<close>

definition Lookup :: "'v store \<Rightarrow> InodeID \<Rightarrow> string \<Rightarrow> InodeMeta result" where
  "Lookup s parent name =
     (if st_closed s then Inl ErrServiceClosed
      else case storeGet asEntry s (nsKey parent name) of
             Inl e \<Rightarrow> Inl e
           | Inr None \<Rightarrow> Inl ErrEntryNotFound
           | Inr (Some entry) \<Rightarrow>
               (case storeGet asInode s (inodeKey (de_InodeID entry)) of
                  Inl e \<Rightarrow> Inl e
                | Inr None \<Rightarrow> Inl ErrInodeNotFound
                | Inr (Some m) \<Rightarrow> Inr m))"

text \<open>The copy that goes into the cache is built field by field; the device number is not among them.\<close>

definition cachedCopy :: "InodeMeta \<Rightarrow> InodeMeta" where
  "cachedCopy m =
     \<lparr>i_ID = i_ID m, i_Type = i_Type m, i_Size = i_Size m, i_NLink = i_NLink m, i_BucketRoot = i_BucketRoot m,
      i_UID = i_UID m, i_GID = i_GID m, i_Mode = i_Mode m, i_CTime = i_CTime m, i_MTime = i_MTime m,
      i_ATime = i_ATime m, i_Rdev = 0, i_ChunkMap = i_ChunkMap m, i_Symlink = i_Symlink m,
      i_XAttrs = i_XAttrs m\<rparr>"

definition GetInode :: "'v store \<Rightarrow> InodeID \<Rightarrow> InodeMeta result \<times> 'v store" where
  "GetInode s i =
     (if st_closed s then (Inl ErrServiceClosed, s)
      else case cacheGet s i of
             Some m \<Rightarrow> (Inr m, s)
           | None \<Rightarrow>
               (case storeGet asInode s (inodeKey i) of
                  Inl e \<Rightarrow> (Inl e, s)
                | Inr None \<Rightarrow> (Inl ErrInodeNotFound, s)
                | Inr (Some m) \<Rightarrow> (Inr m, cachePut s i (cachedCopy m))))"

definition Readlink :: "'v store \<Rightarrow> InodeID \<Rightarrow> string result" where
  "Readlink s i =
     (if st_closed s then Inl ErrServiceClosed
      else case storeGet asInode s (inodeKey i) of
             Inl e \<Rightarrow> Inl e
           | Inr None \<Rightarrow> Inl ErrInodeNotFound
           | Inr (Some m) \<Rightarrow> if i_Type m \<noteq> FileSymlink then Inl ErrNotSymlink else Inr (i_Symlink m))"

section \<open>Updating inodes\<close>

definition overlayV2 :: "InodeMetaV2 \<Rightarrow> InodeMeta \<Rightarrow> InodeMetaV2" where
  "overlayV2 v m = v\<lparr>v_Size := i_Size m, v_NLink := i_NLink m, v_BucketRoot := i_BucketRoot m,
     v_UID := i_UID m, v_GID := i_GID m, v_Mode := i_Mode m, v_MTime := i_MTime m, v_ATime := i_ATime m,
     v_Symlink := i_Symlink m, v_XAttrs := i_XAttrs m, v_CTime := i_CTime m\<rparr>"

definition updatePlan :: "'v store \<Rightarrow> InodeMeta \<Rightarrow> (string \<times> row) list result" where
  "updatePlan s m =
     (case dbGet (st_db s) (inodeKey (i_ID m)) of
        None \<Rightarrow> Inr [(inodeKey (i_ID m), RInode m)]
      | Some raw \<Rightarrow>
          (case Option.bind (unmarshalValue (st_codec s) raw) asInodeV2 of
             None \<Rightarrow> fail ''unmarshal''
           | Some v \<Rightarrow>
               if v_Layout v \<noteq> LayoutEmpty
               then (if i_ChunkMap m \<noteq> [] then Inl ErrInodeModelMismatch
                     else Inr (addBucketStatsOp s (i_BucketRoot m) (i_Size m - v_Size v) 0
                               @ [(inodeKey (i_ID m), RInodeV2 (overlayV2 v m))]))
               else Inr (addBucketStatsOp s (v_BucketRoot v) (i_Size m - v_Size v) 0
                         @ [(inodeKey (i_ID m), RInode m)])))"

definition UpdateInode :: "'v store \<Rightarrow> InodeMeta \<Rightarrow> int \<Rightarrow> unit result \<times> 'v store" where
  "UpdateInode s m0 now =
     (if st_closed s then (Inl ErrServiceClosed, s)
      else let m = m0\<lparr>i_CTime := now\<rparr> in
           case updatePlan s m of
             Inl e \<Rightarrow> (Inl e, s)
           | Inr ops \<Rightarrow>
               (case applyBatchMsgpack s ops [] of
                  (Inl e, s1) \<Rightarrow> (Inl e, s1)
                | (Inr _, s1) \<Rightarrow> (Inr (), cacheDel s1 (i_ID m))))"

section \<open>Links and rename\<close>

definition linkRow :: "row \<Rightarrow> int \<Rightarrow> (row \<times> FileType \<times> InodeMeta) result" where
  "linkRow r now =
     (case (asInodeV2 r, asInode r) of
        (Some v, Some m) \<Rightarrow>
          if v_Type v = FileDirectory then Inl ErrInvalidArgument
          else let m' = m\<lparr>i_NLink := v_NLink v + 1, i_CTime := now\<rparr> in
               Inr (if v_Layout v \<noteq> LayoutEmpty then RInodeV2 (v\<lparr>v_NLink := v_NLink v + 1, v_CTime := now\<rparr>)
                    else RInode m',
                    v_Type v, m')
      | _ \<Rightarrow> fail ''unmarshal'')"

definition Link :: "'v store \<Rightarrow> InodeID \<Rightarrow> string \<Rightarrow> InodeID \<Rightarrow> int \<Rightarrow> InodeMeta result \<times> 'v store" where
  "Link s parent name target now =
     (if st_closed s then (Inl ErrServiceClosed, s)
      else case dbGet (st_db s) (inodeKey target) of
             None \<Rightarrow> (Inl ErrInodeNotFound, s)
           | Some raw \<Rightarrow>
               (case unmarshalValue (st_codec s) raw of
                  None \<Rightarrow> (fail ''unmarshal'', s)
                | Some r \<Rightarrow>
                    (case linkRow r now of
                       Inl e \<Rightarrow> (Inl e, s)
                     | Inr (r', ty, m') \<Rightarrow>
                         let entry = \<lparr>de_InodeID = target, de_Type = ty, de_Name = name\<rparr>;
                             b = buildNamespaceConditional s (nsKey parent name)
                                   [(inodeKey target, r'), (nsKey parent name, REntry entry)]
                         in case applyNamespaceConditional s b ErrEntryExists of
                              (Inl e, s1) \<Rightarrow> (Inl e, s1)
                            | (Inr _, s1) \<Rightarrow> (Inr m', s1))))"

definition finishRename ::
  "'v store \<Rightarrow> InodeID \<Rightarrow> string \<Rightarrow> InodeID \<Rightarrow> string \<Rightarrow> DirEntry \<Rightarrow> unit result \<times> 'v store" where
  "finishRename s oldParent oldName newParent newName entry =
     (if st_useBucketStats s \<and> getBucketRoot s oldParent \<noteq> getBucketRoot s newParent
      then (Inl ErrCrossBucketRename, s)
      else applyBatchMsgpack s [(nsKey newParent newName, REntry (entry\<lparr>de_Name := newName\<rparr>))]
             [nsKey oldParent oldName])"

definition Rename ::
  "'v store \<Rightarrow> InodeID \<Rightarrow> string \<Rightarrow> InodeID \<Rightarrow> string \<Rightarrow> int \<Rightarrow> unit result \<times> 'v store" where
  "Rename s oldParent oldName newParent newName now =
     (if st_closed s then (Inl ErrServiceClosed, s)
      else case storeGet asEntry s (nsKey oldParent oldName) of
             Inl e \<Rightarrow> (Inl e, s)
           | Inr None \<Rightarrow> (Inl ErrEntryNotFound, s)
           | Inr (Some entry) \<Rightarrow>
               (case storeGet asEntry s (nsKey newParent newName) of
                  Inr (Some dest) \<Rightarrow>
                    if de_Type dest = FileDirectory then (Inl ErrEntryExists, s)
                    else (case Unlink s newParent newName now of
                            (Inl e, s1) \<Rightarrow> (Inl e, s1)
                          | (Inr _, s1) \<Rightarrow> finishRename s1 oldParent oldName newParent newName entry)
                | _ \<Rightarrow> finishRename s oldParent oldName newParent newName entry))"

section \<open>Extended attributes\<close>

definition GetXAttr :: "'v store \<Rightarrow> InodeID \<Rightarrow> string \<Rightarrow> bytes result \<times> 'v store" where
  "GetXAttr s i name =
     (if st_closed s then (Inl ErrServiceClosed, s)
      else case GetInode s i of
             (Inl e, s1) \<Rightarrow> (Inl e, s1)
           | (Inr m, s1) \<Rightarrow>
               (case map_of (i_XAttrs m) name of
                  None \<Rightarrow> (Inl ErrXAttrNotFound, s1)
                | Some v \<Rightarrow> (Inr v, s1)))"

definition SetXAttr :: "'v store \<Rightarrow> InodeID \<Rightarrow> string \<Rightarrow> bytes \<Rightarrow> int \<Rightarrow> unit result \<times> 'v store" where
  "SetXAttr s i name val now =
     (if st_closed s then (Inl ErrServiceClosed, s)
      else case GetInode s i of
             (Inl e, s1) \<Rightarrow> (Inl e, s1)
           | (Inr m, s1) \<Rightarrow> UpdateInode s1 (m\<lparr>i_XAttrs := AList.update name val (i_XAttrs m)\<rparr>) now)"

definition ListXAttr :: "'v store \<Rightarrow> InodeID \<Rightarrow> (string \<times> bytes) list result \<times> 'v store" where
  "ListXAttr s i =
     (if st_closed s then (Inl ErrServiceClosed, s)
      else case GetInode s i of
             (Inl e, s1) \<Rightarrow> (Inl e, s1)
           | (Inr m, s1) \<Rightarrow> (Inr (i_XAttrs m), s1))"

definition RemoveXAttr :: "'v store \<Rightarrow> InodeID \<Rightarrow> string \<Rightarrow> int \<Rightarrow> unit result \<times> 'v store" where
  "RemoveXAttr s i name now =
     (if st_closed s then (Inl ErrServiceClosed, s)
      else case GetInode s i of
             (Inl e, s1) \<Rightarrow> (Inl e, s1)
           | (Inr m, s1) \<Rightarrow>
               if i_XAttrs m = [] then (Inr (), s1)
               else UpdateInode s1 (m\<lparr>i_XAttrs := AList.delete name (i_XAttrs m)\<rparr>) now)"

section \<open>Listing directories\<close>

definition maxReadDirEntries :: nat where "maxReadDirEntries = 10000"

definition readDirLimit :: "int \<Rightarrow> nat" where
  "readDirLimit limit = (if limit \<le> 0 \<or> int maxReadDirEntries < limit then maxReadDirEntries else nat limit)"

text \<open>An entry is listed under the name in its key; a row that does not decode is passed over.\<close>

definition listedEntry :: "'v codec \<Rightarrow> string \<Rightarrow> string \<times> 'v \<Rightarrow> DirEntry option" where
  "listedEntry c p kv =
     map_option (\<lambda>e. e\<lparr>de_Name := TrimPrefix (fst kv) p\<rparr>) (Option.bind (unmarshalValue c (snd kv)) asEntry)"

fun readDirLoop :: "'v codec \<Rightarrow> string \<Rightarrow> nat \<Rightarrow> nat \<Rightarrow> (string \<times> 'v) list \<Rightarrow> DirEntry list" where
  "readDirLoop c p offset limit [] = []"
| "readDirLoop c p offset limit (kv # kvs) =
     (if limit = 0 then []
      else if TrimPrefix (fst kv) p = [] then readDirLoop c p offset limit kvs
      else if 0 < offset then readDirLoop c p (offset - 1) limit kvs
      else case listedEntry c p kv of
             None \<Rightarrow> readDirLoop c p offset limit kvs
           | Some e \<Rightarrow> e # readDirLoop c p offset (limit - 1) kvs)"

definition ReadDir :: "'v store \<Rightarrow> InodeID \<Rightarrow> int \<Rightarrow> int \<Rightarrow> DirEntry list result" where
  "ReadDir s parent offset limit =
     (if st_closed s then Inl ErrServiceClosed
      else Inr (readDirLoop (st_codec s) (nsPrefix parent) (nat offset) (readDirLimit limit)
                  (scanPrefix (st_db s) (nsPrefix parent))))"

definition ReadDirFrom :: "'v store \<Rightarrow> InodeID \<Rightarrow> string \<Rightarrow> int \<Rightarrow> DirEntry list result" where
  "ReadDirFrom s parent afterName limit =
     (if st_closed s then Inl ErrServiceClosed
      else let p = nsPrefix parent;
               range = dbRange (st_db s) (p @ afterName) (prefixUpperBound p);
               rest = (if afterName \<noteq> []
                       then (case range of
                               [] \<Rightarrow> []
                             | kv # kvs \<Rightarrow> if fst kv = p @ afterName then kvs else kv # kvs)
                       else range)
           in Inr (readDirLoop (st_codec s) p 0 (readDirLimit limit) rest))"

section \<open>Buckets\<close>

definition mkBucketBatch ::
  "string \<Rightarrow> PlacementPolicy \<Rightarrow> int \<Rightarrow> 'v store \<Rightarrow> ('v ConditionalBatch \<times> BucketInfo) \<times> 'v store" where
  "mkBucketBatch name policy now s =
     (let (i, s1) = nextInodeID s;
          info = \<lparr>b_Name = name, b_RootInode = i, b_Policy = policy, b_CreationDate = now\<rparr>;
          ops = [(inodeKey i, RInode (newInode i FileDirectory 493 2 i now)), (bucketKey name, RBucket info),
                 (policyKey name, RPolicy policy), (bucketByRootKey i, RText name)]
                @ (if st_useBucketStats s1
                   then [(bucketStatsKey i, RUsage \<lparr>bu_Name = name, bu_UsedBytes = 0, bu_Objects = 0\<rparr>)] else [])
      in ((buildNamespaceConditionalWithInodeGuard s1 (bucketKey name) (inodeKey i) ops, info), s1))"

definition CreateBucket :: "'v store \<Rightarrow> string \<Rightarrow> PlacementPolicy \<Rightarrow> int \<Rightarrow> unit result \<times> 'v store" where
  "CreateBucket s name policy now =
     (if st_closed s then (Inl ErrServiceClosed, s)
      else if name = [] \<or> MaxNameLength < length name \<or> CHR ''/'' \<in> set name then (Inl ErrInvalidArgument, s)
      else case storeGet asBucket s (bucketKey name) of
             Inl e \<Rightarrow> (Inl e, s)
           | Inr (Some _) \<Rightarrow> (Inl ErrBucketExists, s)
           | Inr None \<Rightarrow>
               (case applyNamespaceCreate s ErrEntryExists (mkBucketBatch name policy now) of
                  (Inr info, s1) \<Rightarrow>
                    (Inr (), s1\<lparr>st_bucketCache := AList.update name info (st_bucketCache s1)\<rparr>)
                | (Inl e, s1) \<Rightarrow>
                    (case storeGet asBucket s1 (bucketKey name) of
                       Inl e' \<Rightarrow> (Inl e', s1)
                     | Inr (Some _) \<Rightarrow> (Inl ErrBucketExists, s1)
                     | Inr None \<Rightarrow> (Inl e, s1))))"

definition DeleteBucket :: "'v store \<Rightarrow> string \<Rightarrow> unit result \<times> 'v store" where
  "DeleteBucket s name =
     (if st_closed s then (Inl ErrServiceClosed, s)
      else case storeGet asBucket s (bucketKey name) of
             Inl e \<Rightarrow> (Inl e, s)
           | Inr None \<Rightarrow> (Inl ErrBucketNotFound, s)
           | Inr (Some info) \<Rightarrow>
               if scanPrefixWithLimit (st_db s) (nsPrefix (b_RootInode info)) 1 \<noteq> [] then (Inl ErrBucketNotEmpty, s)
               else let dels = [bucketKey name, inodeKey (b_RootInode info), policyKey name,
                                bucketByRootKey (b_RootInode info), quotaKey name, quotaUsageKey name]
                               @ (if st_useBucketStats s then [bucketStatsKey (b_RootInode info)] else [])
                    in case applyBatchMsgpack s [] dels of
                         (Inl e, s1) \<Rightarrow> (Inl e, s1)
                       | (Inr _, s1) \<Rightarrow> (Inr (), s1\<lparr>st_bucketCache := AList.delete name (st_bucketCache s1)\<rparr>))"

definition ListBuckets :: "'v store \<Rightarrow> BucketInfo list result" where
  "ListBuckets s =
     (if st_closed s then Inl ErrServiceClosed
      else Inr (List.map_filter (\<lambda>kv. Option.bind (unmarshalValue (st_codec s) (snd kv)) asBucket)
                  (scanPrefix (st_db s) prefixBucket)))"

definition GetBucket :: "'v store \<Rightarrow> string \<Rightarrow> BucketInfo result \<times> 'v store" where
  "GetBucket s name =
     (if st_closed s then (Inl ErrServiceClosed, s)
      else case map_of (st_bucketCache s) name of
             Some b \<Rightarrow> (Inr b, s)
           | None \<Rightarrow>
               (case storeGet asBucket s (bucketKey name) of
                  Inl e \<Rightarrow> (Inl e, s)
                | Inr None \<Rightarrow> (Inl ErrBucketNotFound, s)
                | Inr (Some b) \<Rightarrow> (Inr b, s\<lparr>st_bucketCache := AList.update name b (st_bucketCache s)\<rparr>)))"

definition GetBucketByRoot :: "'v store \<Rightarrow> InodeID \<Rightarrow> BucketInfo result \<times> 'v store" where
  "GetBucketByRoot s rootIno =
     (if st_closed s then (Inl ErrServiceClosed, s)
      else case storeGet asText s (bucketByRootKey rootIno) of
             Inl e \<Rightarrow> (Inl e, s)
           | Inr None \<Rightarrow> (Inl ErrBucketNotFound, s)
           | Inr (Some name) \<Rightarrow> GetBucket s name)"

end
