(* ===== verification/Namespace_Spec.thy ===== *)
theory Namespace_Spec
  imports Nufs_Types
begin

text \<open>
  What the namespace promises, without keys, encodings or batches: a partial map from names in
  directories to typed inode numbers, and a partial map from inode numbers to their type and link
  count. The operations are the ones a client sees; the invariant is that entries are backed by
  inodes of their type and that link counts are right. The theory of the store's laws shows that
  the operations of the code implement these.
\<close>

type_synonym place = "InodeID \<times> string"

record namespace =
  an_entries :: "place \<rightharpoonup> InodeID \<times> FileType"
  an_inodes :: "InodeID \<rightharpoonup> FileType \<times> nat"

definition aLinks :: "namespace \<Rightarrow> InodeID \<Rightarrow> place set" where
  "aLinks a i = {pn. \<exists>ty. an_entries a pn = Some (i, ty)}"

definition an_ok :: "namespace \<Rightarrow> bool" where
  "an_ok a \<longleftrightarrow> finite (dom (an_entries a)) \<and>
     (\<forall>pn i ty. an_entries a pn = Some (i, ty) \<longrightarrow> (\<exists>n. an_inodes a i = Some (ty, n))) \<and>
     (\<forall>i ty n. an_inodes a i = Some (ty, n) \<longrightarrow>
        (if ty = FileDirectory then card (aLinks a i) \<le> 1 else n = card (aLinks a i)))"

definition aCreate :: "place \<Rightarrow> InodeID \<Rightarrow> FileType \<Rightarrow> nat \<Rightarrow> namespace \<Rightarrow> namespace" where
  "aCreate pn i ty n a = a\<lparr>an_entries := (an_entries a)(pn \<mapsto> (i, ty)), an_inodes := (an_inodes a)(i \<mapsto> (ty, n))\<rparr>"

definition aSetLinks :: "InodeID \<Rightarrow> nat \<Rightarrow> namespace \<Rightarrow> namespace" where
  "aSetLinks i n a =
     (case an_inodes a i of
        None \<Rightarrow> a
      | Some (ty, _) \<Rightarrow> a\<lparr>an_inodes := (an_inodes a)(i \<mapsto> (ty, n))\<rparr>)"

definition aUnlink :: "place \<Rightarrow> namespace \<Rightarrow> namespace" where
  "aUnlink pn a =
     (case an_entries a pn of
        None \<Rightarrow> a
      | Some (i, _) \<Rightarrow>
          (case an_inodes a i of
             None \<Rightarrow> a\<lparr>an_entries := (an_entries a)(pn := None)\<rparr>
           | Some (ty, n) \<Rightarrow>
               a\<lparr>an_entries := (an_entries a)(pn := None),
                 an_inodes := (an_inodes a)(i := if n = 1 then None else Some (ty, n - 1))\<rparr>))"

definition aLink :: "place \<Rightarrow> InodeID \<Rightarrow> namespace \<Rightarrow> namespace" where
  "aLink pn i a =
     (case an_inodes a i of
        None \<Rightarrow> a
      | Some (ty, n) \<Rightarrow>
          a\<lparr>an_entries := (an_entries a)(pn \<mapsto> (i, ty)), an_inodes := (an_inodes a)(i \<mapsto> (ty, n + 1))\<rparr>)"

definition aRmDir :: "place \<Rightarrow> namespace \<Rightarrow> namespace" where
  "aRmDir pn a =
     (case an_entries a pn of
        None \<Rightarrow> a
      | Some (i, _) \<Rightarrow> a\<lparr>an_entries := (an_entries a)(pn := None), an_inodes := (an_inodes a)(i := None)\<rparr>)"

definition aMove :: "place \<Rightarrow> place \<Rightarrow> namespace \<Rightarrow> namespace" where
  "aMove old new a =
     (case an_entries a old of
        None \<Rightarrow> a
      | Some e \<Rightarrow> a\<lparr>an_entries := (an_entries a)(new \<mapsto> e, old := None)\<rparr>)"

section \<open>The operations keep the invariant\<close>

lemma finite_aLinks: "finite (dom (an_entries a)) \<Longrightarrow> finite (aLinks a i)"
  by (erule rev_finite_subset) (auto simp: aLinks_def)

lemma an_okD:
  assumes "an_ok a"
  shows "finite (dom (an_entries a))"
    "\<And>pn i ty. an_entries a pn = Some (i, ty) \<Longrightarrow> \<exists>n. an_inodes a i = Some (ty, n)"
    "\<And>i n. an_inodes a i = Some (FileDirectory, n) \<Longrightarrow> card (aLinks a i) \<le> 1"
    "\<And>i ty n. an_inodes a i = Some (ty, n) \<Longrightarrow> ty \<noteq> FileDirectory \<Longrightarrow> n = card (aLinks a i)"
    "finite (aLinks a i)"
  using assms finite_aLinks [of a] by (force simp: an_ok_def)+

lemma aCreate_ok:
  assumes ok: "an_ok a" and fresh: "an_entries a pn = None" "an_inodes a i = None"
    and n: "ty \<noteq> FileDirectory \<longrightarrow> n = 1"
  shows "an_ok (aCreate pn i ty n a)"
proof -
  have none: "aLinks a i = {}" using an_okD(2) [OF ok] fresh(2) by (force simp: aLinks_def)
  have links: "aLinks (aCreate pn i ty n a) j = (if j = i then {pn} else aLinks a j)" for j
    using none fresh(1) by (auto simp: aLinks_def aCreate_def split: if_splits)
  show ?thesis
    unfolding an_ok_def links
  proof (intro conjI allI impI)
    show "finite (dom (an_entries (aCreate pn i ty n a)))"
      using an_okD(1) [OF ok] by (simp add: aCreate_def)
    show "\<exists>n'. an_inodes (aCreate pn i ty n a) i' = Some (ty', n')"
      if "an_entries (aCreate pn i ty n a) pn' = Some (i', ty')" for pn' i' ty'
      using that an_okD(2) [OF ok, of pn' i' ty'] fresh(2) by (auto simp: aCreate_def split: if_splits)
    show "if ty' = FileDirectory then card (if j = i then {pn} else aLinks a j) \<le> 1
          else n' = card (if j = i then {pn} else aLinks a j)"
      if "an_inodes (aCreate pn i ty n a) j = Some (ty', n')" for j ty' n'
      using that an_okD(3,4) [OF ok] n by (auto simp: aCreate_def split: if_splits)
  qed
qed

lemma aLinks_inodes [simp]: "aLinks (a\<lparr>an_inodes := f\<rparr>) j = aLinks a j"
  by (simp add: aLinks_def)

lemma aSetLinks_dir_ok:
  assumes ok: "an_ok a" and dir: "\<And>ty k. an_inodes a i = Some (ty, k) \<Longrightarrow> ty = FileDirectory"
  shows "an_ok (aSetLinks i n a)"
proof (cases "an_inodes a i")
  case (Some tk)
  then obtain k where k: "an_inodes a i = Some (FileDirectory, k)" using dir by (cases tk) auto
  have "\<exists>n'. an_inodes (aSetLinks i n a) i' = Some (ty', n')" if "an_entries a pn = Some (i', ty')" for pn i' ty'
    using an_okD(2) [OF ok that] k by (auto simp: aSetLinks_def)
  then show ?thesis
    using k an_okD(1,3,4) [OF ok] by (auto simp: an_ok_def aSetLinks_def split: if_splits)
qed (simp add: aSetLinks_def ok)

lemma aLinks_remove:
  "an_entries a pn = Some (i, ty) \<Longrightarrow>
     aLinks (a\<lparr>an_entries := (an_entries a)(pn := None), an_inodes := f\<rparr>) j = (if j = i then aLinks a i - {pn} else aLinks a j)"
  by (auto simp: aLinks_def split: if_splits)

lemma aUnlink_ok:
  assumes ok: "an_ok a" and e: "an_entries a pn = Some (i, ty)" and nd: "ty \<noteq> FileDirectory"
  shows "an_ok (aUnlink pn a)"
proof -
  obtain n where inode: "an_inodes a i = Some (ty, n)" using an_okD(2) [OF ok e] by blast
  have n: "n = card (aLinks a i)" using an_okD(4) [OF ok inode nd] .
  have mem: "pn \<in> aLinks a i" using e by (simp add: aLinks_def)
  note fin = an_okD(5) [OF ok]
  let ?f = "(an_inodes a)(i := if n = 1 then None else Some (ty, n - 1))"
  have u: "aUnlink pn a = a\<lparr>an_entries := (an_entries a)(pn := None), an_inodes := ?f\<rparr>"
    using e inode by (simp add: aUnlink_def)
  have card: "card (aLinks a i - {pn}) = n - 1" using n mem fin by simp
  have empty: "aLinks a i = {pn}" if "n = 1" using n mem that by (metis card_1_singletonE singletonD)
  show ?thesis
    unfolding u an_ok_def aLinks_remove [OF e]
  proof (intro conjI allI impI)
    fix pn' i' ty'
    assume a: "an_entries (a\<lparr>an_entries := (an_entries a)(pn := None), an_inodes := ?f\<rparr>) pn' = Some (i', ty')"
    then have e': "an_entries a pn' = Some (i', ty')" "pn' \<noteq> pn" by (auto split: if_splits)
    show "\<exists>k. an_inodes (a\<lparr>an_entries := (an_entries a)(pn := None), an_inodes := ?f\<rparr>) i' = Some (ty', k)"
    proof (cases "i' = i")
      case True
      then have "pn' \<in> aLinks a i" using e' by (simp add: aLinks_def)
      then have "n \<noteq> 1" using empty e'(2) by blast
      then show ?thesis using True an_okD(2) [OF ok e'(1)] inode by simp
    qed (use an_okD(2) [OF ok e'(1)] in auto)
  qed (use an_okD(1,3,4) [OF ok] inode nd card in \<open>auto split: if_splits\<close>)
qed

lemma aLink_ok:
  assumes ok: "an_ok a" and "an_entries a pn = None" and inode: "an_inodes a i = Some (ty, n)"
    and nd: "ty \<noteq> FileDirectory"
  shows "an_ok (aLink pn i a)"
proof -
  have links: "aLinks (aLink pn i a) j = (if j = i then insert pn (aLinks a i) else aLinks a j)" for j
    using assms(2) inode by (auto simp: aLinks_def aLink_def split: if_splits)
  have "pn \<notin> aLinks a i" using assms(2) by (simp add: aLinks_def)
  then have card: "card (insert pn (aLinks a i)) = n + 1"
    using an_okD(4) [OF ok inode nd] an_okD(5) [OF ok, of i] by simp
  show ?thesis
    unfolding an_ok_def links
  proof (intro conjI allI impI)
    show "finite (dom (an_entries (aLink pn i a)))" using an_okD(1) [OF ok] inode by (simp add: aLink_def)
    show "\<exists>n'. an_inodes (aLink pn i a) i' = Some (ty', n')"
      if "an_entries (aLink pn i a) pn' = Some (i', ty')" for pn' i' ty'
      using that an_okD(2) [OF ok, of pn' i' ty'] inode by (auto simp: aLink_def split: if_splits)
    show "if ty' = FileDirectory then card (if j = i then insert pn (aLinks a i) else aLinks a j) \<le> 1
        else n' = card (if j = i then insert pn (aLinks a i) else aLinks a j)"
      if "an_inodes (aLink pn i a) j = Some (ty', n')" for j ty' n'
      using that an_okD(3,4) [OF ok] inode nd card by (auto simp: aLink_def split: if_splits)
  qed
qed

lemma aRmDir_ok:
  assumes ok: "an_ok a" and e: "an_entries a pn = Some (i, FileDirectory)"
  shows "an_ok (aRmDir pn a)"
proof -
  obtain n where "an_inodes a i = Some (FileDirectory, n)" using an_okD(2) [OF ok e] by blast
  then have "card (aLinks a i) \<le> 1" using an_okD(3) [OF ok] by blast
  moreover have mem: "pn \<in> aLinks a i" using e by (simp add: aLinks_def)
  ultimately have only: "aLinks a i = {pn}"
    using an_okD(5) [OF ok, of i] by (auto simp: card_le_Suc0_iff_eq)
  have r: "aRmDir pn a = a\<lparr>an_entries := (an_entries a)(pn := None), an_inodes := (an_inodes a)(i := None)\<rparr>"
    using e by (simp add: aRmDir_def)
  have ne: "i' \<noteq> i" if "an_entries a pn' = Some (i', ty')" "pn' \<noteq> pn" for pn' i' ty'
    using that only by (auto simp: aLinks_def)
  show ?thesis
    unfolding r an_ok_def aLinks_remove [OF e]
  proof (intro conjI allI impI)
    fix pn' i' ty'
    assume "an_entries (a\<lparr>an_entries := (an_entries a)(pn := None), an_inodes := (an_inodes a)(i := None)\<rparr>) pn' = Some (i', ty')"
    then have e': "an_entries a pn' = Some (i', ty')" "pn' \<noteq> pn" by (auto split: if_splits)
    show "\<exists>k. an_inodes (a\<lparr>an_entries := (an_entries a)(pn := None), an_inodes := (an_inodes a)(i := None)\<rparr>) i' = Some (ty', k)"
      using an_okD(2) [OF ok e'(1)] ne [OF e'] by simp
  qed (use an_okD(1,3,4) [OF ok] in \<open>auto split: if_splits\<close>)
qed

lemma aMove_ok:
  assumes ok: "an_ok a" and e: "an_entries a old = Some (i, ty)" and free: "an_entries a new = None"
  shows "an_ok (aMove old new a)"
proof -
  have m: "aMove old new a = a\<lparr>an_entries := (an_entries a)(new \<mapsto> (i, ty), old := None)\<rparr>"
    using e by (simp add: aMove_def)
  have ne: "new \<noteq> old" using e free by auto
  have links: "aLinks (aMove old new a) j = (if j = i then insert new (aLinks a i - {old}) else aLinks a j)" for j
    using e free ne by (auto simp: m aLinks_def split: if_splits)
  have "old \<in> aLinks a i" "new \<notin> aLinks a i" using e free by (auto simp: aLinks_def)
  then have card: "card (insert new (aLinks a i - {old})) = card (aLinks a i)"
    using an_okD(5) [OF ok, of i] card_Suc_Diff1 [of "aLinks a i" old] by (simp add: card_insert_if)
  show ?thesis
    unfolding an_ok_def links
  proof (intro conjI allI impI)
    show "finite (dom (an_entries (aMove old new a)))" using an_okD(1) [OF ok] by (simp add: m)
    show "\<exists>n. an_inodes (aMove old new a) i' = Some (ty', n)"
      if "an_entries (aMove old new a) pn' = Some (i', ty')" for pn' i' ty'
      using that an_okD(2) [OF ok, of pn' i' ty'] an_okD(2) [OF ok e] by (auto simp: m split: if_splits)
    show "if ty' = FileDirectory then card (if j = i then insert new (aLinks a i - {old}) else aLinks a j) \<le> 1
        else n = card (if j = i then insert new (aLinks a i - {old}) else aLinks a j)"
      if "an_inodes (aMove old new a) j = Some (ty', n)" for j ty' n
      using that an_okD(3,4) [OF ok, of j] card by (auto simp: m split: if_splits)
  qed
qed

end
