(* ===== verification/Namespace_Laws.thy ===== *)
theory Namespace_Laws
  imports Namespace Namespace_Spec
begin

text \<open>
  Laws of the namespace operations: what a guarded batch does to the rows of a store, the effect of
  every create, unlink, link and rename, and the namespace invariant that they keep: every entry
  points at an inode of its type, and the link count of a file is the number of its entries.
\<close>

section \<open>Rows\<close>

definition rowAt :: "'v store \<Rightarrow> string \<Rightarrow> row option" where
  "rowAt s k = Option.bind (dbGet (st_db s) k) (unmarshalValue (st_codec s))"

definition entryAt :: "'v store \<Rightarrow> InodeID \<Rightarrow> string \<Rightarrow> DirEntry option" where
  "entryAt s p n = Option.bind (rowAt s (nsKey p n)) asEntry"

definition inodeAt :: "'v store \<Rightarrow> InodeID \<Rightarrow> InodeMeta option" where
  "inodeAt s i = Option.bind (rowAt s (inodeKey i)) asInode"

lemma storeGet_Some: "storeGet prj s k = Inr (Some x) \<longleftrightarrow> Option.bind (rowAt s k) prj = Some x"
  by (auto simp: storeGet_def getValue_def rowAt_def split: option.splits)

lemma storeGet_None: "storeGet prj s k = Inr None \<longleftrightarrow> dbGet (st_db s) k = None"
  by (auto simp: storeGet_def getValue_def split: option.splits)

lemma rowAt_cong:
  "dbGet (st_db t) k = dbGet (st_db s) k \<Longrightarrow> st_codec t = st_codec s \<Longrightarrow> rowAt t k = rowAt s k"
  by (simp add: rowAt_def)

lemma storeGet_cong:
  "dbGet (st_db t) k = dbGet (st_db s) k \<Longrightarrow> st_codec t = st_codec s \<Longrightarrow> storeGet prj t k = storeGet prj s k"
  by (simp add: storeGet_def getValue_def)

section \<open>Bookkeeping that leaves the rows alone\<close>

text \<open>Minting and releasing inode numbers touches counters and free-list rows only.\<close>

definition quiet :: "'v store \<Rightarrow> 'v store \<Rightarrow> bool" where
  "quiet s t \<longleftrightarrow> st_codec t = st_codec s \<and> st_closed t = st_closed s \<and> st_deg t = st_deg s \<and>
     st_useBucketStats t = st_useBucketStats s \<and> st_inCache t = st_inCache s \<and>
     st_evict t = st_evict s \<and>
     (\<forall>k. \<not> prefix prefixFreeList k \<longrightarrow> dbGet (st_db t) k = dbGet (st_db s) k) \<and>
     (wf_db (st_db s) \<longrightarrow> wf_db (st_db t))"

lemma quiet_refl [simp]: "quiet s s"
  by (simp add: quiet_def)

lemma quiet_trans: "quiet s t \<Longrightarrow> quiet t u \<Longrightarrow> quiet s u"
  by (simp add: quiet_def)

lemma not_freelist [simp]:
  "\<not> prefix prefixFreeList (inodeKey i)" "\<not> prefix prefixFreeList (nsKey p n)"
  "\<not> prefix prefixFreeList (bucketKey b)" "\<not> prefix prefixFreeList (bucketStatsKey i)"
  "\<not> prefix prefixFreeList (bucketByRootKey i)" "\<not> prefix prefixFreeList (policyKey b)"
  "\<not> prefix prefixFreeList (chunkMetadataKey i)" "\<not> prefix prefixFreeList (chunkTombstoneKey i)"
  by (auto simp: key_defs prefix_def)

lemma freeListKey_prefix [simp]: "prefix prefixFreeList (freeListKey i)"
  by (simp add: freeListKey_def)

lemma applyViaRaft_quiet:
  assumes "prefix prefixFreeList (bo_Key op)"
  shows "quiet s (snd (applyViaRaft s op))"
proof (cases "applyReferenceAwareBatch (st_codec s) (st_db s) [op]")
  case (Inr d)
  then have "d = commitBatch (st_db s) [op]" by (rule applyReferenceAwareBatch_commit)
  with Inr assms show ?thesis by (auto simp: applyViaRaft_def quiet_def)
qed (simp add: applyViaRaft_def)

lemma deleteKey_quiet: "quiet s (snd (deleteKey s (freeListKey i)))"
  by (simp add: deleteKey_def dropRow_def applyViaRaft_quiet)

lemma ensureInodeIDMax_quiet: "quiet s (ensureInodeIDMax s)"
  by (simp add: ensureInodeIDMax_def quiet_def Let_def)

lemma reseedInodeIDMax_quiet: "quiet s (reseedInodeIDMax s)"
  by (simp add: reseedInodeIDMax_def ensureInodeIDMax_def quiet_def Let_def)

lemma nextInodeID_quiet: "quiet s (snd (nextInodeID s))"
proof (cases "st_freeList s = []")
  case True
  then show ?thesis
    using ensureInodeIDMax_quiet [of s] by (simp add: nextInodeID_def Let_def quiet_def)
next
  case False
  let ?s = "s\<lparr>st_freeList := butlast (st_freeList s)\<rparr>"
  have "quiet s ?s" by (simp add: quiet_def)
  then show ?thesis
    using False deleteKey_quiet [of ?s "last (st_freeList s)"]
    by (simp add: nextInodeID_def Let_def quiet_trans)
qed

lemma releaseInodeID_quiet: "quiet s (releaseInodeID s i)"
proof -
  let ?s = "s\<lparr>st_freeList := st_freeList s @ [i]\<rparr>"
  have "quiet s ?s" by (simp add: quiet_def)
  moreover have "quiet ?s (snd (putMsgpack ?s (freeListKey i) (RInodeID i)))"
    by (simp add: putMsgpack_def putRow_def applyViaRaft_quiet)
  ultimately show ?thesis by (auto simp: releaseInodeID_def intro: quiet_trans)
qed

lemma quiet_rows:
  assumes "quiet s t" "\<not> prefix prefixFreeList k"
  shows "dbGet (st_db t) k = dbGet (st_db s) k" "rowAt t k = rowAt s k" "storeGet prj t k = storeGet prj s k"
  using assms by (auto simp: quiet_def rowAt_def storeGet_def getValue_def)

lemma quiet_inodeAt: "quiet s t \<Longrightarrow> inodeAt t i = inodeAt s i"
  by (simp add: inodeAt_def quiet_rows)

lemma quiet_entryAt: "quiet s t \<Longrightarrow> entryAt t p n = entryAt s p n"
  by (simp add: entryAt_def quiet_rows)

lemma quiet_getBucketRoot: "quiet s t \<Longrightarrow> getBucketRoot t p = getBucketRoot s p"
  by (simp add: getBucketRoot_def quiet_rows)

lemma quiet_addBucketStatsOp: "quiet s t \<Longrightarrow> addBucketStatsOp t b x y = addBucketStatsOp s b x y"
  by (simp add: addBucketStatsOp_def readBucketStats_def quiet_rows) (simp add: quiet_def)

section \<open>Effect of guarded batches\<close>

lemma map_of_putRows:
  "map_of (map (\<lambda>op. (bo_Key op, opEffect op)) (map (\<lambda>(k, r). putRow s k r) ops)) k =
     map_option (\<lambda>r. Some (marshalValue (st_codec s) r)) (map_of ops k)"
  by (induction ops) (auto simp: putRow_def opEffect_def)

lemma map_of_dropRows:
  "map_of (map (\<lambda>op. (bo_Key op, opEffect op)) (map (dropRow s) ks)) k = (if k \<in> set ks then Some None else None)"
  by (induction ks) (auto simp: dropRow_def opEffect_def)

lemma applyNamespaceConditional_Inr:
  assumes "applyNamespaceConditional s b err = (Inr (), s')" "wf_db (st_db s)"
  shows "s' = s\<lparr>st_db := st_db s'\<rparr>" "wf_db (st_db s')" "dbGet (st_db s') k = batchSpec b (st_db s) k"
    "\<And>p. p \<in> set (cd_Preconditions b) \<Longrightarrow> preHolds (st_db s) p"
    "distinct (map bo_Key (cd_Mutations b))"
proof -
  obtain d where d: "applyConditionalBatch (st_codec s) (st_db s) b = Inr d" and s': "s' = s\<lparr>st_db := d\<rparr>"
    using assms(1) by (auto simp: applyNamespaceConditional_def split: if_splits sum.splits)
  note eff = applyConditionalBatch_Inr [OF assms(2) d]
  show "s' = s\<lparr>st_db := st_db s'\<rparr>" "wf_db (st_db s')" "dbGet (st_db s') k = batchSpec b (st_db s) k"
    using eff s' by simp_all
  show "preHolds (st_db s) p" if "p \<in> set (cd_Preconditions b)" for p using eff(3) that .
  obtain canon where "canonicalConditionalBatch (st_codec s) b = Inr canon"
    using d by (auto simp: applyConditionalBatch_def split: sum.splits)
  then show "distinct (map bo_Key (cd_Mutations b))"
    by (blast dest: canonicalConditionalBatch_Inr(2) validate_distinct(2))
qed

lemma applyNamespaceConditional_Inl:
  "applyNamespaceConditional s b err = (Inl e, s') \<Longrightarrow> s' = s"
  by (auto simp: applyNamespaceConditional_def split: if_splits sum.splits)

lemma only_db:
  assumes "s' = s\<lparr>st_db := d\<rparr>"
  shows "st_codec s' = st_codec s" "st_closed s' = st_closed s" "st_deg s' = st_deg s"
    "st_useBucketStats s' = st_useBucketStats s" "st_inCache s' = st_inCache s" "st_evict s' = st_evict s"
  using assms by simp_all

lemma preHolds_expect [simp]:
  "preHolds d (expectAbsent c k) \<longleftrightarrow> dbGet d k = None"
  "preHolds d (expectValue k v) \<longleftrightarrow> dbGet d k = Some v"
  by (auto simp: preHolds_def split: option.splits)

lemma guarded_create:
  assumes "applyNamespaceConditional s (buildNamespaceConditionalWithInodeGuard t nk ik ops) err = (Inr (), s')"
    and "wf_db (st_db s)" "st_codec t = st_codec s"
  shows "s' = s\<lparr>st_db := st_db s'\<rparr>" "wf_db (st_db s')"
    "dbGet (st_db s) nk = None" "dbGet (st_db s) ik = None"
    "dbGet (st_db s') k = (case map_of ops k of Some r \<Rightarrow> Some (marshalValue (st_codec s) r) | None \<Rightarrow> dbGet (st_db s) k)"
proof -
  note eff = applyNamespaceConditional_Inr [OF assms(1,2)]
  show "s' = s\<lparr>st_db := st_db s'\<rparr>" "wf_db (st_db s')" by (fact eff)+
  show "dbGet (st_db s) nk = None" "dbGet (st_db s) ik = None"
    using eff(4) [of "expectAbsent (st_codec t) nk"] eff(4) [of "expectAbsent (st_codec t) ik"]
    by (simp_all add: buildNamespaceConditionalWithInodeGuard_def)
  show "dbGet (st_db s') k = (case map_of ops k of Some r \<Rightarrow> Some (marshalValue (st_codec s) r) | None \<Rightarrow> dbGet (st_db s) k)"
    using eff(3) [of k] assms(3)
    by (simp add: batchSpec_def buildNamespaceConditionalWithInodeGuard_def map_of_putRows
        del: map_map split: option.splits)
qed

lemma guarded_ops:
  assumes "applyNamespaceConditional s (buildNamespaceConditionalOps s ops dels pre) err = (Inr (), s')"
    and "wf_db (st_db s)"
  shows "s' = s\<lparr>st_db := st_db s'\<rparr>" "wf_db (st_db s')" "preHolds (st_db s) pre"
    "distinct (map fst ops @ dels)"
    "dbGet (st_db s') k = (case map_of ops k of Some r \<Rightarrow> Some (marshalValue (st_codec s) r)
       | None \<Rightarrow> if k \<in> set dels then None else dbGet (st_db s) k)"
proof -
  note eff = applyNamespaceConditional_Inr [OF assms]
  show "s' = s\<lparr>st_db := st_db s'\<rparr>" "wf_db (st_db s')" by (fact eff)+
  show "preHolds (st_db s) pre" using eff(4) by (simp add: buildNamespaceConditionalOps_def)
  have "map bo_Key (cd_Mutations (buildNamespaceConditionalOps s ops dels pre)) = map fst ops @ dels"
    by (simp add: buildNamespaceConditionalOps_def putRow_def dropRow_def comp_def case_prod_beta)
  with eff(5) show "distinct (map fst ops @ dels)" by (simp only:)
  show "dbGet (st_db s') k = (case map_of ops k of Some r \<Rightarrow> Some (marshalValue (st_codec s) r)
       | None \<Rightarrow> if k \<in> set dels then None else dbGet (st_db s) k)"
    using eff(3) [of k] map_of_putRows [of s ops k] map_of_dropRows [of s dels k]
    by (simp add: batchSpec_def buildNamespaceConditionalOps_def map_add_def del: map_map split: option.splits)
qed

lemma applyNamespaceCreate_Inl:
  assumes "applyNamespaceCreate s err mk = (Inl e, s')" and quiet: "\<And>t. quiet t (snd (mk t))"
  shows "quiet s s'"
proof -
  obtain b1 x1 s1 where m1: "mk s = ((b1, x1), s1)" by (metis surj_pair)
  have q1: "quiet s s1" using quiet [of s] m1 by simp
  obtain b2 x2 s3 where m2: "mk (reseedInodeIDMax s1) = ((b2, x2), s3)" by (metis surj_pair)
  have q3: "quiet s s3"
    using quiet [of "reseedInodeIDMax s1"] m2 reseedInodeIDMax_quiet [of s1] q1 by (auto intro: quiet_trans)
  obtain r s2 where a1: "applyNamespaceConditional s1 b1 err = (r, s2)" by (metis surj_pair)
  have s2: "s2 = s1" if "r = Inl e'" for e' using applyNamespaceConditional_Inl a1 that by blast
  show ?thesis
    using assms(1) m1 m2 a1 s2 q1 q3 applyNamespaceConditional_Inl [of s3 b2 err]
    by (cases r) (auto simp: applyNamespaceCreate_def split: if_splits prod.splits sum.splits)
qed

lemma applyNamespaceCreate_Inr:
  assumes "applyNamespaceCreate s err mk = (Inr x, s')"
    and quiet: "\<And>t. quiet t (snd (mk t))"
  shows "\<exists>t b t'. quiet s t \<and> mk t = ((b, x), t') \<and> applyNamespaceConditional t' b err = (Inr (), s')"
proof -
  obtain b1 x1 s1 where m1: "mk s = ((b1, x1), s1)" by (metis surj_pair)
  show ?thesis
  proof (cases "applyNamespaceConditional s1 b1 err")
    case (Pair r s2)
    show ?thesis
    proof (cases r)
      case (Inr u)
      then show ?thesis using assms(1) m1 Pair by (auto simp: applyNamespaceCreate_def intro!: exI [of _ s])
    next
      case (Inl e)
      then have s2: "s2 = s1" using applyNamespaceConditional_Inl [of s1 b1 err e s2] Pair by simp
      obtain b2 x2 s3 where m2: "mk (reseedInodeIDMax s1) = ((b2, x2), s3)" by (metis surj_pair)
      have q: "quiet s (reseedInodeIDMax s1)"
        using quiet [of s] m1 reseedInodeIDMax_quiet [of s1] by (auto intro: quiet_trans)
      show ?thesis
        using assms(1) m1 Pair Inl s2 m2 q
        by (auto simp: applyNamespaceCreate_def split: if_splits prod.splits sum.splits
            intro!: exI [of _ "reseedInodeIDMax s1"])
    qed
  qed
qed

section \<open>Creating an entry\<close>

text \<open>The rows after an entry for a new inode has been created under a parent.\<close>

definition entryCreated :: "'v store \<Rightarrow> 'v store \<Rightarrow> InodeID \<Rightarrow> string \<Rightarrow> InodeMeta \<Rightarrow> bool" where
  "entryCreated s s' parent name m \<longleftrightarrow>
     dbGet (st_db s) (nsKey parent name) = None \<and> dbGet (st_db s) (inodeKey (i_ID m)) = None \<and>
     entryAt s' parent name = Some \<lparr>de_InodeID = i_ID m, de_Type = i_Type m, de_Name = name\<rparr> \<and>
     inodeAt s' (i_ID m) = Some m \<and> st_codec s' = st_codec s \<and>
     (\<forall>p n. (p, n) \<noteq> (parent, name) \<longrightarrow> dbGet (st_db s') (nsKey p n) = dbGet (st_db s) (nsKey p n)) \<and>
     (\<forall>i. i \<noteq> i_ID m \<longrightarrow> dbGet (st_db s') (inodeKey i) = dbGet (st_db s) (inodeKey i))"

lemma map_of_addBucketStatsOp [simp]:
  "map_of (addBucketStatsOp s b x y) (inodeKey i) = None"
  "map_of (addBucketStatsOp s b x y) (nsKey p n) = None"
  by (simp_all add: addBucketStatsOp_def Let_def)

lemma mkEntryBatch_quiet: "quiet s (snd (mkEntryBatch parent name b x mk s))"
  using nextInodeID_quiet [of s] by (cases "nextInodeID s") (simp add: mkEntryBatch_def Let_def)

lemma mkEntry_created:
  assumes "applyNamespaceCreate s err (mkEntryBatch parent name b x mk) = (Inr m, s')"
    and wf: "wf_db (st_db s)" and ok: "codec_ok (st_codec s)" and mk: "\<And>i. i_ID (mk i) = i"
  shows "entryCreated s s' parent name m" "wf_db (st_db s')" "st_codec s' = st_codec s"
    "st_inCache s' = st_inCache s" "\<exists>i. m = mk i" "st_closed s' = st_closed s" "st_deg s' = st_deg s"
proof -
  obtain t bt t' where q: "quiet s t" and mkt: "mkEntryBatch parent name b x mk t = ((bt, m), t')"
    and ap: "applyNamespaceConditional t' bt err = (Inr (), s')"
    using applyNamespaceCreate_Inr [OF assms(1) mkEntryBatch_quiet] by blast
  obtain i where i: "nextInodeID t = (i, t')" "m = mk i"
    and bt: "bt = buildNamespaceConditionalWithInodeGuard t' (nsKey parent name) (inodeKey i)
      ([(inodeKey i, RInode m), (nsKey parent name, REntry \<lparr>de_InodeID = i, de_Type = i_Type m, de_Name = name\<rparr>)]
       @ addBucketStatsOp t' b x 1)"
    using mkt by (auto simp: mkEntryBatch_def Let_def split: prod.splits)
  have q': "quiet s t'" using q nextInodeID_quiet [of t] i(1) by (auto intro: quiet_trans)
  have wf': "wf_db (st_db t')" and cd: "st_codec t' = st_codec s" using q' wf by (auto simp: quiet_def)
  note gc = guarded_create [OF ap [unfolded bt] wf' refl]
  have s': "st_codec s' = st_codec s" "st_inCache s' = st_inCache s" "st_closed s' = st_closed s" "st_deg s' = st_deg s"
    using only_db [OF gc(1)] q' by (simp_all add: quiet_def)
  show "wf_db (st_db s')" by (fact gc(2))
  show "st_codec s' = st_codec s" "st_inCache s' = st_inCache s" "st_closed s' = st_closed s" "st_deg s' = st_deg s"
    by (fact s')+
  show "\<exists>i. m = mk i" using i(2) by blast
  have idm: "i_ID m = i" using i(2) mk by simp
  show "entryCreated s s' parent name m"
    unfolding entryCreated_def idm
    using gc(3,4,5) q' ok s' cd idm
    by (auto simp: entryAt_def inodeAt_def rowAt_def quiet_def split: option.splits)
qed

section \<open>Abstraction\<close>

definition absNS :: "'v store \<Rightarrow> namespace" where
  "absNS s = \<lparr>an_entries = (\<lambda>(p, n). map_option (\<lambda>e. (de_InodeID e, de_Type e)) (entryAt s p n)),
              an_inodes = (\<lambda>i. map_option (\<lambda>m. (i_Type m, unat (i_NLink m))) (inodeAt s i))\<rparr>"

text \<open>Rows in the namespace families decode, and an inode row carries the number in its key.\<close>

definition ns_wf :: "'v store \<Rightarrow> bool" where
  "ns_wf s \<longleftrightarrow> codec_ok (st_codec s) \<and> wf_db (st_db s) \<and>
     (\<forall>p n. dbGet (st_db s) (nsKey p n) \<noteq> None \<longrightarrow> entryAt s p n \<noteq> None) \<and>
     (\<forall>i. dbGet (st_db s) (inodeKey i) \<noteq> None \<longrightarrow> (\<exists>m. inodeAt s i = Some m \<and> i_ID m = i))"

definition ns_inv :: "'v store \<Rightarrow> bool" where
  "ns_inv s \<longleftrightarrow> ns_wf s \<and> an_ok (absNS s)"

lemma absNS_simps:
  "an_entries (absNS s) (p, n) = map_option (\<lambda>e. (de_InodeID e, de_Type e)) (entryAt s p n)"
  "an_inodes (absNS s) i = map_option (\<lambda>m. (i_Type m, unat (i_NLink m))) (inodeAt s i)"
  by (simp_all add: absNS_def)

lemma namespace_eqI: "an_entries a = an_entries b \<Longrightarrow> an_inodes a = an_inodes b \<Longrightarrow> a = (b :: namespace)"
  by simp

lemma inodeAt_None: "dbGet (st_db s) (inodeKey i) = None \<Longrightarrow> inodeAt s i = None"
  by (simp add: inodeAt_def rowAt_def)

lemma entryAt_None: "dbGet (st_db s) (nsKey p n) = None \<Longrightarrow> entryAt s p n = None"
  by (simp add: entryAt_def rowAt_def)

lemma quiet_absNS: "quiet s t \<Longrightarrow> absNS t = absNS s"
  by (simp add: absNS_def quiet_inodeAt quiet_entryAt)

lemma quiet_ns_wf: "quiet s t \<Longrightarrow> ns_wf s \<Longrightarrow> ns_wf t"
  by (simp add: ns_wf_def quiet_inodeAt quiet_entryAt) (simp add: quiet_def)

lemma quiet_ns_inv: "quiet s t \<Longrightarrow> ns_inv s \<Longrightarrow> ns_inv t"
  by (simp add: ns_inv_def quiet_absNS quiet_ns_wf)

lemma entryCreated_abs:
  assumes "entryCreated s s' parent name m"
  shows "absNS s' = aCreate (parent, name) (i_ID m) (i_Type m) (unat (i_NLink m)) (absNS s)"
proof (rule namespace_eqI)
  show "an_entries (absNS s') = an_entries (aCreate (parent, name) (i_ID m) (i_Type m) (unat (i_NLink m)) (absNS s))"
    using assms by (auto simp: fun_eq_iff entryCreated_def absNS_def aCreate_def entryAt_def rowAt_def)
  show "an_inodes (absNS s') = an_inodes (aCreate (parent, name) (i_ID m) (i_Type m) (unat (i_NLink m)) (absNS s))"
    using assms by (auto simp: fun_eq_iff entryCreated_def absNS_def aCreate_def inodeAt_def rowAt_def)
qed

end
