(* ===== verification/Namespace_Refine.thy ===== *)
theory Namespace_Refine
  imports Namespace_Laws
begin

text \<open>
  Every namespace operation of the store implements its abstract counterpart and keeps the
  namespace invariant. Sequences of calls are a step relation, and the invariant holds of every
  store they reach.
\<close>

section \<open>Creates\<close>

lemma entryCreated_wf:
  assumes "entryCreated s s' parent name m" "ns_wf s" "wf_db (st_db s')"
  shows "ns_wf s'"
  unfolding ns_wf_def
proof (intro conjI allI impI)
  note ec = assms(1) [unfolded entryCreated_def] and wf = assms(2) [unfolded ns_wf_def]
  show "codec_ok (st_codec s')" using ec wf by simp
  show "wf_db (st_db s')" by (fact assms(3))
  show "entryAt s' p n \<noteq> None" if "dbGet (st_db s') (nsKey p n) \<noteq> None" for p n
  proof (cases "(p, n) = (parent, name)")
    case False
    then have "dbGet (st_db s') (nsKey p n) = dbGet (st_db s) (nsKey p n)" "st_codec s' = st_codec s"
      using ec by blast+
    then show ?thesis using that wf by (simp add: entryAt_def rowAt_def)
  qed (use ec in simp)
  show "\<exists>m'. inodeAt s' i = Some m' \<and> i_ID m' = i" if "dbGet (st_db s') (inodeKey i) \<noteq> None" for i
  proof (cases "i = i_ID m")
    case False
    then have "dbGet (st_db s') (inodeKey i) = dbGet (st_db s) (inodeKey i)" "st_codec s' = st_codec s"
      using ec by blast+
    then show ?thesis using that wf by (simp add: inodeAt_def rowAt_def)
  qed (use ec in simp)
qed

lemma entryCreated_inv:
  assumes ec: "entryCreated s s' parent name m" and inv: "ns_inv s" and wf': "wf_db (st_db s')"
    and "i_Type m \<noteq> FileDirectory \<longrightarrow> i_NLink m = 1"
  shows "ns_inv s'"
proof -
  have "an_entries (absNS s) (parent, name) = None" "an_inodes (absNS s) (i_ID m) = None"
    using ec by (simp_all add: entryCreated_def absNS_simps inodeAt_None entryAt_None)
  moreover have "i_Type m \<noteq> FileDirectory \<longrightarrow> unat (i_NLink m) = 1" using assms(4) by simp
  ultimately have "an_ok (absNS s')"
    using inv aCreate_ok [of "absNS s" "(parent, name)" "i_ID m" "i_Type m" "unat (i_NLink m)"]
    by (simp add: entryCreated_abs [OF ec] ns_inv_def)
  then show ?thesis using entryCreated_wf [OF ec _ wf'] inv by (simp add: ns_inv_def)
qed

lemma mkEntry_inv:
  assumes "applyNamespaceCreate s err (mkEntryBatch parent name b x mk) = (r, s')" and inv: "ns_inv s"
    and mk: "\<And>i. i_ID (mk i) = i" "\<And>i. i_Type (mk i) \<noteq> FileDirectory" "\<And>i. i_NLink (mk i) = 1"
  shows "ns_inv s' \<and> (case r of Inl _ \<Rightarrow> quiet s s' | Inr m \<Rightarrow> entryCreated s s' parent name m)"
proof (cases r)
  case (Inl e)
  have "quiet s s'" by (rule applyNamespaceCreate_Inl [OF assms(1) [unfolded Inl] mkEntryBatch_quiet])
  then show ?thesis using Inl quiet_ns_inv [OF _ inv] by simp
next
  case (Inr m)
  have wf: "wf_db (st_db s)" "codec_ok (st_codec s)" using inv by (auto simp: ns_inv_def ns_wf_def)
  note c = mkEntry_created [OF assms(1) [unfolded Inr] wf mk(1)]
  have "i_Type m \<noteq> FileDirectory \<longrightarrow> i_NLink m = 1" using c(5) mk by auto
  then show ?thesis using Inr c(1) entryCreated_inv [OF c(1) inv c(2)] by simp
qed

lemma newInode_simps [simp]:
  "i_ID (newInode i ty mo n b t) = i" "i_Type (newInode i ty mo n b t) = ty"
  "i_NLink (newInode i ty mo n b t) = n" "i_BucketRoot (newInode i ty mo n b t) = b"
  "i_Symlink (newInode i ty mo n b t) = []" "i_Rdev (newInode i ty mo n b t) = 0"
  by (simp_all add: newInode_def)

lemma CreateFile_step:
  assumes "CreateFile s parent name mode now = (r, s')" and "ns_inv s"
  shows "ns_inv s' \<and> (case r of Inl _ \<Rightarrow> quiet s s' | Inr m \<Rightarrow> entryCreated s s' parent name m)"
  using assms mkEntry_inv [of s ErrEntryExists parent name "getBucketRoot s parent" 0
      "\<lambda>i. newInode i FileRegular mode 1 (getBucketRoot s parent) now" r s']
  by (auto simp: CreateFile_def Let_def split: if_splits)

lemma CreateNode_step:
  assumes "CreateNode s parent name ftype mode rdev now = (r, s')" and "ns_inv s"
  shows "ns_inv s' \<and> (case r of Inl _ \<Rightarrow> quiet s s' | Inr m \<Rightarrow> entryCreated s s' parent name m)"
  using assms mkEntry_inv [of s ErrEntryExists parent name "getBucketRoot s parent" 0
      "\<lambda>i. (newInode i ftype mode 1 (getBucketRoot s parent) now)\<lparr>i_Rdev := rdev\<rparr>" r s']
  by (auto simp: CreateNode_def Let_def split: if_splits)

lemma Symlink_step:
  assumes "Symlink s parent name target now = (r, s')" and "ns_inv s"
  shows "ns_inv s' \<and> (case r of Inl _ \<Rightarrow> quiet s s' | Inr m \<Rightarrow> entryCreated s s' parent name m)"
  using assms mkEntry_inv [of s ErrEntryExists parent name "getBucketRoot s parent" "int (length target)"
      "\<lambda>i. (newInode i FileSymlink 511 1 (getBucketRoot s parent) now)\<lparr>i_Symlink := target\<rparr>" r s']
  by (auto simp: Symlink_def Let_def split: if_splits)

section \<open>Row updates in general\<close>

text \<open>
  A store after some rows were written and some were dropped. Every remaining operation is an
  instance.
\<close>

definition patched :: "'v store \<Rightarrow> (string \<times> row) list \<Rightarrow> string list \<Rightarrow> 'v store \<Rightarrow> bool" where
  "patched s ops dels s' \<longleftrightarrow> st_codec s' = st_codec s \<and> (wf_db (st_db s) \<longrightarrow> wf_db (st_db s')) \<and>
     (\<forall>k. \<not> prefix prefixFreeList k \<longrightarrow> dbGet (st_db s') k =
        (case map_of ops k of
           Some r \<Rightarrow> Some (marshalValue (st_codec s) r)
         | None \<Rightarrow> if k \<in> set dels then None else dbGet (st_db s) k))"

lemma patched_quiet:
  "patched s ops dels t \<Longrightarrow> quiet t u \<Longrightarrow> patched s ops dels u"
  "quiet s t \<Longrightarrow> patched t ops dels u \<Longrightarrow> patched s ops dels u"
  by (auto simp: patched_def quiet_def split: option.splits)

lemma patched_cache [simp]:
  "patched s ops dels (cacheDel t i) = patched s ops dels t"
  "patched s ops dels (cachePut t i m) = patched s ops dels t"
  by (simp_all add: patched_def cacheDel_def cachePut_def)

lemma guarded_patched:
  assumes "applyNamespaceConditional s (buildNamespaceConditionalOps s ops dels pre) err = (Inr (), s')"
    and "wf_db (st_db s)"
  shows "patched s ops dels s'"
  using guarded_ops(2,5) [OF assms] only_db(1) [OF guarded_ops(1) [OF assms]] by (simp add: patched_def)

lemma created_patched:
  assumes "applyNamespaceConditional s (buildNamespaceConditionalWithInodeGuard s nk ik ops) err = (Inr (), s')"
    and "wf_db (st_db s)"
  shows "patched s ops [] s'"
  using guarded_create(2,5) [OF assms refl] only_db(1) [OF guarded_create(1) [OF assms refl]]
  by (simp add: patched_def)

lemma dbGet_commitRows:
  assumes "distinct (map fst ops @ dels)" "wf_db (st_db s)"
  shows "dbGet (commitBatch (st_db s) (map (\<lambda>(k, r). putRow s k r) ops @ map (dropRow s) dels)) k =
    (case map_of ops k of
       Some r \<Rightarrow> Some (marshalValue (st_codec s) r)
     | None \<Rightarrow> if k \<in> set dels then None else dbGet (st_db s) k)"
proof -
  have d: "distinct (map bo_Key (map (\<lambda>(k, r). putRow s k r) ops @ map (dropRow s) dels))"
    using assms(1) by (simp add: putRow_def dropRow_def comp_def case_prod_beta)
  show ?thesis
    using assms(1)
    by (simp only: dbGet_commitBatch [OF d] map_append map_of_append map_add_def map_of_putRows map_of_dropRows)
      (auto split: option.splits dest!: map_of_SomeD)
qed

lemma batch_patched:
  assumes "applyBatchMsgpack s ops dels = (Inr (), s')" "distinct (map fst ops @ dels)" "wf_db (st_db s)"
  shows "patched s ops dels s'"
proof (cases "map (\<lambda>(k, r). putRow s k r) ops @ map (dropRow s) dels = []")
  case True
  then have "ops = []" "dels = []" by simp_all
  with assms(1) show ?thesis by (simp add: applyBatchMsgpack_def applyBatchViaRaft_def patched_def)
next
  case False
  then obtain d where ap: "applyReferenceAwareBatch (st_codec s) (st_db s)
      (map (\<lambda>(k, r). putRow s k r) ops @ map (dropRow s) dels) = Inr d" and s': "s' = s\<lparr>st_db := d\<rparr>"
    using assms(1) unfolding applyBatchMsgpack_def applyBatchViaRaft_def
    by (simp only: if_False split: if_splits sum.splits) simp_all
  show ?thesis
    using applyReferenceAwareBatch_commit [OF ap] dbGet_commitRows [OF assms(2,3)] assms(3) s'
    by (simp add: patched_def)
qed

lemma patched_entryAt:
  assumes "patched s ops dels s'" "codec_ok (st_codec s)"
  shows "entryAt s' p n = (case map_of ops (nsKey p n) of
    Some r \<Rightarrow> asEntry r | None \<Rightarrow> if nsKey p n \<in> set dels then None else entryAt s p n)"
  using assms by (auto simp: patched_def entryAt_def rowAt_def split: option.splits)

lemma patched_inodeAt:
  assumes "patched s ops dels s'" "codec_ok (st_codec s)"
  shows "inodeAt s' i = (case map_of ops (inodeKey i) of
    Some r \<Rightarrow> asInode r | None \<Rightarrow> if inodeKey i \<in> set dels then None else inodeAt s i)"
  using assms by (auto simp: patched_def inodeAt_def rowAt_def split: option.splits)

lemma patched_wf:
  assumes p: "patched s ops dels s'" and wf: "ns_wf s"
    and e: "\<And>p n r. map_of ops (nsKey p n) = Some r \<Longrightarrow> asEntry r \<noteq> None"
    and i: "\<And>i r. map_of ops (inodeKey i) = Some r \<Longrightarrow> \<exists>m. asInode r = Some m \<and> i_ID m = i"
  shows "ns_wf s'"
proof -
  have ok: "codec_ok (st_codec s)" using wf by (simp add: ns_wf_def)
  have db: "dbGet (st_db s') k = (case map_of ops k of
      Some r \<Rightarrow> Some (marshalValue (st_codec s) r) | None \<Rightarrow> if k \<in> set dels then None else dbGet (st_db s) k)"
    if "\<not> prefix prefixFreeList k" for k
    using p that by (simp add: patched_def)
  have "entryAt s' q n \<noteq> None" if "dbGet (st_db s') (nsKey q n) \<noteq> None" for q n
    using that wf e [of q n]
    by (auto simp: db patched_entryAt [OF p ok] ns_wf_def split: option.splits if_splits)
  moreover have "\<exists>m. inodeAt s' j = Some m \<and> i_ID m = j" if "dbGet (st_db s') (inodeKey j) \<noteq> None" for j
    using that wf i [of j]
    by (auto simp: db patched_inodeAt [OF p ok] ns_wf_def split: option.splits if_splits)
  ultimately show ?thesis using p wf by (simp add: ns_wf_def patched_def)
qed

section \<open>Removing and adding names\<close>

lemma ns_wf_id: "ns_wf s \<Longrightarrow> inodeAt s i = Some m \<Longrightarrow> i_ID m = i"
  using inodeAt_None unfolding ns_wf_def by (metis option.distinct(1) option.inject)

lemma inode_views:
  assumes "asInodeV2 r = Some v"
  shows "\<exists>m. asInode r = Some m \<and> i_NLink m = v_NLink v \<and> i_Type m = v_Type v \<and> i_ID m = v_ID v"
  using assms by (cases r) (auto simp: v2AsV1_def v1AsV2_def)

lemma inodeAt_raw:
  assumes "dbGet (st_db s) (inodeKey i) = Some raw" "unmarshalValue (st_codec s) raw = Some r" "asInode r = Some m"
  shows "inodeAt s i = Some m"
  using assms by (simp add: inodeAt_def rowAt_def)

text \<open>
  What \<open>Unlink\<close> plans for the inode: with one link left the row goes, otherwise the count in the
  row drops by one.
\<close>

lemma unlinkPlan_Inr:
  assumes "unlinkPlan s i now = Inr (ops, dels, gone)" and m: "inodeAt s i = Some m"
  shows "(if i_NLink m = 1
          then dels = [inodeKey i] \<and> (\<exists>b x. ops = addBucketStatsOp s b x (- 1)) \<and> gone = Some (i_ID m)
          else dels = [] \<and> (\<exists>r m'. ops = [(inodeKey i, r)] \<and> asInode r = Some m' \<and> i_ID m' = i_ID m \<and>
                 i_Type m' = i_Type m \<and> i_NLink m' = i_NLink m - 1))"
proof -
  obtain raw r where raw: "dbGet (st_db s) (inodeKey i) = Some raw" "unmarshalValue (st_codec s) raw = Some r"
    and r: "asInode r = Some m" using m by (auto simp: inodeAt_def rowAt_def bind_eq_Some_conv)
  from r obtain v where v: "asInodeV2 r = Some v" by (cases r) auto
  have eq: "i_NLink m = v_NLink v" "i_Type m = v_Type v" "i_ID m = v_ID v" using inode_views [OF v] r by auto
  have minus: "v_NLink v - 1 = 0 \<longleftrightarrow> i_NLink m = 1" using eq(1) by (metis diff_self eq_iff_diff_eq_0)
  show ?thesis
    using assms(1) raw v r eq minus
    by (auto simp: unlinkPlan_def Let_def v2AsV1_def split: if_splits)
qed

lemma aUnlink_Some:
  "an_entries a pn = Some (i, ty) \<Longrightarrow> an_inodes a i = Some (ty', n) \<Longrightarrow>
     aUnlink pn a = a\<lparr>an_entries := (an_entries a)(pn := None),
       an_inodes := (an_inodes a)(i := if n = 1 then None else Some (ty', n - 1))\<rparr>"
  by (simp add: aUnlink_def)

lemma Unlink_rows:
  assumes "Unlink s parent name now = (Inr (), s')" and wf: "ns_wf s"
  obtains e ops dels gone where "entryAt s parent name = Some e" "de_Type e \<noteq> FileDirectory"
    "unlinkPlan s (de_InodeID e) now = Inr (ops, dels, gone)"
    "patched s ops (nsKey parent name # dels) s'"
proof -
  obtain e where e: "storeGet asEntry s (nsKey parent name) = Inr (Some e)" and nd: "de_Type e \<noteq> FileDirectory"
    using assms(1) by (auto simp: Unlink_def split: if_splits sum.splits option.splits)
  obtain ops dels gone where pl: "unlinkPlan s (de_InodeID e) now = Inr (ops, dels, gone)"
    using assms(1) e nd by (auto simp: Unlink_def split: if_splits sum.splits)
  obtain raw where raw: "dbGet (st_db s) (nsKey parent name) = Some raw"
    using assms(1) e nd pl by (auto simp: Unlink_def split: if_splits option.splits)
  obtain s1 where s1: "applyNamespaceConditional s (buildNamespaceConditionalOps s ops (nsKey parent name # dels)
      (expectValue (nsKey parent name) raw)) ErrEntryNotFound = (Inr (), s1)"
    and s': "s' = cacheDel (case gone of Some i \<Rightarrow> releaseInodeID s1 i | None \<Rightarrow> s1) (de_InodeID e)"
    using assms(1) e nd pl raw by (auto simp: Unlink_def Let_def split: if_splits prod.splits sum.splits)
  have "patched s ops (nsKey parent name # dels) s1"
    using guarded_patched [OF s1] wf by (simp add: ns_wf_def)
  then have "patched s ops (nsKey parent name # dels) s'"
    using s' releaseInodeID_quiet [of s1] by (auto split: option.splits intro: patched_quiet(1))
  moreover have "entryAt s parent name = Some e" using e by (simp add: storeGet_Some entryAt_def)
  ultimately show thesis using that nd pl by blast
qed

lemma unat_pred: "x \<noteq> 0 \<Longrightarrow> unat (x - 1 :: u32) = unat x - 1"
  by (simp add: unat_minus_one)

lemma unat_succ: "x \<noteq> - 1 \<Longrightarrow> unat (x + 1 :: 'a :: len word) = unat x + 1"
  using unatSuc [of x] by (auto simp: add.commute add_eq_0_iff)

lemma Unlink_refines:
  assumes "Unlink s parent name now = (Inr (), s')" and inv: "ns_inv s"
  shows "absNS s' = aUnlink (parent, name) (absNS s)" "ns_inv s'"
    "\<exists>i ty. an_entries (absNS s) (parent, name) = Some (i, ty) \<and> ty \<noteq> FileDirectory"
proof -
  have wf: "ns_wf s" and ok: "codec_ok (st_codec s)" and an: "an_ok (absNS s)"
    using inv by (simp_all add: ns_inv_def ns_wf_def)
  obtain e ops dels gone where e: "entryAt s parent name = Some e" "de_Type e \<noteq> FileDirectory"
    and pl: "unlinkPlan s (de_InodeID e) now = Inr (ops, dels, gone)"
    and p: "patched s ops (nsKey parent name # dels) s'"
    by (rule Unlink_rows [OF assms(1) wf])
  have ae: "an_entries (absNS s) (parent, name) = Some (de_InodeID e, de_Type e)" using e by (simp add: absNS_simps)
  then obtain m where m: "inodeAt s (de_InodeID e) = Some m" and ty: "i_Type m = de_Type e"
    using an_okD(2) [OF an ae] by (auto simp: absNS_simps)
  have id: "i_ID m = de_InodeID e" by (rule ns_wf_id [OF wf m])
  have ai: "an_inodes (absNS s) (de_InodeID e) = Some (de_Type e, unat (i_NLink m))" using m ty by (simp add: absNS_simps)
  have "(parent, name) \<in> aLinks (absNS s) (de_InodeID e)" using ae by (simp add: aLinks_def)
  then have "0 < card (aLinks (absNS s) (de_InodeID e))" using an_okD(5) [OF an] by (auto simp: card_gt_0_iff)
  then have nz: "i_NLink m \<noteq> 0" using an_okD(4) [OF an ai e(2)] by auto
  have one: "unat (i_NLink m) = Suc 0 \<longleftrightarrow> i_NLink m = 1" by (metis One_nat_def unsigned_1 unsigned_word_eqI)
  note plan = unlinkPlan_Inr [OF pl m]
  show abs: "absNS s' = aUnlink (parent, name) (absNS s)"
  proof (rule namespace_eqI)
    show "an_entries (absNS s') = an_entries (aUnlink (parent, name) (absNS s))"
      unfolding aUnlink_Some [OF ae ai]
      using plan by (auto simp: fun_eq_iff absNS_simps patched_entryAt [OF p ok] split: if_splits)
    show "an_inodes (absNS s') = an_inodes (aUnlink (parent, name) (absNS s))"
      unfolding aUnlink_Some [OF ae ai]
      using plan ty by (auto simp: fun_eq_iff absNS_simps patched_inodeAt [OF p ok] one unat_pred [OF nz] split: if_splits)
  qed
  have "ns_wf s'"
    by (rule patched_wf [OF p wf]) (use plan id in \<open>auto split: if_splits\<close>)
  then show "ns_inv s'" using aUnlink_ok [OF an ae e(2)] abs by (simp add: ns_inv_def)
  show "\<exists>i ty. an_entries (absNS s) (parent, name) = Some (i, ty) \<and> ty \<noteq> FileDirectory" using ae e(2) by blast
qed

lemma Link_refines:
  assumes "Link s parent name target now = (Inr m', s')" and inv: "ns_inv s"
    and room: "\<And>m. inodeAt s target = Some m \<Longrightarrow> i_NLink m \<noteq> - 1"
  shows "absNS s' = aLink (parent, name) target (absNS s)" "ns_inv s'" "an_entries (absNS s) (parent, name) = None"
proof -
  have wf: "ns_wf s" and ok: "codec_ok (st_codec s)" and an: "an_ok (absNS s)"
    using inv by (simp_all add: ns_inv_def ns_wf_def)
  obtain raw r r' ty where raw: "dbGet (st_db s) (inodeKey target) = Some raw" "unmarshalValue (st_codec s) raw = Some r"
    and lr: "linkRow r now = Inr (r', ty, m')"
    and ap: "applyNamespaceConditional s (buildNamespaceConditional s (nsKey parent name)
       [(inodeKey target, r'), (nsKey parent name, REntry \<lparr>de_InodeID = target, de_Type = ty, de_Name = name\<rparr>)])
       ErrEntryExists = (Inr (), s')"
    using assms(1) by (auto simp: Link_def Let_def fail_def split: if_splits option.splits sum.splits prod.splits)
  note ap' = ap [unfolded buildNamespaceConditional_def]
  have wfd: "wf_db (st_db s)" using wf by (simp add: ns_wf_def)
  note p = guarded_patched [OF ap' wfd]
  have free: "dbGet (st_db s) (nsKey parent name) = None" using guarded_ops(3) [OF ap' wfd] by simp
  then show ae: "an_entries (absNS s) (parent, name) = None" by (simp add: absNS_simps entryAt_None)
  from lr obtain m where m: "asInode r = Some m"
    by (auto simp: linkRow_def fail_def split: option.splits)
  have at: "inodeAt s target = Some m" by (rule inodeAt_raw [OF raw m])
  have id: "i_ID m = target" by (rule ns_wf_id [OF wf at])
  obtain m1 where r': "asInode r' = Some m1" "i_ID m1 = i_ID m" "i_Type m1 = i_Type m" "i_NLink m1 = i_NLink m + 1"
    and ty: "ty = i_Type m" "i_Type m \<noteq> FileDirectory"
    using lr m by (cases "asInodeV2 r")
      (auto simp: linkRow_def Let_def fail_def v2AsV1_def dest: inode_views split: if_splits)
  have n: "unat (i_NLink m + 1) = unat (i_NLink m) + 1" by (rule unat_succ [OF room [OF at]])
  have ai: "an_inodes (absNS s) target = Some (i_Type m, unat (i_NLink m))" using at by (simp add: absNS_simps)
  show abs: "absNS s' = aLink (parent, name) target (absNS s)"
    by (rule namespace_eqI)
      (auto simp: fun_eq_iff absNS_simps aLink_def at patched_entryAt [OF p ok] patched_inodeAt [OF p ok] r' ty n)
  have "ns_wf s'" by (rule patched_wf [OF p wf]) (use r' id in \<open>auto split: if_splits\<close>)
  then show "ns_inv s'" using aLink_ok [OF an ae ai ty(2)] abs by (simp add: ns_inv_def)
qed

section \<open>Directories\<close>

lemma aSetLinks_simps:
  "an_entries (aSetLinks i n a) = an_entries a"
  "an_inodes (aSetLinks i n a) j = (if j = i then map_option (\<lambda>(ty, _). (ty, n)) (an_inodes a i) else an_inodes a j)"
  by (auto simp: aSetLinks_def split: option.splits)

lemma mkDirBatch_quiet: "quiet s (snd (mkDirBatch parent name mode now s))"
  using nextInodeID_quiet [of s]
  by (cases "nextInodeID s") (simp add: mkDirBatch_def Let_def split: sum.splits option.splits)

lemma mkDirBatch_rows:
  assumes "mkDirBatch parent name mode now t = ((b, m), t')"
  shows "\<exists>ops. b = buildNamespaceConditionalWithInodeGuard t' (nsKey parent name) (inodeKey (i_ID m))
      ((inodeKey (i_ID m), RInode m) #
       (nsKey parent name, REntry \<lparr>de_InodeID = i_ID m, de_Type = FileDirectory, de_Name = name\<rparr>) # ops) \<and>
     i_Type m = FileDirectory \<and> i_NLink m = 2 \<and> quiet t t' \<and>
     (ops = [] \<and> inodeAt t' parent = None \<or>
      (\<exists>p. inodeAt t' parent = Some p \<and> ops = [(inodeKey parent, RInode (p\<lparr>i_NLink := i_NLink p + 1, i_MTime := now\<rparr>))]))"
proof -
  obtain i where i: "nextInodeID t = (i, t')"
    using assms by (cases "nextInodeID t") (auto simp: mkDirBatch_def Let_def split: sum.splits option.splits)
  have q: "quiet t t'" using nextInodeID_quiet [of t] i by simp
  show ?thesis
  proof (cases "\<exists>p. storeGet asInode t' (inodeKey parent) = Inr (Some p)")
    case True
    then obtain p where p: "storeGet asInode t' (inodeKey parent) = Inr (Some p)" ..
    then have "inodeAt t' parent = Some p" by (simp add: storeGet_Some inodeAt_def)
    with assms i p q show ?thesis by (auto simp: mkDirBatch_def Let_def)
  next
    case False
    then have "inodeAt t' parent = None" by (cases "inodeAt t' parent") (auto simp: storeGet_Some inodeAt_def)
    with assms i False q show ?thesis
      by (auto simp: mkDirBatch_def Let_def split: sum.splits option.splits)
  qed
qed

lemma MkDir_rows:
  assumes "MkDir s parent name mode now = (Inr m, s')" and wfd: "wf_db (st_db s)"
  obtains ops where "patched s ((inodeKey (i_ID m), RInode m) #
      (nsKey parent name, REntry \<lparr>de_InodeID = i_ID m, de_Type = FileDirectory, de_Name = name\<rparr>) # ops) [] s'"
    "i_Type m = FileDirectory" "i_NLink m = 2" "entryAt s parent name = None" "inodeAt s (i_ID m) = None"
    "ops = [] \<and> inodeAt s parent = None \<or> (\<exists>p. inodeAt s parent = Some p \<and> parent \<noteq> i_ID m \<and>
      ops = [(inodeKey parent, RInode (p\<lparr>i_NLink := i_NLink p + 1, i_MTime := now\<rparr>))])"
proof -
  have cr: "applyNamespaceCreate s ErrEntryExists (mkDirBatch parent name mode now) = (Inr m, s')"
    using assms(1) by (simp add: MkDir_def split: if_splits)
  obtain t b t' where q: "quiet s t" and mk: "mkDirBatch parent name mode now t = ((b, m), t')"
    and ap: "applyNamespaceConditional t' b ErrEntryExists = (Inr (), s')"
    using applyNamespaceCreate_Inr [OF cr mkDirBatch_quiet] by blast
  obtain ops where b: "b = buildNamespaceConditionalWithInodeGuard t' (nsKey parent name) (inodeKey (i_ID m))
      ((inodeKey (i_ID m), RInode m) #
       (nsKey parent name, REntry \<lparr>de_InodeID = i_ID m, de_Type = FileDirectory, de_Name = name\<rparr>) # ops)"
    and m: "i_Type m = FileDirectory" "i_NLink m = 2" and q1: "quiet t t'"
    and ops: "ops = [] \<and> inodeAt t' parent = None \<or>
      (\<exists>p. inodeAt t' parent = Some p \<and> ops = [(inodeKey parent, RInode (p\<lparr>i_NLink := i_NLink p + 1, i_MTime := now\<rparr>))])"
    using mkDirBatch_rows [OF mk] by blast
  have q': "quiet s t'" using q q1 by (rule quiet_trans)
  then have wft: "wf_db (st_db t')" using wfd by (simp add: quiet_def)
  note gc = guarded_create [OF ap [unfolded b] wft refl]
  have free: "entryAt s parent name = None" "inodeAt s (i_ID m) = None"
    using gc(3,4) entryAt_None [of t'] inodeAt_None [of t'] quiet_entryAt [OF q'] quiet_inodeAt [OF q'] by auto
  show thesis
    by (rule that [OF patched_quiet(2) [OF q' created_patched [OF ap [unfolded b] wft]] m free])
      (use ops free(2) in \<open>auto simp: quiet_inodeAt [OF q']\<close>)
qed

lemma MkDir_refines:
  assumes "MkDir s parent name mode now = (Inr m, s')" and inv: "ns_inv s"
    and dir: "\<And>p. inodeAt s parent = Some p \<Longrightarrow> i_Type p = FileDirectory"
  shows "\<exists>n. absNS s' = aSetLinks parent n (aCreate (parent, name) (i_ID m) FileDirectory 2 (absNS s))"
    "ns_inv s'" "an_entries (absNS s) (parent, name) = None" "an_inodes (absNS s) (i_ID m) = None"
proof -
  have wf: "ns_wf s" and ok: "codec_ok (st_codec s)" and an: "an_ok (absNS s)" and wfd: "wf_db (st_db s)"
    using inv by (simp_all add: ns_inv_def ns_wf_def)
  obtain ops where p: "patched s ((inodeKey (i_ID m), RInode m) #
      (nsKey parent name, REntry \<lparr>de_InodeID = i_ID m, de_Type = FileDirectory, de_Name = name\<rparr>) # ops) [] s'"
    and m: "i_Type m = FileDirectory" "i_NLink m = 2" and free: "entryAt s parent name = None" "inodeAt s (i_ID m) = None"
    and ops: "ops = [] \<and> inodeAt s parent = None \<or> (\<exists>p. inodeAt s parent = Some p \<and> parent \<noteq> i_ID m \<and>
      ops = [(inodeKey parent, RInode (p\<lparr>i_NLink := i_NLink p + 1, i_MTime := now\<rparr>))])"
    using MkDir_rows [OF assms(1) wfd] by blast
  show fr: "an_entries (absNS s) (parent, name) = None" "an_inodes (absNS s) (i_ID m) = None"
    using free by (simp_all add: absNS_simps)
  let ?n = "case inodeAt s parent of None \<Rightarrow> 2 | Some p \<Rightarrow> unat (i_NLink p + 1)"
  let ?a = "aCreate (parent, name) (i_ID m) FileDirectory 2 (absNS s)"
  have e: "an_entries (absNS s') = an_entries (aSetLinks parent ?n ?a)"
    using ops by (auto simp: fun_eq_iff absNS_simps aSetLinks_def aCreate_def patched_entryAt [OF p ok] split: option.splits)
  have i: "an_inodes (absNS s') = an_inodes (aSetLinks parent ?n ?a)"
    using ops m by (auto simp: fun_eq_iff absNS_simps aSetLinks_def aCreate_def patched_inodeAt [OF p ok] split: option.splits)
  have abs: "absNS s' = aSetLinks parent ?n ?a" by (rule namespace_eqI [OF e i])
  then show "\<exists>n. absNS s' = aSetLinks parent n ?a" by blast
  have "an_ok ?a" by (rule aCreate_ok [OF an fr]) simp
  moreover have "ty = FileDirectory" if "an_inodes ?a parent = Some (ty, k)" for ty k
    using that dir by (auto simp: aCreate_def absNS_simps split: if_splits)
  ultimately have "an_ok (absNS s')" unfolding abs by (intro aSetLinks_dir_ok)
  moreover have "i_ID q = parent" if "inodeAt s parent = Some q" for q
    by (rule ns_wf_id [OF wf that])
  then have "ns_wf s'" by (intro patched_wf [OF p wf]) (use ops in \<open>auto split: if_splits\<close>)
  ultimately show "ns_inv s'" by (simp add: ns_inv_def)
qed

lemma RmDir_rows:
  assumes "RmDir s parent name now = (Inr (), s')" and wfd: "wf_db (st_db s)"
  obtains e ops where "entryAt s parent name = Some e" "de_Type e = FileDirectory"
    "scanPrefixWithLimit (st_db s) (nsPrefix (de_InodeID e)) 1 = []"
    "patched s ops [inodeKey (de_InodeID e), nsKey parent name] s'"
    "ops = [] \<and> inodeAt s parent = None \<or> (\<exists>p n. inodeAt s parent = Some p \<and> parent \<noteq> de_InodeID e \<and>
       ops = [(inodeKey parent, RInode (p\<lparr>i_MTime := now, i_NLink := n\<rparr>))])"
proof -
  obtain e raw where e: "storeGet asEntry s (nsKey parent name) = Inr (Some e)" "de_Type e = FileDirectory"
      "scanPrefixWithLimit (st_db s) (nsPrefix (de_InodeID e)) 1 = []"
    and raw: "dbGet (st_db s) (nsKey parent name) = Some raw"
    using assms(1) by (auto simp: RmDir_def split: if_splits sum.splits option.splits)
  define ops where "ops = (case storeGet asInode s (inodeKey parent) of
     Inr (Some p) \<Rightarrow> [(inodeKey parent, RInode (p\<lparr>i_MTime := now,
        i_NLink := (if 0 < i_NLink p then i_NLink p - 1 else i_NLink p)\<rparr>))] | _ \<Rightarrow> [])"
  obtain s1 where ap: "applyNamespaceConditional s (buildNamespaceConditionalOps s ops
      [inodeKey (de_InodeID e), nsKey parent name] (expectValue (nsKey parent name) raw)) ErrEntryNotFound = (Inr (), s1)"
    and s': "s' = releaseInodeID s1 (de_InodeID e)"
    using assms(1) e raw by (auto simp: RmDir_def Let_def ops_def [symmetric] split: if_splits prod.splits sum.splits)
  have p: "patched s ops [inodeKey (de_InodeID e), nsKey parent name] s'"
    using patched_quiet(1) [OF guarded_patched [OF ap wfd] releaseInodeID_quiet] s' by simp
  have view: "storeGet asInode s (inodeKey parent) = Inr (Some p) \<longleftrightarrow> inodeAt s parent = Some p" for p
    by (simp add: storeGet_Some inodeAt_def)
  have "ops = [] \<and> inodeAt s parent = None \<or> (\<exists>p n. inodeAt s parent = Some p \<and>
      ops = [(inodeKey parent, RInode (p\<lparr>i_MTime := now, i_NLink := n\<rparr>))])"
  proof (cases "inodeAt s parent")
    case None
    then have "ops = []" using view by (auto simp: ops_def split: sum.splits option.splits)
    with None show ?thesis by simp
  next
    case (Some p)
    then have "storeGet asInode s (inodeKey parent) = Inr (Some p)" by (simp only: view)
    then show ?thesis unfolding ops_def using Some by (simp only: sum.case option.case) blast
  qed
  moreover have "parent \<noteq> de_InodeID e" if "ops = [(inodeKey parent, r)]" for r
    using guarded_ops(4) [OF ap wfd] that by auto
  ultimately have o: "ops = [] \<and> inodeAt s parent = None \<or> (\<exists>p n. inodeAt s parent = Some p \<and> parent \<noteq> de_InodeID e \<and>
       ops = [(inodeKey parent, RInode (p\<lparr>i_MTime := now, i_NLink := n\<rparr>))])" by blast
  have "entryAt s parent name = Some e" using e(1) by (simp add: storeGet_Some entryAt_def)
  then show thesis by (rule that [OF _ e(2,3) p o])
qed

lemma RmDir_refines:
  assumes "RmDir s parent name now = (Inr (), s')" and inv: "ns_inv s"
    and dir: "\<And>p. inodeAt s parent = Some p \<Longrightarrow> i_Type p = FileDirectory"
  shows "\<exists>n. absNS s' = aSetLinks parent n (aRmDir (parent, name) (absNS s))" "ns_inv s'"
    "\<exists>i. an_entries (absNS s) (parent, name) = Some (i, FileDirectory)"
proof -
  have wf: "ns_wf s" and ok: "codec_ok (st_codec s)" and an: "an_ok (absNS s)" and wfd: "wf_db (st_db s)"
    using inv by (simp_all add: ns_inv_def ns_wf_def)
  obtain e ops where e: "entryAt s parent name = Some e" "de_Type e = FileDirectory"
      "scanPrefixWithLimit (st_db s) (nsPrefix (de_InodeID e)) 1 = []"
    and p: "patched s ops [inodeKey (de_InodeID e), nsKey parent name] s'"
    and ops: "ops = [] \<and> inodeAt s parent = None \<or> (\<exists>p n. inodeAt s parent = Some p \<and> parent \<noteq> de_InodeID e \<and>
       ops = [(inodeKey parent, RInode (p\<lparr>i_MTime := now, i_NLink := n\<rparr>))])"
    by (rule RmDir_rows [OF assms(1) wfd])
  have ae: "an_entries (absNS s) (parent, name) = Some (de_InodeID e, FileDirectory)" using e by (simp add: absNS_simps)
  then show "\<exists>i. an_entries (absNS s) (parent, name) = Some (i, FileDirectory)" by blast
  have a: "aRmDir (parent, name) (absNS s) = absNS s\<lparr>an_entries := (an_entries (absNS s))((parent, name) := None),
      an_inodes := (an_inodes (absNS s))(de_InodeID e := None)\<rparr>"
    using ae by (simp add: aRmDir_def)
  have "\<exists>n. absNS s' = aSetLinks parent n (aRmDir (parent, name) (absNS s))"
    using ops
  proof (elim disjE exE conjE)
    assume "ops = []" "inodeAt s parent = None"
    then have "absNS s' = aSetLinks parent 0 (aRmDir (parent, name) (absNS s))" unfolding a
      by (intro namespace_eqI ext) (auto simp: absNS_simps aSetLinks_simps patched_entryAt [OF p ok] patched_inodeAt [OF p ok] split: if_splits)
    then show ?thesis ..
  next
    fix q n assume "inodeAt s parent = Some q" "parent \<noteq> de_InodeID e"
      "ops = [(inodeKey parent, RInode (q\<lparr>i_MTime := now, i_NLink := n\<rparr>))]"
    then have "absNS s' = aSetLinks parent (unat n) (aRmDir (parent, name) (absNS s))" unfolding a
      by (intro namespace_eqI ext) (auto simp: absNS_simps aSetLinks_simps patched_entryAt [OF p ok] patched_inodeAt [OF p ok] split: if_splits)
    then show ?thesis ..
  qed
  then show "\<exists>n. absNS s' = aSetLinks parent n (aRmDir (parent, name) (absNS s))" .
  then obtain n where abs: "absNS s' = aSetLinks parent n (aRmDir (parent, name) (absNS s))" ..
  have "ty = FileDirectory" if "an_inodes (aRmDir (parent, name) (absNS s)) parent = Some (ty, k)" for ty k
    using that dir unfolding a by (auto simp: absNS_simps split: if_splits)
  then have "an_ok (absNS s')" unfolding abs by (intro aSetLinks_dir_ok aRmDir_ok [OF an ae])
  moreover have "i_ID q = parent" if "inodeAt s parent = Some q" for q by (rule ns_wf_id [OF wf that])
  then have "ns_wf s'" by (intro patched_wf [OF p wf]) (use ops in \<open>auto split: if_splits\<close>)
  ultimately show "ns_inv s'" by (simp add: ns_inv_def)
qed

section \<open>Rename\<close>

lemma finishRename_refines:
  assumes "finishRename s op on np nn e = (Inr (), s')" and inv: "ns_inv s"
    and e: "entryAt s op on = Some e" and free: "entryAt s np nn = None"
  shows "absNS s' = aMove (op, on) (np, nn) (absNS s)" "ns_inv s'"
proof -
  have wf: "ns_wf s" and ok: "codec_ok (st_codec s)" and an: "an_ok (absNS s)" and wfd: "wf_db (st_db s)"
    using inv by (simp_all add: ns_inv_def ns_wf_def)
  have ne: "(op, on) \<noteq> (np, nn)" using e free by auto
  have b: "applyBatchMsgpack s [(nsKey np nn, REntry (e\<lparr>de_Name := nn\<rparr>))] [nsKey op on] = (Inr (), s')"
    using assms(1) by (simp add: finishRename_def split: if_splits)
  have p: "patched s [(nsKey np nn, REntry (e\<lparr>de_Name := nn\<rparr>))] [nsKey op on] s'"
    by (rule batch_patched [OF b _ wfd]) (use ne in auto)
  have ae: "an_entries (absNS s) (op, on) = Some (de_InodeID e, de_Type e)" "an_entries (absNS s) (np, nn) = None"
    using e free by (simp_all add: absNS_simps)
  show abs: "absNS s' = aMove (op, on) (np, nn) (absNS s)"
    using ne ae unfolding aMove_def
    by (intro namespace_eqI ext) (auto simp: absNS_simps patched_entryAt [OF p ok] patched_inodeAt [OF p ok] split: if_splits)
  have "ns_wf s'" by (rule patched_wf [OF p wf]) (auto split: if_splits)
  then show "ns_inv s'" using aMove_ok [OF an ae] abs by (simp add: ns_inv_def)
qed

lemma Unlink_other:
  assumes "Unlink s np nn now = (Inr (), s')" "ns_inv s" "(op, on) \<noteq> (np, nn)"
  shows "entryAt s' op on = entryAt s op on" "entryAt s' np nn = None"
proof -
  have wf: "ns_wf s" and ok: "codec_ok (st_codec s)" and an: "an_ok (absNS s)"
    using assms(2) by (simp_all add: ns_inv_def ns_wf_def)
  obtain e ops dels gone where e: "entryAt s np nn = Some e" "de_Type e \<noteq> FileDirectory"
    and pl: "unlinkPlan s (de_InodeID e) now = Inr (ops, dels, gone)" and p: "patched s ops (nsKey np nn # dels) s'"
    by (rule Unlink_rows [OF assms(1) wf])
  obtain m where m: "inodeAt s (de_InodeID e) = Some m"
    using an_okD(2) [OF an, of "(np, nn)" "de_InodeID e" "de_Type e"] e by (auto simp: absNS_simps)
  show "entryAt s' op on = entryAt s op on" "entryAt s' np nn = None"
    using unlinkPlan_Inr [OF pl m] assms(3) by (auto simp: patched_entryAt [OF p ok] split: if_splits)
qed

lemma Rename_refines:
  assumes "Rename s op on np nn now = (Inr (), s')" and inv: "ns_inv s" and ne: "(op, on) \<noteq> (np, nn)"
  shows "absNS s' = aMove (op, on) (np, nn) (aUnlink (np, nn) (absNS s))" "ns_inv s'"
proof -
  obtain e where "storeGet asEntry s (nsKey op on) = Inr (Some e)"
    using assms(1) by (auto simp: Rename_def split: if_splits sum.splits option.splits)
  then have old: "entryAt s op on = Some e" "storeGet asEntry s (nsKey op on) = Inr (Some e)"
    by (simp_all add: storeGet_Some entryAt_def)
  have "absNS s' = aMove (op, on) (np, nn) (aUnlink (np, nn) (absNS s)) \<and> ns_inv s'"
  proof (cases "entryAt s np nn")
    case None
    then have "finishRename s op on np nn e = (Inr (), s')"
      using assms(1) old(2) by (auto simp: Rename_def storeGet_Some entryAt_def split: if_splits sum.splits option.splits)
    from finishRename_refines [OF this inv old(1) None] show ?thesis
      using None by (simp add: aUnlink_def absNS_simps)
  next
    case (Some dest)
    then have "storeGet asEntry s (nsKey np nn) = Inr (Some dest)" by (simp add: storeGet_Some entryAt_def)
    then obtain s1 where u: "Unlink s np nn now = (Inr (), s1)" and f: "finishRename s1 op on np nn e = (Inr (), s')"
      using assms(1) old(2) by (auto simp: Rename_def split: if_splits sum.splits prod.splits)
    note o = Unlink_other [OF u inv ne]
    from finishRename_refines [OF f Unlink_refines(2) [OF u inv]] show ?thesis
      using o old(1) Unlink_refines(1) [OF u inv] by simp
  qed
  then show "absNS s' = aMove (op, on) (np, nn) (aUnlink (np, nn) (absNS s))" "ns_inv s'" by simp_all
qed

section \<open>Failing calls\<close>

lemma failed_unchanged:
  "Unlink s parent name now = (Inl e, s') \<Longrightarrow> s' = s"
  "RmDir s parent name now = (Inl e, s') \<Longrightarrow> s' = s"
  "Link s parent name target now = (Inl e, s') \<Longrightarrow> s' = s"
  "applyBatchMsgpack s ops dels = (Inl e, s') \<Longrightarrow> s' = s"
  "finishRename s op on np nn d = (Inl e, s') \<Longrightarrow> s' = s"
proof -
  show b: "s' = s" if "applyBatchMsgpack s ops dels = (Inl e, s')" for ops dels
    using that by (auto simp: applyBatchMsgpack_def applyBatchViaRaft_def split: if_splits sum.splits)
  show "s' = s" if "Unlink s parent name now = (Inl e, s')"
    using that by (auto simp: Unlink_def Let_def split: if_splits sum.splits option.splits prod.splits
        dest: applyNamespaceConditional_Inl)
  show "s' = s" if "RmDir s parent name now = (Inl e, s')"
    using that by (auto simp: RmDir_def Let_def split: if_splits sum.splits option.splits prod.splits
        dest: applyNamespaceConditional_Inl)
  show "s' = s" if "Link s parent name target now = (Inl e, s')"
    using that by (auto simp: Link_def Let_def split: if_splits sum.splits option.splits prod.splits
        dest: applyNamespaceConditional_Inl)
  show "s' = s" if "finishRename s op on np nn d = (Inl e, s')"
    using that b by (auto simp: finishRename_def split: if_splits)
qed

lemma MkDir_failed: "MkDir s parent name mode now = (Inl e, s') \<Longrightarrow> quiet s s'"
  by (auto simp: MkDir_def split: if_splits dest!: applyNamespaceCreate_Inl [OF _ mkDirBatch_quiet])

text \<open>
  A rename that fails after it removed the destination leaves the store of that removal, which still
  satisfies the invariant.
\<close>

lemma Rename_failed:
  assumes "Rename s op on np nn now = (Inl e, s')" "ns_inv s"
  shows "ns_inv s' \<and> (absNS s' = absNS s \<or> absNS s' = aUnlink (np, nn) (absNS s))"
proof (cases "\<exists>s1. Unlink s np nn now = (Inr (), s1)")
  case True
  then obtain s1 where u: "Unlink s np nn now = (Inr (), s1)" ..
  have "s' = s \<or> s' = s1"
    using assms(1) u by (auto simp: Rename_def split: if_splits sum.splits option.splits dest: failed_unchanged(5))
  then show ?thesis using Unlink_refines(1,2) [OF u assms(2)] assms(2) by auto
next
  case False
  then have "s' = s"
    using assms(1) by (auto simp: Rename_def split: if_splits sum.splits option.splits prod.splits
        dest: failed_unchanged(1,5))
  then show ?thesis using assms(2) by simp
qed

section \<open>Directory roots and attribute updates\<close>

text \<open>A new directory inode without a name: the root of the tree or of a bucket.\<close>

lemma addDir_inv:
  assumes p: "patched s ops [] s'" and inv: "ns_inv s" and m: "i_Type m = FileDirectory" "i_ID m = i"
    and ops: "\<And>j. map_of ops (inodeKey j) = (if j = i then Some (RInode m) else None)"
      "\<And>p n. map_of ops (nsKey p n) = None"
    and new: "inodeAt s i = None"
  shows "ns_inv s'"
proof -
  have wf: "ns_wf s" and ok: "codec_ok (st_codec s)" and an: "an_ok (absNS s)"
    using inv by (simp_all add: ns_inv_def ns_wf_def)
  have none: "aLinks (absNS s) i = {}"
    using an_okD(2) [OF an] new by (force simp: aLinks_def absNS_simps)
  have e: "an_entries (absNS s') = an_entries (absNS s)"
    using ops(2) by (auto simp: fun_eq_iff absNS_simps patched_entryAt [OF p ok])
  have i: "an_inodes (absNS s') = (an_inodes (absNS s))(i \<mapsto> (FileDirectory, unat (i_NLink m)))"
    using m by (auto simp: fun_eq_iff absNS_simps patched_inodeAt [OF p ok] ops(1))
  have l: "aLinks (absNS s') j = aLinks (absNS s) j" for j using e by (simp add: aLinks_def)
  have "an_ok (absNS s')"
    unfolding an_ok_def
  proof (intro conjI allI impI)
    show "finite (dom (an_entries (absNS s')))" using an_okD(1) [OF an] e by simp
    show "\<exists>n. an_inodes (absNS s') j = Some (ty, n)" if "an_entries (absNS s') pn = Some (j, ty)" for pn j ty
      using an_okD(2) [OF an, of pn] that none by (cases pn; cases "j = i") (auto simp: e i aLinks_def)
    show "if ty = FileDirectory then card (aLinks (absNS s') j) \<le> 1 else n = card (aLinks (absNS s') j)"
      if "an_inodes (absNS s') j = Some (ty, n)" for j ty n
      using that an none by (auto simp: l i an_ok_def split: if_splits)
  qed
  moreover have "ns_wf s'" by (rule patched_wf [OF p wf]) (use ops m in \<open>auto split: if_splits\<close>)
  ultimately show ?thesis by (simp add: ns_inv_def)
qed

lemma put_patched:
  assumes "putMsgpack s k r = (Inr (), s')"
  shows "patched s [(k, r)] [] s'"
proof -
  obtain d where ap: "applyReferenceAwareBatch (st_codec s) (st_db s) [putRow s k r] = Inr d" and s': "s' = s\<lparr>st_db := d\<rparr>"
    using assms by (auto simp: putMsgpack_def applyViaRaft_def split: if_splits sum.splits)
  show ?thesis using applyReferenceAwareBatch_commit [OF ap] s' by (simp add: patched_def putRow_def applyOp_def)
qed

lemma initRootInode_inv:
  assumes "initRootInode s now = (r, s')" "ns_inv s"
  shows "ns_inv s'"
proof (cases "dbGet (st_db s) (inodeKey RootInodeID)")
  case None
  then have p: "putMsgpack s (inodeKey RootInodeID) (RInode (rootInode now)) = (r, s')"
    using assms(1) by (simp add: initRootInode_def)
  show ?thesis
  proof (cases r)
    case (Inl e)
    then have "s' = s" using p by (auto simp: putMsgpack_def applyViaRaft_def split: if_splits sum.splits)
    then show ?thesis using assms(2) by simp
  next
    case (Inr u)
    have p': "putMsgpack s (inodeKey RootInodeID) (RInode (rootInode now)) = (Inr (), s')" using p Inr by simp
    show ?thesis
      by (rule addDir_inv [OF put_patched [OF p'] assms(2), of "rootInode now" RootInodeID])
        (use inodeAt_None [OF None] in \<open>auto simp: rootInode_def\<close>)
  qed
qed (use assms in \<open>simp add: initRootInode_def\<close>)

lemma mkBucketBatch_quiet: "quiet s (snd (mkBucketBatch name policy now s))"
  using nextInodeID_quiet [of s] by (cases "nextInodeID s") (simp add: mkBucketBatch_def Let_def)

lemma ns_inv_bucketCache [simp]: "ns_inv (s\<lparr>st_bucketCache := c\<rparr>) = ns_inv s"
  by (simp add: ns_inv_def ns_wf_def absNS_def entryAt_def inodeAt_def rowAt_def)

lemma applyBucket_inv:
  assumes cr: "applyNamespaceCreate s err (mkBucketBatch name policy now) = (r, s')" and inv: "ns_inv s"
  shows "ns_inv s'"
proof (cases r)
  case (Inl e)
  then show ?thesis using applyNamespaceCreate_Inl [OF cr [unfolded Inl] mkBucketBatch_quiet] quiet_ns_inv inv by blast
next
  case (Inr info)
  obtain t b t' where q: "quiet s t" and mk: "mkBucketBatch name policy now t = ((b, info), t')"
    and ap: "applyNamespaceConditional t' b err = (Inr (), s')"
    using applyNamespaceCreate_Inr [OF cr [unfolded Inr] mkBucketBatch_quiet] by blast
  obtain i ops where b: "b = buildNamespaceConditionalWithInodeGuard t' (bucketKey name) (inodeKey i) ops"
    and ops: "\<And>j. map_of ops (inodeKey j) = (if j = i then Some (RInode (newInode i FileDirectory 493 2 i now)) else None)"
      "\<And>p n. map_of ops (nsKey p n) = None"
    and q1: "quiet t t'"
    using mk nextInodeID_quiet [of t] by (cases "nextInodeID t") (auto simp: mkBucketBatch_def Let_def)
  have inv': "ns_inv t'" using quiet_ns_inv [OF quiet_trans [OF q q1] inv] .
  then have wf: "wf_db (st_db t')" by (simp add: ns_inv_def ns_wf_def)
  show ?thesis
    by (rule addDir_inv [OF created_patched [OF ap [unfolded b] wf] inv' _ _ ops])
      (use inodeAt_None [OF guarded_create(4) [OF ap [unfolded b] wf refl]] in auto)
qed

lemma CreateBucket_inv: "CreateBucket s name policy now = (r, s') \<Longrightarrow> ns_inv s \<Longrightarrow> ns_inv s'"
  by (auto simp: CreateBucket_def split: if_splits sum.splits option.splits prod.splits dest: applyBucket_inv)

lemma addBucketStatsOp_keys [simp]:
  "(inodeKey i, r) \<notin> set (addBucketStatsOp s b x y)" "distinct (map fst (addBucketStatsOp s b x y))"
  by (auto simp: addBucketStatsOp_def Let_def)

text \<open>
  An update that hands back the link count and the type it was given changes no name and no count.
\<close>

lemma updatePlan_Inr:
  assumes "updatePlan s m = Inr ops" and at: "inodeAt s (i_ID m) = Some m0" "i_ID m0 = i_ID m"
    and same: "i_Type m = i_Type m0" "i_NLink m = i_NLink m0"
  shows "\<exists>b x r m'. ops = addBucketStatsOp s b x 0 @ [(inodeKey (i_ID m), r)] \<and> asInode r = Some m' \<and>
     i_ID m' = i_ID m \<and> i_Type m' = i_Type m0 \<and> i_NLink m' = i_NLink m0"
proof -
  obtain raw r where raw: "dbGet (st_db s) (inodeKey (i_ID m)) = Some raw" "unmarshalValue (st_codec s) raw = Some r"
    and r: "asInode r = Some m0" using at by (auto simp: inodeAt_def rowAt_def bind_eq_Some_conv)
  from r obtain v where v: "asInodeV2 r = Some v" by (cases r) auto
  have eq: "i_NLink m0 = v_NLink v" "i_Type m0 = v_Type v" "i_ID m0 = v_ID v" using inode_views [OF v] r by auto
  have ov: "asInode (RInodeV2 (overlayV2 v m)) = Some (v2AsV1 (overlayV2 v m))"
    "i_ID (v2AsV1 (overlayV2 v m)) = i_ID m" "i_Type (v2AsV1 (overlayV2 v m)) = i_Type m0"
    "i_NLink (v2AsV1 (overlayV2 v m)) = i_NLink m0"
    using eq same at(2) by (simp_all add: overlayV2_def v2AsV1_def)
  have "ops = addBucketStatsOp s (i_BucketRoot m) (i_Size m - v_Size v) 0 @ [(inodeKey (i_ID m), RInodeV2 (overlayV2 v m))] \<or>
      ops = addBucketStatsOp s (v_BucketRoot v) (i_Size m - v_Size v) 0 @ [(inodeKey (i_ID m), RInode m)]"
    using assms(1) raw v by (auto simp: updatePlan_def split: if_splits)
  then show ?thesis using ov same by (metis asInode.simps(1))
qed

lemma UpdateInode_inv:
  assumes "UpdateInode s m now = (r, s')" and inv: "ns_inv s" and at: "inodeAt s (i_ID m) = Some m0"
    and same: "i_Type m = i_Type m0" "i_NLink m = i_NLink m0"
  shows "ns_inv s' \<and> absNS s' = absNS s"
proof (cases r)
  case (Inl e)
  then have "s' = s" using assms(1) by (auto simp: UpdateInode_def Let_def split: if_splits sum.splits prod.splits
        dest: failed_unchanged(4))
  then show ?thesis using inv by simp
next
  case (Inr u)
  have wf: "ns_wf s" and ok: "codec_ok (st_codec s)" and wfd: "wf_db (st_db s)"
    using inv by (simp_all add: ns_inv_def ns_wf_def)
  let ?m = "m\<lparr>i_CTime := now\<rparr>"
  obtain ops s1 where pl: "updatePlan s ?m = Inr ops" and b: "applyBatchMsgpack s ops [] = (Inr (), s1)"
    and s': "s' = cacheDel s1 (i_ID m)"
    using assms(1) Inr by (auto simp: UpdateInode_def Let_def split: if_splits sum.splits prod.splits)
  have id: "i_ID m0 = i_ID m" by (rule ns_wf_id [OF wf at])
  obtain bk x q m' where ops: "ops = addBucketStatsOp s bk x 0 @ [(inodeKey (i_ID m), q)]"
    and q: "asInode q = Some m'" "i_ID m' = i_ID m" "i_Type m' = i_Type m0" "i_NLink m' = i_NLink m0"
    using updatePlan_Inr [OF pl] at id same by auto
  have "distinct (map fst ops @ [])" by (auto simp: ops)
  then have p: "patched s ops [] s'" using batch_patched [OF b _ wfd] s' by simp
  have abs: "absNS s' = absNS s"
    by (intro namespace_eqI ext)
      (auto simp: absNS_simps patched_entryAt [OF p ok] patched_inodeAt [OF p ok] ops map_add_def q at split: if_splits)
  have "ns_wf s'"
    by (rule patched_wf [OF p wf]) (use q in \<open>auto simp: ops map_add_def split: if_splits\<close>)
  then show ?thesis using abs inv by (simp add: ns_inv_def)
qed

end
