(* ===== verification/Namespace_Live.thy ===== *)
theory Namespace_Live
  imports Namespace_Refine
begin

text \<open>
  Creates that must succeed: the batches that namespace operations build pass the validation of
  conditional batches, and the retry with a reseeded inode counter always finds a free inode number
  when the counter has not reached the end of its range.
\<close>

lemma empty_store_inv:
  assumes "codec_ok (st_codec s)" "st_db s = []"
  shows "ns_inv s"
proof -
  have "absNS s = \<lparr>an_entries = (\<lambda>_. None), an_inodes = (\<lambda>_. None)\<rparr>"
    using assms(2) by (simp add: absNS_def entryAt_def inodeAt_def rowAt_def dbGet_def fun_eq_iff)
  then show ?thesis using assms by (simp add: ns_inv_def ns_wf_def an_ok_def dbGet_def wf_db_def)
qed

section \<open>Batches within the limits are accepted\<close>

lemma sum_list_sort_key [simp]:
  "sum_list (map f (sort_key g xs)) = sum_list (map f xs :: nat list)"
  by (metis mset_map mset_sort sum_mset_sum_list)

lemma list_all_sort_key [simp]: "list_all P (sort_key g xs) = list_all P xs"
  by (simp add: list_all_iff)

lemma plain_batch_canonical:
  assumes "cd_Version b = conditionalBatchVersion" "cd_ExpectedRaftTerm b = 0" "cd_PrefixReplacements b = []"
    and "distinct (map cp_Key (cd_Preconditions b))" "distinct (map bo_Key (cd_Mutations b))"
    and "list_all (preOK c) (cd_Preconditions b)" "list_all (mutationOK c) (cd_Mutations b)"
    and "length (cd_Preconditions b) \<le> maxConditionalPreconditions" "length (cd_Mutations b) \<le> maxConditionalMutations"
    and "conditionalBatchEncodedSize c b \<le> maxRaftLogEntryBytes"
  shows "canonicalConditionalBatch c b = Inr (sortedBatch b)"
proof -
  have v: "supportedVersion (cd_Version b)" "cd_Version b \<noteq> conditionalBatchTermFencedVersion"
    "cd_Version b \<noteq> chunkTombstoneConditionalBatchVersion" "cd_Version b \<noteq> chunkTombstoneFencedBatchVersion"
    using assms(1) by (simp_all add: supportedVersion_def version_defs)
  have "validateConditionalBatch c (sortedBatch b)"
    using v assms by (simp add: validateConditionalBatch_def sortedBatch_def adjacentDup_sort_key
        conditionalBatchEncodedSize_def)
  moreover have "countLimits b = (maxConditionalPreconditions, maxConditionalMutations)"
    using v by (simp add: countLimits_def)
  ultimately show ?thesis using v(1) assms(3,8,9) by (simp add: canonicalConditionalBatch_def)
qed

text \<open>
  Namespace operations write at most four rows. With rows of at most one mebibyte and keys of at
  most one kibibyte the batch is far below the limits of the log.
\<close>

definition rowFits :: "'v store \<Rightarrow> string \<times> row \<Rightarrow> bool" where
  "rowFits s kr \<longleftrightarrow> fst kr \<noteq> [] \<and> length (fst kr) \<le> 1024 \<and> vlen (st_codec s) (marshalValue (st_codec s) (snd kr)) \<le> 1048576"

lemma fits_mutations:
  assumes "list_all (rowFits s) ops"
  shows "list_all (mutationOK (st_codec s)) (map (\<lambda>(k, r). putRow s k r) ops)"
    "sum_list (map (opSize (st_codec s)) (map (\<lambda>(k, r). putRow s k r) ops)) \<le> length ops * 1049609"
  using assms by (induction ops)
    (auto simp: rowFits_def mutationOK_def putRow_def validateConditionalKey_def limit_defs opSize_def)

lemma guarded_create_accepted:
  assumes c: "vlen (st_codec s) (vempty (st_codec s)) = 0"
    and ops: "list_all (rowFits s) ops" "distinct (map fst ops)" "length ops \<le> 4"
    and keys: "nk \<noteq> ik" "nk \<noteq> []" "ik \<noteq> []" "length nk \<le> 1024" "length ik \<le> 1024"
  shows "canonicalConditionalBatch (st_codec s) (buildNamespaceConditionalWithInodeGuard s nk ik ops) =
    Inr (sortedBatch (buildNamespaceConditionalWithInodeGuard s nk ik ops))"
proof (rule plain_batch_canonical)
  let ?b = "buildNamespaceConditionalWithInodeGuard s nk ik ops"
  have "map bo_Key (cd_Mutations ?b) = map fst ops"
    by (auto simp: buildNamespaceConditionalWithInodeGuard_def putRow_def)
  then show "distinct (map bo_Key (cd_Mutations ?b))" using ops(2) by (simp only:)
  show "list_all (preOK (st_codec s)) (cd_Preconditions ?b)"
    using c keys by (simp add: buildNamespaceConditionalWithInodeGuard_def preOK_def expectAbsent_def
        validateConditionalKey_def limit_defs)
  have "conditionalBatchEncodedSize (st_codec s) ?b \<le> 3000 + length ops * 1049609"
    using fits_mutations(2) [OF ops(1)] keys
    by (simp add: buildNamespaceConditionalWithInodeGuard_def conditionalBatchEncodedSize_def preSize_def
        expectAbsent_def version_defs del: map_map)
  also have "\<dots> \<le> 3000 + 4 * 1049609" using ops(3) by simp
  finally show "conditionalBatchEncodedSize (st_codec s) ?b \<le> maxRaftLogEntryBytes"
    by (simp add: limit_defs)
qed (use assms fits_mutations(1) [OF ops(1)] in
  \<open>simp_all add: buildNamespaceConditionalWithInodeGuard_def expectAbsent_def limit_defs\<close>)

lemma guarded_create_succeeds:
  assumes "canonicalConditionalBatch (st_codec s) (buildNamespaceConditionalWithInodeGuard s nk ik ops) =
      Inr (sortedBatch (buildNamespaceConditionalWithInodeGuard s nk ik ops))"
    and "\<not> IsReadOnly (st_deg s)"
  shows "if dbGet (st_db s) nk = None \<and> dbGet (st_db s) ik = None
    then \<exists>s'. applyNamespaceConditional s (buildNamespaceConditionalWithInodeGuard s nk ik ops) err = (Inr (), s')
    else applyNamespaceConditional s (buildNamespaceConditionalWithInodeGuard s nk ik ops) err = (Inl err, s)"
proof -
  let ?b = "buildNamespaceConditionalWithInodeGuard s nk ik ops"
  have "list_all (preHolds (st_db s)) (cd_Preconditions (sortedBatch ?b)) \<longleftrightarrow>
      dbGet (st_db s) nk = None \<and> dbGet (st_db s) ik = None"
    by (auto simp: sortedBatch_def buildNamespaceConditionalWithInodeGuard_def)
  then show ?thesis
    using assms by (simp add: applyNamespaceConditional_def applyConditionalBatch_def)
qed

section \<open>Inode numbers\<close>

lemma foldl_max_ge:
  assumes "\<And>m x. (m :: u64) \<le> f m x"
  shows "m \<le> foldl f m xs"
  by (induction xs arbitrary: m) (auto intro: order_trans [OF assms])

lemma foldl_max_mem:
  assumes f: "\<And>m x. (m :: u64) \<le> f m x" and "x \<in> set xs" and "\<And>m. i \<le> f m x"
  shows "i \<le> foldl f m xs"
  using assms(2)
proof (induction xs arbitrary: m)
  case (Cons y ys)
  then show ?case using foldl_max_ge [where f = f, OF f, where m = "f m y" and xs = ys] assms(3) by (auto intro: order_trans)
qed simp

lemma maxInodeID_ge:
  assumes "wf_db d" "dbGet d (inodeKey i) = Some v"
  shows "i \<le> maxInodeID d"
proof (cases "i = 0")
  case False
  have "(inodeKey i, v) \<in> set (scanPrefix d prefixInode)"
    using assms by (simp add: scanPrefix_set inodeKey_def)
  then show ?thesis unfolding maxInodeID_def
    by (rule foldl_max_mem [rotated]) (use False in \<open>auto split: option.splits\<close>)
qed simp

lemma le_less_succ: "(a :: 'a :: len word) \<le> b \<Longrightarrow> b < - 1 \<Longrightarrow> a < b + 1"
  using unat_succ [of b] by (cases "b = - 1") (auto simp: word_less_nat_alt word_le_nat_alt)

lemma unat_ends: "unat (- 1 :: u64) = 18446744073709551615" "unat (- 2 :: u64) = 18446744073709551614"
  by (simp_all add: unsigned_minus_1_eq_mask mask_eq_exp_minus_1)

lemma seq_lt: "(a :: u64) < - 2 \<Longrightarrow> a < - 1"
  by (simp add: word_less_nat_alt unat_ends)

lemma seq_succ: "(a :: u64) < - 2 \<Longrightarrow> a + 1 < - 1"
  using unat_succ [of a] by (cases "a = - 1") (simp_all add: word_less_nat_alt unat_ends)

lemma reseed_next_fresh:
  assumes wf: "wf_db (st_db s)" and free: "st_freeList s = []"
    and room: "st_inodeSeq s < - 1" "maxInodeID (st_db s) < - 1"
    and nx: "nextInodeID (reseedInodeIDMax s) = (i, t)"
  shows "dbGet (st_db t) (inodeKey i) = None"
proof -
  let ?M = "maxInodeID (st_db s)"
  let ?q = "if ?M \<le> st_inodeSeq s then st_inodeSeq s else ?M"
  have i: "i = ?q + 1" and t: "st_db t = st_db s"
    using nx free by (auto simp: nextInodeID_def reseedInodeIDMax_def ensureInodeIDMax_def Let_def)
  have "?M \<le> ?q" "?q < - 1" using room by auto
  then have lt: "?M < i" unfolding i by (rule le_less_succ)
  show ?thesis
  proof (rule ccontr)
    assume "dbGet (st_db t) (inodeKey i) \<noteq> None"
    then have "i \<le> ?M" using maxInodeID_ge [OF wf] t by auto
    with lt show False by simp
  qed
qed

lemma length_showDec: "n < 10 ^ k \<Longrightarrow> 0 < k \<Longrightarrow> length (showDec n) \<le> k"
proof (induction k arbitrary: n)
  case (Suc k)
  show ?case
  proof (cases "n < 10")
    case False
    then have "0 < k" using Suc.prems(1) by (cases k) auto
    moreover have "n div 10 < 10 ^ k" using Suc.prems(1) by (simp add: less_mult_imp_div_less mult.commute)
    ultimately show ?thesis using Suc.IH [of "n div 10"] False by (subst showDec.simps) auto
  qed (subst showDec.simps; simp)
qed simp

lemma length_FormatUint: "length (FormatUint (i :: u64)) \<le> 20"
proof -
  have "unat i < 2 ^ 64" using unsigned_less [of i] by simp
  then have "unat i < 10 ^ 20" by (rule order_less_le_trans) simp
  then show ?thesis by (simp add: FormatUint_def length_showDec)
qed

lemma key_lengths:
  "length (inodeKey i) \<le> 1024" "length (bucketStatsKey i) \<le> 1024"
  "length name \<le> MaxNameLength \<Longrightarrow> length (nsKey parent name) \<le> 1024"
  using length_FormatUint [of i] length_FormatUint [of parent]
  by (simp_all add: key_defs inodeKey_def bucketStatsKey_def nsKey_def nsPrefix_def MaxNameLength_def)

lemma keys_not_Nil [simp]: "inodeKey i \<noteq> []" "bucketStatsKey i \<noteq> []" "nsKey p n \<noteq> []"
  by (simp_all add: inodeKey_def bucketStatsKey_def nsKey_def nsPrefix_def key_defs)

section \<open>Creates succeed on a free name\<close>

text \<open>The rows that a create writes fit the size limits of the log.\<close>

definition rowSmall :: "'v store \<Rightarrow> row \<Rightarrow> bool" where
  "rowSmall s r \<longleftrightarrow> vlen (st_codec s) (marshalValue (st_codec s) r) \<le> 1048576"

definition createFits :: "'v store \<Rightarrow> InodeID \<Rightarrow> int \<Rightarrow> string \<Rightarrow> (InodeID \<Rightarrow> InodeMeta) \<Rightarrow> bool" where
  "createFits s b x name mk \<longleftrightarrow>
     (\<forall>i. rowSmall s (RInode (mk i)) \<and> rowSmall s (REntry \<lparr>de_InodeID = i, de_Type = i_Type (mk i), de_Name = name\<rparr>)) \<and>
     list_all (\<lambda>kr. rowSmall s (snd kr)) (addBucketStatsOp s b x 1)"

lemma mkEntryBatch_result:
  assumes fits: "createFits s b x name mk" and q: "quiet s t" and c: "codec_ok (st_codec s)"
    and wr: "\<not> IsReadOnly (st_deg s)" and name: "length name \<le> MaxNameLength"
    and mk: "mkEntryBatch parent name b x mk t = ((bt, m), t')" and nx: "nextInodeID t = (i, u)"
  shows "t' = u \<and> m = mk i \<and>
    (if dbGet (st_db s) (nsKey parent name) = None \<and> dbGet (st_db s) (inodeKey i) = None
     then \<exists>s'. applyNamespaceConditional t' bt err = (Inr (), s')
     else applyNamespaceConditional t' bt err = (Inl err, t'))"
proof -
  let ?ops = "[(inodeKey i, RInode (mk i)), (nsKey parent name, REntry \<lparr>de_InodeID = i, de_Type = i_Type (mk i), de_Name = name\<rparr>)]
    @ addBucketStatsOp t' b x 1"
  have t: "t' = u" "m = mk i" and bt: "bt = buildNamespaceConditionalWithInodeGuard t' (nsKey parent name) (inodeKey i) ?ops"
    using mk nx by (auto simp: mkEntryBatch_def Let_def)
  have q': "quiet s t'" using quiet_trans [OF q] nextInodeID_quiet [of t] nx t by simp
  then have cd: "st_codec t' = st_codec s" and dg: "st_deg t' = st_deg s" by (simp_all add: quiet_def)
  have stats: "list_all (rowFits t') (addBucketStatsOp s b x 1)" "length (addBucketStatsOp s b x 1) \<le> 1"
    using fits cd by (auto simp: createFits_def rowFits_def rowSmall_def addBucketStatsOp_def Let_def key_lengths)
  have "canonicalConditionalBatch (st_codec t') bt = Inr (sortedBatch bt)"
    unfolding bt
  proof (rule guarded_create_accepted)
    show "list_all (rowFits t') ?ops"
      using stats(1) fits cd key_lengths(3) [OF name]
      by (simp add: quiet_addBucketStatsOp [OF q'] createFits_def rowFits_def rowSmall_def key_lengths(1))
    show "distinct (map fst ?ops)"
      by (auto simp: addBucketStatsOp_def Let_def)
  qed (use c cd stats(2) key_lengths(3) [OF name] in
      \<open>simp_all add: codec_ok_def quiet_addBucketStatsOp [OF q'] key_lengths(1)\<close>)
  from guarded_create_succeeds [OF this [unfolded bt], of err] show ?thesis
    using wr dg quiet_rows(1) [OF q'] t unfolding bt by simp
qed

text \<open>
  The counter may be behind the rows of the store. The first attempt then meets a used inode row;
  the second starts from the largest number in use.
\<close>

lemma applyNamespaceCreate_succeeds:
  assumes fits: "createFits s b x name mk" and inv: "ns_wf s" and wr: "\<not> IsReadOnly (st_deg s)"
    and name: "length name \<le> MaxNameLength" and free: "dbGet (st_db s) (nsKey parent name) = None"
    and fl: "st_freeList s = []" and room: "st_inodeSeq s < - 2" "maxInodeID (st_db s) < - 2"
  shows "\<exists>m s'. applyNamespaceCreate s err (mkEntryBatch parent name b x mk) = (Inr m, s')"
proof -
  have c: "codec_ok (st_codec s)" and wf: "wf_db (st_db s)" using inv by (simp_all add: ns_wf_def)
  obtain i u where nx: "nextInodeID s = (i, u)" by fastforce
  obtain bt m t' where mk: "mkEntryBatch parent name b x mk s = ((bt, m), t')" by (metis surj_pair)
  note r1 = mkEntryBatch_result [OF fits quiet_refl c wr name mk nx, of err]
  show ?thesis
  proof (cases "dbGet (st_db s) (inodeKey i) = None")
    case True
    then obtain s' where "applyNamespaceConditional t' bt err = (Inr (), s')" using r1 free by auto
    then show ?thesis by (simp add: applyNamespaceCreate_def mk)
  next
    case False
    then have conflict: "applyNamespaceConditional t' bt err = (Inl err, t')" using r1 by auto
    have t': "st_db t' = st_db s" "st_freeList t' = []" "st_inodeSeq t' < - 1"
      using nx fl r1 room seq_succ [of "st_inodeSeq s"] seq_succ [of "maxInodeID (st_db s)"]
      by (auto simp: nextInodeID_def ensureInodeIDMax_def Let_def)
    obtain j v where nx2: "nextInodeID (reseedInodeIDMax t') = (j, v)" by fastforce
    obtain bt2 m2 t2 where mk2: "mkEntryBatch parent name b x mk (reseedInodeIDMax t') = ((bt2, m2), t2)" by (metis surj_pair)
    have q: "quiet s (reseedInodeIDMax t')"
      using mkEntryBatch_quiet [of s parent name b x mk] mk reseedInodeIDMax_quiet quiet_trans by fastforce
    note r2 = mkEntryBatch_result [OF fits q c wr name mk2 nx2, of err]
    have "maxInodeID (st_db t') < - 1" using room(2) t'(1) seq_lt by simp
    then have "dbGet (st_db v) (inodeKey j) = None"
      by (intro reseed_next_fresh [OF _ t'(2,3) _ nx2]) (use wf t' in simp_all)
    moreover have "quiet s v" using quiet_trans [OF q nextInodeID_quiet] nx2 by (metis snd_conv)
    ultimately have "dbGet (st_db s) (inodeKey j) = None" using quiet_rows(1) by fastforce
    then obtain s' where "applyNamespaceConditional t2 bt2 err = (Inr (), s')" using r2 free by auto
    then show ?thesis by (simp add: applyNamespaceCreate_def mk mk2 conflict)
  qed
qed

section \<open>Removals and links succeed\<close>

lemma drop_mutations:
  assumes "vlen (st_codec s) (vempty (st_codec s)) = 0" "list_all (\<lambda>k. k \<noteq> [] \<and> length k \<le> 1024) ks"
  shows "list_all (mutationOK (st_codec s)) (map (dropRow s) ks)"
    "sum_list (map (opSize (st_codec s)) (map (dropRow s) ks)) \<le> length ks * 1029"
  using assms by (induction ks)
    (auto simp: mutationOK_def dropRow_def delOp_def validateConditionalKey_def limit_defs opSize_def)

lemma guarded_ops_accepted:
  assumes c: "vlen (st_codec s) (vempty (st_codec s)) = 0"
    and ops: "list_all (rowFits s) ops" "distinct (map fst ops @ dels)" "length ops \<le> 4" "length dels \<le> 4"
    and dels: "list_all (\<lambda>k. k \<noteq> [] \<and> length k \<le> 1024) dels"
    and pre: "preOK (st_codec s) pre" "preSize (st_codec s) pre \<le> 1050000"
  shows "canonicalConditionalBatch (st_codec s) (buildNamespaceConditionalOps s ops dels pre) =
    Inr (sortedBatch (buildNamespaceConditionalOps s ops dels pre))"
proof (rule plain_batch_canonical)
  let ?b = "buildNamespaceConditionalOps s ops dels pre"
  have "map bo_Key (cd_Mutations ?b) = map fst ops @ dels"
    by (simp add: buildNamespaceConditionalOps_def putRow_def dropRow_def comp_def case_prod_beta)
  then show "distinct (map bo_Key (cd_Mutations ?b))" using ops(2) by (simp only:)
  show "list_all (mutationOK (st_codec s)) (cd_Mutations ?b)"
    using fits_mutations(1) [OF ops(1)] drop_mutations(1) [OF c dels] by (simp add: buildNamespaceConditionalOps_def)
  have "conditionalBatchEncodedSize (st_codec s) ?b \<le> 1050100 + length ops * 1049609 + length dels * 1029"
    using fits_mutations(2) [OF ops(1)] drop_mutations(2) [OF c dels] pre(2)
    by (simp add: buildNamespaceConditionalOps_def conditionalBatchEncodedSize_def version_defs del: map_map)
  also have "\<dots> \<le> 1050100 + 4 * 1049609 + 4 * 1029" using ops(3,4) by simp
  finally show "conditionalBatchEncodedSize (st_codec s) ?b \<le> maxRaftLogEntryBytes"
    by (simp add: limit_defs)
qed (use assms in \<open>simp_all add: buildNamespaceConditionalOps_def limit_defs\<close>)

lemma guarded_ops_succeed:
  assumes "canonicalConditionalBatch (st_codec s) (buildNamespaceConditionalOps s ops dels pre) =
      Inr (sortedBatch (buildNamespaceConditionalOps s ops dels pre))"
    and "\<not> IsReadOnly (st_deg s)" "preHolds (st_db s) pre"
  shows "\<exists>s'. applyNamespaceConditional s (buildNamespaceConditionalOps s ops dels pre) err = (Inr (), s')"
  using assms by (simp add: applyNamespaceConditional_def applyConditionalBatch_def sortedBatch_def
      buildNamespaceConditionalOps_def)

lemma Unlink_succeeds:
  assumes inv: "ns_wf s" and st: "\<not> st_closed s" "\<not> IsReadOnly (st_deg s)"
    and e: "entryAt s parent name = Some e" "de_Type e \<noteq> FileDirectory"
    and name: "length name \<le> MaxNameLength"
    and pl: "unlinkPlan s (de_InodeID e) now = Inr (ops, dels, gone)"
    and raw: "dbGet (st_db s) (nsKey parent name) = Some raw" "vlen (st_codec s) raw \<le> 1048576"
    and ops: "list_all (rowFits s) ops" "distinct (map fst ops @ nsKey parent name # dels)" "length ops \<le> 4"
    and dels: "dels = [] \<or> dels = [inodeKey (de_InodeID e)]"
  shows "\<exists>s'. Unlink s parent name now = (Inr (), s')"
proof -
  have c: "vlen (st_codec s) (vempty (st_codec s)) = 0" using inv by (simp add: ns_wf_def codec_ok_def)
  have k: "length (nsKey parent name) \<le> 1024" by (rule key_lengths(3) [OF name])
  have d: "list_all (\<lambda>k. k \<noteq> [] \<and> length k \<le> 1024) (nsKey parent name # dels)" "length (nsKey parent name # dels) \<le> 4"
    using dels k key_lengths(1) by auto
  have pre: "preOK (st_codec s) (expectValue (nsKey parent name) raw)" "preSize (st_codec s) (expectValue (nsKey parent name) raw) \<le> 1050000"
    using raw(2) k by (simp_all add: preOK_def preSize_def expectValue_def validateConditionalKey_def limit_defs)
  have "preHolds (st_db s) (expectValue (nsKey parent name) raw)" using raw(1) by simp
  then obtain s1 where ap: "applyNamespaceConditional s (buildNamespaceConditionalOps s ops (nsKey parent name # dels)
      (expectValue (nsKey parent name) raw)) ErrEntryNotFound = (Inr (), s1)"
    using guarded_ops_succeed [OF guarded_ops_accepted [OF c ops(1,2,3) d(2,1) pre] st(2)] by blast
  have "storeGet asEntry s (nsKey parent name) = Inr (Some e)" using e(1) by (simp add: storeGet_Some entryAt_def)
  then show ?thesis using st(1) e(2) pl raw(1) ap by (simp add: Unlink_def Let_def)
qed

end
