(* ===== verification/Namespace_Sample.thy ===== *)
theory Namespace_Sample
  imports Namespace_Live
begin

text \<open>
  A concrete store on which the namespace properties apply: a root directory with a file that has
  two names and an empty directory.
\<close>

definition freshStore :: "row option store" where
  "freshStore = \<lparr>st_codec = plainCodec, st_evict = (\<lambda>al. al), st_db = [], st_closed = False,
     st_deg = NewDegradationManager, st_useBucketStats = False, st_inodeSeq = 0, st_inodeIDMaxInit = False,
     st_freeList = [], st_inCache = [], st_bucketCache = []\<rparr>"

definition demoRows :: "row option db" where
  "demoRows =
     [(inodeKey 1, Some (RInode (newInode 1 FileDirectory 493 3 0 0))),
      (inodeKey 2, Some (RInode (newInode 2 FileRegular 420 2 0 0))),
      (inodeKey 3, Some (RInode (newInode 3 FileDirectory 493 2 0 0))),
      (nsKey 1 ''a'', Some (REntry \<lparr>de_InodeID = 2, de_Type = FileRegular, de_Name = ''a''\<rparr>)),
      (nsKey 1 ''b'', Some (REntry \<lparr>de_InodeID = 2, de_Type = FileRegular, de_Name = ''b''\<rparr>)),
      (nsKey 1 ''d'', Some (REntry \<lparr>de_InodeID = 3, de_Type = FileDirectory, de_Name = ''d''\<rparr>))]"

definition demoStore :: "row option store" where
  "demoStore = freshStore\<lparr>st_db := demoRows, st_inodeSeq := 3, st_inodeIDMaxInit := True\<rparr>"

lemma plain_sizes:
  "vlen plainCodec v = (case v of None \<Rightarrow> 0 | Some _ \<Rightarrow> 1)" "vempty plainCodec = None"
  by (simp_all add: plainCodec_def)

lemma freshStore_simps [simp]:
  "st_codec freshStore = plainCodec" "st_db freshStore = []" "\<not> st_closed freshStore" "st_deg freshStore = NewDegradationManager"
  "st_useBucketStats freshStore = False" "st_freeList freshStore = []" "st_inodeSeq freshStore = 0"
  by (simp_all add: freshStore_def)

lemma demoStore_simps [simp]:
  "st_codec demoStore = plainCodec" "st_db demoStore = demoRows" "\<not> st_closed demoStore"
  "st_deg demoStore = NewDegradationManager" "st_useBucketStats demoStore = False" "st_freeList demoStore = []"
  by (simp_all add: demoStore_def)

lemma NewDegradationManager_writable [simp]: "\<not> IsReadOnly NewDegradationManager"
  by (simp add: IsReadOnly_def NewDegradationManager_def less_eq_DegradationState_def)

lemma demo_entryAt:
  "entryAt demoStore p n =
     (if p = 1 \<and> n = ''a'' then Some \<lparr>de_InodeID = 2, de_Type = FileRegular, de_Name = ''a''\<rparr>
      else if p = 1 \<and> n = ''b'' then Some \<lparr>de_InodeID = 2, de_Type = FileRegular, de_Name = ''b''\<rparr>
      else if p = 1 \<and> n = ''d'' then Some \<lparr>de_InodeID = 3, de_Type = FileDirectory, de_Name = ''d''\<rparr> else None)"
  by (auto simp: entryAt_def rowAt_def demoRows_def dbGet_def)

lemma demo_inodeAt:
  "inodeAt demoStore i =
     (if i = 1 then Some (newInode 1 FileDirectory 493 3 0 0)
      else if i = 2 then Some (newInode 2 FileRegular 420 2 0 0)
      else if i = 3 then Some (newInode 3 FileDirectory 493 2 0 0) else None)"
  by (auto simp: inodeAt_def rowAt_def demoRows_def dbGet_def)

lemma demo_links:
  "aLinks (absNS demoStore) i = (if i = 2 then {(1, ''a''), (1, ''b'')} else if i = 3 then {(1, ''d'')} else {})"
  by (auto simp: aLinks_def absNS_simps demo_entryAt split: if_splits)

lemma demo_inv: "ns_inv demoStore"
proof -
  have "dom (an_entries (absNS demoStore)) \<subseteq> {(1, ''a''), (1, ''b''), (1, ''d'')}"
    by (auto simp: absNS_simps demo_entryAt split: if_splits)
  then have "finite (dom (an_entries (absNS demoStore)))" by (rule finite_subset) simp
  moreover have "\<exists>n. an_inodes (absNS demoStore) i = Some (ty, n)" if "an_entries (absNS demoStore) pn = Some (i, ty)" for pn i ty
    using that by (cases pn) (auto simp: absNS_simps demo_entryAt demo_inodeAt split: if_splits)
  moreover have "if ty = FileDirectory then card (aLinks (absNS demoStore) i) \<le> 1 else n = card (aLinks (absNS demoStore) i)"
    if "an_inodes (absNS demoStore) i = Some (ty, n)" for i ty n
    using that by (auto simp: absNS_simps demo_inodeAt demo_links split: if_splits)
  ultimately have "an_ok (absNS demoStore)" unfolding an_ok_def by blast
  moreover have "wf_db demoRows" by (simp add: wf_db_def demoRows_def)
  moreover have "entryAt demoStore p n \<noteq> None" if "dbGet demoRows (nsKey p n) \<noteq> None" for p n
    using that by (auto simp: demo_entryAt demoRows_def dbGet_def split: if_splits)
  moreover have "\<exists>m. inodeAt demoStore i = Some m \<and> i_ID m = i" if "dbGet demoRows (inodeKey i) \<noteq> None" for i
    using that by (auto simp: demo_inodeAt demoRows_def dbGet_def split: if_splits)
  ultimately show ?thesis by (simp add: ns_inv_def ns_wf_def)
qed

lemma demo_wf: "ns_wf demoStore"
  using demo_inv by (simp add: ns_inv_def)

lemma fresh_inv: "ns_inv freshStore" "ns_wf freshStore"
  using empty_store_inv [of freshStore] by (simp_all add: ns_inv_def)

lemma plain_rowSmall [simp]: "st_codec s = plainCodec \<Longrightarrow> rowSmall s r"
  by (simp add: rowSmall_def) (simp add: plain_sizes)

lemma zero_less_end [simp]: "(0 :: u64) < - 2"
  by (simp add: word_less_nat_alt unat_ends)

lemma fresh_create: "\<exists>m s'. CreateFile freshStore 1 ''a'' 420 5 = (Inr m, s')"
proof -
  have "maxInodeID (st_db freshStore) < - 2" by (simp add: maxInodeID_def scanPrefix_def dbRange_def word_less_nat_alt unat_ends)
  then show ?thesis
    using applyNamespaceCreate_succeeds [of freshStore _ _ "''a''" _ 1 ErrEntryExists] fresh_inv(2)
    by (simp add: CreateFile_def Let_def MaxNameLength_def createFits_def addBucketStatsOp_def dbGet_def)
qed

lemma demo_unlink: "\<exists>s'. Unlink demoStore 1 ''a'' 9 = (Inr (), s')"
proof -
  let ?e = "\<lparr>de_InodeID = 2, de_Type = FileRegular, de_Name = ''a''\<rparr>"
  have pl: "unlinkPlan demoStore (de_InodeID ?e) 9 =
      Inr ([(inodeKey 2, RInode ((newInode 2 FileRegular 420 2 0 0)\<lparr>i_NLink := 1, i_MTime := 9\<rparr>))], [], None)"
    by (simp add: unlinkPlan_def demoRows_def dbGet_def v1AsV2_def Let_def)
  have e: "entryAt demoStore 1 ''a'' = Some ?e" by (simp add: demo_entryAt)
  have raw: "dbGet (st_db demoStore) (nsKey 1 ''a'') = Some (Some (REntry ?e))" by (simp add: demoRows_def dbGet_def)
  show ?thesis
    by (rule Unlink_succeeds [OF demo_wf _ _ e _ _ pl raw])
      (simp_all add: MaxNameLength_def rowFits_def key_lengths plain_sizes)
qed

lemma plain_rowFits: "st_codec s = plainCodec \<Longrightarrow> k \<noteq> [] \<Longrightarrow> length k \<le> 1024 \<Longrightarrow> rowFits s (k, r)"
  by (simp add: rowFits_def) (simp add: plain_sizes)

lemma demo_guarded:
  assumes "list_all (\<lambda>(k, r). k \<noteq> [] \<and> length k \<le> 1024) ops" "list_all (\<lambda>k. k \<noteq> [] \<and> length k \<le> 1024) dels"
    and "distinct (map fst ops @ dels)" "length ops \<le> 4" "length dels \<le> 4"
    and "preOK plainCodec pre" "preSize plainCodec pre \<le> 1050000" "preHolds demoRows pre"
  shows "\<exists>s'. applyNamespaceConditional demoStore (buildNamespaceConditionalOps demoStore ops dels pre) err = (Inr (), s')"
proof -
  have "list_all (rowFits demoStore) ops" using assms(1) plain_rowFits [of demoStore] by (auto simp: list_all_iff)
  then show ?thesis
    using guarded_ops_succeed [OF guarded_ops_accepted [of demoStore ops dels pre]] assms by (simp add: plain_sizes)
qed

lemma demo_link: "\<exists>m s'. Link demoStore 1 ''c'' 2 9 = (Inr m, s')"
proof -
  let ?r = "RInode ((newInode 2 FileRegular 420 2 0 0)\<lparr>i_NLink := 3, i_CTime := 9\<rparr>)"
  let ?e = "REntry \<lparr>de_InodeID = 2, de_Type = FileRegular, de_Name = ''c''\<rparr>"
  have "\<exists>s'. applyNamespaceConditional demoStore (buildNamespaceConditionalOps demoStore
      [(inodeKey 2, ?r), (nsKey 1 ''c'', ?e)] [] (expectAbsent plainCodec (nsKey 1 ''c''))) ErrEntryExists = (Inr (), s')"
    by (rule demo_guarded) (use key_lengths(3) [of "''c''" 1] in
        \<open>simp_all add: key_lengths(1) MaxNameLength_def preOK_def preSize_def expectAbsent_def validateConditionalKey_def
          limit_defs preHolds_def demoRows_def dbGet_def plain_sizes\<close>)
  moreover have "dbGet demoRows (inodeKey 2) = Some (Some (RInode (newInode 2 FileRegular 420 2 0 0)))"
    by (simp add: demoRows_def dbGet_def)
  ultimately show ?thesis
    by (auto simp: Link_def linkRow_def Let_def v1AsV2_def buildNamespaceConditional_def)
qed

lemma demo_rmdir: "\<exists>s'. RmDir demoStore 1 ''d'' 9 = (Inr (), s')"
proof -
  let ?e = "\<lparr>de_InodeID = 3, de_Type = FileDirectory, de_Name = ''d''\<rparr>"
  let ?r = "RInode ((newInode 1 FileDirectory 493 3 0 0)\<lparr>i_MTime := 9, i_NLink := 2\<rparr>)"
  have rows: "dbGet demoRows (nsKey 1 ''d'') = Some (Some (REntry ?e))"
    "dbGet demoRows (inodeKey 1) = Some (Some (RInode (newInode 1 FileDirectory 493 3 0 0)))"
    by (simp_all add: demoRows_def dbGet_def)
  have "scanPrefix demoRows (nsPrefix 3) = []"
    using demo_wf by (subst scanPrefix_Nil_iff) (auto simp: ns_wf_def demoRows_def dbGet_def nsKey_def nsPrefix_def inodeKey_def key_defs prefix_def)
  then have empty: "scanPrefixWithLimit demoRows (nsPrefix 3) 1 = []" by (simp add: scanPrefixWithLimit_def)
  have "\<exists>s'. applyNamespaceConditional demoStore (buildNamespaceConditionalOps demoStore
      [(inodeKey 1, ?r)] [inodeKey 3, nsKey 1 ''d''] (expectValue (nsKey 1 ''d'') (Some (REntry ?e)))) ErrEntryNotFound = (Inr (), s')"
    by (rule demo_guarded) (use key_lengths(3) [of "''d''" 1] rows(1) in
        \<open>simp_all add: key_lengths(1) MaxNameLength_def preOK_def preSize_def expectValue_def validateConditionalKey_def
          limit_defs preHolds_def plain_sizes\<close>)
  then show ?thesis
    using rows empty by (auto simp: RmDir_def Let_def storeGet_def getValue_def)
qed

lemma ns_not_guarded [simp]: "\<not> isChunkMetadataKey (nsKey p n)" "nsKey p n \<noteq> keyInodeReferenceEpoch"
  by (simp_all add: isChunkMetadataKey_def nsKey_def nsPrefix_def key_defs)

lemma demo_rename: "\<exists>s'. Rename demoStore 1 ''a'' 1 ''e'' 9 = (Inr (), s')"
proof -
  have "dbGet demoRows (nsKey 1 ''a'') = Some (Some (REntry \<lparr>de_InodeID = 2, de_Type = FileRegular, de_Name = ''a''\<rparr>))"
    "dbGet demoRows (nsKey 1 ''e'') = None"
    by (simp_all add: demoRows_def dbGet_def)
  then show ?thesis
    by (simp add: Rename_def storeGet_def getValue_def finishRename_def applyBatchMsgpack_def applyBatchViaRaft_def
        applyReferenceAwareBatch_runSteps checkedApply_def checkReferenceOp_def putRow_def dropRow_def Let_def)
qed

end
