(* ===== verification/Namespace_Props.thy ===== *)
theory Namespace_Props
  imports Namespace_Sample
begin

text \<open>
  The properties of the namespace that callers rely on: creates are visible and never overwrite,
  removals and renames implement the abstract operations, only empty directories go, and over
  every sequence of calls names resolve and link counts are exact.
\<close>

section \<open>Sequences of calls\<close>

text \<open>
  One call of the namespace interface, whatever it returns. The side conditions are those the code
  leaves to its callers: directory calls name a parent that is a directory or absent, a link count
  does not stand at its maximum, a rename has two different places, and an attribute update hands
  back the type and link count it read.
\<close>

definition parentDir :: "'v store \<Rightarrow> InodeID \<Rightarrow> bool" where
  "parentDir s parent \<longleftrightarrow> (case inodeAt s parent of None \<Rightarrow> True | Some p \<Rightarrow> i_Type p = FileDirectory)"

definition linkRoom :: "'v store \<Rightarrow> InodeID \<Rightarrow> bool" where
  "linkRoom s i \<longleftrightarrow> (case inodeAt s i of None \<Rightarrow> True | Some m \<Rightarrow> i_NLink m \<noteq> - 1)"

definition keepsLinks :: "'v store \<Rightarrow> InodeMeta \<Rightarrow> bool" where
  "keepsLinks s m \<longleftrightarrow>
     (case inodeAt s (i_ID m) of None \<Rightarrow> False | Some m0 \<Rightarrow> i_Type m = i_Type m0 \<and> i_NLink m = i_NLink m0)"

inductive nsStep :: "'v store \<Rightarrow> 'v store \<Rightarrow> bool" where
  step_init: "initRootInode s now = (ru, s') \<Longrightarrow> nsStep s s'"
| step_bucket: "CreateBucket s name policy now = (ru, s') \<Longrightarrow> nsStep s s'"
| step_create: "CreateFile s parent name mode now = (rm, s') \<Longrightarrow> nsStep s s'"
| step_node: "CreateNode s parent name ftype mode rdev now = (rm, s') \<Longrightarrow> nsStep s s'"
| step_symlink: "Symlink s parent name target now = (rm, s') \<Longrightarrow> nsStep s s'"
| step_mkdir: "parentDir s parent \<Longrightarrow> MkDir s parent name mode now = (rm, s') \<Longrightarrow> nsStep s s'"
| step_rmdir: "parentDir s parent \<Longrightarrow> RmDir s parent name now = (ru, s') \<Longrightarrow> nsStep s s'"
| step_unlink: "Unlink s parent name now = (ru, s') \<Longrightarrow> nsStep s s'"
| step_link: "linkRoom s i \<Longrightarrow> Link s parent name i now = (rm, s') \<Longrightarrow> nsStep s s'"
| step_rename: "(op, on) \<noteq> (np, nn) \<Longrightarrow> Rename s op on np nn now = (ru, s') \<Longrightarrow> nsStep s s'"
| step_update: "keepsLinks s m \<Longrightarrow> UpdateInode s m now = (ru, s') \<Longrightarrow> nsStep s s'"
| step_get: "GetInode s i = (rm, s') \<Longrightarrow> nsStep s s'"

lemma ns_inv_cachePut [simp]: "ns_inv (cachePut s i m) = ns_inv s"
  by (simp add: ns_inv_def ns_wf_def absNS_def entryAt_def inodeAt_def rowAt_def cachePut_def)

lemma GetInode_inv: "GetInode s i = (r, s') \<Longrightarrow> ns_inv s \<Longrightarrow> ns_inv s'"
  by (auto simp: GetInode_def split: if_splits option.splits sum.splits)

lemma nsStep_inv:
  assumes "nsStep s s'" "ns_inv s"
  shows "ns_inv s'"
  using assms
proof (induction rule: nsStep.induct)
  case (step_mkdir s parent name mode now rm s')
  then show ?case
    using MkDir_refines(2) [of s parent name mode now _ s'] quiet_ns_inv [OF MkDir_failed]
    by (cases rm) (auto simp: parentDir_def split: option.splits)
next
  case (step_rmdir s parent name now ru s')
  then show ?case
    using RmDir_refines(2) [of s parent name now s']
    by (cases ru) (auto simp: parentDir_def split: option.splits dest: failed_unchanged(2))
next
  case (step_unlink s parent name now ru s')
  then show ?case
    using Unlink_refines(2) [of s parent name now s'] by (cases ru) (auto dest: failed_unchanged(1))
next
  case (step_link s i parent name now rm s')
  then show ?case
    using Link_refines(2) [of s parent name i now _ s']
    by (cases rm) (auto simp: linkRoom_def split: option.splits dest: failed_unchanged(3))
next
  case (step_rename op on np nn s now ru s')
  then show ?case
    using Rename_refines(2) [of s op on np nn now s'] Rename_failed [of s op on np nn now _ s'] by (cases ru) auto
next
  case (step_update s m now ru s')
  then show ?case
    using UpdateInode_inv [of s m now ru s'] by (auto simp: keepsLinks_def split: option.splits)
qed (auto dest: initRootInode_inv CreateBucket_inv CreateFile_step CreateNode_step Symlink_step GetInode_inv)

lemma nsReachable_inv:
  assumes "nsStep\<^sup>*\<^sup>* s0 s" "codec_ok (st_codec s0)" "st_db s0 = []"
  shows "ns_inv s"
  using assms(1) by (induction rule: rtranclp_induct) (auto intro: nsStep_inv empty_store_inv assms(2,3))

section \<open>Invariants of every reachable store\<close>



section \<open>Creating\<close>

lemma entryCreated_Lookup:
  assumes "entryCreated s s' parent name m" "\<not> st_closed s'"
  shows "Lookup s' parent name = Inr m"
proof -
  have "storeGet asEntry s' (nsKey parent name) = Inr (Some \<lparr>de_InodeID = i_ID m, de_Type = i_Type m, de_Name = name\<rparr>)"
    "storeGet asInode s' (inodeKey (i_ID m)) = Inr (Some m)"
    using assms(1) by (simp_all add: storeGet_Some entryCreated_def entryAt_def inodeAt_def)
  then show ?thesis using assms(2) by (simp add: Lookup_def)
qed

text \<open>
  C14: A successful \<open>CreateFile\<close> used a free name and an inode number without a row, afterwards the
  name looks up to the returned inode, a regular file with one link, and every other directory
  entry is as before.
\<close>

theorem CreateFile_Lookup:
  assumes "CreateFile s parent name mode now = (Inr m, s')" "ns_wf s"
  shows "Lookup s parent name = Inl ErrEntryNotFound \<and> dbGet (st_db s) (inodeKey (i_ID m)) = None \<and>
    Lookup s' parent name = Inr m \<and> i_Type m = FileRegular \<and> i_NLink m = 1 \<and> i_Mode m = mode \<and>
    (\<forall>p n. (p, n) \<noteq> (parent, name) \<longrightarrow> entryAt s' p n = entryAt s p n)"
proof -
  have open': "\<not> st_closed s"
    and cr: "applyNamespaceCreate s ErrEntryExists (mkEntryBatch parent name (getBucketRoot s parent) 0
      (\<lambda>i. newInode i FileRegular mode 1 (getBucketRoot s parent) now)) = (Inr m, s')"
    using assms(1) by (auto simp: CreateFile_def Let_def split: if_splits)
  have wf: "wf_db (st_db s)" "codec_ok (st_codec s)" using assms(2) by (simp_all add: ns_wf_def)
  note c = mkEntry_created [OF cr wf newInode_simps(1)]
  have "Lookup s parent name = Inl ErrEntryNotFound" "dbGet (st_db s) (inodeKey (i_ID m)) = None"
    using c(1) open' by (simp_all add: Lookup_def entryCreated_def storeGet_None [THEN iffD2])
  moreover have "Lookup s' parent name = Inr m" using entryCreated_Lookup [OF c(1)] c(6) open' by simp
  moreover have "i_Type m = FileRegular \<and> i_NLink m = 1 \<and> i_Mode m = mode" using c(5) by (auto simp: newInode_def)
  moreover have "entryAt s' p n = entryAt s p n" if "(p, n) \<noteq> (parent, name)" for p n
  proof -
    have "dbGet (st_db s') (nsKey p n) = dbGet (st_db s) (nsKey p n)" using c(1) that by (simp add: entryCreated_def)
    then show ?thesis using c(3) by (simp add: entryAt_def rowAt_def)
  qed
  ultimately show ?thesis by blast
qed


text \<open>
  C15: Creating a file, device or symlink under a name that exists fails and leaves every directory
  entry and every inode row as it was: of two creates of one name only the first can win.
\<close>

theorem create_never_overwrites:
  assumes "ns_inv s" "entryAt s parent name = Some e"
    and "call \<in> {CreateFile s parent name mode now, CreateNode s parent name ftype mode rdev now,
           Symlink s parent name target now}"
    and "call = (r, s')"
  shows "(\<exists>err. r = Inl err) \<and> (\<forall>p n. entryAt s' p n = entryAt s p n) \<and> (\<forall>i. inodeAt s' i = inodeAt s i)"
proof -
  have "CreateFile s parent name mode now = (r, s') \<or> CreateNode s parent name ftype mode rdev now = (r, s') \<or>
      Symlink s parent name target now = (r, s')" using assms(3,4) by auto
  then have "case r of Inl _ \<Rightarrow> quiet s s' | Inr m \<Rightarrow> entryCreated s s' parent name m"
    by (elim disjE) (erule CreateFile_step [OF _ assms(1), THEN conjunct2]
      CreateNode_step [OF _ assms(1), THEN conjunct2] Symlink_step [OF _ assms(1), THEN conjunct2])+
  moreover have "\<not> entryCreated s s' parent name m" for m
    using assms(2) entryAt_None [of s parent name] by (auto simp: entryCreated_def)
  ultimately show ?thesis by (cases r) (auto simp: quiet_entryAt quiet_inodeAt)
qed

section \<open>Removing, linking and renaming\<close>

text \<open>
  C10: A successful \<open>Unlink\<close> implements the abstract removal of a name: the entry goes, and the
  inode goes with its last name or has its link count lowered by one. Nothing else changes, and
  the invariant is kept.
\<close>

theorem Unlink_implements:
  assumes "Unlink s parent name now = (Inr (), s')" "ns_inv s"
  shows "absNS s' = aUnlink (parent, name) (absNS s) \<and> ns_inv s' \<and> entryAt s' parent name = None"
proof -
  note u = Unlink_refines [OF assms]
  have "an_entries (absNS s') (parent, name) = None"
    unfolding u(1) by (auto simp: aUnlink_def split: option.splits)
  then have "entryAt s' parent name = None" by (simp add: absNS_simps)
  then show ?thesis using u by simp
qed

text \<open>
  C12: A successful \<open>Link\<close> implements the abstract addition of a name: the name was free, it now
  names the target, whose link count is one higher. The hypothesis excludes a count at the end of
  its 32 bits.
\<close>

theorem Link_implements:
  assumes "Link s parent name target now = (Inr m, s')" "ns_inv s" "linkRoom s target"
  shows "entryAt s parent name = None \<and> absNS s' = aLink (parent, name) target (absNS s) \<and> ns_inv s'"
  using Link_refines [OF assms(1,2)] assms(3) by (auto simp: linkRoom_def absNS_simps split: option.splits)

text \<open>
  C11: A successful \<open>Rename\<close> between two different places implements the abstract move: a file at
  the destination is unlinked first, then the entry stands at the new place only.
\<close>

theorem Rename_implements:
  assumes "Rename s oldParent oldName newParent newName now = (Inr (), s')" "ns_inv s"
    and "(oldParent, oldName) \<noteq> (newParent, newName)"
  shows "absNS s' = aMove (oldParent, oldName) (newParent, newName) (aUnlink (newParent, newName) (absNS s)) \<and> ns_inv s'"
  using Rename_refines [OF assms] by simp

lemma scanPrefixWithLimit_empty:
  assumes "wf_db d" "scanPrefixWithLimit d p 1 = []" "prefix p k"
  shows "dbGet d k = None"
  using assms scanPrefix_Nil_iff [OF assms(1), of p] by (simp add: scanPrefixWithLimit_def)

text \<open>
  C16: \<open>RmDir\<close> removes only empty directories: when it succeeds, the name led to a directory without
  a single entry, and neither the name nor the directory's inode is left.
\<close>

theorem RmDir_only_empty:
  assumes "RmDir s parent name now = (Inr (), s')" "ns_inv s"
  shows "\<exists>e. entryAt s parent name = Some e \<and> de_Type e = FileDirectory \<and> (\<forall>n. entryAt s (de_InodeID e) n = None) \<and>
     entryAt s' parent name = None \<and> inodeAt s' (de_InodeID e) = None"
proof -
  have wf: "wf_db (st_db s)" and ok: "codec_ok (st_codec s)" using assms(2) by (simp_all add: ns_inv_def ns_wf_def)
  obtain e ops where e: "entryAt s parent name = Some e" "de_Type e = FileDirectory"
      "scanPrefixWithLimit (st_db s) (nsPrefix (de_InodeID e)) 1 = []"
    and p: "patched s ops [inodeKey (de_InodeID e), nsKey parent name] s'"
    and ops: "ops = [] \<and> inodeAt s parent = None \<or> (\<exists>p n. inodeAt s parent = Some p \<and> parent \<noteq> de_InodeID e \<and>
       ops = [(inodeKey parent, RInode (p\<lparr>i_MTime := now, i_NLink := n\<rparr>))])"
    by (rule RmDir_rows [OF assms(1) wf])
  have "entryAt s (de_InodeID e) n = None" for n
    by (rule entryAt_None, rule scanPrefixWithLimit_empty [OF wf e(3)]) (simp add: nsKey_def)
  moreover have "entryAt s' parent name = None" "inodeAt s' (de_InodeID e) = None"
    using ops by (auto simp: patched_entryAt [OF p ok] patched_inodeAt [OF p ok])
  ultimately show ?thesis using e by blast
qed

section \<open>The properties on concrete stores\<close>

lemma fresh_created:
  obtains m s' where "CreateFile freshStore 1 ''a'' 420 5 = (Inr m, s')" "nsStep\<^sup>*\<^sup>* freshStore s'"
    "inodeAt s' (i_ID m) = Some m" "i_Type m = FileRegular" "\<not> st_closed s'"
    "entryAt s' 1 ''a'' = Some \<lparr>de_InodeID = i_ID m, de_Type = FileRegular, de_Name = ''a''\<rparr>"
proof -
  obtain m s' where c: "CreateFile freshStore 1 ''a'' 420 5 = (Inr m, s')" using fresh_create by blast
  have ec: "entryCreated freshStore s' 1 ''a'' m" using CreateFile_step [OF c fresh_inv(1)] by simp
  have cr: "applyNamespaceCreate freshStore ErrEntryExists (mkEntryBatch 1 ''a'' (getBucketRoot freshStore 1) 0
      (\<lambda>i. newInode i FileRegular 420 1 (getBucketRoot freshStore 1) 5)) = (Inr m, s')"
    using c by (simp add: CreateFile_def Let_def MaxNameLength_def)
  have "wf_db (st_db freshStore)" "codec_ok (st_codec freshStore)" by simp_all
  note k = mkEntry_created [OF cr this newInode_simps(1)]
  have ty: "i_Type m = FileRegular" using k(5) by auto
  have "nsStep\<^sup>*\<^sup>* freshStore s'" using step_create [OF c] by (rule r_into_rtranclp)
  then show thesis using that [OF c] ec ty k(6) by (simp add: entryCreated_def)
qed



theorem CreateFile_Lookup_witness:
  "\<exists>m s. CreateFile freshStore 1 ''a'' 420 5 = (Inr m, s) \<and> Lookup s 1 ''a'' = Inr m"
  using fresh_create CreateFile_Lookup [of freshStore 1 "''a''" 420 5] fresh_inv(2) by blast


theorem create_never_overwrites_witness:
  "\<exists>err s. CreateFile demoStore 1 ''a'' 420 9 = (Inl err, s) \<and> inodeAt s 2 = inodeAt demoStore 2"
proof -
  obtain r s where c: "CreateFile demoStore 1 ''a'' 420 9 = (r, s)" by fastforce
  have e: "entryAt demoStore 1 ''a'' = Some \<lparr>de_InodeID = 2, de_Type = FileRegular, de_Name = ''a''\<rparr>"
    by (simp add: demo_entryAt)
  from create_never_overwrites [OF demo_inv e insertI1 c] c show ?thesis by auto
qed

theorem Unlink_implements_witness:
  "\<exists>s. Unlink demoStore 1 ''a'' 9 = (Inr (), s) \<and> absNS s = aUnlink (1, ''a'') (absNS demoStore)"
  using demo_unlink Unlink_implements [OF _ demo_inv] by blast

theorem Link_implements_witness:
  "\<exists>m s. Link demoStore 1 ''c'' 2 9 = (Inr m, s) \<and> absNS s = aLink (1, ''c'') 2 (absNS demoStore)"
proof -
  have "linkRoom demoStore 2" by (simp add: linkRoom_def demo_inodeAt)
  then show ?thesis using demo_link Link_implements [OF _ demo_inv] by blast
qed

theorem Rename_implements_witness:
  "\<exists>s. Rename demoStore 1 ''a'' 1 ''e'' 9 = (Inr (), s) \<and>
     absNS s = aMove (1, ''a'') (1, ''e'') (aUnlink (1, ''e'') (absNS demoStore))"
proof -
  have "(1 :: InodeID, ''a'') \<noteq> (1, ''e'')" by simp
  then show ?thesis using demo_rename Rename_implements [OF _ demo_inv] by blast
qed

theorem RmDir_only_empty_witness:
  "\<exists>s. RmDir demoStore 1 ''d'' 9 = (Inr (), s) \<and> entryAt s 1 ''d'' = None"
  using demo_rmdir RmDir_only_empty [OF _ demo_inv] by blast

end
