(* ===== verification/Directory_Listing.thy ===== *)
theory Directory_Listing
  imports Namespace_Props
begin

text \<open>
  Listing a directory from a cursor. The iterator starts at the cursor's key, the loop passes over
  the cursor itself, and the page holds the next names in byte order.
\<close>

section \<open>Order of keys below a prefix\<close>

lemma less_append_prefix [simp]: "(p :: string) @ a < p @ b \<longleftrightarrow> a < b"
  by (induction p) auto

lemma le_append_prefix [simp]: "(p :: string) @ a \<le> p @ b \<longleftrightarrow> a \<le> b"
  by (induction p) auto

lemma Nil_less_string [simp]: "[] < (n :: string) \<longleftrightarrow> n \<noteq> []"
  by (cases n) auto

lemma prefix_less_append [simp]: "(p :: string) < p @ n \<longleftrightarrow> n \<noteq> []"
  using less_append_prefix [of p "[]" n] by (simp del: less_append_prefix)

section \<open>The loop\<close>

lemma readDirLoop_zero [simp]: "readDirLoop c p n 0 kvs = []"
  by (cases kvs) auto

lemma readDirLoop_skip:
  "readDirLoop c p 0 k kvs = readDirLoop c p 0 k (filter (\<lambda>kv. TrimPrefix (fst kv) p \<noteq> []) kvs)"
  by (induction c p "0::nat" k kvs rule: readDirLoop.induct) (auto split: option.splits)

lemma readDirLoop_take:
  assumes "\<forall>kv\<in>set kvs. TrimPrefix (fst kv) p \<noteq> [] \<and> listedEntry c p kv \<noteq> None"
  shows "readDirLoop c p 0 k kvs = take k (map (\<lambda>kv. the (listedEntry c p kv)) kvs)"
  using assms
proof (induction kvs arbitrary: k)
  case (Cons kv kvs)
  then show ?case by (cases k) auto
qed simp

text \<open>The rows behind the cursor.\<close>

definition rowsAfter :: "'v store \<Rightarrow> InodeID \<Rightarrow> string \<Rightarrow> (string \<times> 'v) list" where
  "rowsAfter s parent after = filter (\<lambda>kv. nsKey parent after < fst kv) (scanPrefix (st_db s) (nsPrefix parent))"

lemma dbRange_above:
  assumes "p \<le> lo"
  shows "dbRange d lo (prefixUpperBound p) = filter (\<lambda>kv. lo \<le> fst kv) (scanPrefix d p)"
proof -
  have eq: "(\<lambda>kv. inRange lo (prefixUpperBound p) (fst kv)) = (\<lambda>kv. inRange p (prefixUpperBound p) (fst kv) \<and> lo \<le> fst kv)"
    using assms by (auto simp: inRange_def fun_eq_iff)
  show ?thesis by (simp add: scanPrefix_def dbRange_def filter_sort eq conj_commute)
qed

lemma filter_le_less:
  fixes xs :: "(string \<times> 'v) list"
  assumes "sorted (map fst xs)" "distinct (map fst xs)"
  shows "(case filter (\<lambda>kv. c \<le> fst kv) xs of [] \<Rightarrow> [] | kv # kvs \<Rightarrow> if fst kv = c then kvs else kv # kvs)
    = filter (\<lambda>kv. c < fst kv) xs"
  using assms
proof (induction xs)
  case (Cons x xs)
  have later: "fst x < fst y" if "y \<in> set xs" for y
    using Cons.prems that by (auto simp: order_less_le)
  consider "fst x < c" | "fst x = c" | "c < fst x" by force
  then show ?case
  proof cases
    case 2
    then have "filter (\<lambda>kv. c < fst kv) xs = xs" "filter (\<lambda>kv. c \<le> fst kv) xs = xs"
      using later by (auto intro!: filter_True simp: order_less_le)
    then show ?thesis using 2 by simp
  next
    case 3
    then have "filter (\<lambda>kv. c < fst kv) xs = xs" "filter (\<lambda>kv. c \<le> fst kv) xs = xs"
      using later by (auto intro!: filter_True dest!: later)
    then show ?thesis using 3 by (auto simp: order_less_imp_le)
  qed (use Cons in auto)
qed simp

lemma ReadDirFrom_page:
  assumes "ns_wf s" "\<not> st_closed s"
  shows "ReadDirFrom s parent after limit =
    Inr (take (readDirLimit limit) (map (\<lambda>kv. the (listedEntry (st_codec s) (nsPrefix parent) kv)) (rowsAfter s parent after)))"
proof -
  let ?p = "nsPrefix parent" and ?xs = "scanPrefix (st_db s) (nsPrefix parent)"
  have wf: "wf_db (st_db s)" using assms(1) by (simp add: ns_wf_def)
  note ord = scanPrefix_sorted [OF wf, of ?p] scanPrefix_distinct [OF wf, of ?p]
  have le: "?p \<le> ?p @ after" using le_append_prefix [of ?p "[]" after] by simp
  have shape: "\<exists>n. k = ?p @ n \<and> entryAt s parent n = Option.bind (unmarshalValue (st_codec s) v) asEntry \<and> entryAt s parent n \<noteq> None"
    if "(k, v) \<in> set ?xs" for k v
  proof -
    have kv: "dbGet (st_db s) k = Some v" "prefix ?p k" using that by (auto simp: scanPrefix_set [OF wf])
    then obtain n where n: "k = ?p @ n" by (auto simp: prefix_def)
    then have "dbGet (st_db s) (nsKey parent n) = Some v" using kv by (simp add: nsKey_def)
    moreover from this have "entryAt s parent n \<noteq> None" using assms(1) unfolding ns_wf_def by blast
    ultimately show ?thesis using n by (auto simp: entryAt_def rowAt_def)
  qed
  have empty: "TrimPrefix (fst kv) ?p \<noteq> [] \<longleftrightarrow> ?p < fst kv" if "kv \<in> set ?xs" for kv
    using shape [of "fst kv" "snd kv"] that by auto
  have "ReadDirFrom s parent after limit = Inr (readDirLoop (st_codec s) ?p 0 (readDirLimit limit) (rowsAfter s parent after))"
  proof (cases "after = []")
    case True
    have "filter (\<lambda>kv. TrimPrefix (fst kv) ?p \<noteq> []) ?xs = rowsAfter s parent after"
      unfolding rowsAfter_def using empty True by (intro filter_cong) (simp_all add: nsKey_def)
    then show ?thesis using True assms(2) readDirLoop_skip [of "st_codec s" ?p _ ?xs]
      by (simp add: ReadDirFrom_def Let_def scanPrefix_def)
  next
    case False
    then show ?thesis using assms(2) filter_le_less [OF ord, of "?p @ after"]
      by (simp add: ReadDirFrom_def Let_def dbRange_above [OF le] rowsAfter_def nsKey_def)
  qed
  moreover have "\<forall>kv\<in>set (rowsAfter s parent after). TrimPrefix (fst kv) ?p \<noteq> [] \<and> listedEntry (st_codec s) ?p kv \<noteq> None"
  proof (intro ballI)
    fix kv assume "kv \<in> set (rowsAfter s parent after)"
    then have kv: "(fst kv, snd kv) \<in> set ?xs" "?p @ after < fst kv" by (auto simp: rowsAfter_def nsKey_def)
    obtain n where n: "fst kv = ?p @ n" "Option.bind (unmarshalValue (st_codec s) (snd kv)) asEntry \<noteq> None"
      using shape [OF kv(1)] by metis
    then have "n \<noteq> []" using kv(2) by auto
    with n show "TrimPrefix (fst kv) ?p \<noteq> [] \<and> listedEntry (st_codec s) ?p kv \<noteq> None" by (simp add: listedEntry_def)
  qed
  ultimately show ?thesis by (simp add: readDirLoop_take)
qed

section \<open>What a page holds\<close>

definition namesAfter :: "'v store \<Rightarrow> InodeID \<Rightarrow> string \<Rightarrow> string set" where
  "namesAfter s parent after = {n. after < n \<and> entryAt s parent n \<noteq> None}"

lemma rowsAfter_keys:
  assumes "ns_wf s"
  shows "(k, v) \<in> set (rowsAfter s parent after) \<longleftrightarrow>
    (\<exists>n\<in>namesAfter s parent after. k = nsKey parent n \<and> dbGet (st_db s) k = Some v)"
proof -
  have wf: "wf_db (st_db s)" using assms by (simp add: ns_wf_def)
  have "entryAt s parent n \<noteq> None \<longleftrightarrow> dbGet (st_db s) (nsKey parent n) \<noteq> None" for n
    using assms entryAt_None [of s parent n] unfolding ns_wf_def by metis
  then show ?thesis
    by (auto simp: rowsAfter_def scanPrefix_set [OF wf] namesAfter_def nsKey_def prefix_def)
qed

lemma rowsAfter_names:
  assumes "ns_wf s"
  shows "map (\<lambda>kv. TrimPrefix (fst kv) (nsPrefix parent)) (rowsAfter s parent after)
    = sorted_list_of_set (namesAfter s parent after)"
proof -
  let ?N = "map (\<lambda>kv. TrimPrefix (fst kv) (nsPrefix parent)) (rowsAfter s parent after)"
  have wf: "wf_db (st_db s)" using assms by (simp add: ns_wf_def)
  have keys: "map fst (rowsAfter s parent after) = map (nsKey parent) ?N"
    using rowsAfter_keys [OF assms, of _ _ parent after] by (auto simp: nsKey_def)
  have "sorted (map fst (rowsAfter s parent after))" "distinct (map fst (rowsAfter s parent after))"
    using scanPrefix_sorted [OF wf] scanPrefix_distinct [OF wf]
    by (simp_all add: rowsAfter_def sorted_filter distinct_map_filter)
  then have "sorted ?N" "distinct ?N"
    unfolding keys by (simp_all add: sorted_map nsKey_def distinct_map inj_on_def)
  moreover have "set ?N = namesAfter s parent after"
  proof (intro set_eqI iffI)
    fix n assume "n \<in> set ?N"
    then show "n \<in> namesAfter s parent after"
      using rowsAfter_keys [OF assms, of _ _ parent after] by (auto simp: nsKey_def)
  next
    fix n assume n: "n \<in> namesAfter s parent after"
    then obtain v where "dbGet (st_db s) (nsKey parent n) = Some v"
      using entryAt_None [of s parent n] by (cases "dbGet (st_db s) (nsKey parent n)") (auto simp: namesAfter_def)
    then have "(nsKey parent n, v) \<in> set (rowsAfter s parent after)" using n by (auto simp: rowsAfter_keys [OF assms])
    then have "TrimPrefix (nsKey parent n) (nsPrefix parent) \<in> set ?N" by force
    then show "n \<in> set ?N" by (simp add: nsKey_def)
  qed
  ultimately show ?thesis using sorted_list_of_set.idem_if_sorted_distinct by metis
qed

text \<open>
  C17: A page of \<open>ReadDirFrom\<close> holds the entries of the directory behind the cursor in byte order of
  their names, as many as the limit allows, each under its own name and each once: paging by the
  last name seen neither skips nor repeats an entry.
\<close>

theorem ReadDirFrom_lists:
  assumes "ns_wf s" "\<not> st_closed s"
  shows "ReadDirFrom s parent after limit =
    Inr (map (\<lambda>n. (the (entryAt s parent n))\<lparr>de_Name := n\<rparr>)
          (take (readDirLimit limit) (sorted_list_of_set (namesAfter s parent after))))"
proof -
  have "the (listedEntry (st_codec s) (nsPrefix parent) kv) =
      (\<lambda>n. (the (entryAt s parent n))\<lparr>de_Name := n\<rparr>) (TrimPrefix (fst kv) (nsPrefix parent))"
    if mem: "kv \<in> set (rowsAfter s parent after)" for kv
  proof -
    obtain n where n: "n \<in> namesAfter s parent after" "fst kv = nsKey parent n" "dbGet (st_db s) (fst kv) = Some (snd kv)"
      using rowsAfter_keys [OF assms(1), of "fst kv" "snd kv" parent after] mem unfolding prod.collapse by blast
    then obtain e where e: "entryAt s parent n = Some e" by (auto simp: namesAfter_def)
    with n have "Option.bind (unmarshalValue (st_codec s) (snd kv)) asEntry = Some e"
      by (simp add: entryAt_def rowAt_def)
    then show ?thesis using n(2) e by (simp add: listedEntry_def nsKey_def)
  qed
  then have "map (\<lambda>kv. the (listedEntry (st_codec s) (nsPrefix parent) kv)) (rowsAfter s parent after) =
      map (\<lambda>n. (the (entryAt s parent n))\<lparr>de_Name := n\<rparr>)
        (map (\<lambda>kv. TrimPrefix (fst kv) (nsPrefix parent)) (rowsAfter s parent after))" by simp
  then show ?thesis
    unfolding ReadDirFrom_page [OF assms] rowsAfter_names [OF assms(1)] by (simp add: take_map)
qed

theorem ReadDirFrom_lists_witness:
  "ReadDirFrom demoStore 1 ''a'' 1 = Inr [\<lparr>de_InodeID = 2, de_Type = FileRegular, de_Name = ''b''\<rparr>]"
proof -
  have "namesAfter demoStore 1 ''a'' = {''b'', ''d''}"
    by (auto simp: namesAfter_def demo_entryAt less_char_def)
  then have "sorted_list_of_set (namesAfter demoStore 1 ''a'') = [''b'', ''d'']"
    by (simp add: less_eq_char_def less_char_def)
  then show ?thesis
    using ReadDirFrom_lists [OF demo_wf, of 1 "''a''" 1] by (simp add: readDirLimit_def maxReadDirEntries_def demo_entryAt)
qed

end
