(* ===== verification/Advisory_Locks.thy ===== *)
theory Advisory_Locks
  imports Nufs_Types
begin

text \<open>
  The advisory file locks of the metadata service (\<open>lock.go\<close> and the four entry points of
  \<open>pebble_store.go\<close> that delegate to it). The table is an array of shards, each a map from inodes
  to the holders of their lock; the shard of an inode is the bit-masked finaliser of a 64-bit
  hash. The interface \<open>shard_array\<close> says when an array of maps indexed by a hash behaves like one
  map, and the lock lemmas are proved over that view. Every operation runs under the mutex of
  its shard, so a run of the table is a sequence of whole operations (\<open>lockStep\<close>).
\<close>

unbundle bit_operations_syntax

section \<open>Data\<close>

datatype LockMode = LockModeExclusive | LockModeShared

record LockInfo =
  li_Inode :: InodeID
  li_Owner :: string
  li_Mode :: LockMode
  li_Since :: int

record lockHolder =
  lh_owner :: string
  lh_mode :: LockMode
  lh_sinceNs :: int
  lh_refcount :: int

type_synonym lockState = "(string \<times> lockHolder) list"
type_synonym lockShard = "(InodeID \<times> lockState) list"

record advisoryLockManager =
  lm_shards :: "lockShard list"
  lm_shardCount :: u64

definition defaultLockShardCount :: u64 where
  "defaultLockShardCount = 32"

definition newLockShards :: "u64 \<Rightarrow> lockShard list" where
  "newLockShards n = replicate (unat n) []"

definition newAdvisoryLockManager :: advisoryLockManager where
  "newAdvisoryLockManager =
     \<lparr> lm_shards = newLockShards defaultLockShardCount, lm_shardCount = defaultLockShardCount \<rparr>"

section \<open>Operations\<close>

definition lockHash :: "u64 \<Rightarrow> u64" where
  "lockHash h =
     (let h1 = h XOR drop_bit 33 h;
          h2 = h1 * 0xff51afd7ed558ccd
      in h2 XOR drop_bit 33 h2)"

definition lockShardFor :: "advisoryLockManager \<Rightarrow> InodeID \<Rightarrow> nat" where
  "lockShardFor m inode = unat (lockHash inode AND (lm_shardCount m - 1))"

definition lockShardOf :: "advisoryLockManager \<Rightarrow> InodeID \<Rightarrow> lockShard" where
  "lockShardOf m inode = lm_shards m ! lockShardFor m inode"

definition storeShard :: "advisoryLockManager \<Rightarrow> InodeID \<Rightarrow> lockShard \<Rightarrow> advisoryLockManager" where
  "storeShard m inode shard = m\<lparr> lm_shards := (lm_shards m)[lockShardFor m inode := shard] \<rparr>"

definition validateOwner :: "string \<Rightarrow> unit result" where
  "validateOwner owner = (if owner = [] then Inl ErrInvalidOwner else Inr ())"

text \<open>The cross-owner check of a fresh acquirer, over every holder of the inode.\<close>

fun lockBusy :: "string \<Rightarrow> LockMode \<Rightarrow> lockState \<Rightarrow> bool" where
  "lockBusy owner mode [] = False"
| "lockBusy owner mode ((otherOwner, h) # hs) =
     (if otherOwner = owner then lockBusy owner mode hs
      else if lh_mode h = LockModeExclusive then True
      else if mode = LockModeExclusive then True
      else lockBusy owner mode hs)"

definition acquire ::
  "advisoryLockManager \<Rightarrow> InodeID \<Rightarrow> string \<Rightarrow> LockMode \<Rightarrow> int \<Rightarrow> unit result \<times> advisoryLockManager" where
  "acquire m inode owner mode now =
     (case validateOwner owner of
        Inl e \<Rightarrow> (Inl e, m)
      | Inr _ \<Rightarrow>
          let shard0 = lockShardOf m inode;
              shard = (case map_of shard0 inode of
                         None \<Rightarrow> AList.update inode [] shard0
                       | Some _ \<Rightarrow> shard0);
              state = (case map_of shard0 inode of None \<Rightarrow> [] | Some st \<Rightarrow> st)
          in case map_of state owner of
               Some h \<Rightarrow>
                 (Inr (), storeShard m inode (AList.update inode
                    (AList.update owner (h\<lparr> lh_refcount := lh_refcount h + 1 \<rparr>) state) shard))
             | None \<Rightarrow>
                 if lockBusy owner mode state
                 then (Inl ErrLockBusy, storeShard m inode shard)
                 else (Inr (), storeShard m inode (AList.update inode
                    (AList.update owner \<lparr> lh_owner = owner, lh_mode = mode, lh_sinceNs = now,
                                          lh_refcount = 1 \<rparr> state) shard)))"

definition release ::
  "advisoryLockManager \<Rightarrow> InodeID \<Rightarrow> string \<Rightarrow> unit result \<times> advisoryLockManager" where
  "release m inode owner =
     (case validateOwner owner of
        Inl e \<Rightarrow> (Inl e, m)
      | Inr _ \<Rightarrow>
          let shard = lockShardOf m inode
          in case map_of shard inode of
               None \<Rightarrow> (Inr (), m)
             | Some state \<Rightarrow>
                 (case map_of state owner of
                    None \<Rightarrow> (Inr (), m)
                  | Some h0 \<Rightarrow>
                      let h = h0\<lparr> lh_refcount := lh_refcount h0 - 1 \<rparr>;
                          state' = (if lh_refcount h \<le> 0 then AList.delete owner state
                                    else AList.update owner h state)
                      in (Inr (), storeShard m inode
                            (if state' = [] then AList.delete inode shard
                             else AList.update inode state' shard))))"

definition holderInfo :: "InodeID \<Rightarrow> lockHolder \<Rightarrow> LockInfo" where
  "holderInfo inode h = \<lparr> li_Inode = inode, li_Owner = lh_owner h, li_Mode = lh_mode h,
                          li_Since = lh_sinceNs h \<rparr>"

definition listLocks :: "advisoryLockManager \<Rightarrow> InodeID \<Rightarrow> LockInfo list" where
  "listLocks m inode =
     (case map_of (lockShardOf m inode) inode of
        None \<Rightarrow> []
      | Some state \<Rightarrow> sort_key li_Owner (map (\<lambda>(owner, h). holderInfo inode h) state))"

text \<open>The entry points of the store: a closed store and a cancelled context answer first.\<close>

definition lockGuard ::
  "bool \<Rightarrow> Error option \<Rightarrow> advisoryLockManager \<Rightarrow> 'a result \<times> advisoryLockManager
   \<Rightarrow> 'a result \<times> advisoryLockManager" where
  "lockGuard isClosed ctxErr m body =
     (if isClosed then (Inl ErrServiceClosed, m)
      else case ctxErr of Some e \<Rightarrow> (Inl e, m) | None \<Rightarrow> body)"

definition AdvisoryLock where
  "AdvisoryLock isClosed ctxErr m inode owner now =
     lockGuard isClosed ctxErr m (acquire m inode owner LockModeExclusive now)"

definition AdvisoryLockShared where
  "AdvisoryLockShared isClosed ctxErr m inode owner now =
     lockGuard isClosed ctxErr m (acquire m inode owner LockModeShared now)"

definition AdvisoryUnlock where
  "AdvisoryUnlock isClosed ctxErr m inode owner =
     lockGuard isClosed ctxErr m (release m inode owner)"

definition AdvisoryListLocks where
  "AdvisoryListLocks isClosed ctxErr m inode =
     lockGuard isClosed ctxErr m (Inr (listLocks m inode), m)"

section \<open>An array of maps indexed by a hash\<close>

locale shard_array =
  fixes idx :: "'k \<Rightarrow> nat" and n :: nat
  assumes idx_bound: "idx k < n"
begin

lemma put_lookup:
  assumes "length ss = n"
  shows "map_of (ss[idx k := AList.update k v (ss ! idx k)] ! idx k') k'
         = ((\<lambda>j. map_of (ss ! idx j) j)(k \<mapsto> v)) k'"
  using assms idx_bound [of k] by (cases "idx k' = idx k") (auto simp: nth_list_update)

lemma drop_lookup:
  assumes "length ss = n"
  shows "map_of (ss[idx k := AList.delete k (ss ! idx k)] ! idx k') k'
         = ((\<lambda>j. map_of (ss ! idx j) j)(k := None)) k'"
  using assms idx_bound [of k] by (cases "idx k' = idx k") (auto simp: nth_list_update)

end

definition lockIndex :: "InodeID \<Rightarrow> nat" where
  "lockIndex inode = unat (lockHash inode AND 31)"

lemma lockIndex_bound: "lockIndex inode < 32"
proof -
  have "lockHash inode AND 31 = take_bit 5 (lockHash inode)"
    by (simp add: take_bit_eq_mask mask_eq_exp_minus_1)
  then have "lockIndex inode = take_bit 5 (unat (lockHash inode))"
    by (simp add: lockIndex_def unsigned_take_bit_eq)
  then show ?thesis
    using take_bit_nat_less_exp [of 5 "unat (lockHash inode)"] by simp
qed

interpretation locks: shard_array lockIndex 32
  by unfold_locales (rule lockIndex_bound)

section \<open>The table as one map from inodes to holders\<close>

definition stateOf :: "advisoryLockManager \<Rightarrow> InodeID \<Rightarrow> lockState option" where
  "stateOf m inode = map_of (lockShardOf m inode) inode"

definition lockShape :: "advisoryLockManager \<Rightarrow> bool" where
  "lockShape m \<longleftrightarrow> length (lm_shards m) = 32 \<and> lm_shardCount m = defaultLockShardCount"

lemma lockShape_index: "lockShape m \<Longrightarrow> lockShardFor m = lockIndex"
  by (auto simp: lockShape_def lockShardFor_def lockIndex_def defaultLockShardCount_def fun_eq_iff)

lemma storeShard_shape [simp]: "lockShape m \<Longrightarrow> lockShape (storeShard m inode shard)"
  by (simp add: lockShape_def storeShard_def)

lemma new_shape [simp]: "lockShape newAdvisoryLockManager"
  by (simp add: lockShape_def newAdvisoryLockManager_def newLockShards_def defaultLockShardCount_def)

lemma stateOf_eq: "lockShape m \<Longrightarrow> stateOf m = (\<lambda>j. map_of (lm_shards m ! lockIndex j) j)"
  by (simp add: stateOf_def lockShardOf_def lockShape_index fun_eq_iff)

lemma stateOf_put:
  assumes "lockShape m"
  shows "stateOf (storeShard m inode (AList.update inode st (lockShardOf m inode)))
         = (stateOf m)(inode \<mapsto> st)"
proof -
  have "length (lm_shards m) = 32" using assms by (simp add: lockShape_def)
  note locks.put_lookup [OF this, of inode st]
  then show ?thesis
    using assms stateOf_eq [of "storeShard m inode (AList.update inode st (lockShardOf m inode))"]
    by (simp add: stateOf_eq lockShape_index lockShardOf_def fun_eq_iff) (simp add: storeShard_def lockShape_index)
qed

lemma stateOf_drop:
  assumes "lockShape m"
  shows "stateOf (storeShard m inode (AList.delete inode (lockShardOf m inode)))
         = (stateOf m)(inode := None)"
proof -
  have "length (lm_shards m) = 32" using assms by (simp add: lockShape_def)
  note locks.drop_lookup [OF this, of inode]
  then show ?thesis
    using assms stateOf_eq [of "storeShard m inode (AList.delete inode (lockShardOf m inode))"]
    by (simp add: stateOf_eq lockShape_index lockShardOf_def fun_eq_iff) (simp add: storeShard_def lockShape_index)
qed

lemma storeShard_same [simp]: "storeShard m inode (lockShardOf m inode) = m"
  by (simp add: storeShard_def lockShardOf_def)

lemma stateOf_new [simp]: "stateOf newAdvisoryLockManager inode = None"
proof -
  have "lockIndex inode < 32" by (rule lockIndex_bound)
  then show ?thesis
    using stateOf_eq [OF new_shape]
    by (simp add: newAdvisoryLockManager_def newLockShards_def defaultLockShardCount_def)
qed

text \<open>What a state of an inode looks like between two operations.\<close>

definition stateOk :: "lockState \<Rightarrow> bool" where
  "stateOk st \<longleftrightarrow> st \<noteq> [] \<and> distinct (map fst st)
     \<and> list_all (\<lambda>(owner, h). owner \<noteq> [] \<and> lh_owner h = owner \<and> 1 \<le> lh_refcount h
                            \<and> (lh_mode h = LockModeExclusive \<longrightarrow> length st = 1)) st"

lemma stateOk_iff: "stateOk st \<longleftrightarrow> st \<noteq> [] \<and> distinct (map fst st)
     \<and> (\<forall>owner h. (owner, h) \<in> set st \<longrightarrow> owner \<noteq> [] \<and> lh_owner h = owner \<and> 1 \<le> lh_refcount h
            \<and> (lh_mode h = LockModeExclusive \<longrightarrow> length st = 1))"
  unfolding stateOk_def list_all_iff by fast

definition lockInv :: "advisoryLockManager \<Rightarrow> bool" where
  "lockInv m \<longleftrightarrow> lockShape m \<and> (\<forall>inode st. stateOf m inode = Some st \<longrightarrow> stateOk st)"

definition holdersOf :: "advisoryLockManager \<Rightarrow> InodeID \<Rightarrow> lockState" where
  "holdersOf m inode = (case stateOf m inode of None \<Rightarrow> [] | Some st \<Rightarrow> st)"

lemma update_twice: "AList.update k v (AList.update k w al) = AList.update k v al"
  by (induction al) auto

lemma update_fresh: "map_of al k = None \<Longrightarrow> AList.update k v al = al @ [(k, v)]"
  by (induction al) (auto split: if_splits)

lemma keys_update_member: "map_of al k = Some w \<Longrightarrow> map fst (AList.update k v al) = map fst al"
  by (induction al) (auto split: if_splits)

lemma update_members: "x \<in> set (AList.update k v al) \<Longrightarrow> x = (k, v) \<or> x \<in> set al"
  by (induction al) (auto split: if_splits)

lemma busy_holders: "lockBusy owner mode st \<longleftrightarrow>
  (\<exists>(o', h) \<in> set st. o' \<noteq> owner \<and> (lh_mode h = LockModeExclusive \<or> mode = LockModeExclusive))"
  by (induction owner mode st rule: lockBusy.induct) auto

lemma acquire_cases:
  "acquire m inode owner mode now =
     (if owner = [] then (Inl ErrInvalidOwner, m)
      else case map_of (holdersOf m inode) owner of
        Some h \<Rightarrow> (Inr (), storeShard m inode (AList.update inode
                    (AList.update owner (h\<lparr> lh_refcount := lh_refcount h + 1 \<rparr>) (holdersOf m inode))
                    (lockShardOf m inode)))
      | None \<Rightarrow> if lockBusy owner mode (holdersOf m inode) then (Inl ErrLockBusy, m)
                else (Inr (), storeShard m inode (AList.update inode
                    (AList.update owner \<lparr> lh_owner = owner, lh_mode = mode, lh_sinceNs = now,
                                          lh_refcount = 1 \<rparr> (holdersOf m inode))
                    (lockShardOf m inode))))"
  by (auto simp: acquire_def validateOwner_def holdersOf_def stateOf_def Let_def update_twice
           split: option.splits)

lemma acquire_shape [simp]: "lockShape m \<Longrightarrow> lockShape (snd (acquire m inode owner mode now))"
  by (auto simp: acquire_cases split: option.splits)

lemma release_shape [simp]: "lockShape m \<Longrightarrow> lockShape (snd (release m inode owner))"
  by (auto simp: release_def validateOwner_def Let_def split: option.splits)

lemma acquire_result:
  "fst (acquire m inode owner mode now) =
     (if owner = [] then Inl ErrInvalidOwner
      else if map_of (holdersOf m inode) owner = None \<and> lockBusy owner mode (holdersOf m inode)
      then Inl ErrLockBusy else Inr ())"
  by (auto simp: acquire_cases split: option.splits)

lemma acquire_failed: "fst (acquire m inode owner mode now) = Inl e \<Longrightarrow> snd (acquire m inode owner mode now) = m"
  by (auto simp: acquire_cases split: option.splits if_splits)

text \<open>The holder an acquisition writes: the first mode is kept, the count goes up.\<close>

definition acquiredHolder :: "lockState \<Rightarrow> string \<Rightarrow> LockMode \<Rightarrow> int \<Rightarrow> lockHolder" where
  "acquiredHolder st owner mode now =
     (case map_of st owner of
        Some h \<Rightarrow> h\<lparr> lh_refcount := lh_refcount h + 1 \<rparr>
      | None \<Rightarrow> \<lparr> lh_owner = owner, lh_mode = mode, lh_sinceNs = now, lh_refcount = 1 \<rparr>)"

lemma acquire_state:
  assumes "lockShape m" and "fst (acquire m inode owner mode now) = Inr ()"
  shows "stateOf (snd (acquire m inode owner mode now)) =
     (stateOf m)(inode \<mapsto> AList.update owner (acquiredHolder (holdersOf m inode) owner mode now)
                            (holdersOf m inode))"
  using assms by (auto simp: acquire_cases acquiredHolder_def stateOf_put split: option.splits if_splits)

definition releasedState :: "lockState \<Rightarrow> string \<Rightarrow> lockHolder \<Rightarrow> lockState" where
  "releasedState st owner h =
     (if lh_refcount h \<le> 1 then AList.delete owner st
      else AList.update owner (h\<lparr> lh_refcount := lh_refcount h - 1 \<rparr>) st)"

lemma release_state:
  assumes "lockShape m" and "owner \<noteq> []"
  shows "fst (release m inode owner) = Inr ()"
    and "map_of (holdersOf m inode) owner = None \<Longrightarrow> snd (release m inode owner) = m"
    and "map_of (holdersOf m inode) owner = Some h \<Longrightarrow>
         stateOf (snd (release m inode owner)) = (stateOf m)
           (inode := (if releasedState (holdersOf m inode) owner h = [] then None
                      else Some (releasedState (holdersOf m inode) owner h)))"
  using assms
  by (auto simp: release_def validateOwner_def holdersOf_def stateOf_def [symmetric] Let_def
        releasedState_def stateOf_drop stateOf_put split: option.splits)

section \<open>The invariant\<close>

lemma stateOk_acquired:
  assumes ok: "st = [] \<or> stateOk st" and owner: "owner \<noteq> []"
    and free: "map_of st owner = None \<Longrightarrow> \<not> lockBusy owner mode st"
  shows "stateOk (AList.update owner (acquiredHolder st owner mode now) st)"
proof (cases "map_of st owner")
  case None
  show ?thesis
  proof (cases "st = []")
    case True
    then show ?thesis using None owner by (simp add: acquiredHolder_def stateOk_def)
  next
    case False
    have fresh: "owner \<notin> fst ` set st" using None by (simp add: map_of_eq_None_iff)
    have other: "o' \<noteq> owner" if "(o', h) \<in> set st" for o' h
      using fresh imageI [OF that, of fst] by auto
    obtain o1 h1 where first: "(o1, h1) \<in> set st"
      using False by (cases st) auto
    have "mode \<noteq> LockModeExclusive"
      using free [OF None] first other [OF first] unfolding busy_holders by blast
    moreover have "lh_mode h \<noteq> LockModeExclusive" if "(o', h) \<in> set st" for o' h
      using free [OF None] that other [OF that] unfolding busy_holders by blast
    ultimately show ?thesis
      using ok False None fresh owner
      by (auto simp: acquiredHolder_def stateOk_def update_fresh list_all_iff)
  qed
next
  case (Some h)
  then have mem: "(owner, h) \<in> set st" by (rule map_of_SomeD)
  then have ok': "stateOk st" using ok by auto
  have len: "length (AList.update owner (acquiredHolder st owner mode now) st) = length st"
    using keys_update_member [OF Some] by (metis length_map)
  show ?thesis
    using ok' mem Some len
    by (auto simp: stateOk_def list_all_iff keys_update_member [OF Some] acquiredHolder_def
             dest!: update_members)
qed

lemma stateOk_released:
  assumes ok: "stateOk st" and held: "map_of st owner = Some h" and left: "releasedState st owner h \<noteq> []"
  shows "stateOk (releasedState st owner h)"
proof (cases "lh_refcount h \<le> 1")
  case True
  then have st': "releasedState st owner h = AList.delete owner st" by (simp add: releasedState_def)
  have "lh_mode h' \<noteq> LockModeExclusive" if "(o', h') \<in> set (AList.delete owner st)" for o' h'
  proof
    assume "lh_mode h' = LockModeExclusive"
    moreover have "(o', h') \<in> set st" "o' \<noteq> owner" using that by (auto simp: AList.delete_eq)
    ultimately have "length st = 1" using ok by (auto simp: stateOk_def list_all_iff)
    then show False
      using \<open>(o', h') \<in> set st\<close> \<open>o' \<noteq> owner\<close> map_of_SomeD [OF held] by (auto simp: length_Suc_conv)
  qed
  moreover have "distinct (map fst (AList.delete owner st))"
    using ok by (simp add: stateOk_def)
  moreover have "(o', h') \<in> set st" if "(o', h') \<in> set (AList.delete owner st)" for o' h'
    using that by (simp add: AList.delete_eq)
  ultimately show ?thesis
    using ok left st' unfolding stateOk_iff by metis
next
  case False
  have len: "length (releasedState st owner h) = length st"
    using False keys_update_member [OF held] by (simp add: releasedState_def) (metis length_map)
  then show ?thesis
    using ok False map_of_SomeD [OF held] keys_update_member [OF held]
    by (auto simp: releasedState_def stateOk_def list_all_iff dest!: update_members)
qed

lemma holders_ok: "lockInv m \<Longrightarrow> holdersOf m inode = [] \<or> stateOk (holdersOf m inode)"
  by (auto simp: lockInv_def holdersOf_def split: option.splits)

lemma acquire_inv: "lockInv m \<Longrightarrow> lockInv (snd (acquire m inode owner mode now))"
proof (cases "fst (acquire m inode owner mode now)")
  case (Inl e)
  then show "lockInv m \<Longrightarrow> ?thesis" by (simp add: acquire_failed)
next
  case (Inr u)
  assume inv: "lockInv m"
  then have shape: "lockShape m" by (simp add: lockInv_def)
  have "stateOk (AList.update owner (acquiredHolder (holdersOf m inode) owner mode now) (holdersOf m inode))"
    using Inr holders_ok [OF inv] by (intro stateOk_acquired) (auto simp: acquire_result split: if_splits)
  then show ?thesis
    using inv acquire_state [OF shape, of inode owner mode now] Inr
    by (auto simp: lockInv_def)
qed

lemma release_inv: "lockInv m \<Longrightarrow> lockInv (snd (release m inode owner))"
proof (cases "owner = [] \<or> map_of (holdersOf m inode) owner = None")
  case True
  assume "lockInv m"
  then show ?thesis
    using True release_state (2) [of m owner inode]
    by (cases "owner = []") (auto simp: lockInv_def release_def validateOwner_def)
next
  case False
  assume inv: "lockInv m"
  then have shape: "lockShape m" by (simp add: lockInv_def)
  obtain h where h: "map_of (holdersOf m inode) owner = Some h" using False by auto
  then have "stateOk (holdersOf m inode)" using holders_ok [OF inv, of inode] by auto
  then show ?thesis
    using inv release_state (3) [OF shape _ h] False stateOk_released [OF _ h]
    by (auto simp: lockInv_def)
qed

text \<open>Runs of the table: any number of clients, one whole operation at a time.\<close>

inductive lockStep :: "advisoryLockManager \<Rightarrow> advisoryLockManager \<Rightarrow> bool" where
  lock: "lockStep m (snd (AdvisoryLock isClosed ctxErr m inode owner now))"
| lockShared: "lockStep m (snd (AdvisoryLockShared isClosed ctxErr m inode owner now))"
| unlock: "lockStep m (snd (AdvisoryUnlock isClosed ctxErr m inode owner))"

lemma guard_inv: "lockInv m \<Longrightarrow> lockInv (snd body) \<Longrightarrow> lockInv (snd (lockGuard isClosed ctxErr m body))"
  by (auto simp: lockGuard_def split: option.splits)

lemma lockStep_inv: "lockStep m m' \<Longrightarrow> lockInv m \<Longrightarrow> lockInv m'"
  by (induction rule: lockStep.induct)
    (auto simp: AdvisoryLock_def AdvisoryLockShared_def AdvisoryUnlock_def
      intro!: guard_inv acquire_inv release_inv)

lemma new_lockInv: "lockInv newAdvisoryLockManager"
  by (simp add: lockInv_def)

lemma lockReachable_inv: "lockStep\<^sup>*\<^sup>* newAdvisoryLockManager m \<Longrightarrow> lockInv m"
  by (induction rule: rtranclp_induct) (auto intro: new_lockInv lockStep_inv)

section \<open>The counted lock table\<close>

text \<open>The contract: per inode and owner a mode and a number of acquisitions.\<close>

type_synonym lockTable = "InodeID \<Rightarrow> string \<Rightarrow> (LockMode \<times> nat) option"

definition absLocks :: "advisoryLockManager \<Rightarrow> lockTable" where
  "absLocks m inode owner =
     map_option (\<lambda>h. (lh_mode h, nat (lh_refcount h))) (map_of (holdersOf m inode) owner)"

definition specAcquire :: "lockTable \<Rightarrow> InodeID \<Rightarrow> string \<Rightarrow> LockMode \<Rightarrow> unit result \<times> lockTable" where
  "specAcquire T inode owner mode =
     (if owner = [] then (Inl ErrInvalidOwner, T)
      else case T inode owner of
        Some (mode0, c) \<Rightarrow> (Inr (), T(inode := (T inode)(owner \<mapsto> (mode0, c + 1))))
      | None \<Rightarrow>
          if \<exists>o' mode' c. T inode o' = Some (mode', c)
               \<and> (mode' = LockModeExclusive \<or> mode = LockModeExclusive)
          then (Inl ErrLockBusy, T)
          else (Inr (), T(inode := (T inode)(owner \<mapsto> (mode, 1)))))"

definition specRelease :: "lockTable \<Rightarrow> InodeID \<Rightarrow> string \<Rightarrow> unit result \<times> lockTable" where
  "specRelease T inode owner =
     (if owner = [] then (Inl ErrInvalidOwner, T)
      else case T inode owner of
        None \<Rightarrow> (Inr (), T)
      | Some (mode, c) \<Rightarrow>
          (Inr (), T(inode := (T inode)(owner := (if c \<le> 1 then None else Some (mode, c - 1))))))"

lemma holdersOf_acquired:
  assumes "lockShape m" and "fst (acquire m inode owner mode now) = Inr ()"
  shows "holdersOf (snd (acquire m inode owner mode now)) =
     (holdersOf m)(inode := AList.update owner (acquiredHolder (holdersOf m inode) owner mode now)
                            (holdersOf m inode))"
  by (simp add: fun_eq_iff holdersOf_def [of "snd (acquire m inode owner mode now)"]
        acquire_state [OF assms]) (simp add: holdersOf_def)

lemma holdersOf_released:
  assumes "lockShape m" and "owner \<noteq> []" and "map_of (holdersOf m inode) owner = Some h"
  shows "holdersOf (snd (release m inode owner)) =
     (holdersOf m)(inode := releasedState (holdersOf m inode) owner h)"
  by (simp add: fun_eq_iff holdersOf_def [of "snd (release m inode owner)"]
        release_state(3) [OF assms]) (simp add: holdersOf_def)

lemma busy_abs:
  assumes "lockInv m" and "map_of (holdersOf m inode) owner = None"
  shows "lockBusy owner mode (holdersOf m inode) \<longleftrightarrow>
     (\<exists>o' mode' c. absLocks m inode o' = Some (mode', c)
        \<and> (mode' = LockModeExclusive \<or> mode = LockModeExclusive))"
proof -
  have "distinct (map fst (holdersOf m inode))"
    using holders_ok [OF assms(1), of inode] by (auto simp: stateOk_def)
  then have mem: "(o', h) \<in> set (holdersOf m inode) \<longleftrightarrow> map_of (holdersOf m inode) o' = Some h" for o' h
    by simp
  have "lockBusy owner mode (holdersOf m inode) \<longleftrightarrow>
     (\<exists>o' h. map_of (holdersOf m inode) o' = Some h \<and> (lh_mode h = LockModeExclusive \<or> mode = LockModeExclusive))"
    unfolding busy_holders Bex_def case_prod_beta using assms(2) mem
    by (metis fst_conv option.distinct(1) prod.collapse snd_conv)
  then show ?thesis
    by (auto simp: absLocks_def)
qed

lemma acquire_abs:
  assumes "lockInv m"
  shows "fst (specAcquire (absLocks m) inode owner mode) = fst (acquire m inode owner mode now)"
    and "snd (specAcquire (absLocks m) inode owner mode) = absLocks (snd (acquire m inode owner mode now))"
proof -
  have shape: "lockShape m" using assms by (simp add: lockInv_def)
  have count: "1 \<le> lh_refcount h" if "map_of (holdersOf m inode) owner = Some h" for h
    using holders_ok [OF assms, of inode] map_of_SomeD [OF that] that by (auto simp: stateOk_def list_all_iff)
  show res: "fst (specAcquire (absLocks m) inode owner mode) = fst (acquire m inode owner mode now)"
    using busy_abs [OF assms, of inode owner mode]
    by (auto simp: specAcquire_def acquire_result absLocks_def [of m inode owner] split: option.splits)
  show "snd (specAcquire (absLocks m) inode owner mode) = absLocks (snd (acquire m inode owner mode now))"
  proof (cases "fst (acquire m inode owner mode now)")
    case (Inl e)
    then have "fst (specAcquire (absLocks m) inode owner mode) = Inl e" using res by simp
    then have "snd (specAcquire (absLocks m) inode owner mode) = absLocks m"
      by (auto simp: specAcquire_def split: if_splits option.splits)
    then show ?thesis using acquire_failed [OF Inl] by simp
  next
    case (Inr u)
    then have ok: "fst (acquire m inode owner mode now) = Inr ()" by simp
    have "absLocks (snd (acquire m inode owner mode now)) =
        (absLocks m)(inode := (absLocks m inode)(owner \<mapsto>
           (case absLocks m inode owner of Some (mode0, c) \<Rightarrow> (mode0, c + 1) | None \<Rightarrow> (mode, 1))))"
      using count
      by (auto simp: fun_eq_iff absLocks_def holdersOf_acquired [OF shape ok] acquiredHolder_def
          nat_add_distrib split: option.splits)
    moreover have "snd (specAcquire (absLocks m) inode owner mode) =
        (absLocks m)(inode := (absLocks m inode)(owner \<mapsto>
           (case absLocks m inode owner of Some (mode0, c) \<Rightarrow> (mode0, c + 1) | None \<Rightarrow> (mode, 1))))"
      using res ok by (auto simp: specAcquire_def split: if_splits option.splits)
    ultimately show ?thesis by simp
  qed
qed

lemma release_abs:
  assumes "lockInv m"
  shows "specRelease (absLocks m) inode owner
         = (fst (release m inode owner), absLocks (snd (release m inode owner)))"
proof (cases "owner = [] \<or> map_of (holdersOf m inode) owner = None")
  case True
  have shape: "lockShape m" using assms by (simp add: lockInv_def)
  show ?thesis
  proof (cases "owner = []")
    case True
    then show ?thesis by (simp add: specRelease_def release_def validateOwner_def)
  next
    case False
    with True have "absLocks m inode owner = None" by (simp add: absLocks_def)
    then show ?thesis
      using False True release_state(1,2) [OF shape False] by (simp add: specRelease_def)
  qed
next
  case False
  have shape: "lockShape m" using assms by (simp add: lockInv_def)
  obtain h where h: "map_of (holdersOf m inode) owner = Some h" using False by auto
  have count: "1 \<le> lh_refcount h"
    using holders_ok [OF assms, of inode] map_of_SomeD [OF h] h by (auto simp: stateOk_def list_all_iff)
  have "absLocks (snd (release m inode owner)) =
      (absLocks m)(inode := (absLocks m inode)(owner :=
         (if lh_refcount h \<le> 1 then None else Some (lh_mode h, nat (lh_refcount h) - 1))))"
    using False h
    by (auto simp: fun_eq_iff absLocks_def holdersOf_released [OF shape _ h] releasedState_def nat_diff_distrib)
  moreover have "nat (lh_refcount h) \<le> 1 \<longleftrightarrow> lh_refcount h \<le> 1"
    using count by linarith
  ultimately show ?thesis
    using False h count release_state(1) [OF shape] by (simp del: One_nat_def add: specRelease_def absLocks_def [of m inode owner])
qed

section \<open>Properties\<close>

text \<open>
  C24: in every table that any sequence of lock, shared-lock and unlock calls can produce from a
  fresh one, an inode whose listing shows an exclusive holder has no other holder: the listing
  is that one entry.
\<close>

theorem exclusive_holder_alone:
  assumes "lockStep\<^sup>*\<^sup>* newAdvisoryLockManager m"
    and "li_Mode info = LockModeExclusive" and "info \<in> set (listLocks m inode)"
  shows "listLocks m inode = [info]"
proof -
  obtain st where st: "stateOf m inode = Some st"
    using assms(3) by (cases "stateOf m inode") (auto simp: listLocks_def stateOf_def)
  then have list: "listLocks m inode = sort_key li_Owner (map (\<lambda>(owner, h). holderInfo inode h) st)"
    by (simp add: listLocks_def stateOf_def)
  have ok: "stateOk st" using lockReachable_inv [OF assms(1)] st by (simp add: lockInv_def)
  obtain owner h where h: "(owner, h) \<in> set st" "info = holderInfo inode h"
    using assms(3) list by auto
  then have "length st = 1"
    using ok assms(2) by (auto simp: stateOk_def list_all_iff holderInfo_def)
  then have "st = [(owner, h)]" using h(1) by (auto simp: length_Suc_conv)
  then show ?thesis using list h(2) by simp
qed

text \<open>
  C23: the sharded table implements the counted lock table. On every reachable table an
  acquisition and a release return what the specification returns and leave the table the
  specification leaves: a holder's repeated acquisitions are counted, a fresh one is refused
  exactly when some holder or the request itself is exclusive, a release takes one acquisition
  back and frees the lock with the last, and no other inode or owner is touched.
\<close>

theorem locks_implement_counted_table:
  assumes "lockStep\<^sup>*\<^sup>* newAdvisoryLockManager m"
  shows "specAcquire (absLocks m) inode owner mode
           = (fst (acquire m inode owner mode now), absLocks (snd (acquire m inode owner mode now)))
       \<and> specRelease (absLocks m) inode owner
           = (fst (release m inode owner), absLocks (snd (release m inode owner)))"
  using acquire_abs [OF lockReachable_inv [OF assms]] release_abs [OF lockReachable_inv [OF assms]]
  by (simp_all add: prod_eq_iff)

definition demoLocks :: advisoryLockManager where
  "demoLocks = snd (AdvisoryLock False None newAdvisoryLockManager 7 ''fusegw'' 5)"

lemma demoLocks_reachable: "lockStep\<^sup>*\<^sup>* newAdvisoryLockManager demoLocks"
  unfolding demoLocks_def by (intro r_into_rtranclp lockStep.lock)

lemma demoLocks_state: "stateOf demoLocks 7 =
  Some [(''fusegw'', \<lparr> lh_owner = ''fusegw'', lh_mode = LockModeExclusive, lh_sinceNs = 5, lh_refcount = 1 \<rparr>)]"
proof -
  have h: "holdersOf newAdvisoryLockManager 7 = []" by (simp add: holdersOf_def)
  have "fst (acquire newAdvisoryLockManager 7 ''fusegw'' LockModeExclusive 5) = Inr ()"
    by (simp add: acquire_result h)
  from acquire_state [OF new_shape this] show ?thesis
    by (simp add: demoLocks_def AdvisoryLock_def lockGuard_def h acquiredHolder_def)
qed

theorem exclusive_holder_alone_witness:
  "listLocks demoLocks 7 = [\<lparr> li_Inode = 7, li_Owner = ''fusegw'', li_Mode = LockModeExclusive, li_Since = 5 \<rparr>]"
  by (rule exclusive_holder_alone [OF demoLocks_reachable])
    (simp_all add: listLocks_def stateOf_def [symmetric] demoLocks_state holderInfo_def)

theorem locks_implement_counted_table_witness:
  "fst (acquire demoLocks 7 ''s3gw'' LockModeShared 9) = Inl ErrLockBusy
   \<and> absLocks (snd (release demoLocks 7 ''fusegw'')) 7 ''fusegw'' = None"
proof
  have abs: "absLocks demoLocks 7 ''fusegw'' = Some (LockModeExclusive, 1)"
    "absLocks demoLocks 7 ''s3gw'' = None"
    by (simp_all add: absLocks_def holdersOf_def demoLocks_state)
  have "fst (specAcquire (absLocks demoLocks) 7 ''s3gw'' LockModeShared) = Inl ErrLockBusy"
    using abs by (auto simp: specAcquire_def)
  then show "fst (acquire demoLocks 7 ''s3gw'' LockModeShared 9) = Inl ErrLockBusy"
    using locks_implement_counted_table [OF demoLocks_reachable, of 7 "''s3gw''" LockModeShared 9] by simp
  have "snd (specRelease (absLocks demoLocks) 7 ''fusegw'') 7 ''fusegw'' = None"
    using abs by (simp add: specRelease_def)
  then show "absLocks (snd (release demoLocks 7 ''fusegw'')) 7 ''fusegw'' = None"
    using locks_implement_counted_table [OF demoLocks_reachable, of 7 "''fusegw''"] by simp
qed

text \<open>
  An owner that holds a lock in shared mode is granted an exclusive request while other owners
  hold it too: a re-entry is accepted before the other holders are looked at, and the recorded
  mode stays shared.
\<close>

lemma shared_reentry_granted_exclusive:
  assumes "lockInv m" and "absLocks m inode owner = Some (LockModeShared, c)"
    and "absLocks m inode other = Some (LockModeShared, d)" and "other \<noteq> owner" and "owner \<noteq> []"
  shows "fst (acquire m inode owner LockModeExclusive now) = Inr ()
    \<and> absLocks (snd (acquire m inode owner LockModeExclusive now)) inode owner = Some (LockModeShared, c + 1)
    \<and> absLocks (snd (acquire m inode owner LockModeExclusive now)) inode other = Some (LockModeShared, d)"
  unfolding acquire_abs(1) [OF assms(1), where mode = LockModeExclusive, symmetric]
    acquire_abs(2) [OF assms(1), where mode = LockModeExclusive, symmetric]
  using assms(2-) by (simp add: specAcquire_def)

end
