(* ===== verification/Placement.thy ===== *)
theory Placement
  imports Nufs_Types
begin

text \<open>
  Choosing nodes for the replicas or shards of a chunk (\<open>placement.go\<close>), the quorum sizes of a
  placement policy (\<open>types.go\<close>) and the generator of chunk identifiers (\<open>placement.go\<close>). The
  engine's maps are association lists in any order, as a Go map is iterated; scores and rates are
  rationals, so the theorems hold for every order that rounding or ties could give to scores. A
  negative replication factor makes \<open>spreadSelect\<close> panic in \<open>make\<close>; that is an error value here.
\<close>

unbundle bit_operations_syntax

section \<open>Quorums\<close>

definition TotalShards :: "ECConfig \<Rightarrow> int" where
  "TotalShards c = ec_DataShards c + ec_ParityShards c"

definition EffectiveWriteQuorum :: "PlacementPolicy \<Rightarrow> int" where
  "EffectiveWriteQuorum p =
     (if pp_WriteQuorum p > 0 then pp_WriteQuorum p
      else case pp_ECConfig p of
        Some c \<Rightarrow>
          if ec_DataShards c > 0 then ec_DataShards c
          else if pp_ReplicationFactor p \<le> 1 then 1
          else if pp_ReplicationFactor p = 2 then 2
          else pp_ReplicationFactor p div 2 + 1
      | None \<Rightarrow>
          if pp_ReplicationFactor p \<le> 1 then 1
          else if pp_ReplicationFactor p = 2 then 2
          else pp_ReplicationFactor p div 2 + 1)"

definition copyCount :: "PlacementPolicy \<Rightarrow> int" where
  "copyCount p = (case pp_ECConfig p of
     Some c \<Rightarrow> if ec_DataShards c > 0 then TotalShards c else pp_ReplicationFactor p
   | None \<Rightarrow> pp_ReplicationFactor p)"

definition EffectiveReadQuorum :: "PlacementPolicy \<Rightarrow> int" where
  "EffectiveReadQuorum p =
     (let n = copyCount p
      in if n \<le> 0 then 1
         else let w = EffectiveWriteQuorum p; r = n - w + 1
              in if r < 1 then 1 else r)"

definition IsSyncWrite :: "PlacementPolicy \<Rightarrow> bool" where
  "IsSyncWrite p \<longleftrightarrow> EffectiveWriteQuorum p > 1"

section \<open>The placement engine\<close>

record DynamicConfig =
  dc_GCEnabled :: bool
  dc_GCInterval :: int
  dc_GCChunkBatchSize :: int
  dc_GCThresholdPercent :: rat
  dc_GCDryRun :: bool
  dc_HeartbeatTTLSeconds :: int
  dc_HeartbeatCheckInterval :: int
  dc_AutoRepairEnabled :: bool
  dc_WriteBatchingEnabled :: bool
  dc_WriteBatchMaxSize :: int
  dc_WriteBatchMaxWait :: int
  dc_CacheEnabled :: bool
  dc_CacheMaxSize :: int
  dc_RaftPreVoteEnabled :: bool
  dc_PlacementSpreadEnabled :: bool
  dc_PlacementWeightedChoice :: bool
  dc_PlacementErrorRateFilter :: rat
  dc_PlacementWeightCapacity :: rat
  dc_PlacementWeightLoad :: rat
  dc_PlacementWeightTier :: rat
  dc_PlacementWeightHealth :: rat
  dc_ReadinessRepairQueueThreshold :: int

definition DefaultDynamicConfig :: DynamicConfig where
  "DefaultDynamicConfig = \<lparr>
     dc_GCEnabled = True, dc_GCInterval = 15 * 60 * 1000000000, dc_GCChunkBatchSize = 1000,
     dc_GCThresholdPercent = 0, dc_GCDryRun = False, dc_HeartbeatTTLSeconds = 30,
     dc_HeartbeatCheckInterval = 5, dc_AutoRepairEnabled = True, dc_WriteBatchingEnabled = True,
     dc_WriteBatchMaxSize = 256, dc_WriteBatchMaxWait = 50 * 1000000, dc_CacheEnabled = True,
     dc_CacheMaxSize = 65536, dc_RaftPreVoteEnabled = True, dc_PlacementSpreadEnabled = True,
     dc_PlacementWeightedChoice = False, dc_PlacementErrorRateFilter = 8 / 10,
     dc_PlacementWeightCapacity = 4 / 10, dc_PlacementWeightLoad = 25 / 100,
     dc_PlacementWeightTier = 2 / 10, dc_PlacementWeightHealth = 15 / 100,
     dc_ReadinessRepairQueueThreshold = 1000 \<rparr>"

record scoredNode =
  sn_node :: NodeInfo
  sn_score :: rat

text \<open>The result of the configuration provider, if one is set and returns a configuration.\<close>

record PlacementEngine =
  pe_nodes :: "(NodeID \<times> NodeInfo) list"
  pe_loadIndex :: "(NodeID \<times> rat) list"
  pe_errorRates :: "(NodeID \<times> rat) list"
  pe_cfg :: "DynamicConfig option"

definition NewPlacementEngine :: PlacementEngine where
  "NewPlacementEngine = \<lparr> pe_nodes = [], pe_loadIndex = [], pe_errorRates = [], pe_cfg = None \<rparr>"

definition UpdateNode :: "PlacementEngine \<Rightarrow> NodeInfo \<Rightarrow> PlacementEngine" where
  "UpdateNode p info = p\<lparr> pe_nodes := AList.update (n_ID info) info (pe_nodes p) \<rparr>"

definition GetNodeInfo :: "PlacementEngine \<Rightarrow> NodeID \<Rightarrow> NodeInfo option" where
  "GetNodeInfo p nodeID = map_of (pe_nodes p) nodeID"

definition GetNodeInfosBatch :: "PlacementEngine \<Rightarrow> NodeID list \<Rightarrow> NodeInfo option list" where
  "GetNodeInfosBatch p ids = map (map_of (pe_nodes p)) ids"

definition UpdateLoad :: "PlacementEngine \<Rightarrow> NodeID \<Rightarrow> rat \<Rightarrow> PlacementEngine" where
  "UpdateLoad p nodeID load = p\<lparr> pe_loadIndex := AList.update nodeID load (pe_loadIndex p) \<rparr>"

definition UpdateErrorRate :: "PlacementEngine \<Rightarrow> NodeID \<Rightarrow> rat \<Rightarrow> PlacementEngine" where
  "UpdateErrorRate p nodeID r = p\<lparr> pe_errorRates := AList.update nodeID r (pe_errorRates p) \<rparr>"

definition SetConfigProvider :: "PlacementEngine \<Rightarrow> DynamicConfig option \<Rightarrow> PlacementEngine" where
  "SetConfigProvider p cfg = p\<lparr> pe_cfg := cfg \<rparr>"

definition RemoveNode :: "PlacementEngine \<Rightarrow> NodeID \<Rightarrow> PlacementEngine" where
  "RemoveNode p nodeID = p\<lparr> pe_nodes := AList.delete nodeID (pe_nodes p),
     pe_loadIndex := AList.delete nodeID (pe_loadIndex p),
     pe_errorRates := AList.delete nodeID (pe_errorRates p) \<rparr>"

definition currentConfig :: "PlacementEngine \<Rightarrow> DynamicConfig" where
  "currentConfig p = (case pe_cfg p of Some cfg \<Rightarrow> cfg | None \<Rightarrow> DefaultDynamicConfig)"

definition rateOf :: "(NodeID \<times> rat) list \<Rightarrow> NodeID \<Rightarrow> rat" where
  "rateOf m nodeID = (case map_of m nodeID of Some r \<Rightarrow> r | None \<Rightarrow> 0)"

fun getDomain :: "NodeInfo \<Rightarrow> TopologySpread \<Rightarrow> string" where
  "getDomain n SpreadZone = n_Zone n"
| "getDomain n SpreadRack = n_Rack n"
| "getDomain n SpreadMachine = n_MachineID n"
| "getDomain n SpreadNode = ''node-'' @ FormatUint (n_ID n)"

fun tierLevel :: "StorageTier \<Rightarrow> int" where
  "tierLevel StorageTierAny = 0"
| "tierLevel TierHot = 1"
| "tierLevel TierWarm = 2"
| "tierLevel TierCold = 3"
| "tierLevel TierArchive = 4"

definition isCandidate :: "PlacementEngine \<Rightarrow> (NodeID \<times> bool) list \<Rightarrow> NodeInfo \<Rightarrow> bool" where
  "isCandidate p excludeNodes n \<longleftrightarrow>
     \<not> (map_of excludeNodes (n_ID n) = Some True)
     \<and> n_State n = NodeOnline
     \<and> \<not> (n_CapacityGB n > 0 \<and> n_UsedGB n \<ge> n_CapacityGB n * 95 div 100)
     \<and> \<not> (rateOf (pe_errorRates p) (n_ID n) > dc_PlacementErrorRateFilter (currentConfig p))"

definition tierMatch :: "StorageTier \<Rightarrow> StorageTier \<Rightarrow> rat" where
  "tierMatch want got =
     (if want = StorageTierAny then 1
      else let diff = \<bar>tierLevel got - tierLevel want\<bar>
           in if diff = 0 then 1 else if diff = 1 then 7 / 10 else if diff = 2 then 4 / 10 else 1 / 10)"

definition nodeScore :: "PlacementEngine \<Rightarrow> PlacementPolicy \<Rightarrow> NodeInfo \<Rightarrow> rat" where
  "nodeScore p policy n =
     (let cfg = currentConfig p;
          freeCapacity = (if n_CapacityGB n > 0
                          then of_int (n_CapacityGB n - n_UsedGB n) / of_int (n_CapacityGB n) else 0);
          lowLoad = 1 - rateOf (pe_loadIndex p) (n_ID n);
          healthScore = 1 - rateOf (pe_errorRates p) (n_ID n)
      in freeCapacity * dc_PlacementWeightCapacity cfg + lowLoad * dc_PlacementWeightLoad cfg
         + tierMatch (pp_StorageTier policy) (n_Tier n) * dc_PlacementWeightTier cfg
         + healthScore * dc_PlacementWeightHealth cfg
         + of_nat (unat (n_ID n) mod 100) * (5 / 10000))"

text \<open>The three passes of the selection; the two maps are counters.\<close>

type_synonym selection = "NodeID list \<times> (string \<Rightarrow> nat) \<times> (NodeID \<Rightarrow> nat)"

abbreviation sid :: "scoredNode \<Rightarrow> NodeID" where
  "sid s \<equiv> n_ID (sn_node s)"

abbreviation sdom :: "TopologySpread \<Rightarrow> scoredNode \<Rightarrow> string" where
  "sdom spread s \<equiv> getDomain (sn_node s) spread"

fun strictPass :: "int \<Rightarrow> TopologySpread \<Rightarrow> scoredNode list \<Rightarrow> selection \<Rightarrow> selection" where
  "strictPass wanted spread [] st = st"
| "strictPass wanted spread (s # ss) (result, domainCount, nodeCount) =
     (if int (length result) \<ge> wanted then (result, domainCount, nodeCount)
      else if nodeCount (sid s) \<ge> 1 then strictPass wanted spread ss (result, domainCount, nodeCount)
      else if domainCount (sdom spread s) > 0
      then strictPass wanted spread ss (result, domainCount, nodeCount)
      else strictPass wanted spread ss
             (result @ [sid s], domainCount(sdom spread s := domainCount (sdom spread s) + 1),
              nodeCount(sid s := nodeCount (sid s) + 1)))"

fun relaxedPass :: "int \<Rightarrow> TopologySpread \<Rightarrow> scoredNode list \<Rightarrow> selection \<Rightarrow> selection" where
  "relaxedPass wanted spread [] st = st"
| "relaxedPass wanted spread (s # ss) (result, domainCount, nodeCount) =
     (if int (length result) \<ge> wanted then (result, domainCount, nodeCount)
      else if nodeCount (sid s) \<ge> 1 then relaxedPass wanted spread ss (result, domainCount, nodeCount)
      else relaxedPass wanted spread ss
             (result @ [sid s], domainCount(sdom spread s := domainCount (sdom spread s) + 1),
              nodeCount(sid s := nodeCount (sid s) + 1)))"

fun shardSweep ::
  "int \<Rightarrow> int \<Rightarrow> scoredNode list \<Rightarrow> NodeID list \<Rightarrow> (NodeID \<Rightarrow> nat) \<Rightarrow> bool
   \<Rightarrow> NodeID list \<times> (NodeID \<Rightarrow> nat) \<times> bool" where
  "shardSweep wanted maxPerNode [] result nodeCount progressed = (result, nodeCount, progressed)"
| "shardSweep wanted maxPerNode (s # ss) result nodeCount progressed =
     (if int (length result) \<ge> wanted then (result, nodeCount, progressed)
      else if int (nodeCount (sid s)) \<ge> maxPerNode
      then shardSweep wanted maxPerNode ss result nodeCount progressed
      else shardSweep wanted maxPerNode ss (result @ [sid s])
             (nodeCount(sid s := nodeCount (sid s) + 1)) True)"

lemma shardSweep_grows:
  "shardSweep wanted maxPerNode ss result nodeCount progressed = (result', nodeCount', progressed') \<Longrightarrow>
   length result \<le> length result' \<and> (progressed' \<and> \<not> progressed \<longrightarrow> length result < length result')"
  by (induction wanted maxPerNode ss result nodeCount progressed rule: shardSweep.induct)
    (fastforce split: if_splits)+

function multiShardPass ::
  "int \<Rightarrow> int \<Rightarrow> scoredNode list \<Rightarrow> NodeID list \<Rightarrow> (NodeID \<Rightarrow> nat) \<Rightarrow> NodeID list" where
  "multiShardPass wanted maxPerNode scored result nodeCount =
     (if int (length result) < wanted
      then case shardSweep wanted maxPerNode scored result nodeCount False of
             (result', nodeCount', progressed) \<Rightarrow>
               if progressed then multiShardPass wanted maxPerNode scored result' nodeCount' else result'
      else result)"
  by pat_completeness auto
termination
  by (relation "measure (\<lambda>(wanted, maxPerNode, scored, result, nodeCount). nat (wanted - int (length result)))")
    (auto dest: shardSweep_grows [OF sym])

declare multiShardPass.simps [simp del]

definition spreadSelect :: "scoredNode list \<Rightarrow> int \<Rightarrow> TopologySpread \<Rightarrow> int \<Rightarrow> NodeID list result" where
  "spreadSelect scored wanted spread maxPerNode =
     (if scored = [] then Inr []
      else if wanted < 0 then Inl (ErrMessage ''makeslice: cap out of range'')
      else case strictPass wanted spread scored ([], \<lambda>_. 0, \<lambda>_. 0) of
        (r1, d1, n1) \<Rightarrow>
          (case (if int (length r1) < wanted then relaxedPass wanted spread scored (r1, d1, n1)
                 else (r1, d1, n1)) of
             (r2, d2, n2) \<Rightarrow>
               Inr (if int (length r2) < wanted \<and> maxPerNode > 1
                    then multiShardPass wanted maxPerNode scored r2 n2 else r2)))"

definition candidatesFor :: "PlacementEngine \<Rightarrow> (NodeID \<times> bool) list \<Rightarrow> NodeInfo list" where
  "candidatesFor p excludeNodes = filter (isCandidate p excludeNodes) (map snd (pe_nodes p))"

definition maxPerNodeFor :: "PlacementPolicy \<Rightarrow> nat \<Rightarrow> int" where
  "maxPerNodeFor policy n =
     (case pp_ECConfig policy of
        Some c \<Rightarrow> if ec_DataShards c > 0 \<and> int n < pp_ReplicationFactor policy
                  then (pp_ReplicationFactor policy + int n - 1) div int n else 1
      | None \<Rightarrow> 1)"

definition PlaceChunk ::
  "PlacementEngine \<Rightarrow> PlacementPolicy \<Rightarrow> (NodeID \<times> bool) list \<Rightarrow> NodeID list result" where
  "PlaceChunk p policy excludeNodes =
     (let candidates = candidatesFor p excludeNodes;
          maxPerNode = maxPerNodeFor policy (length candidates)
      in if candidates = [] then Inl ErrInsufficientNodes
         else if int (length candidates) * maxPerNode < pp_ReplicationFactor policy
         then Inl ErrInsufficientNodes
         else let scored = sort_key (\<lambda>s. - sn_score s)
                             (map (\<lambda>n. \<lparr> sn_node = n, sn_score = nodeScore p policy n \<rparr>) candidates)
              in case spreadSelect scored (pp_ReplicationFactor policy) (pp_TopologySpread policy) maxPerNode of
                   Inl e \<Rightarrow> Inl e
                 | Inr selected \<Rightarrow>
                     if int (length selected) < pp_ReplicationFactor policy
                     then Inl ErrPlacementFailed else Inr selected)"

section \<open>What the passes select\<close>

definition selOf :: "TopologySpread \<Rightarrow> scoredNode list \<Rightarrow> selection" where
  "selOf spread xs = (map sid xs, count_list (map (sdom spread) xs), count_list (map sid xs))"

lemma selOf_snoc: "selOf spread (xs @ [s]) =
  (map sid xs @ [sid s],
   (count_list (map (sdom spread) xs))(sdom spread s := count_list (map (sdom spread) xs) (sdom spread s) + 1),
   (count_list (map sid xs))(sid s := count_list (map sid xs) (sid s) + 1))"
  by (auto simp: selOf_def fun_eq_iff)

lemma same_id_same_node:
  assumes "inj_on sid A" and "s \<in> A" and "set xs \<subseteq> A" and "sid s \<in> sid ` set xs"
  shows "s \<in> set xs"
proof -
  obtain x where x: "x \<in> set xs" "sid s = sid x" using assms(4) by auto
  then have "s = x" using inj_onD [OF assms(1)] assms(2,3) by blast
  with x show ?thesis by simp
qed

lemma strictPass_sel:
  assumes "inj_on sid A" and "set xs \<subseteq> A" and "set ss \<subseteq> A"
    and "distinct (map (sdom spread) xs)" and "int (length xs) \<le> wanted"
  shows "\<exists>ys. strictPass wanted spread ss (selOf spread xs) = selOf spread (xs @ ys)
     \<and> set ys \<subseteq> set ss \<and> distinct (map (sdom spread) (xs @ ys)) \<and> int (length (xs @ ys)) \<le> wanted
     \<and> (int (length (xs @ ys)) = wanted \<or> (\<forall>s \<in> set ss. sdom spread s \<in> sdom spread ` set (xs @ ys)))"
  using assms(2-)
proof (induction ss arbitrary: xs)
  case Nil
  then show ?case by (intro exI [of _ "[]"]) simp
next
  case (Cons s ss)
  show ?case
  proof (cases "int (length xs) = wanted")
    case True
    then show ?thesis using Cons.prems by (intro exI [of _ "[]"]) (auto simp: selOf_def)
  next
    case False
    then have room: "int (length xs) < wanted" using Cons.prems by simp
    show ?thesis
    proof (cases "sid s \<in> sid ` set xs \<or> sdom spread s \<in> sdom spread ` set xs")
      case True
      have dom: "sdom spread s \<in> sdom spread ` set xs"
      proof (cases "sid s \<in> sid ` set xs")
        case True
        have "s \<in> A" using Cons.prems(2) by simp
        from same_id_same_node [OF assms(1) this Cons.prems(1) True] show ?thesis by simp
      next
        case False
        with True show ?thesis by simp
      qed
      have step: "strictPass wanted spread (s # ss) (selOf spread xs) = strictPass wanted spread ss (selOf spread xs)"
        using True room by (auto simp: selOf_def Suc_le_eq image_iff count_list_0_iff)
      have sub: "set ss \<subseteq> A" using Cons.prems(2) by simp
      from Cons.IH [OF Cons.prems(1) sub Cons.prems(3,4)] obtain ys where
        ys: "strictPass wanted spread ss (selOf spread xs) = selOf spread (xs @ ys)" "set ys \<subseteq> set ss"
          "distinct (map (sdom spread) (xs @ ys))" "int (length (xs @ ys)) \<le> wanted"
          "int (length (xs @ ys)) = wanted \<or> (\<forall>s \<in> set ss. sdom spread s \<in> sdom spread ` set (xs @ ys))"
        by blast
      show ?thesis using ys dom unfolding step by (intro exI [of _ ys]) auto
    next
      case False
      have step: "strictPass wanted spread (s # ss) (selOf spread xs) = strictPass wanted spread ss (selOf spread (xs @ [s]))"
        using False room unfolding selOf_snoc by (auto simp: selOf_def image_iff count_list_0_iff)
      have pre: "set (xs @ [s]) \<subseteq> A" "set ss \<subseteq> A" "distinct (map (sdom spread) (xs @ [s]))"
        "int (length (xs @ [s])) \<le> wanted"
        using Cons.prems False room by auto
      from Cons.IH [OF pre] obtain ys where
        ys: "strictPass wanted spread ss (selOf spread (xs @ [s])) = selOf spread ((xs @ [s]) @ ys)" "set ys \<subseteq> set ss"
          "distinct (map (sdom spread) ((xs @ [s]) @ ys))" "int (length ((xs @ [s]) @ ys)) \<le> wanted"
          "int (length ((xs @ [s]) @ ys)) = wanted \<or> (\<forall>s' \<in> set ss. sdom spread s' \<in> sdom spread ` set ((xs @ [s]) @ ys))"
        by blast
      show ?thesis using ys unfolding step by (intro exI [of _ "s # ys"]) auto
    qed
  qed
qed

lemma relaxedPass_sel:
  assumes "distinct (map sid xs)" and "int (length xs) \<le> wanted"
  shows "\<exists>ys. relaxedPass wanted spread ss (selOf spread xs) = selOf spread (xs @ ys)
     \<and> set ys \<subseteq> set ss \<and> distinct (map sid (xs @ ys)) \<and> int (length (xs @ ys)) \<le> wanted
     \<and> (int (length (xs @ ys)) = wanted \<or> sid ` set ss \<subseteq> sid ` set (xs @ ys))"
  using assms
proof (induction ss arbitrary: xs)
  case Nil
  then show ?case by (intro exI [of _ "[]"]) simp
next
  case (Cons s ss)
  consider (full) "int (length xs) = wanted"
    | (again) "int (length xs) < wanted" "sid s \<in> sid ` set xs"
    | (fresh) "int (length xs) < wanted" "sid s \<notin> sid ` set xs"
    using Cons.prems(2) by linarith
  then show ?case
  proof cases
    case full
    then show ?thesis using Cons.prems by (intro exI [of _ "[]"]) (auto simp: selOf_def)
  next
    case again
    then have step: "relaxedPass wanted spread (s # ss) (selOf spread xs) = relaxedPass wanted spread ss (selOf spread xs)"
      by (auto simp: selOf_def Suc_le_eq image_iff count_list_0_iff)
    from Cons.IH [OF Cons.prems] obtain ys where
      "relaxedPass wanted spread ss (selOf spread xs) = selOf spread (xs @ ys)" "set ys \<subseteq> set ss"
      "distinct (map sid (xs @ ys))" "int (length (xs @ ys)) \<le> wanted"
      "int (length (xs @ ys)) = wanted \<or> sid ` set ss \<subseteq> sid ` set (xs @ ys)"
      by blast
    then show ?thesis using again(2) unfolding step by (intro exI [of _ ys]) auto
  next
    case fresh
    then have step: "relaxedPass wanted spread (s # ss) (selOf spread xs) = relaxedPass wanted spread ss (selOf spread (xs @ [s]))"
      unfolding selOf_snoc by (auto simp: selOf_def image_iff count_list_0_iff)
    have pre: "distinct (map sid (xs @ [s]))" "int (length (xs @ [s])) \<le> wanted"
      using Cons.prems fresh by auto
    from Cons.IH [OF pre] obtain ys where
      "relaxedPass wanted spread ss (selOf spread (xs @ [s])) = selOf spread ((xs @ [s]) @ ys)" "set ys \<subseteq> set ss"
      "distinct (map sid ((xs @ [s]) @ ys))" "int (length ((xs @ [s]) @ ys)) \<le> wanted"
      "int (length ((xs @ [s]) @ ys)) = wanted \<or> sid ` set ss \<subseteq> sid ` set ((xs @ [s]) @ ys)"
      by blast
    then show ?thesis unfolding step by (intro exI [of _ "s # ys"]) auto
  qed
qed

lemma count_list_snoc_fun: "(count_list xs)(i := count_list xs i + 1) = count_list (xs @ [i])"
  by (simp add: fun_eq_iff)

lemma shardSweep_sel:
  assumes "shardSweep wanted maxPerNode ss result (count_list result) progressed = (result', nodeCount', progressed')"
    and "int (length result) \<le> wanted" and "\<And>i. int (count_list result i) \<le> maxPerNode"
  shows "nodeCount' = count_list result'" and "set result' \<subseteq> set result \<union> sid ` set ss"
    and "int (length result') \<le> wanted" and "\<And>i. int (count_list result' i) \<le> maxPerNode"
    and "\<not> progressed' \<Longrightarrow> \<not> progressed \<and> result' = result
           \<and> (int (length result) = wanted \<or> (\<forall>s \<in> set ss. int (count_list result (sid s)) = maxPerNode))"
proof -
  have "nodeCount' = count_list result' \<and> set result' \<subseteq> set result \<union> sid ` set ss
    \<and> int (length result') \<le> wanted \<and> (\<forall>i. int (count_list result' i) \<le> maxPerNode)
    \<and> (\<not> progressed' \<longrightarrow> \<not> progressed \<and> result' = result
         \<and> (int (length result) = wanted \<or> (\<forall>s \<in> set ss. int (count_list result (sid s)) = maxPerNode)))"
    using assms
  proof (induction ss arbitrary: result progressed)
    case Nil
    then show ?case by auto
  next
    case (Cons s ss)
    consider (full) "int (length result) = wanted"
      | (skip) "int (length result) < wanted" "int (count_list result (sid s)) = maxPerNode"
      | (add) "int (length result) < wanted" "int (count_list result (sid s)) < maxPerNode"
      using Cons.prems(2) Cons.prems(3) [of "sid s"] by linarith
    then show ?case
    proof cases
      case full
      then show ?thesis using Cons.prems by auto
    next
      case skip
      then have "shardSweep wanted maxPerNode ss result (count_list result) progressed = (result', nodeCount', progressed')"
        using Cons.prems(1) by simp
      from Cons.IH [OF this Cons.prems(2,3)] show ?thesis using skip by auto
    next
      case add
      then have next_sweep: "shardSweep wanted maxPerNode ss (result @ [sid s]) (count_list (result @ [sid s])) True
          = (result', nodeCount', progressed')"
        using Cons.prems(1) count_list_snoc_fun [of result "sid s"] by simp
      have room: "int (length (result @ [sid s])) \<le> wanted" using add by simp
      have bound: "int (count_list (result @ [sid s]) i) \<le> maxPerNode" for i
        using add Cons.prems(3) [of i] by auto
      from Cons.IH [OF next_sweep room bound] show ?thesis by auto
    qed
  qed
  then show "nodeCount' = count_list result'" and "set result' \<subseteq> set result \<union> sid ` set ss"
    and "int (length result') \<le> wanted" and "\<And>i. int (count_list result' i) \<le> maxPerNode"
    and "\<not> progressed' \<Longrightarrow> \<not> progressed \<and> result' = result
           \<and> (int (length result) = wanted \<or> (\<forall>s \<in> set ss. int (count_list result (sid s)) = maxPerNode))"
    by auto
qed

text \<open>When every candidate is full the result has as many entries as the nodes can hold.\<close>

lemma full_nodes_length:
  assumes "distinct (map sid ss)" and "set result \<subseteq> sid ` set ss"
    and "\<forall>s \<in> set ss. int (count_list result (sid s)) = maxPerNode"
  shows "int (length result) = int (length ss) * maxPerNode"
proof -
  have "int (length result) = int (sum (count_list result) (sid ` set ss))"
    using sum_count_set [OF assms(2)] by simp
  also have "\<dots> = (\<Sum>i \<in> sid ` set ss. maxPerNode)"
    unfolding of_nat_sum using assms(3) by (intro sum.cong) auto
  also have "\<dots> = int (card (sid ` set ss)) * maxPerNode" by simp
  also have "card (sid ` set ss) = length ss"
    using distinct_card [OF assms(1)] by simp
  finally show ?thesis .
qed

lemma multiShardPass_sel:
  assumes "distinct (map sid ss)" and "wanted \<le> int (length ss) * maxPerNode"
    and "set result \<subseteq> sid ` set ss" and "int (length result) \<le> wanted"
    and "\<And>i. int (count_list result i) \<le> maxPerNode"
  shows "set (multiShardPass wanted maxPerNode ss result (count_list result)) \<subseteq> sid ` set ss
    \<and> int (length (multiShardPass wanted maxPerNode ss result (count_list result))) = wanted
    \<and> (\<forall>i. int (count_list (multiShardPass wanted maxPerNode ss result (count_list result)) i) \<le> maxPerNode)"
  using assms(3-)
proof (induction "nat (wanted - int (length result))" arbitrary: result rule: less_induct)
  case less
  show ?case
  proof (cases "int (length result) < wanted")
    case False
    then have "multiShardPass wanted maxPerNode ss result (count_list result) = result"
      by (simp add: multiShardPass.simps [of wanted maxPerNode ss result])
    then show ?thesis using less.prems False by auto
  next
    case True
    obtain result' nodeCount' progressed where
      sweep: "shardSweep wanted maxPerNode ss result (count_list result) False = (result', nodeCount', progressed)"
      by (cases "shardSweep wanted maxPerNode ss result (count_list result) False") auto
    note facts = shardSweep_sel [OF sweep less.prems(2,3)]
    have "progressed"
    proof (rule ccontr)
      assume "\<not> progressed"
      from facts(5) [OF this] have "\<forall>s \<in> set ss. int (count_list result (sid s)) = maxPerNode"
        using True by auto
      from full_nodes_length [OF assms(1) less.prems(1) this] show False
        using True assms(2) by simp
    qed
    then have step: "multiShardPass wanted maxPerNode ss result (count_list result)
        = multiShardPass wanted maxPerNode ss result' (count_list result')"
      using True sweep facts(1) by (simp add: multiShardPass.simps [of wanted maxPerNode ss result])
    have "length result < length result'" using \<open>progressed\<close> shardSweep_grows [OF sweep] by simp
    then have smaller: "nat (wanted - int (length result')) < nat (wanted - int (length result))"
      using True by simp
    have sub: "set result' \<subseteq> sid ` set ss" using facts(2) less.prems(1) by auto
    show ?thesis
      unfolding step by (rule less.hyps [OF smaller sub facts(3) facts(4)])
  qed
qed

lemma strict_start:
  assumes "distinct (map sid scored)" and "0 \<le> wanted"
  obtains xs where "strictPass wanted spread scored ([], \<lambda>_. 0, \<lambda>_. 0) = selOf spread xs"
    and "set xs \<subseteq> set scored" and "distinct (map (sdom spread) xs)" and "int (length xs) \<le> wanted"
    and "int (card (sdom spread ` set scored)) \<ge> wanted \<longrightarrow> int (length xs) = wanted"
    and "distinct (map sid xs)"
proof -
  have inj: "inj_on sid (set scored)" using assms(1) by (simp add: distinct_map)
  have start: "selOf spread [] = ([], \<lambda>_. 0, \<lambda>_. 0)" by (simp add: selOf_def fun_eq_iff)
  from strictPass_sel [OF inj, of "[]" scored spread wanted] assms(2) obtain xs where
    xs: "strictPass wanted spread scored (selOf spread []) = selOf spread xs" "set xs \<subseteq> set scored"
      "distinct (map (sdom spread) xs)" "int (length xs) \<le> wanted"
      "int (length xs) = wanted \<or> (\<forall>s \<in> set scored. sdom spread s \<in> sdom spread ` set xs)"
    by auto
  have "int (length xs) = wanted" if "int (card (sdom spread ` set scored)) \<ge> wanted"
  proof (rule ccontr)
    assume "int (length xs) \<noteq> wanted"
    then have "sdom spread ` set scored \<subseteq> sdom spread ` set xs" using xs(5) by auto
    then have "card (sdom spread ` set scored) \<le> card (sdom spread ` set xs)" by (intro card_mono) auto
    also have "\<dots> \<le> length xs" by (metis card_length length_map set_map)
    finally show False using that xs(4) \<open>int (length xs) \<noteq> wanted\<close> by linarith
  qed
  moreover have "distinct (map sid xs)"
    using xs(2,3) inj by (simp add: distinct_map inj_on_subset)
  ultimately show thesis using that [of xs] xs start by metis
qed

lemma relaxed_more:
  assumes "distinct (map sid scored)" and "1 \<le> maxPerNode"
    and "wanted \<le> int (length scored) * maxPerNode"
    and "set xs \<subseteq> set scored" and "distinct (map sid xs)" and "int (length xs) \<le> wanted"
  obtains r d where "relaxedPass wanted spread scored (selOf spread xs) = (r, d, count_list r)"
    and "set r \<subseteq> sid ` set scored" and "distinct r" and "int (length r) \<le> wanted"
    and "maxPerNode = 1 \<longrightarrow> int (length r) = wanted"
proof -
  from relaxedPass_sel [OF assms(5,6), of spread scored] obtain ys where
    relaxed: "relaxedPass wanted spread scored (selOf spread xs) = selOf spread (xs @ ys)"
    and ys: "set ys \<subseteq> set scored" "distinct (map sid (xs @ ys))" "int (length (xs @ ys)) \<le> wanted"
      "int (length (xs @ ys)) = wanted \<or> sid ` set scored \<subseteq> sid ` set (xs @ ys)"
    by blast
  let ?r = "map sid (xs @ ys)"
  have full: "int (length ?r) = wanted" if one: "maxPerNode = 1"
  proof (rule ccontr)
    assume short: "int (length ?r) \<noteq> wanted"
    then have "sid ` set scored \<subseteq> set ?r" using ys(4) by auto
    then have "card (sid ` set scored) \<le> length ?r"
      by (meson card_length card_mono finite_set order_trans)
    moreover have "card (sid ` set scored) = length scored" using distinct_card [OF assms(1)] by simp
    ultimately show False using assms(3) one short ys(3) by simp
  qed
  have eq: "relaxedPass wanted spread scored (selOf spread xs)
      = (?r, count_list (map (sdom spread) (xs @ ys)), count_list ?r)"
    unfolding relaxed by (simp only: selOf_def)
  have sub: "set ?r \<subseteq> sid ` set scored" using assms(4) ys(1) by auto
  have len: "int (length ?r) \<le> wanted" using ys(3) by simp
  show thesis by (rule that [OF eq sub ys(2) len]) (use full in blast)
qed

lemma count_le_1_distinct: "(\<And>i. count_list ys i \<le> 1) \<Longrightarrow> distinct ys"
proof (induction ys)
  case (Cons y ys)
  have "count_list ys i \<le> 1" for i using Cons.prems [of i] by (simp split: if_splits)
  moreover have "y \<notin> set ys" using Cons.prems [of y] by (simp add: count_list_0_iff)
  ultimately show ?case using Cons.IH by simp
qed simp

lemma count_distinct:
  assumes "distinct ys" and "1 \<le> maxPerNode"
  shows "int (count_list ys i) \<le> maxPerNode"
proof -
  have "count_list ys i \<le> 1" using assms(1) by (induction ys) (auto simp: count_list_0_iff)
  then show ?thesis using assms(2) by linarith
qed

lemma spreadSelect_sel:
  assumes "distinct (map sid scored)" and "scored \<noteq> []" and "0 \<le> wanted" and "1 \<le> maxPerNode"
    and "wanted \<le> int (length scored) * maxPerNode"
  obtains sel where "spreadSelect scored wanted spread maxPerNode = Inr sel"
    and "set sel \<subseteq> sid ` set scored" and "int (length sel) = wanted"
    and "\<forall>i. int (count_list sel i) \<le> maxPerNode"
    and "int (card (sdom spread ` set scored)) \<ge> wanted \<longrightarrow>
           (\<exists>xs. set xs \<subseteq> set scored \<and> sel = map sid xs \<and> distinct (map (sdom spread) xs))"
proof -
  obtain xs where strict: "strictPass wanted spread scored ([], \<lambda>_. 0, \<lambda>_. 0) = selOf spread xs"
    and xs: "set xs \<subseteq> set scored" "distinct (map (sdom spread) xs)" "int (length xs) \<le> wanted"
      "int (card (sdom spread ` set scored)) \<ge> wanted \<longrightarrow> int (length xs) = wanted" "distinct (map sid xs)"
    by (rule strict_start [OF assms(1,3), of spread])
  show thesis
  proof (cases "int (length xs) = wanted")
    case True
    have "spreadSelect scored wanted spread maxPerNode = Inr (map sid xs)"
      using assms(2,3) True by (simp add: spreadSelect_def strict selOf_def)
    then show thesis
      by (rule that) (use xs True count_distinct [OF xs(5) assms(4)] in auto)
  next
    case False
    then have few: "int (length xs) < wanted" using xs(3) by simp
    obtain r d where relaxed: "relaxedPass wanted spread scored (selOf spread xs) = (r, d, count_list r)"
      and r: "set r \<subseteq> sid ` set scored" "distinct r" "int (length r) \<le> wanted"
        "maxPerNode = 1 \<longrightarrow> int (length r) = wanted"
      by (rule relaxed_more [OF assms(1,4,5) xs(1,5,3), of spread])
    note bound = count_distinct [OF r(2) assms(4)]
    have sel: "spreadSelect scored wanted spread maxPerNode =
        Inr (if int (length r) < wanted \<and> maxPerNode > 1
             then multiShardPass wanted maxPerNode scored r (count_list r) else r)"
      using assms(2,3) few relaxed by (simp add: spreadSelect_def strict selOf_def)
    have doms: "\<not> int (card (sdom spread ` set scored)) \<ge> wanted" using False xs(4) by blast
    show thesis
    proof (cases "int (length r) < wanted \<and> maxPerNode > 1")
      case True
      from multiShardPass_sel [OF assms(1,5) r(1,3) bound] show thesis
        using sel True doms by (intro that) auto
    next
      case False
      then have "int (length r) = wanted" using r(3,4) assms(4) by linarith
      then show thesis using sel False doms r(1) bound by (intro that) auto
    qed
  qed
qed

section \<open>The engine's tables\<close>

definition engineOk :: "PlacementEngine \<Rightarrow> bool" where
  "engineOk p \<longleftrightarrow> distinct (map fst (pe_nodes p)) \<and> (\<forall>(k, n) \<in> set (pe_nodes p). n_ID n = k)"

lemma engineOk_new [simp]: "engineOk NewPlacementEngine"
  by (simp add: engineOk_def NewPlacementEngine_def)

lemma engineOk_UpdateNode: "engineOk p \<Longrightarrow> engineOk (UpdateNode p info)"
proof -
  assume ok: "engineOk p"
  have "n_ID n = k" if "(k, n) \<in> set (AList.update (n_ID info) info (pe_nodes p))" for k n
    using that ok map_of_update [of "n_ID info" info "pe_nodes p"]
    by (metis (mono_tags, lifting) UpdateNode_def case_prodD distinct_keys_update engineOk_def
        fun_upd_apply map_of_SomeD map_of_eq_Some_iff option.inject)
  then show ?thesis using ok by (auto simp: engineOk_def UpdateNode_def)
qed

lemma engineOk_RemoveNode: "engineOk p \<Longrightarrow> engineOk (RemoveNode p nodeID)"
  by (auto simp: engineOk_def RemoveNode_def AList.delete_eq distinct_map inj_on_def)

lemma engineOk_tables [simp]:
  "engineOk (UpdateLoad p i r) = engineOk p" "engineOk (UpdateErrorRate p i r) = engineOk p"
  "engineOk (SetConfigProvider p cfg) = engineOk p"
  by (simp_all add: engineOk_def UpdateLoad_def UpdateErrorRate_def SetConfigProvider_def)

lemma engineOk_candidates:
  assumes "engineOk p"
  shows "distinct (map n_ID (candidatesFor p ex))"
    and "n \<in> set (candidatesFor p ex) \<longleftrightarrow> GetNodeInfo p (n_ID n) = Some n \<and> isCandidate p ex n"
proof -
  have ids: "map n_ID (map snd (pe_nodes p)) = map fst (pe_nodes p)"
    using assms by (auto simp: engineOk_def)
  have "distinct (map n_ID (map snd (pe_nodes p)))"
    unfolding ids using assms by (simp add: engineOk_def)
  then show "distinct (map n_ID (candidatesFor p ex))"
    unfolding candidatesFor_def by (rule distinct_map_filter)
  have key: "k = n_ID m" if "(k, m) \<in> set (pe_nodes p)" for k m
    using that assms by (auto simp: engineOk_def)
  have "n \<in> snd ` set (pe_nodes p) \<longleftrightarrow> (n_ID n, n) \<in> set (pe_nodes p)"
  proof
    assume "n \<in> snd ` set (pe_nodes p)"
    then obtain k where "(k, n) \<in> set (pe_nodes p)" by auto
    then show "(n_ID n, n) \<in> set (pe_nodes p)" using key by simp
  qed (metis image_eqI snd_conv)
  then have "n \<in> snd ` set (pe_nodes p) \<longleftrightarrow> map_of (pe_nodes p) (n_ID n) = Some n"
    using assms by (simp add: engineOk_def)
  then show "n \<in> set (candidatesFor p ex) \<longleftrightarrow> GetNodeInfo p (n_ID n) = Some n \<and> isCandidate p ex n"
    by (auto simp: candidatesFor_def GetNodeInfo_def)
qed

lemma maxPerNode_pos: "0 < n \<Longrightarrow> 1 \<le> maxPerNodeFor policy n"
proof -
  assume "0 < n"
  then have "1 \<le> (r + int n - 1) div int n" if "int n < r" for r
    using that div_le_mono [of n] zdiv_mono1 [of "int n" "r + int n - 1" "int n"] by simp
  then show ?thesis by (auto simp: maxPerNodeFor_def split: option.splits)
qed

lemma shards_fit:
  assumes "pp_ECConfig policy = Some c" and "ec_DataShards c > 0" and "0 < n"
  shows "pp_ReplicationFactor policy \<le> int n * maxPerNodeFor policy n"
proof (cases "int n < pp_ReplicationFactor policy")
  case True
  let ?x = "pp_ReplicationFactor policy + int n - 1"
  have "int n * (?x div int n) + ?x mod int n = ?x" by simp
  moreover have "?x mod int n < int n" using assms(3) by simp
  ultimately have "pp_ReplicationFactor policy \<le> int n * (?x div int n)" by linarith
  then show ?thesis using assms(1,2) True by (simp add: maxPerNodeFor_def)
next
  case False
  then show ?thesis using assms by (simp add: maxPerNodeFor_def)
qed

text \<open>The shape of every answer of the engine for a non-negative replication factor.\<close>

lemma PlaceChunk_cases:
  assumes ok: "engineOk p" and rf: "0 \<le> pp_ReplicationFactor policy"
    and "candidatesFor p ex \<noteq> []"
    and "pp_ReplicationFactor policy
           \<le> int (length (candidatesFor p ex)) * maxPerNodeFor policy (length (candidatesFor p ex))"
  obtains sel where "PlaceChunk p policy ex = Inr sel"
    and "\<forall>i \<in> set sel. \<exists>n. GetNodeInfo p i = Some n \<and> isCandidate p ex n"
    and "int (length sel) = pp_ReplicationFactor policy"
    and "\<forall>i. int (count_list sel i) \<le> maxPerNodeFor policy (length (candidatesFor p ex))"
    and "int (card ((\<lambda>n. getDomain n (pp_TopologySpread policy)) ` set (candidatesFor p ex)))
             \<ge> pp_ReplicationFactor policy
         \<longrightarrow> distinct (map (\<lambda>i. getDomain (the (GetNodeInfo p i)) (pp_TopologySpread policy)) sel)"
proof -
  let ?cs = "candidatesFor p ex" and ?rf = "pp_ReplicationFactor policy" and ?sp = "pp_TopologySpread policy"
  let ?mk = "\<lambda>n. \<lparr> sn_node = n, sn_score = nodeScore p policy n \<rparr>"
  let ?scored = "sort_key (\<lambda>s. - sn_score s) (map ?mk ?cs)"
  have set: "set ?scored = ?mk ` set ?cs" by simp
  have "distinct (map sid (map ?mk ?cs))" using engineOk_candidates(1) [OF ok] by (simp add: o_def)
  moreover have "mset (map sid ?scored) = mset (map sid (map ?mk ?cs))" by (simp only: mset_map mset_sort)
  ultimately have dist: "distinct (map sid ?scored)" using mset_eq_imp_distinct_iff by blast
  have ne: "?scored \<noteq> []" using assms(3) by (simp flip: length_greater_0_conv)
  have mp: "1 \<le> maxPerNodeFor policy (length ?cs)" using assms(3) by (intro maxPerNode_pos) simp
  have enough: "?rf \<le> int (length ?scored) * maxPerNodeFor policy (length ?cs)" using assms(4) by simp
  obtain sel where sel: "spreadSelect ?scored ?rf ?sp (maxPerNodeFor policy (length ?cs)) = Inr sel"
    "set sel \<subseteq> sid ` set ?scored" "int (length sel) = ?rf"
    "\<forall>i. int (count_list sel i) \<le> maxPerNodeFor policy (length ?cs)"
    "int (card (sdom ?sp ` set ?scored)) \<ge> ?rf \<longrightarrow>
       (\<exists>xs. set xs \<subseteq> set ?scored \<and> sel = map sid xs \<and> distinct (map (sdom ?sp) xs))"
    by (rule spreadSelect_sel [OF dist ne rf mp enough, of ?sp])
  have placed: "PlaceChunk p policy ex = Inr sel"
    using assms(3,4) sel(1,3) by (simp add: PlaceChunk_def Let_def)
  have known: "GetNodeInfo p (sid s) = Some (sn_node s) \<and> isCandidate p ex (sn_node s)"
    if "s \<in> set ?scored" for s
    using that engineOk_candidates(2) [OF ok, of "sn_node s" ex] by auto
  then have all: "\<forall>i \<in> set sel. \<exists>n. GetNodeInfo p i = Some n \<and> isCandidate p ex n"
    using sel(2) by blast
  have "distinct (map (\<lambda>i. getDomain (the (GetNodeInfo p i)) ?sp) sel)"
    if many: "int (card ((\<lambda>n. getDomain n ?sp) ` set ?cs)) \<ge> ?rf"
  proof -
    have "sdom ?sp ` set ?scored = (\<lambda>n. getDomain n ?sp) ` set ?cs" by (simp add: image_image)
    with many sel(5) obtain xs where xs: "set xs \<subseteq> set ?scored" "sel = map sid xs" "distinct (map (sdom ?sp) xs)"
      by auto
    have eq: "map (\<lambda>i. getDomain (the (GetNodeInfo p i)) ?sp) (map sid xs) = map (sdom ?sp) xs"
      using known subsetD [OF xs(1)] by simp
    show ?thesis unfolding xs(2) eq by (rule xs(3))
  qed
  then show thesis by (intro that [OF placed all sel(3,4)]) blast
qed

section \<open>Chunk identifiers\<close>

record ChunkIDGenerator =
  g_nodeID :: u64
  g_sequence :: u64
  g_lastTS :: int

definition NewChunkIDGenerator :: "u64 \<Rightarrow> ChunkIDGenerator" where
  "NewChunkIDGenerator nodeID = \<lparr> g_nodeID = nodeID AND 0x3FF, g_sequence = 0, g_lastTS = 0 \<rparr>"

definition chunkIDOf :: "ChunkIDGenerator \<Rightarrow> ChunkID" where
  "chunkIDOf g = push_bit 23 (word_of_int (g_lastTS g AND 0x1FFFFFFFFFF))
                 OR push_bit 13 (g_nodeID g) OR (g_sequence g AND 0x1FFF)"

definition NextChunkID :: "ChunkIDGenerator \<Rightarrow> int \<Rightarrow> ChunkID \<times> ChunkIDGenerator" where
  "NextChunkID g ts =
     (let g' = (if ts < g_lastTS g then
                  (if g_sequence g < 0x1FFF then g\<lparr> g_sequence := g_sequence g + 1 \<rparr>
                   else g\<lparr> g_lastTS := g_lastTS g + 1, g_sequence := 0 \<rparr>)
                else if ts = g_lastTS g then g\<lparr> g_sequence := g_sequence g + 1 \<rparr>
                else g\<lparr> g_sequence := 0, g_lastTS := ts \<rparr>)
      in (chunkIDOf g', g'))"

definition BumpAbove :: "ChunkIDGenerator \<Rightarrow> u64 \<Rightarrow> ChunkIDGenerator" where
  "BumpAbove g floorID =
     (let region = uint (drop_bit 23 floorID)
      in if region + 1 > g_lastTS g then g\<lparr> g_lastTS := region + 1, g_sequence := 0 \<rparr> else g)"

text \<open>A generator as its constructor and operations leave it, inside the range of its fields.\<close>

definition genOk :: "ChunkIDGenerator \<Rightarrow> bool" where
  "genOk g \<longleftrightarrow> g_nodeID g < 2 ^ 10 \<and> g_sequence g < 2 ^ 13 \<and> 0 \<le> g_lastTS g \<and> g_lastTS g < 2 ^ 41"

lemma take_bit_small:
  fixes w :: u64
  assumes "uint w < 2 ^ n"
  shows "take_bit n w = w"
proof -
  have "uint (take_bit n w) = uint w"
    using assms by (simp add: unsigned_take_bit_eq take_bit_int_eq_self)
  then show ?thesis by (rule unsigned_word_eqI)
qed

lemma or_fields:
  fixes a b c :: u64
  assumes "b < 2 ^ 10" and "c < 2 ^ 13"
  shows "push_bit 23 a OR push_bit 13 b OR c = push_bit 23 a + push_bit 13 b + c"
proof -
  have b: "take_bit 10 b = b" and c: "take_bit 13 c = c"
    using assms by (simp_all add: take_bit_small word_less_def)
  have hi: "\<not> bit b n" if "10 \<le> n" for n
    using that bit_take_bit_iff [of 10 b n] unfolding b by simp
  have lo: "\<not> bit c n" if "13 \<le> n" for n
    using that bit_take_bit_iff [of 13 c n] unfolding c by simp
  have "push_bit 23 a AND push_bit 13 b = 0"
    by (rule bit_word_eqI) (use hi in \<open>auto simp: bit_and_iff bit_push_bit_iff\<close>)
  then have 1: "push_bit 23 a OR push_bit 13 b = push_bit 23 a + push_bit 13 b"
    by (simp add: disjunctive_add_eq_or)
  have "(push_bit 23 a OR push_bit 13 b) AND c = 0"
    by (rule bit_word_eqI) (use lo in \<open>auto simp: bit_and_iff bit_or_iff bit_push_bit_iff\<close>)
  then have 2: "(push_bit 23 a OR push_bit 13 b) OR c = (push_bit 23 a OR push_bit 13 b) + c"
    by (simp add: disjunctive_add_eq_or)
  show ?thesis unfolding or.assoc [symmetric] unfolding 2 unfolding 1 by (rule refl)
qed

lemma chunkIDOf_fields:
  assumes "genOk g"
  shows "uint (chunkIDOf g) = g_lastTS g * 2 ^ 23 + uint (g_nodeID g) * 2 ^ 13 + uint (g_sequence g)"
proof -
  let ?ts = "g_lastTS g" and ?a = "word_of_int (g_lastTS g) :: u64" and ?b = "g_nodeID g" and ?c = "g_sequence g"
  have ok: "?b < 2 ^ 10" "?c < 2 ^ 13" "0 \<le> ?ts" "?ts < 2 ^ 41" using assms by (auto simp: genOk_def)
  have bb: "uint ?b < 2 ^ 10" and cc: "uint ?c < 2 ^ 13"
    using ok(1,2) by (simp_all add: word_less_def)
  have "?ts AND 0x1FFFFFFFFFF = take_bit 41 ?ts" by (simp add: take_bit_eq_mask mask_eq_exp_minus_1)
  also have "\<dots> = ?ts" using ok(3,4) by (simp add: take_bit_int_eq_self)
  finally have ts: "?ts AND 0x1FFFFFFFFFF = ?ts" .
  have "?c AND 0x1FFF = take_bit 13 ?c" by (simp add: take_bit_eq_mask mask_eq_exp_minus_1)
  also have "\<dots> = ?c" using cc by (simp add: take_bit_small)
  finally have c: "?c AND 0x1FFF = ?c" .
  have "chunkIDOf g = word_of_int (?ts * 2 ^ 23 + uint ?b * 2 ^ 13 + uint ?c)"
    unfolding chunkIDOf_def ts c or_fields [OF ok(1,2)] by (simp add: push_bit_eq_mult)
  moreover have "0 \<le> ?ts * 2 ^ 23 + uint ?b * 2 ^ 13 + uint ?c" using ok(3) by simp
  moreover have "?ts * 2 ^ 23 + uint ?b * 2 ^ 13 + uint ?c < 2 ^ 64" using ok(4) bb cc by simp
  ultimately show ?thesis by (simp add: word_of_int_inverse)
qed

lemma lex_less:
  fixes t t' n s s' :: int
  assumes "s < 2 ^ 13" and "0 \<le> s'" and "t + 1 \<le> t' \<or> (t = t' \<and> s < s')"
  shows "t * 2 ^ 23 + n + s < t' * 2 ^ 23 + n + s'"
  using assms by auto

lemma chunkID_mono:
  assumes "genOk g" and "genOk g'" and "g_nodeID g' = g_nodeID g"
    and "g_lastTS g < g_lastTS g' \<or> (g_lastTS g = g_lastTS g' \<and> g_sequence g < g_sequence g')"
  shows "chunkIDOf g < chunkIDOf g'"
proof -
  have "uint (g_sequence g) < 2 ^ 13" using assms(1) by (auto simp: genOk_def word_less_def)
  moreover have "g_lastTS g + 1 \<le> g_lastTS g'
      \<or> (g_lastTS g = g_lastTS g' \<and> uint (g_sequence g) < uint (g_sequence g'))"
    using assms(4) by (auto simp: word_less_def)
  ultimately have "uint (chunkIDOf g) < uint (chunkIDOf g')"
    unfolding chunkIDOf_fields [OF assms(1)] chunkIDOf_fields [OF assms(2)] assms(3)
    by (intro lex_less) simp_all
  then show ?thesis by (simp add: word_less_def)
qed

text \<open>The identifiers of successive calls, one per clock reading.\<close>

fun runChunkIDs :: "ChunkIDGenerator \<Rightarrow> int list \<Rightarrow> ChunkID list" where
  "runChunkIDs g [] = []"
| "runChunkIDs g (ts # tss) = fst (NextChunkID g ts) # runChunkIDs (snd (NextChunkID g ts)) tss"

text \<open>
  The readings for which the generator is meant: millisecond times of the 41-bit field, and at
  most the 8192 calls a 13-bit sequence can tell apart in one millisecond of the wall clock.
\<close>

fun steadyClock :: "ChunkIDGenerator \<Rightarrow> int list \<Rightarrow> bool" where
  "steadyClock g [] = True"
| "steadyClock g (ts # tss) \<longleftrightarrow>
     0 \<le> ts \<and> ts < 2 ^ 41 \<and> g_lastTS g < 2 ^ 41 - 1 \<and> (ts = g_lastTS g \<longrightarrow> g_sequence g < 0x1FFF)
     \<and> steadyClock (snd (NextChunkID g ts)) tss"

lemma seq_small: "(s :: u64) < 0x1FFF \<Longrightarrow> s < s + 1 \<and> s + 1 < 2 ^ 13"
proof -
  assume "s < 0x1FFF"
  then have "uint s < 0x1FFF" by (simp add: word_less_def)
  then have "uint (s + 1) = uint s + 1" by (simp add: uint_word_ariths)
  then show ?thesis using \<open>uint s < 0x1FFF\<close> by (simp add: word_less_def)
qed

lemma Next_step:
  assumes "genOk g" and "steadyClock g (ts # tss)"
  shows "genOk (snd (NextChunkID g ts))" and "fst (NextChunkID g ts) = chunkIDOf (snd (NextChunkID g ts))"
    and "chunkIDOf g < chunkIDOf (snd (NextChunkID g ts))"
proof -
  let ?g' = "snd (NextChunkID g ts)"
  show ok: "genOk ?g'"
    using assms seq_small [of "g_sequence g"] by (auto simp: NextChunkID_def Let_def genOk_def)
  show "fst (NextChunkID g ts) = chunkIDOf ?g'" by (simp add: NextChunkID_def Let_def)
  show "chunkIDOf g < chunkIDOf ?g'"
    by (rule chunkID_mono [OF assms(1) ok])
      (use assms(2) seq_small [of "g_sequence g"] in \<open>auto simp: NextChunkID_def Let_def\<close>)
qed

lemma run_increasing:
  "genOk g \<Longrightarrow> steadyClock g tss \<Longrightarrow>
   (\<forall>i \<in> set (runChunkIDs g tss). chunkIDOf g < i) \<and> sorted_wrt (<) (runChunkIDs g tss)"
proof (induction tss arbitrary: g)
  case (Cons ts tss)
  note step = Next_step [OF Cons.prems]
  have "steadyClock (snd (NextChunkID g ts)) tss" using Cons.prems(2) by simp
  from Cons.IH [OF step(1) this] show ?case
    using step(2,3) order_less_trans [OF step(3)] by simp
qed simp

lemma BumpAbove_ok:
  assumes "genOk g" and "drop_bit 23 floorID < 2 ^ 41 - 1"
  shows "genOk (BumpAbove g floorID)" and "floorID < chunkIDOf (BumpAbove g floorID)"
proof -
  let ?g = "BumpAbove g floorID" and ?r = "uint (drop_bit 23 floorID)"
  have r: "0 \<le> ?r" "?r < 2 ^ 41 - 1" using assms(2) by (simp_all add: word_less_def)
  show ok: "genOk ?g" using assms(1) r by (auto simp: BumpAbove_def Let_def genOk_def)
  have "?r + 1 \<le> g_lastTS ?g" by (simp add: BumpAbove_def Let_def)
  moreover have "?r = uint floorID div 2 ^ 23" by (simp add: drop_bit_eq_div uint_div)
  moreover have "x < y * 2 ^ 23" if "x div 2 ^ 23 + 1 \<le> y" for x y :: int
    using that by simp
  ultimately have "uint floorID < g_lastTS ?g * 2 ^ 23" by simp
  also have "\<dots> \<le> uint (chunkIDOf ?g)" unfolding chunkIDOf_fields [OF ok] by simp
  finally show "floorID < chunkIDOf ?g" by (simp add: word_less_def)
qed

section \<open>Properties\<close>

text \<open>
  C25: a placement only uses nodes fit to hold data. Every chosen node is registered, is not
  excluded, is online, is under 95 per cent of its capacity and has an error rate within the
  filter; there are exactly as many choices as the policy's replication factor; and without
  erasure coding no node is chosen twice.
\<close>

theorem placement_sound:
  assumes "engineOk p" and "0 \<le> pp_ReplicationFactor policy" and "PlaceChunk p policy ex = Inr sel"
  shows "int (length sel) = pp_ReplicationFactor policy
    \<and> (\<forall>i \<in> set sel. \<exists>n. GetNodeInfo p i = Some n \<and> n_ID n = i \<and> map_of ex i \<noteq> Some True
          \<and> n_State n = NodeOnline
          \<and> (n_CapacityGB n > 0 \<longrightarrow> n_UsedGB n < n_CapacityGB n * 95 div 100)
          \<and> rateOf (pe_errorRates p) i \<le> dc_PlacementErrorRateFilter (currentConfig p))
    \<and> (pp_ECConfig policy = None \<longrightarrow> distinct sel)"
proof -
  have ne: "candidatesFor p ex \<noteq> []" and enough: "pp_ReplicationFactor policy
           \<le> int (length (candidatesFor p ex)) * maxPerNodeFor policy (length (candidatesFor p ex))"
    using assms(3) by (auto simp: PlaceChunk_def Let_def split: if_splits)
  obtain sel' where sel': "PlaceChunk p policy ex = Inr sel'"
    and nodes: "\<forall>i \<in> set sel'. \<exists>n. GetNodeInfo p i = Some n \<and> isCandidate p ex n"
    and len: "int (length sel') = pp_ReplicationFactor policy"
    and cnt: "\<forall>i. int (count_list sel' i) \<le> maxPerNodeFor policy (length (candidatesFor p ex))"
    and "int (card ((\<lambda>n. getDomain n (pp_TopologySpread policy)) ` set (candidatesFor p ex)))
             \<ge> pp_ReplicationFactor policy
         \<longrightarrow> distinct (map (\<lambda>i. getDomain (the (GetNodeInfo p i)) (pp_TopologySpread policy)) sel')"
    by (rule PlaceChunk_cases [OF assms(1,2) ne enough])
  have same: "sel' = sel" using sel' assms(3) by simp
  have key: "n_ID n = i" if "GetNodeInfo p i = Some n" for i n
    using that assms(1) by (auto simp: engineOk_def GetNodeInfo_def dest: map_of_SomeD)
  have "distinct sel" if "pp_ECConfig policy = None"
  proof -
    have "count_list sel i \<le> 1" for i using cnt [rule_format, of i] that same by (simp add: maxPerNodeFor_def)
    then show ?thesis by (rule count_le_1_distinct)
  qed
  then show ?thesis
    using nodes len same key unfolding isCandidate_def by (metis (no_types, lifting) not_le)
qed

definition demoNode :: "NodeID \<Rightarrow> string \<Rightarrow> NodeInfo" where
  "demoNode i rack = \<lparr> n_ID = i, n_Addr = ''a'', n_DataDir = ''d'', n_Rack = rack, n_Zone = ''z'',
     n_MachineID = ''m'', n_Tier = TierHot, n_CapacityGB = 100, n_UsedGB = 10, n_OnDiskGB = 10,
     n_ChunkCount = 0, n_UsedBytes = 0, n_OnDiskBytes = 0, n_CapacityBytes = 0, n_State = NodeOnline,
     n_LastSeen = 0, n_ChangeAck = 0, n_ShardDiskCount = 1 \<rparr>"

definition demoEngine :: PlacementEngine where
  "demoEngine = UpdateNode (UpdateNode (UpdateNode NewPlacementEngine (demoNode 1 ''r1''))
     (demoNode 2 ''r1'')) (demoNode 3 ''r2'')"

definition demoPolicy :: PlacementPolicy where
  "demoPolicy = \<lparr> pp_ID = ''p'', pp_ReplicationFactor = 2, pp_ECConfig = None, pp_TopologySpread = SpreadRack,
     pp_StorageTier = StorageTierAny, pp_WriteQuorum = 0, pp_CrossZoneReplication = None,
     pp_PlacementGroups = False \<rparr>"

lemma demoEngine_ok: "engineOk demoEngine"
  unfolding demoEngine_def by (intro engineOk_UpdateNode engineOk_new)

lemma demoEngine_candidates:
  "candidatesFor demoEngine [] = [demoNode 1 ''r1'', demoNode 2 ''r1'', demoNode 3 ''r2'']"
  by (simp add: candidatesFor_def demoEngine_def UpdateNode_def NewPlacementEngine_def demoNode_def
      isCandidate_def rateOf_def currentConfig_def DefaultDynamicConfig_def)

lemma demoEngine_place: "PlaceChunk demoEngine demoPolicy [] = Inr [3, 2]"
  by (simp add: PlaceChunk_def demoEngine_candidates)
    (simp add: demoPolicy_def maxPerNodeFor_def spreadSelect_def demoNode_def nodeScore_def rateOf_def
      currentConfig_def DefaultDynamicConfig_def demoEngine_def UpdateNode_def NewPlacementEngine_def
      tierMatch_def insort_key.simps)

theorem placement_sound_witness:
  "PlaceChunk demoEngine demoPolicy [] = Inr [3, 2] \<and> distinct [3, 2 :: NodeID]"
  using placement_sound [OF demoEngine_ok _ demoEngine_place] demoEngine_place
  by (simp add: demoPolicy_def)

text \<open>
  C26: the topology constraint is met whenever it can be. If the candidates span at least as many
  domains of the policy's level (node, machine, rack or zone) as replicas are asked for, a
  placement is returned and its nodes lie in pairwise different domains.
\<close>

theorem placement_spread:
  assumes "engineOk p" and "1 \<le> pp_ReplicationFactor policy"
    and "pp_ReplicationFactor policy
           \<le> int (card ((\<lambda>n. getDomain n (pp_TopologySpread policy)) ` set (candidatesFor p ex)))"
  shows "\<exists>sel. PlaceChunk p policy ex = Inr sel
     \<and> distinct (map (\<lambda>i. getDomain (the (GetNodeInfo p i)) (pp_TopologySpread policy)) sel)"
proof -
  let ?cs = "candidatesFor p ex"
  have le: "card ((\<lambda>n. getDomain n (pp_TopologySpread policy)) ` set ?cs) \<le> length ?cs"
    by (meson card_image_le card_length finite_set order_trans)
  then have ne: "?cs \<noteq> []" using assms(2,3) by auto
  have "1 \<le> maxPerNodeFor policy (length ?cs)" using ne by (intro maxPerNode_pos) simp
  then have "int (length ?cs) * 1 \<le> int (length ?cs) * maxPerNodeFor policy (length ?cs)"
    by (intro mult_left_mono) simp_all
  then have enough: "pp_ReplicationFactor policy \<le> int (length ?cs) * maxPerNodeFor policy (length ?cs)"
    using le assms(3) by linarith
  have rf: "0 \<le> pp_ReplicationFactor policy" using assms(2) by simp
  from PlaceChunk_cases [OF assms(1) rf ne enough] assms(3) show ?thesis by metis
qed

theorem placement_spread_witness:
  "\<exists>sel. PlaceChunk demoEngine demoPolicy [] = Inr sel
     \<and> distinct (map (\<lambda>i. getDomain (the (GetNodeInfo demoEngine i)) (pp_TopologySpread demoPolicy)) sel)"
  by (rule placement_spread [OF demoEngine_ok])
    (simp_all add: demoPolicy_def demoEngine_candidates demoNode_def)

text \<open>
  C27: placement fails only for want of nodes. For a non-negative replication factor the engine
  answers \<open>ErrInsufficientNodes\<close> exactly when no candidate is left or, without erasure coding,
  when fewer candidates than replicas are left; an erasure-coded stripe is placed on any
  non-empty set of candidates, several shards to a node; no other error occurs.
\<close>

theorem placement_fails_only_short:
  assumes "engineOk p" and "0 \<le> pp_ReplicationFactor policy"
  shows "PlaceChunk p policy ex = Inl e \<longleftrightarrow>
      e = ErrInsufficientNodes
      \<and> (candidatesFor p ex = []
          \<or> (\<not> (\<exists>c. pp_ECConfig policy = Some c \<and> ec_DataShards c > 0)
             \<and> int (length (candidatesFor p ex)) < pp_ReplicationFactor policy))"
proof -
  let ?cs = "candidatesFor p ex" and ?rf = "pp_ReplicationFactor policy"
  let ?ec = "\<exists>c. pp_ECConfig policy = Some c \<and> ec_DataShards c > 0"
  let ?short = "?cs = [] \<or> int (length ?cs) * maxPerNodeFor policy (length ?cs) < ?rf"
  have short: "?short \<longleftrightarrow> ?cs = [] \<or> (\<not> ?ec \<and> int (length ?cs) < ?rf)"
  proof (cases ?ec)
    case True
    then obtain c where "pp_ECConfig policy = Some c" "ec_DataShards c > 0" by blast
    from shards_fit [OF this, of "length ?cs"] show ?thesis using True by (cases "?cs = []") auto
  next
    case False
    then have "maxPerNodeFor policy (length ?cs) = 1" by (auto simp: maxPerNodeFor_def split: option.splits)
    then show ?thesis using False by simp
  qed
  show ?thesis
  proof (cases ?short)
    case True
    then have "PlaceChunk p policy ex = Inl ErrInsufficientNodes" by (auto simp: PlaceChunk_def Let_def)
    then show ?thesis using True short by auto
  next
    case False
    then have ne: "?cs \<noteq> []" and enough: "?rf \<le> int (length ?cs) * maxPerNodeFor policy (length ?cs)" by auto
    have "\<exists>sel. PlaceChunk p policy ex = Inr sel"
      by (rule PlaceChunk_cases [OF assms ne enough]) blast
    then show ?thesis using False short by auto
  qed
qed

theorem placement_fails_only_short_witness:
  "PlaceChunk demoEngine (demoPolicy\<lparr> pp_ReplicationFactor := 4 \<rparr>) [] = Inl ErrInsufficientNodes"
  by (subst placement_fails_only_short [OF demoEngine_ok]) (simp_all add: demoPolicy_def demoEngine_candidates)

text \<open>
  Read and write quorums intersect. For every policy the two quorums are positive and sum to
  more than the number of copies, whatever write quorum is configured; and with the default
  write quorum of a replicated policy two writes always share a copy.
\<close>

lemma quorums_intersect:
  "1 \<le> EffectiveWriteQuorum p \<and> 1 \<le> EffectiveReadQuorum p
   \<and> copyCount p < EffectiveWriteQuorum p + EffectiveReadQuorum p
   \<and> (pp_WriteQuorum p \<le> 0 \<longrightarrow> pp_ECConfig p = None \<longrightarrow> copyCount p < 2 * EffectiveWriteQuorum p)"
  by (auto simp: EffectiveReadQuorum_def EffectiveWriteQuorum_def copyCount_def Let_def split: option.splits)



text \<open>
  The limit on calls per millisecond is needed: at the current wall-clock millisecond the
  sequence counter is not rolled over, so the call after the last sequence number repeats an
  identifier of the same millisecond.
\<close>

lemma same_millisecond_repeats:
  "g_sequence g = 0x1FFF \<Longrightarrow> ts = g_lastTS g \<Longrightarrow>
   fst (NextChunkID g ts) = chunkIDOf (g\<lparr> g_sequence := 0 \<rparr>)"
  by (simp add: NextChunkID_def chunkIDOf_def)

end
