(* ===== verification/Extent_Pages.thy ===== *)
theory Extent_Pages
  imports Namespace_Refine
begin

text \<open>
  The extent layouts of an inode (\<open>extent_page.go\<close>, \<open>inode_store.go\<close>, \<open>inode_v2_serving.go\<close>): an
  inode is empty, holds one inline extent, or has copy-on-write pages of extent references under
  a root number that every change raises. The three receivers of the source are told apart by a
  prefix (\<open>ps_\<close> for the page store, \<open>is_\<close> for the inode store, none for the serving surface); a
  nil pointer dereference is an error value. Old roots are removed by a direct write to the local
  database whose error is dropped. The lemmas follow one page set through its changes; the
  properties are the round trips of the writers with \<open>ResolveExtents\<close> and of the commit of a
  file's chunks with the read path \<open>ResolveFileChunks\<close>.
\<close>

definition nilDereference :: Error where
  "nilDereference = ErrMessage ''nil pointer dereference''"

section \<open>The page store\<close>

definition ps_GetPage :: "'v store \<Rightarrow> InodeID \<Rightarrow> u64 \<Rightarrow> u32 \<Rightarrow> ExtentPage option result" where
  "ps_GetPage s inodeID rt pageNo =
     (case storeGet asPage s (extentPageKey inodeID rt pageNo) of
        Inl e \<Rightarrow> Inl e
      | Inr None \<Rightarrow> Inr None
      | Inr (Some page) \<Rightarrow> Inr (Some (page\<lparr>ep_InodeID := inodeID, ep_PageNo := pageNo\<rparr>)))"

text \<open>The loop of \<open>ResolvePage\<close> over the roots from the current one down to 1.\<close>

fun resolveFrom :: "'v store \<Rightarrow> InodeID \<Rightarrow> u32 \<Rightarrow> nat \<Rightarrow> ExtentPage option result" where
  "resolveFrom s inodeID pageNo 0 = Inr None"
| "resolveFrom s inodeID pageNo (Suc n) =
     (case ps_GetPage s inodeID (of_nat (Suc n)) pageNo of
        Inl e \<Rightarrow> Inl e
      | Inr (Some page) \<Rightarrow> Inr (Some page)
      | Inr None \<Rightarrow> resolveFrom s inodeID pageNo n)"

definition ps_ResolvePage :: "'v store \<Rightarrow> InodeID \<Rightarrow> u64 \<Rightarrow> u32 \<Rightarrow> ExtentPage option result" where
  "ps_ResolvePage s inodeID currentRoot pageNo = resolveFrom s inodeID pageNo (unat currentRoot)"

definition ps_writePage :: "'v store \<Rightarrow> ExtentPage \<Rightarrow> u64 \<Rightarrow> unit result \<times> 'v store" where
  "ps_writePage s page rt = putMsgpack s (extentPageKey (ep_InodeID page) rt (ep_PageNo page)) (RPage page)"

definition ps_UpdatePage ::
  "'v store \<Rightarrow> InodeID \<Rightarrow> u64 \<Rightarrow> u64 \<Rightarrow> u32 \<Rightarrow> (ExtentPage \<Rightarrow> ExtentPage result) \<Rightarrow> ExtentPage result \<times> 'v store" where
  "ps_UpdatePage s inodeID oldRoot newRoot pageNo fn =
     (case ps_GetPage s inodeID oldRoot pageNo of
        Inl e \<Rightarrow> (Inl e, s)
      | Inr found \<Rightarrow>
          let page = (case found of Some p \<Rightarrow> p
                      | None \<Rightarrow> \<lparr>ep_InodeID = inodeID, ep_PageNo = pageNo, ep_Extents = []\<rparr>)
          in case fn page of
               Inl e \<Rightarrow> (Inl e, s)
             | Inr copied \<Rightarrow>
                 (case ps_writePage s copied newRoot of
                    (Inl e, s') \<Rightarrow> (Inl e, s')
                  | (Inr _, s') \<Rightarrow> (Inr copied, s')))"

definition ps_AppendExtent ::
  "'v store \<Rightarrow> InodeID \<Rightarrow> u64 \<Rightarrow> u32 \<Rightarrow> ExtentRef \<Rightarrow> (u32 \<times> bool) result \<times> 'v store" where
  "ps_AppendExtent s inodeID rt pageNo ref =
     (let newRoot = rt + 1 in
      case ps_ResolvePage s inodeID rt pageNo of
        Inl e \<Rightarrow> (Inl e, s)
      | Inr found \<Rightarrow>
          if (case found of Some page \<Rightarrow> MaxExtentsPerPage \<le> length (ep_Extents page) | None \<Rightarrow> False)
          then (case ps_writePage s \<lparr>ep_InodeID = inodeID, ep_PageNo = pageNo + 1, ep_Extents = [ref]\<rparr> newRoot of
                  (Inl e, s') \<Rightarrow> (Inl e, s')
                | (Inr _, s') \<Rightarrow> (Inr (pageNo + 1, True), s'))
          else (case ps_UpdatePage s inodeID rt newRoot pageNo
                       (\<lambda>p. Inr (p\<lparr>ep_Extents := ep_Extents p @ [ref]\<rparr>)) of
                  (Inl e, s') \<Rightarrow> (Inl e, s')
                | (Inr updated, s') \<Rightarrow> (Inr (ep_PageNo updated, False), s')))"

fun resolvePages :: "'v store \<Rightarrow> InodeID \<Rightarrow> u64 \<Rightarrow> u32 list \<Rightarrow> ExtentRef list result" where
  "resolvePages s inodeID rt [] = Inr []"
| "resolvePages s inodeID rt (p # ps) =
     (case ps_ResolvePage s inodeID rt p of
        Inl e \<Rightarrow> Inl e
      | Inr found \<Rightarrow>
          (case resolvePages s inodeID rt ps of
             Inl e \<Rightarrow> Inl e
           | Inr out \<Rightarrow> Inr ((case found of Some page \<Rightarrow> ep_Extents page | None \<Rightarrow> []) @ out)))"

definition pageNumbers :: "u32 \<Rightarrow> u32 list" where
  "pageNumbers n = map of_nat [0 ..< unat n]"

definition ps_ResolveExtents :: "'v store \<Rightarrow> InodeMetaV2 \<Rightarrow> ExtentRef list result" where
  "ps_ResolveExtents s inode = resolvePages s (v_ID inode) (v_ExtentRoot inode) (pageNumbers (v_ExtentPageCount inode))"

definition ps_DeleteRoot :: "'v store \<Rightarrow> InodeID \<Rightarrow> u64 \<Rightarrow> u32 \<Rightarrow> 'v store" where
  "ps_DeleteRoot s inodeID rt pageCnt =
     s\<lparr>st_db := foldl (\<lambda>d p. dbDelete d (extentPageKey inodeID rt p)) (st_db s) (pageNumbers pageCnt)\<rparr>"

section \<open>The inode store\<close>

definition is_Get :: "'v store \<Rightarrow> InodeID \<Rightarrow> InodeMetaV2 option result" where
  "is_Get s i = storeGet asInodeV2 s (inodeKey i)"

definition is_Put :: "'v store \<Rightarrow> InodeMetaV2 \<Rightarrow> unit result \<times> 'v store" where
  "is_Put s v = putMsgpack s (inodeKey (v_ID v)) (RInodeV2 v)"

definition is_putWithBucketStats :: "'v store \<Rightarrow> InodeMetaV2 \<Rightarrow> int \<Rightarrow> unit result \<times> 'v store" where
  "is_putWithBucketStats s v oldSize =
     (if \<not> st_useBucketStats s then is_Put s v
      else applyBatchMsgpack s
             (addBucketStatsOp s (v_BucketRoot v) (v_Size v - oldSize) 0 @ [(inodeKey (v_ID v), RInodeV2 v)]) [])"

definition is_CreateEmpty ::
  "'v store \<Rightarrow> InodeID \<Rightarrow> FileType \<Rightarrow> InodeID \<Rightarrow> u32 \<Rightarrow> u32 \<Rightarrow> u32 \<Rightarrow> int \<Rightarrow> InodeMetaV2 result \<times> 'v store" where
  "is_CreateEmpty s i typ bucketRoot uid gid mode now =
     (let v = \<lparr>v_ID = i, v_Type = typ, v_Size = 0, v_NLink = 0, v_BucketRoot = bucketRoot, v_UID = uid,
               v_GID = gid, v_Mode = mode, v_CTime = now, v_MTime = now, v_ATime = now,
               v_Layout = LayoutEmpty, v_InlineExtent = None, v_ExtentRoot = 0, v_ExtentPageCount = 0,
               v_ExtentRootVersion = 0, v_Symlink = [], v_XAttrs = []\<rparr>
      in case is_Put s v of (Inl e, s') \<Rightarrow> (Inl e, s') | (Inr _, s') \<Rightarrow> (Inr v, s'))"

definition dropOldRoot :: "'v store \<Rightarrow> InodeID \<Rightarrow> u64 \<Rightarrow> u32 \<Rightarrow> 'v store" where
  "dropOldRoot s i oldRoot oldCount = (if oldRoot \<noteq> 0 then ps_DeleteRoot s i oldRoot oldCount else s)"

definition is_SetInlineExtent ::
  "'v store \<Rightarrow> InodeID \<Rightarrow> ExtentMetaV2 \<Rightarrow> int \<Rightarrow> int \<Rightarrow> unit result \<times> 'v store" where
  "is_SetInlineExtent s i extent sz now =
     (case is_Get s i of
        Inl e \<Rightarrow> (Inl e, s)
      | Inr None \<Rightarrow> (Inl ErrInodeNotFound, s)
      | Inr (Some v) \<Rightarrow>
          (case is_putWithBucketStats s
                  (v\<lparr>v_Layout := LayoutInlineExtent, v_InlineExtent := Some extent, v_Size := sz,
                     v_MTime := now, v_CTime := now\<rparr>) (v_Size v) of
             (Inl e, s') \<Rightarrow> (Inl e, s')
           | (Inr _, s') \<Rightarrow> (Inr (), dropOldRoot s' i (v_ExtentRoot v) (v_ExtentPageCount v))))"

definition is_PromoteToPages :: "'v store \<Rightarrow> InodeID \<Rightarrow> int \<Rightarrow> unit result \<times> 'v store" where
  "is_PromoteToPages s i now =
     (case is_Get s i of
        Inl e \<Rightarrow> (Inl e, s)
      | Inr None \<Rightarrow> (Inl ErrInodeNotFound, s)
      | Inr (Some v) \<Rightarrow>
          let newRoot = v_ExtentRoot v + 1;
              page = \<lparr>ep_InodeID = i, ep_PageNo = 0,
                      ep_Extents = (case v_InlineExtent v of
                                      Some x \<Rightarrow> [\<lparr>er_ExtentID = x_ID x, er_LogicalOffset = 0\<rparr>]
                                    | None \<Rightarrow> [])\<rparr>
          in case ps_writePage s page newRoot of
               (Inl e, s1) \<Rightarrow> (Inl e, s1)
             | (Inr _, s1) \<Rightarrow>
                 (case is_Put s1 (v\<lparr>v_Layout := LayoutExtentPages, v_InlineExtent := None,
                                    v_ExtentRoot := newRoot, v_ExtentRootVersion := v_ExtentRootVersion v + 1,
                                    v_ExtentPageCount := 1, v_CTime := now\<rparr>) of
                    (Inl e, s2) \<Rightarrow> (Inl e, s2)
                  | (Inr _, s2) \<Rightarrow> (Inr (), dropOldRoot s2 i (v_ExtentRoot v) (v_ExtentPageCount v))))"

definition appendToPages ::
  "'v store \<Rightarrow> InodeID \<Rightarrow> InodeMetaV2 \<Rightarrow> ExtentRef \<Rightarrow> int \<Rightarrow> int \<Rightarrow> u64 result \<times> 'v store" where
  "appendToPages s i v ref extentSize now =
     (let newRoot = v_ExtentRoot v + 1;
          lastPage = v_ExtentPageCount v
      in case (if lastPage = 0 then ps_AppendExtent s i (v_ExtentRoot v) 0 ref
               else ps_AppendExtent s i (v_ExtentRoot v) (lastPage - 1) ref) of
           (Inl e, s1) \<Rightarrow> (Inl e, s1)
         | (Inr (newPage, created), s1) \<Rightarrow>
             (case is_putWithBucketStats s1
                     (v\<lparr>v_ExtentPageCount := (if created then v_ExtentPageCount v + 1 else v_ExtentPageCount v),
                        v_ExtentRoot := newRoot, v_ExtentRootVersion := v_ExtentRootVersion v + 1,
                        v_Size := v_Size v + extentSize, v_MTime := now, v_CTime := now\<rparr>) (v_Size v) of
                (Inl e, s2) \<Rightarrow> (Inl e, s2)
              | (Inr _, s2) \<Rightarrow> (Inr newRoot, s2)))"

definition is_AppendExtent ::
  "'v store \<Rightarrow> InodeID \<Rightarrow> ExtentRef \<Rightarrow> int \<Rightarrow> int \<Rightarrow> u64 result \<times> 'v store" where
  "is_AppendExtent s i ref extentSize now =
     (case is_Get s i of
        Inl e \<Rightarrow> (Inl e, s)
      | Inr None \<Rightarrow> (Inl ErrInodeNotFound, s)
      | Inr (Some v) \<Rightarrow>
          if v_Layout v = LayoutExtentPages then appendToPages s i v ref extentSize now
          else (case is_PromoteToPages s i now of
                  (Inl e, s1) \<Rightarrow> (Inl e, s1)
                | (Inr _, s1) \<Rightarrow>
                    (case is_Get s1 i of
                       Inl e \<Rightarrow> (Inl e, s1)
                     | Inr None \<Rightarrow> (Inl nilDereference, s1)
                     | Inr (Some v1) \<Rightarrow> appendToPages s1 i v1 ref extentSize now)))"

definition pageWrites :: "ExtentWrite list \<Rightarrow> u32 \<Rightarrow> ExtentWrite list" where
  "pageWrites ws p = take MaxExtentsPerPage (drop (unat p * MaxExtentsPerPage) ws)"

fun writeRefs :: "ExtentWrite list \<Rightarrow> ExtentRef list option" where
  "writeRefs [] = Some []"
| "writeRefs (w # ws) =
     (case ew_Extent w of
        None \<Rightarrow> None
      | Some x \<Rightarrow> map_option (\<lambda>rs. \<lparr>er_ExtentID = x_ID x, er_LogicalOffset = ew_Offset w\<rparr> # rs) (writeRefs ws))"

fun writePages :: "'v store \<Rightarrow> InodeID \<Rightarrow> u64 \<Rightarrow> ExtentWrite list \<Rightarrow> u32 list \<Rightarrow> unit result \<times> 'v store" where
  "writePages s i newRoot ws [] = (Inr (), s)"
| "writePages s i newRoot ws (p # ps) =
     (case writeRefs (pageWrites ws p) of
        None \<Rightarrow> (Inl nilDereference, s)
      | Some refs \<Rightarrow>
          (case ps_writePage s \<lparr>ep_InodeID = i, ep_PageNo = p, ep_Extents = refs\<rparr> newRoot of
             (Inl e, s') \<Rightarrow> (Inl e, s')
           | (Inr _, s') \<Rightarrow> writePages s' i newRoot ws ps))"

definition is_ReplaceExtents ::
  "'v store \<Rightarrow> InodeID \<Rightarrow> ExtentWrite list \<Rightarrow> int \<Rightarrow> int \<Rightarrow> unit result \<times> 'v store" where
  "is_ReplaceExtents s i ws sz now =
     (case is_Get s i of
        Inl e \<Rightarrow> (Inl e, s)
      | Inr None \<Rightarrow> (Inl ErrInodeNotFound, s)
      | Inr (Some v) \<Rightarrow>
          let newRoot = v_ExtentRoot v + 1;
              pageCnt = of_nat ((length ws + MaxExtentsPerPage - 1) div MaxExtentsPerPage)
          in case writePages s i newRoot ws (pageNumbers pageCnt) of
               (Inl e, s1) \<Rightarrow> (Inl e, s1)
             | (Inr _, s1) \<Rightarrow>
                 (case is_putWithBucketStats s1
                         (v\<lparr>v_Layout := LayoutExtentPages, v_InlineExtent := None, v_ExtentRoot := newRoot,
                            v_ExtentRootVersion := v_ExtentRootVersion v + 1, v_ExtentPageCount := pageCnt,
                            v_Size := sz, v_MTime := now, v_CTime := now\<rparr>) (v_Size v) of
                    (Inl e, s2) \<Rightarrow> (Inl e, s2)
                  | (Inr _, s2) \<Rightarrow> (Inr (), dropOldRoot s2 i (v_ExtentRoot v) (v_ExtentPageCount v))))"

definition is_ResolveExtents :: "'v store \<Rightarrow> InodeID \<Rightarrow> ExtentRef list result" where
  "is_ResolveExtents s i =
     (case is_Get s i of
        Inl e \<Rightarrow> Inl e
      | Inr None \<Rightarrow> Inl ErrInodeNotFound
      | Inr (Some v) \<Rightarrow>
          (case v_Layout v of
             LayoutEmpty \<Rightarrow> Inr []
           | LayoutInlineExtent \<Rightarrow>
               (case v_InlineExtent v of
                  Some x \<Rightarrow> Inr [\<lparr>er_ExtentID = x_ID x, er_LogicalOffset = 0\<rparr>]
                | None \<Rightarrow> Inl nilDereference)
           | LayoutExtentPages \<Rightarrow> ps_ResolveExtents s v))"

section \<open>The serving surface\<close>

definition putExtentMeta :: "'v store \<Rightarrow> ExtentMetaV2 \<Rightarrow> unit result \<times> 'v store" where
  "putExtentMeta s x = putMsgpack s (extentMetaKey (x_ID x)) (RExtent x)"

definition ResolveExtents :: "'v store \<Rightarrow> InodeID \<Rightarrow> ExtentRef list result" where
  "ResolveExtents s i = (if st_closed s then Inl ErrServiceClosed else is_ResolveExtents s i)"

definition GetExtentMeta :: "'v store \<Rightarrow> ExtentIDV2 \<Rightarrow> ExtentMetaV2 result" where
  "GetExtentMeta s x =
     (if st_closed s then Inl ErrServiceClosed
      else case storeGet asExtent s (extentMetaKey x) of
             Inl e \<Rightarrow> Inl e
           | Inr None \<Rightarrow> Inl ErrExtentNotFound
           | Inr (Some m) \<Rightarrow> Inr m)"

definition MarkExtentDegraded :: "'v store \<Rightarrow> ExtentIDV2 \<Rightarrow> unit result \<times> 'v store" where
  "MarkExtentDegraded s x =
     (if st_closed s then (Inl ErrServiceClosed, s)
      else case storeGet asExtent s (extentMetaKey x) of
             Inl e \<Rightarrow> (Inl e, s)
           | Inr None \<Rightarrow> (Inr (), s)
           | Inr (Some m) \<Rightarrow>
               if x_Lifecycle m \<noteq> LifecycleReady then (Inr (), s)
               else putExtentMeta s (m\<lparr>x_Lifecycle := LifecycleReadyDegraded\<rparr>))"

definition SetInlineExtent ::
  "'v store \<Rightarrow> InodeID \<Rightarrow> ExtentMetaV2 option \<Rightarrow> int \<Rightarrow> int \<Rightarrow> unit result \<times> 'v store" where
  "SetInlineExtent s i extent sz now =
     (if st_closed s then (Inl ErrServiceClosed, s)
      else case extent of
             None \<Rightarrow> (Inl ErrInvalidArgument, s)
           | Some x \<Rightarrow>
               (case putExtentMeta s x of
                  (Inl e, s1) \<Rightarrow> (Inl e, s1)
                | (Inr _, s1) \<Rightarrow>
                    (case is_SetInlineExtent s1 i x sz now of
                       (Inl e, s2) \<Rightarrow> (Inl e, s2)
                     | (Inr _, s2) \<Rightarrow> (Inr (), cacheDel s2 i))))"

definition PromoteToPages :: "'v store \<Rightarrow> InodeID \<Rightarrow> int \<Rightarrow> unit result \<times> 'v store" where
  "PromoteToPages s i now =
     (if st_closed s then (Inl ErrServiceClosed, s)
      else case is_PromoteToPages s i now of
             (Inl e, s1) \<Rightarrow> (Inl e, s1)
           | (Inr _, s1) \<Rightarrow> (Inr (), cacheDel s1 i))"

definition AppendExtent ::
  "'v store \<Rightarrow> InodeID \<Rightarrow> ExtentMetaV2 option \<Rightarrow> int \<Rightarrow> int \<Rightarrow> u64 result \<times> 'v store" where
  "AppendExtent s i extent offset now =
     (if st_closed s then (Inl ErrServiceClosed, s)
      else case extent of
             None \<Rightarrow> (Inl ErrInvalidArgument, s)
           | Some x \<Rightarrow>
               (case putExtentMeta s x of
                  (Inl e, s1) \<Rightarrow> (Inl e, s1)
                | (Inr _, s1) \<Rightarrow>
                    (case is_AppendExtent s1 i \<lparr>er_ExtentID = x_ID x, er_LogicalOffset = offset\<rparr>
                            (x_LogicalLen x) now of
                       (Inl e, s2) \<Rightarrow> (Inl e, s2)
                     | (Inr rt, s2) \<Rightarrow> (Inr rt, cacheDel s2 i))))"

fun putExtentMetas :: "'v store \<Rightarrow> ExtentWrite list \<Rightarrow> unit result \<times> 'v store" where
  "putExtentMetas s [] = (Inr (), s)"
| "putExtentMetas s (w # ws) =
     (case ew_Extent w of
        None \<Rightarrow> (Inl ErrInvalidArgument, s)
      | Some x \<Rightarrow>
          (case putExtentMeta s x of
             (Inl e, s1) \<Rightarrow> (Inl e, s1)
           | (Inr _, s1) \<Rightarrow> putExtentMetas s1 ws))"

definition ReplaceExtents ::
  "'v store \<Rightarrow> InodeID \<Rightarrow> ExtentWrite list \<Rightarrow> int \<Rightarrow> int \<Rightarrow> unit result \<times> 'v store" where
  "ReplaceExtents s i ws sz now =
     (if st_closed s then (Inl ErrServiceClosed, s)
      else case putExtentMetas s ws of
             (Inl e, s1) \<Rightarrow> (Inl e, s1)
           | (Inr _, s1) \<Rightarrow>
               (case is_ReplaceExtents s1 i ws sz now of
                  (Inl e, s2) \<Rightarrow> (Inl e, s2)
                | (Inr _, s2) \<Rightarrow> (Inr (), cacheDel s2 i)))"

text \<open>Conversion to \<open>int32\<close> keeps the low 32 bits and reads them as a signed number.\<close>

definition toInt32 :: "int \<Rightarrow> int" where
  "toInt32 n = sint (word_of_int n :: 32 word)"

fun extentChunks :: "'v store \<Rightarrow> ExtentRef list \<Rightarrow> ChunkRef list result" where
  "extentChunks s [] = Inr []"
| "extentChunks s (ref # refs) =
     (case GetExtentMeta s (er_ExtentID ref) of
        Inl e \<Rightarrow> Inl e
      | Inr m \<Rightarrow>
          (case extentChunks s refs of
             Inl e \<Rightarrow> Inl e
           | Inr chunks \<Rightarrow>
               Inr (\<lparr>cr_ID = er_ExtentID ref, cr_Offset = er_LogicalOffset ref,
                     cr_Length = toInt32 (x_LogicalLen m), cr_Version = 0\<rparr> # chunks)))"

text \<open>\<open>es\<close> says whether the service offers the extent surface.\<close>

definition ResolveFileChunks :: "bool \<Rightarrow> 'v store \<Rightarrow> InodeMeta option \<Rightarrow> ChunkRef list result" where
  "ResolveFileChunks es s inode =
     (case inode of
        None \<Rightarrow> Inr []
      | Some m \<Rightarrow>
          if i_ChunkMap m \<noteq> [] then Inr (i_ChunkMap m)
          else if \<not> es then Inr []
          else case ResolveExtents s (i_ID m) of
                 Inl e \<Rightarrow> Inl e
               | Inr refs \<Rightarrow> if refs = [] then Inr [] else extentChunks s refs)"

definition extentForRef :: "ChunkRef \<Rightarrow> StorageClass \<Rightarrow> string \<Rightarrow> ExtentMetaV2" where
  "extentForRef ref cls ecStripe =
     \<lparr>x_ID = cr_ID ref, x_Generation = 1, x_LogicalLen = cr_Length ref, x_Checksum = 0, x_PGID = 0,
      x_PlacementEpoch = 0, x_Lifecycle = LifecycleReady, x_StorageClass = cls, x_ECStripeID = ecStripe,
      x_CreatedAt = 0\<rparr>"

definition GetChunk :: "'v store \<Rightarrow> ChunkID \<Rightarrow> ChunkMeta result" where
  "GetChunk s c =
     (if st_closed s then Inl ErrServiceClosed
      else case storeGet asChunk s (chunkMetadataKey c) of
             Inl e \<Rightarrow> Inl e
           | Inr None \<Rightarrow> Inl ErrChunkNotFound
           | Inr (Some m) \<Rightarrow> Inr m)"

definition ecClassForRef :: "'v store \<Rightarrow> ChunkRef \<Rightarrow> StorageClass \<times> string" where
  "ecClassForRef s ref =
     (case GetChunk s (cr_ID ref) of
        Inl _ \<Rightarrow> (StorageClassHotReplica, [])
      | Inr ch \<Rightarrow>
          (case c_ECGroup ch of
             None \<Rightarrow> (StorageClassHotReplica, [])
           | Some g \<Rightarrow> (StorageClassColdEC, if c_ECStripeID ch = [] then eg_GroupID g else c_ECStripeID ch)))"

definition extentWriteFor :: "'v store \<Rightarrow> ChunkRef \<Rightarrow> ExtentWrite" where
  "extentWriteFor s ref =
     (case ecClassForRef s ref of
        (cls, stripe) \<Rightarrow> \<lparr>ew_Extent = Some (extentForRef ref cls stripe), ew_Offset = cr_Offset ref\<rparr>)"

definition commitV1 :: "'v store \<Rightarrow> InodeMeta \<Rightarrow> ChunkRef list \<Rightarrow> int \<Rightarrow> int \<Rightarrow> unit result \<times> 'v store" where
  "commitV1 s inode refs sz now =
     UpdateInode s (inode\<lparr>i_Size := sz, i_ChunkMap := refs, i_MTime := now\<rparr>) now"

definition CommitChunkRefsModelAware ::
  "bool \<Rightarrow> 'v store \<Rightarrow> InodeMeta \<Rightarrow> ChunkRef list \<Rightarrow> int \<Rightarrow> int \<Rightarrow> unit result \<times> 'v store" where
  "CommitChunkRefsModelAware es s inode refs sz now =
     (if es
      then case (if i_ChunkMap inode = []
                 then map_sum id (\<lambda>rs. rs \<noteq> []) (ResolveExtents s (i_ID inode))
                 else Inr False) of
             Inl e \<Rightarrow> (Inl e, s)
           | Inr isV2 \<Rightarrow>
               if isV2 \<or> refs \<noteq> []
               then (if length refs = 1 \<and> sz \<le> MaxInlineExtentSize
                     then SetInlineExtent s (i_ID inode) (ew_Extent (extentWriteFor s (hd refs))) sz now
                     else ReplaceExtents s (i_ID inode) (map (extentWriteFor s) refs) sz now)
               else commitV1 s inode refs sz now
      else commitV1 s inode refs sz now)"

section \<open>What the writes change\<close>

definition sameExcept :: "string set \<Rightarrow> 'v store \<Rightarrow> 'v store \<Rightarrow> bool" where
  "sameExcept K s s' \<longleftrightarrow> st_codec s' = st_codec s \<and> st_closed s' = st_closed s
     \<and> st_inCache s' = st_inCache s \<and> st_deg s' = st_deg s \<and> st_useBucketStats s' = st_useBucketStats s
     \<and> (\<forall>k. k \<notin> K \<longrightarrow> dbGet (st_db s') k = dbGet (st_db s) k)"

lemma sameExcept_refl [simp]: "sameExcept K s s"
  by (simp add: sameExcept_def)

lemma sameExcept_trans: "sameExcept K s t \<Longrightarrow> sameExcept L t u \<Longrightarrow> sameExcept (K \<union> L) s u"
  by (simp add: sameExcept_def)

lemma sameExcept_mono: "sameExcept K s t \<Longrightarrow> K \<subseteq> L \<Longrightarrow> sameExcept L s t"
  by (auto simp: sameExcept_def)

lemma sameExcept_get: "sameExcept K s t \<Longrightarrow> k \<notin> K \<Longrightarrow> storeGet prj t k = storeGet prj s k"
  by (simp add: sameExcept_def storeGet_def getValue_def)

lemma sameExcept_db: "sameExcept K s t \<Longrightarrow> k \<notin> K \<Longrightarrow> dbGet (st_db t) k = dbGet (st_db s) k"
  by (simp add: sameExcept_def)

lemma keys_apart [simp]:
  "inodeKey x \<notin> range (extentPageKey i r)" "inodeKey x \<notin> range extentMetaKey" "inodeKey x \<notin> range bucketStatsKey"
  "extentPageKey i r p \<notin> range bucketStatsKey" "extentPageKey i r p \<notin> range extentMetaKey"
  "extentMetaKey x \<notin> range (extentPageKey i r)" "extentMetaKey x \<notin> range bucketStatsKey"
  "extentPageKey i r p \<in> range (extentPageKey i q) \<longleftrightarrow> r = q"
  by auto

lemma storeGet_row:
  assumes "codec_ok (st_codec s)" and "dbGet (st_db s) k = Some (marshalValue (st_codec s) r)" and "prj r = Some x"
  shows "storeGet prj s k = Inr (Some x)"
  using assms by (simp add: storeGet_def getValue_def)

lemma put_same:
  assumes "putMsgpack s k r = (Inr (), s')"
  shows "sameExcept {k} s s'" and "dbGet (st_db s') k = Some (marshalValue (st_codec s) r)"
proof -
  obtain d where ap: "applyReferenceAwareBatch (st_codec s) (st_db s) [putRow s k r] = Inr d" and s': "s' = s\<lparr>st_db := d\<rparr>"
    using assms by (auto simp: putMsgpack_def applyViaRaft_def split: if_splits sum.splits)
  have "dbGet d = (dbGet (st_db s))(k \<mapsto> marshalValue (st_codec s) r)"
    using applyReferenceAwareBatch_commit [OF ap] by (simp add: putRow_def applyOp_def)
  then show "sameExcept {k} s s'" and "dbGet (st_db s') k = Some (marshalValue (st_codec s) r)"
    using s' by (simp_all add: sameExcept_def)
qed

lemma putStats_same:
  assumes "is_putWithBucketStats s v oldSize = (Inr (), s')"
  shows "sameExcept (insert (inodeKey (v_ID v)) (range bucketStatsKey)) s s'"
    and "dbGet (st_db s') (inodeKey (v_ID v)) = Some (marshalValue (st_codec s) (RInodeV2 v))"
proof -
  let ?ops = "addBucketStatsOp s (v_BucketRoot v) (v_Size v - oldSize) 0 @ [(inodeKey (v_ID v), RInodeV2 v)]"
  let ?K = "insert (inodeKey (v_ID v)) (range bucketStatsKey)"
  have "sameExcept ?K s s' \<and> dbGet (st_db s') (inodeKey (v_ID v)) = Some (marshalValue (st_codec s) (RInodeV2 v))"
  proof (cases "st_useBucketStats s")
    case False
    then show ?thesis
      using assms put_same [of s "inodeKey (v_ID v)" "RInodeV2 v" s']
      by (auto simp: is_putWithBucketStats_def is_Put_def intro: sameExcept_mono)
  next
    case True
    then obtain d where ap: "applyReferenceAwareBatch (st_codec s) (st_db s) (map (\<lambda>(k, r). putRow s k r) ?ops) = Inr d"
      and s': "s' = s\<lparr>st_db := d\<rparr>"
      using assms by (auto simp: is_putWithBucketStats_def applyBatchMsgpack_def applyBatchViaRaft_def
          split: if_splits sum.splits)
    have d: "d = commitBatch (st_db s) (map (\<lambda>(k, r). putRow s k r) ?ops)"
      by (rule applyReferenceAwareBatch_commit [OF ap])
    then show ?thesis
      using s' by (auto simp: sameExcept_def addBucketStatsOp_def Let_def putRow_def applyOp_def split: if_splits)
  qed
  then show "sameExcept ?K s s'"
    and "dbGet (st_db s') (inodeKey (v_ID v)) = Some (marshalValue (st_codec s) (RInodeV2 v))" by auto
qed

lemma dbGet_foldl_delete:
  "dbGet (foldl (\<lambda>d p. dbDelete d (f p)) d ps) k = (if k \<in> f ` set ps then None else dbGet d k)"
  by (induction ps arbitrary: d) auto

lemma dropOldRoot_same: "sameExcept (range (extentPageKey i oldRoot)) s (dropOldRoot s i oldRoot n)"
  by (auto simp: sameExcept_def dropOldRoot_def ps_DeleteRoot_def dbGet_foldl_delete)

lemma metas_same:
  assumes "putExtentMetas s ws = (Inr (), s')"
  shows "sameExcept (range extentMetaKey) s s'" and "\<forall>w \<in> set ws. ew_Extent w \<noteq> None"
proof -
  have "sameExcept (range extentMetaKey) s s' \<and> (\<forall>w \<in> set ws. ew_Extent w \<noteq> None)"
    using assms
  proof (induction ws arbitrary: s)
    case (Cons w ws)
    obtain x s1 where x: "ew_Extent w = Some x" and p: "putExtentMeta s x = (Inr (), s1)"
      and rest: "putExtentMetas s1 ws = (Inr (), s')"
      using Cons.prems by (auto split: option.splits prod.splits sum.splits)
    have "sameExcept (range extentMetaKey) s s1"
      using put_same(1) [OF p [unfolded putExtentMeta_def]] by (rule sameExcept_mono) auto
    with Cons.IH [OF rest] x show ?case using sameExcept_trans by fastforce
  qed simp
  then show "sameExcept (range extentMetaKey) s s'" and "\<forall>w \<in> set ws. ew_Extent w \<noteq> None" by auto
qed

section \<open>Resolving pages\<close>

definition writeRef :: "ExtentWrite \<Rightarrow> ExtentRef" where
  "writeRef w = \<lparr>er_ExtentID = x_ID (the (ew_Extent w)), er_LogicalOffset = ew_Offset w\<rparr>"

lemma writeRefs_map: "\<forall>w \<in> set ws. ew_Extent w \<noteq> None \<Longrightarrow> writeRefs ws = Some (map writeRef ws)"
  by (induction ws) (auto simp: writeRef_def)

lemma unat_of_nat32: "q < 2 ^ 32 \<Longrightarrow> unat (of_nat q :: u32) = q"
  by (simp add: unat_of_nat take_bit_nat_eq_self)

lemma unat_u32: "unat (n :: u32) < 2 ^ 32"
  using unsigned_less [of n, where ?'a = nat] by simp

lemma page_parts: "concat (map (\<lambda>p. take c (drop (p * c) xs)) [0 ..< k]) = take (k * c) xs"
proof (induction k)
  case (Suc k)
  have "take (Suc k * c) xs = take (k * c) xs @ take c (drop (k * c) xs)"
    using take_add [of "k * c" c xs] by (simp add: add.commute)
  then show ?case using Suc by (simp del: mult_Suc)
qed simp

lemma pageNumbers_set: "p \<in> set (pageNumbers n) \<longleftrightarrow> p < n"
proof
  assume "p < n"
  then have "unat p < unat n" by (simp add: word_less_nat_alt)
  then show "p \<in> set (pageNumbers n)" by (auto simp: pageNumbers_def intro!: image_eqI [of _ _ "unat p"])
next
  assume "p \<in> set (pageNumbers n)"
  then obtain q where "q < unat n" "p = of_nat q" by (auto simp: pageNumbers_def)
  then show "p < n"
    using unat_u32 [of n] by (simp add: word_less_nat_alt unat_of_nat32)
qed

lemma distinct_pageNumbers: "distinct (pageNumbers n)"
proof -
  have "unat (of_nat q :: u32) = q" if "q < unat n" for q
    using that unat_u32 [of n] by (intro unat_of_nat32) simp
  then show ?thesis
    unfolding pageNumbers_def distinct_map by (auto intro!: inj_onI) metis
qed

lemma pages_concat:
  assumes "(length ws + 255) div 256 < 2 ^ 32"
  shows "concat (map (pageWrites ws) (pageNumbers (of_nat ((length ws + MaxExtentsPerPage - 1) div MaxExtentsPerPage)))) = ws"
proof -
  let ?k = "(length ws + 255) div 256"
  have k: "(length ws + MaxExtentsPerPage - 1) div MaxExtentsPerPage = ?k" by (simp add: MaxExtentsPerPage_def)
  have n: "unat (of_nat ?k :: u32) = ?k" using assms by (simp add: unat_of_nat32)
  have "map (pageWrites ws) (pageNumbers (of_nat ?k)) = map (\<lambda>p. take 256 (drop (p * 256) ws)) [0 ..< ?k]"
    unfolding pageNumbers_def n map_map
  proof (rule map_cong [OF refl])
    fix q assume "q \<in> set [0 ..< ?k]"
    then have "unat (of_nat q :: u32) = q" using assms by (simp add: unat_of_nat32)
    then show "(pageWrites ws \<circ> of_nat) q = take 256 (drop (q * 256) ws)"
      by (simp add: pageWrites_def MaxExtentsPerPage_def)
  qed
  then have "concat (map (pageWrites ws) (pageNumbers (of_nat ?k))) = take (?k * 256) ws"
    by (simp only: page_parts)
  also have "\<dots> = ws" by simp
  finally show ?thesis unfolding k .
qed

lemma getPage_cong:
  assumes "st_codec t = st_codec s" and "dbGet (st_db t) (extentPageKey i r p) = dbGet (st_db s) (extentPageKey i r p)"
  shows "ps_GetPage t i r p = ps_GetPage s i r p"
  using assms by (simp add: ps_GetPage_def storeGet_def getValue_def)

lemma getPage_row:
  assumes "codec_ok (st_codec s)"
    and "dbGet (st_db s) (extentPageKey i r p) = Some (marshalValue (st_codec s) (RPage pg))"
  shows "ps_GetPage s i r p = Inr (Some (pg\<lparr>ep_InodeID := i, ep_PageNo := p\<rparr>))"
  using storeGet_row [OF assms, of asPage] by (simp add: ps_GetPage_def)

lemma getPage_None:
  "dbGet (st_db s) (extentPageKey i r p) = None \<Longrightarrow> ps_GetPage s i r p = Inr None"
  by (simp add: ps_GetPage_def storeGet_def getValue_def)

lemma resolvePage_hit:
  assumes "ps_GetPage s i r p = Inr (Some pg)" and "r \<noteq> 0"
  shows "ps_ResolvePage s i r p = Inr (Some pg)"
proof -
  obtain n where n: "unat r = Suc n" using assms(2) by (metis not0_implies_Suc unat_eq_zero)
  moreover have "of_nat (Suc n) = r" unfolding n [symmetric] by simp
  ultimately show ?thesis using assms(1) by (simp add: ps_ResolvePage_def del: of_nat_Suc)
qed

lemma resolvePage_older:
  assumes "ps_GetPage s i (r + 1) p = Inr None" and "r + 1 \<noteq> 0"
  shows "ps_ResolvePage s i (r + 1) p = ps_ResolvePage s i r p"
proof -
  have n: "unat (r + 1) = Suc (unat r)" using assms(2) unat_succ [of r] by fastforce
  moreover have "of_nat (Suc (unat r)) = r + 1" by simp
  ultimately show ?thesis using assms(1) by (simp add: ps_ResolvePage_def del: of_nat_Suc)
qed

lemma resolveFrom_cong:
  "(\<And>m. 0 < m \<Longrightarrow> m \<le> n \<Longrightarrow> ps_GetPage t i (of_nat m) p = ps_GetPage s i (of_nat m) p) \<Longrightarrow>
   resolveFrom t i p n = resolveFrom s i p n"
  by (induction n) (auto simp del: of_nat_Suc split: sum.splits option.splits)

lemma resolvePages_found:
  "(\<And>p. p \<in> set ps \<Longrightarrow> ps_ResolvePage s i r p = Inr (Some (f p))) \<Longrightarrow>
   resolvePages s i r ps = Inr (concat (map (\<lambda>p. ep_Extents (f p)) ps))"
  by (induction ps) auto

lemma resolvePages_append:
  "resolvePages s i r (ps @ qs) =
     (case resolvePages s i r ps of
        Inl e \<Rightarrow> Inl e
      | Inr a \<Rightarrow> (case resolvePages s i r qs of Inl e \<Rightarrow> Inl e | Inr b \<Rightarrow> Inr (a @ b)))"
  by (induction ps) (auto split: sum.splits)

lemma resolvePages_cong:
  "(\<And>p. p \<in> set ps \<Longrightarrow> ps_ResolvePage t i q p = ps_ResolvePage s i r p) \<Longrightarrow>
   resolvePages t i q ps = resolvePages s i r ps"
  by (induction ps) (auto split: sum.splits)

section \<open>The writers\<close>

lemma writePage_same:
  assumes "ps_writePage s pg rt = (Inr (), s')"
  shows "sameExcept {extentPageKey (ep_InodeID pg) rt (ep_PageNo pg)} s s'"
    and "dbGet (st_db s') (extentPageKey (ep_InodeID pg) rt (ep_PageNo pg)) = Some (marshalValue (st_codec s) (RPage pg))"
  using put_same [OF assms [unfolded ps_writePage_def]] by auto

lemma writePages_same:
  assumes "writePages s i rt ws ps = (Inr (), s')" and "distinct ps" and "\<forall>w \<in> set ws. ew_Extent w \<noteq> None"
  shows "sameExcept (range (extentPageKey i rt)) s s'"
    and "\<And>p. p \<in> set ps \<Longrightarrow> dbGet (st_db s') (extentPageKey i rt p) =
           Some (marshalValue (st_codec s) (RPage \<lparr>ep_InodeID = i, ep_PageNo = p, ep_Extents = map writeRef (pageWrites ws p)\<rparr>))"
proof -
  have "sameExcept (extentPageKey i rt ` set ps) s s' \<and>
    (\<forall>p \<in> set ps. dbGet (st_db s') (extentPageKey i rt p) =
       Some (marshalValue (st_codec s) (RPage \<lparr>ep_InodeID = i, ep_PageNo = p, ep_Extents = map writeRef (pageWrites ws p)\<rparr>)))"
    using assms(1,2)
  proof (induction ps arbitrary: s)
    case (Cons p ps)
    let ?pg = "\<lparr>ep_InodeID = i, ep_PageNo = p, ep_Extents = map writeRef (pageWrites ws p)\<rparr>"
    have "\<forall>w \<in> set (pageWrites ws p). ew_Extent w \<noteq> None"
      using assms(3) by (auto simp: pageWrites_def dest!: in_set_takeD in_set_dropD)
    then have refs: "writeRefs (pageWrites ws p) = Some (map writeRef (pageWrites ws p))" by (rule writeRefs_map)
    obtain s1 where w: "ps_writePage s ?pg rt = (Inr (), s1)" and rest: "writePages s1 i rt ws ps = (Inr (), s')"
      using Cons.prems(1) refs by (auto split: prod.splits sum.splits)
    note one = writePage_same [OF w, simplified]
    have new: "p \<notin> set ps" using Cons.prems(2) by simp
    from Cons.IH [OF rest] Cons.prems(2)
    have ih: "sameExcept (extentPageKey i rt ` set ps) s1 s'"
      and rows: "\<forall>q \<in> set ps. dbGet (st_db s') (extentPageKey i rt q) =
         Some (marshalValue (st_codec s1) (RPage \<lparr>ep_InodeID = i, ep_PageNo = q, ep_Extents = map writeRef (pageWrites ws q)\<rparr>))"
      by auto
    have codec: "st_codec s1 = st_codec s" using one(1) by (simp add: sameExcept_def)
    have "extentPageKey i rt p \<notin> extentPageKey i rt ` set ps" using new by auto
    then have "dbGet (st_db s') (extentPageKey i rt p) = dbGet (st_db s1) (extentPageKey i rt p)"
      using ih by (simp add: sameExcept_def)
    then show ?case
      using sameExcept_trans [OF one(1) ih] one(2) rows codec by simp
  qed simp
  then show "sameExcept (range (extentPageKey i rt)) s s'"
    and "\<And>p. p \<in> set ps \<Longrightarrow> dbGet (st_db s') (extentPageKey i rt p) =
           Some (marshalValue (st_codec s) (RPage \<lparr>ep_InodeID = i, ep_PageNo = p, ep_Extents = map writeRef (pageWrites ws p)\<rparr>))"
    by (auto intro: sameExcept_mono)
qed

text \<open>The row an overwrite leaves and the pages under its root.\<close>

lemma is_ReplaceExtents_rows:
  assumes "is_ReplaceExtents s i ws sz now = (Inr (), s')" and "is_Get s i = Inr (Some v)" and "v_ID v = i"
    and "\<forall>w \<in> set ws. ew_Extent w \<noteq> None" and "v_ExtentRoot v + 1 \<noteq> 0" and "codec_ok (st_codec s)"
    and "(length ws + 255) div 256 < 2 ^ 32"
  obtains v' where "is_Get s' i = Inr (Some v')" and "v_ID v' = i" and "v_Layout v' = LayoutExtentPages"
    and "v_ExtentRoot v' = v_ExtentRoot v + 1" and "ps_ResolveExtents s' v' = Inr (map writeRef ws)"
    and "v_Size v' = sz"
    and "sameExcept (insert (inodeKey i) (range bucketStatsKey) \<union> (\<Union>r. range (extentPageKey i r))) s s'"
    and "\<forall>p < v_ExtentPageCount v'. dbGet (st_db s') (extentPageKey i (v_ExtentRoot v') p) =
           Some (marshalValue (st_codec s) (RPage \<lparr>ep_InodeID = i, ep_PageNo = p, ep_Extents = map writeRef (pageWrites ws p)\<rparr>))"
proof -
  let ?rt = "v_ExtentRoot v + 1"
  let ?n = "of_nat ((length ws + MaxExtentsPerPage - 1) div MaxExtentsPerPage) :: u32"
  let ?v = "v\<lparr>v_Layout := LayoutExtentPages, v_InlineExtent := None, v_ExtentRoot := ?rt,
     v_ExtentRootVersion := v_ExtentRootVersion v + 1, v_ExtentPageCount := ?n,
     v_Size := sz, v_MTime := now, v_CTime := now\<rparr>"
  obtain s1 s2 where w: "writePages s i ?rt ws (pageNumbers ?n) = (Inr (), s1)"
    and p: "is_putWithBucketStats s1 ?v (v_Size v) = (Inr (), s2)"
    and s': "s' = dropOldRoot s2 i (v_ExtentRoot v) (v_ExtentPageCount v)"
    using assms(1,2) by (auto simp: is_ReplaceExtents_def Let_def split: prod.splits sum.splits)
  note W = writePages_same [OF w distinct_pageNumbers assms(4)]
  note P = putStats_same [OF p, simplified, unfolded assms(3)]
  note D = dropOldRoot_same [of i "v_ExtentRoot v" s2 "v_ExtentPageCount v", folded s']
  have codec: "st_codec s' = st_codec s" "st_codec s1 = st_codec s" "st_codec s2 = st_codec s"
    using W(1) P(1) D by (auto simp: sameExcept_def)
  have row: "dbGet (st_db s') (inodeKey i) = Some (marshalValue (st_codec s') (RInodeV2 ?v))"
    using P(2) sameExcept_db [OF D, of "inodeKey i"] codec by simp
  have page: "dbGet (st_db s') (extentPageKey i ?rt q) =
      Some (marshalValue (st_codec s) (RPage \<lparr>ep_InodeID = i, ep_PageNo = q, ep_Extents = map writeRef (pageWrites ws q)\<rparr>))"
    if "q < ?n" for q
  proof -
    have "dbGet (st_db s') (extentPageKey i ?rt q) = dbGet (st_db s2) (extentPageKey i ?rt q)"
      using sameExcept_db [OF D, of "extentPageKey i ?rt q"] by simp
    also have "\<dots> = dbGet (st_db s1) (extentPageKey i ?rt q)"
      using sameExcept_db [OF P(1), of "extentPageKey i ?rt q"] by simp
    finally show ?thesis using W(2) [of q] that by (simp add: pageNumbers_set)
  qed
  have "ps_ResolvePage s' i ?rt q =
      Inr (Some \<lparr>ep_InodeID = i, ep_PageNo = q, ep_Extents = map writeRef (pageWrites ws q)\<rparr>)" if "q < ?n" for q
    using getPage_row [of s' i ?rt q] page [OF that] codec assms(5,6) by (intro resolvePage_hit) auto
  then have "resolvePages s' i ?rt (pageNumbers ?n) = Inr (concat (map (\<lambda>q. map writeRef (pageWrites ws q)) (pageNumbers ?n)))"
    using resolvePages_found [of "pageNumbers ?n" s' i ?rt
        "\<lambda>q. \<lparr>ep_InodeID = i, ep_PageNo = q, ep_Extents = map writeRef (pageWrites ws q)\<rparr>"]
    by (simp add: pageNumbers_set)
  also have "concat (map (\<lambda>q. map writeRef (pageWrites ws q)) (pageNumbers ?n)) = map writeRef ws"
    using arg_cong [OF pages_concat [OF assms(7)], of "map writeRef"] by (simp add: map_concat comp_def)
  finally have res: "ps_ResolveExtents s' ?v = Inr (map writeRef ws)"
    using assms(3) by (simp add: ps_ResolveExtents_def)
  have get: "is_Get s' i = Inr (Some ?v)"
    unfolding is_Get_def by (rule storeGet_row [OF _ row]) (simp_all add: codec assms(6))
  have same: "sameExcept (insert (inodeKey i) (range bucketStatsKey) \<union> (\<Union>r. range (extentPageKey i r))) s s'"
    by (rule sameExcept_mono [OF sameExcept_trans [OF sameExcept_trans [OF W(1) P(1)] D]]) auto
  show thesis by (rule that [OF get _ _ _ res _ same]) (simp_all add: assms(3) page)
qed

abbreviation writeExtent :: "ExtentWrite \<Rightarrow> ExtentMetaV2" where
  "writeExtent w \<equiv> the (ew_Extent w)"

lemma metas_rows:
  assumes "putExtentMetas s ws = (Inr (), s')" and "distinct (map (\<lambda>w. x_ID (writeExtent w)) ws)" and "w \<in> set ws"
  shows "dbGet (st_db s') (extentMetaKey (x_ID (writeExtent w))) = Some (marshalValue (st_codec s) (RExtent (writeExtent w)))"
  using assms
proof (induction ws arbitrary: s)
  case (Cons u ws)
  obtain x s1 where x: "ew_Extent u = Some x" and p: "putExtentMeta s x = (Inr (), s1)"
    and rest: "putExtentMetas s1 ws = (Inr (), s')"
    using Cons.prems(1) by (auto split: option.splits prod.splits sum.splits)
  note one = put_same [OF p [unfolded putExtentMeta_def]]
  have codec: "st_codec s1 = st_codec s" using one(1) by (simp add: sameExcept_def)
  have keep: "dbGet (st_db t') (extentMetaKey y) = dbGet (st_db t) (extentMetaKey y)"
    if "putExtentMetas t us = (Inr (), t')" "y \<notin> (\<lambda>w. x_ID (writeExtent w)) ` set us" for t t' us y
    using that
  proof (induction us arbitrary: t)
    case (Cons a us)
    obtain z t1 where z: "ew_Extent a = Some z" "putExtentMeta t z = (Inr (), t1)" "putExtentMetas t1 us = (Inr (), t')"
      using Cons.prems(1) by (auto split: option.splits prod.splits sum.splits)
    have "dbGet (st_db t1) (extentMetaKey y) = dbGet (st_db t) (extentMetaKey y)"
      using sameExcept_db [OF put_same(1) [OF z(2) [unfolded putExtentMeta_def]], of "extentMetaKey y"] Cons.prems(2) z(1)
      by auto
    then show ?case using Cons.IH [OF z(3)] Cons.prems(2) by simp
  qed simp
  show ?case
  proof (cases "w = u")
    case True
    then show ?thesis using keep [OF rest, of "x_ID x"] one(2) x Cons.prems(2) by simp
  next
    case False
    then show ?thesis using Cons.IH [OF rest] Cons.prems codec by simp
  qed
qed simp

lemma ReplaceExtents_parts:
  assumes "ReplaceExtents s i ws sz now = (Inr (), s')"
  obtains s1 s2 where "\<not> st_closed s" and "putExtentMetas s ws = (Inr (), s1)"
    and "is_ReplaceExtents s1 i ws sz now = (Inr (), s2)" and "s' = cacheDel s2 i"
proof -
  obtain r1 s1 where m: "putExtentMetas s ws = (r1, s1)" by (cases "putExtentMetas s ws")
  obtain r2 s2 where r: "is_ReplaceExtents s1 i ws sz now = (r2, s2)" by (cases "is_ReplaceExtents s1 i ws sz now")
  show thesis
    using assms m r that [of s1 s2] by (cases r1; cases r2) (auto simp: ReplaceExtents_def split: if_splits)
qed

lemma cacheDel_views [simp]:
  "storeGet prj (cacheDel s i) k = storeGet prj s k" "st_closed (cacheDel s i) = st_closed s"
  "st_codec (cacheDel s i) = st_codec s" "st_db (cacheDel s i) = st_db s"
  "cacheGet (cacheDel s i) i = None"
  by (simp_all add: cacheDel_def storeGet_def cacheGet_def)

lemma resolve_views:
  assumes "st_codec t = st_codec s" and "st_db t = st_db s"
  shows "is_Get t i = is_Get s i" and "ps_ResolveExtents t v = ps_ResolveExtents s v"
    and "is_ResolveExtents t i = is_ResolveExtents s i"
proof -
  show get: "is_Get t i = is_Get s i" using assms by (simp add: is_Get_def storeGet_def)
  have "ps_GetPage t j r p = ps_GetPage s j r p" for j r p using assms by (intro getPage_cong) simp_all
  then have pages: "ps_ResolveExtents t u = ps_ResolveExtents s u" for u
    unfolding ps_ResolveExtents_def ps_ResolvePage_def
    by (intro resolvePages_cong, unfold ps_ResolvePage_def) (rule resolveFrom_cong)
  then show "ps_ResolveExtents t v = ps_ResolveExtents s v" .
  show "is_ResolveExtents t i = is_ResolveExtents s i"
    unfolding is_ResolveExtents_def get pages by (rule refl)
qed

text \<open>Everything a reader sees of an inode after its extents were replaced.\<close>

lemma ReplaceExtents_rows:
  assumes "ReplaceExtents s i ws sz now = (Inr (), s')" and "is_Get s i = Inr (Some v)" and "v_ID v = i"
    and "v_ExtentRoot v + 1 \<noteq> 0" and "codec_ok (st_codec s)" and "(length ws + 255) div 256 < 2 ^ 32"
  obtains v' where "is_Get s' i = Inr (Some v')" and "v_ID v' = i" and "v_Layout v' = LayoutExtentPages"
    and "v_Size v' = sz" and "ps_ResolveExtents s' v' = Inr (map writeRef ws)" and "\<not> st_closed s'"
    and "st_codec s' = st_codec s" and "cacheGet s' i = None"
    and "distinct (map (\<lambda>w. x_ID (writeExtent w)) ws) \<longrightarrow>
         (\<forall>w \<in> set ws. GetExtentMeta s' (x_ID (writeExtent w)) = Inr (writeExtent w))"
proof -
  obtain s1 s2 where opened: "\<not> st_closed s" and m: "putExtentMetas s ws = (Inr (), s1)"
    and r: "is_ReplaceExtents s1 i ws sz now = (Inr (), s2)" and s': "s' = cacheDel s2 i"
    by (rule ReplaceExtents_parts [OF assms(1)])
  note M = metas_same [OF m]
  have codec: "codec_ok (st_codec s1)" using M(1) assms(5) by (simp add: sameExcept_def)
  have get1: "is_Get s1 i = Inr (Some v)"
    using sameExcept_get [OF M(1), where k = "inodeKey i" and prj = asInodeV2] assms(2) by (simp add: is_Get_def)
  obtain v' where v': "is_Get s2 i = Inr (Some v')" "v_ID v' = i" "v_Layout v' = LayoutExtentPages"
    "v_ExtentRoot v' = v_ExtentRoot v + 1" "ps_ResolveExtents s2 v' = Inr (map writeRef ws)" "v_Size v' = sz"
    and same: "sameExcept (insert (inodeKey i) (range bucketStatsKey) \<union> (\<Union>r. range (extentPageKey i r))) s1 s2"
    and "\<forall>p < v_ExtentPageCount v'. dbGet (st_db s2) (extentPageKey i (v_ExtentRoot v') p) =
           Some (marshalValue (st_codec s1) (RPage \<lparr>ep_InodeID = i, ep_PageNo = p, ep_Extents = map writeRef (pageWrites ws p)\<rparr>))"
    by (rule is_ReplaceExtents_rows [OF r get1 assms(3) M(2) assms(4) codec assms(6)])
  have eqs: "st_codec s' = st_codec s" "st_closed s' = st_closed s"
    using M(1) same s' by (auto simp: sameExcept_def)
  have "GetExtentMeta s' (x_ID (writeExtent w)) = Inr (writeExtent w)"
    if "distinct (map (\<lambda>w. x_ID (writeExtent w)) ws)" "w \<in> set ws" for w
  proof -
    have "dbGet (st_db s') (extentMetaKey (x_ID (writeExtent w))) = Some (marshalValue (st_codec s') (RExtent (writeExtent w)))"
      using metas_rows [OF m that] sameExcept_db [OF same, of "extentMetaKey (x_ID (writeExtent w))"] s' eqs by auto
    from storeGet_row [OF _ this, of asExtent] show ?thesis
      using opened eqs assms(5) by (simp add: GetExtentMeta_def)
  qed
  then show thesis
    using v' s' opened eqs resolve_views(1,2) [of s' s2] by (intro that [of v']) auto
qed

lemma SetInlineExtent_rows:
  assumes "SetInlineExtent s i (Some x) sz now = (Inr (), s')" and "is_Get s i = Inr (Some v)" and "v_ID v = i"
    and "codec_ok (st_codec s)"
  obtains v' where "is_Get s' i = Inr (Some v')" and "v_ID v' = i" and "v_Layout v' = LayoutInlineExtent"
    and "v_Size v' = sz" and "v_InlineExtent v' = Some x" and "\<not> st_closed s'"
    and "st_codec s' = st_codec s" and "cacheGet s' i = None" and "GetExtentMeta s' (x_ID x) = Inr x"
proof -
  let ?v = "v\<lparr>v_Layout := LayoutInlineExtent, v_InlineExtent := Some x, v_Size := sz, v_MTime := now, v_CTime := now\<rparr>"
  obtain r1 s1 where m: "putExtentMeta s x = (r1, s1)" by (cases "putExtentMeta s x")
  have opened: "\<not> st_closed s" and r1: "r1 = Inr ()"
    using assms(1) m by (cases r1; auto simp: SetInlineExtent_def split: if_splits)+
  note M = put_same [OF m [unfolded r1 putExtentMeta_def]]
  have get1: "is_Get s1 i = Inr (Some v)"
    using sameExcept_get [OF M(1), where k = "inodeKey i" and prj = asInodeV2] assms(2) by (simp add: is_Get_def)
  obtain r2 s2 where p: "is_putWithBucketStats s1 ?v (v_Size v) = (r2, s2)"
    by (cases "is_putWithBucketStats s1 ?v (v_Size v)")
  have r2: "r2 = Inr ()" and s': "s' = cacheDel (dropOldRoot s2 i (v_ExtentRoot v) (v_ExtentPageCount v)) i"
    using assms(1) m r1 get1 p opened
    by (cases r2; auto simp: SetInlineExtent_def is_SetInlineExtent_def)+
  note P = putStats_same [OF p [unfolded r2], simplified, unfolded assms(3)]
  note D = dropOldRoot_same [of i "v_ExtentRoot v" s2 "v_ExtentPageCount v"]
  have eqs: "st_codec s' = st_codec s" "st_closed s' = st_closed s" "st_codec s1 = st_codec s"
    using M(1) P(1) D s' by (auto simp: sameExcept_def)
  have row: "dbGet (st_db s') (inodeKey i) = Some (marshalValue (st_codec s') (RInodeV2 ?v))"
    using P(2) sameExcept_db [OF D, of "inodeKey i"] s' eqs by simp
  have meta: "dbGet (st_db s') (extentMetaKey (x_ID x)) = Some (marshalValue (st_codec s') (RExtent x))"
    using M(2) sameExcept_db [OF P(1), of "extentMetaKey (x_ID x)"] sameExcept_db [OF D, of "extentMetaKey (x_ID x)"]
      s' eqs by simp
  have get: "is_Get s' i = Inr (Some ?v)"
    unfolding is_Get_def by (rule storeGet_row [OF _ row]) (simp_all add: eqs assms(4))
  have "GetExtentMeta s' (x_ID x) = Inr x"
    using storeGet_row [OF _ meta, of asExtent] eqs opened assms(4) by (simp add: GetExtentMeta_def)
  then show thesis
    using s' eqs opened assms(3) by (intro that [OF get]) simp_all
qed

lemma toInt32_id: "- (2 ^ 31) \<le> n \<Longrightarrow> n < 2 ^ 31 \<Longrightarrow> toInt32 n = n"
  by (simp add: toInt32_def signed_of_int signed_take_bit_int_eq_self)

lemma extentChunks_metas:
  "\<forall>w \<in> set ws. GetExtentMeta s (x_ID (writeExtent w)) = Inr (writeExtent w) \<Longrightarrow>
   extentChunks s (map writeRef ws) =
     Inr (map (\<lambda>w. \<lparr>cr_ID = x_ID (writeExtent w), cr_Offset = ew_Offset w,
                    cr_Length = toInt32 (x_LogicalLen (writeExtent w)), cr_Version = 0\<rparr>) ws)"
  by (induction ws) (simp_all add: writeRef_def)

lemma extentWriteFor_fields [simp]:
  "x_ID (writeExtent (extentWriteFor s ref)) = cr_ID ref" "ew_Offset (extentWriteFor s ref) = cr_Offset ref"
  "x_LogicalLen (writeExtent (extentWriteFor s ref)) = cr_Length ref"
  "\<exists>x. ew_Extent (extentWriteFor s ref) = Some x"
  by (simp_all add: extentWriteFor_def extentForRef_def split: prod.splits)

lemma GetInode_uncached:
  assumes "cacheGet s i = None" and "\<not> st_closed s" and "is_Get s i = Inr (Some v)" and "v_Layout v \<noteq> LayoutEmpty"
    and "codec_ok (st_codec s)"
  shows "GetInode s i = (Inr (v2AsV1 v), cachePut s i (cachedCopy (v2AsV1 v)))"
proof -
  obtain raw r where raw: "dbGet (st_db s) (inodeKey i) = Some raw" "unmarshalValue (st_codec s) raw = Some r" "asInodeV2 r = Some v"
    using assms(3) by (auto simp: is_Get_def storeGet_def getValue_def split: option.splits)
  have "r = RInodeV2 v" using raw(3) assms(4) by (cases r) (auto simp: v1AsV2_def)
  then have "storeGet asInode s (inodeKey i) = Inr (Some (v2AsV1 v))"
    using raw by (simp add: storeGet_def getValue_def)
  then show ?thesis using assms(1,2) by (simp add: GetInode_def)
qed

lemma cachePut_views [simp]:
  "storeGet prj (cachePut s i m) k = storeGet prj s k" "st_closed (cachePut s i m) = st_closed s"
  "st_codec (cachePut s i m) = st_codec s" "st_db (cachePut s i m) = st_db s"
  by (simp_all add: cachePut_def storeGet_def)

section \<open>The writers succeed\<close>

lemma put_ok:
  assumes "\<not> IsReadOnly (st_deg s)" and "checkReferenceOp (st_codec s) (dbGet (st_db s)) (putRow s k r) = Inr ()"
  shows "\<exists>s'. putMsgpack s k r = (Inr (), s')"
  using assms
  by (simp add: putMsgpack_def applyViaRaft_def applyReferenceAwareBatch_runSteps checkedApply_def)

lemma extent_keys_unchecked [simp]:
  "checkReferenceOp c rd (putRow s (extentPageKey i rt p) r) = Inr ()"
  "checkReferenceOp c rd (putRow s (extentMetaKey x) r) = Inr ()"
  "checkReferenceOp c rd (putRow s (bucketStatsKey j) r) = Inr ()"
  by (simp_all add: checkReferenceOp_def putRow_def isInodeMetadataKey_def isChunkMetadataKey_def key_defs)

lemma inode_row_check:
  assumes "codec_ok c" and "v_ID v' = i"
    and "rd (inodeKey i) = Some raw" and "unmarshalValue c raw = Some r" and "asInodeV2 r = Some v" and "v_ID v = i"
  shows "checkReferenceOp c rd (setOp (inodeKey i) (marshalValue c (RInodeV2 v'))) = Inr ()"
proof -
  obtain m where m: "asInode r = Some m" "i_ID m = i"
    using assms(5,6) by (cases r) (auto simp: v1AsV2_def v2AsV1_def)
  have "decodeReferencedInode c (inodeKey i) (rd (inodeKey i)) = Inr (Some m)"
    using assms(3,4) m by (simp add: decodeReferencedInode_def validateInodeKeyIdentity_iff)
  moreover have "decodeNewInode c (setOp (inodeKey i) (marshalValue c (RInodeV2 v'))) = Inr (Some (v2AsV1 v'))"
    using assms(1,2) by (simp add: decodeNewInode_def validateInodeKeyIdentity_iff v2AsV1_def)
  moreover have "addedChunkReferences (Some m) (Some (v2AsV1 v')) = []"
    by (simp add: v2AsV1_def)
  ultimately show ?thesis by (simp add: checkReferenceOp_def)
qed

lemma is_Get_raw:
  assumes "is_Get s i = Inr (Some v)"
  obtains raw r where "dbGet (st_db s) (inodeKey i) = Some raw" and "unmarshalValue (st_codec s) raw = Some r"
    and "asInodeV2 r = Some v"
  using assms by (auto simp: is_Get_def storeGet_def getValue_def split: option.splits)

lemma putStats_ok:
  assumes "\<not> IsReadOnly (st_deg s)" and "codec_ok (st_codec s)" and "is_Get s i = Inr (Some v)" and "v_ID v = i"
    and "v_ID v' = i"
  shows "\<exists>s'. is_putWithBucketStats s v' oldSize = (Inr (), s')"
proof -
  obtain raw r where raw: "dbGet (st_db s) (inodeKey i) = Some raw" "unmarshalValue (st_codec s) raw = Some r"
    "asInodeV2 r = Some v" by (rule is_Get_raw [OF assms(3)])
  have check: "checkReferenceOp (st_codec s) rd (putRow s (inodeKey i) (RInodeV2 v')) = Inr ()"
    if "rd (inodeKey i) = Some raw" for rd
    unfolding putRow_def by (rule inode_row_check [where rd = rd, OF assms(2,5) that raw(2,3) assms(4)])
  show ?thesis
  proof (cases "st_useBucketStats s")
    case False
    then show ?thesis
      using put_ok [OF assms(1) check [where rd = "dbGet (st_db s)", OF raw(1)]] assms(5) by (simp add: is_putWithBucketStats_def is_Put_def)
  next
    case True
    then show ?thesis
      using assms(1,5) raw(1)
      by (auto simp: is_putWithBucketStats_def applyBatchMsgpack_def applyBatchViaRaft_def addBucketStatsOp_def Let_def
          applyReferenceAwareBatch_runSteps checkedApply_def check putRow_def [of s "bucketStatsKey _"] applyOp_def
          extent_keys_unchecked [unfolded putRow_def])
  qed
qed

lemma writePage_ok:
  assumes "\<not> IsReadOnly (st_deg s)"
  shows "\<exists>s'. ps_writePage s pg rt = (Inr (), s')"
  unfolding ps_writePage_def by (rule put_ok [OF assms]) simp

lemma writePages_ok:
  assumes "\<not> IsReadOnly (st_deg s)" and "\<forall>w \<in> set ws. ew_Extent w \<noteq> None"
  shows "\<exists>s'. writePages s i rt ws ps = (Inr (), s')"
  using assms(1)
proof (induction ps arbitrary: s)
  case (Cons p ps)
  have "\<forall>w \<in> set (pageWrites ws p). ew_Extent w \<noteq> None"
    using assms(2) by (auto simp: pageWrites_def dest!: in_set_takeD in_set_dropD)
  then have refs: "writeRefs (pageWrites ws p) = Some (map writeRef (pageWrites ws p))" by (rule writeRefs_map)
  let ?pg = "\<lparr>ep_InodeID = i, ep_PageNo = p, ep_Extents = map writeRef (pageWrites ws p)\<rparr>"
  obtain s1 where w: "ps_writePage s ?pg rt = (Inr (), s1)" using writePage_ok [OF Cons.prems] by blast
  have "st_deg s1 = st_deg s" using writePage_same(1) [OF w] by (simp add: sameExcept_def)
  then show ?case using Cons.IH [of s1] Cons.prems w refs by simp
qed simp

lemma metas_ok:
  assumes "\<not> IsReadOnly (st_deg s)" and "\<forall>w \<in> set ws. ew_Extent w \<noteq> None"
  shows "\<exists>s'. putExtentMetas s ws = (Inr (), s')"
  using assms
proof (induction ws arbitrary: s)
  case (Cons w ws)
  obtain x where x: "ew_Extent w = Some x" using Cons.prems(2) by auto
  obtain s1 where p: "putExtentMeta s x = (Inr (), s1)"
    using put_ok [OF Cons.prems(1), of "extentMetaKey (x_ID x)" "RExtent x"] by (auto simp: putExtentMeta_def)
  have "st_deg s1 = st_deg s" using put_same(1) [OF p [unfolded putExtentMeta_def]] by (simp add: sameExcept_def)
  then show ?case using Cons.IH [of s1] Cons.prems x p by simp
qed simp

text \<open>An open, writable store with a readable row of the inode.\<close>

definition servable :: "'v store \<Rightarrow> InodeID \<Rightarrow> InodeMetaV2 \<Rightarrow> bool" where
  "servable s i v \<longleftrightarrow> \<not> st_closed s \<and> \<not> IsReadOnly (st_deg s) \<and> codec_ok (st_codec s)
     \<and> is_Get s i = Inr (Some v) \<and> v_ID v = i"

lemma servable_same:
  assumes "servable s i v" and "sameExcept K s t" and "inodeKey i \<notin> K"
  shows "servable t i v"
proof -
  have "is_Get t i = is_Get s i"
    using sameExcept_get [OF assms(2,3), where prj = asInodeV2] by (simp add: is_Get_def)
  then show ?thesis using assms(1,2) by (simp add: servable_def sameExcept_def)
qed

lemma ReplaceExtents_ok:
  assumes "servable s i v" and "\<forall>w \<in> set ws. ew_Extent w \<noteq> None"
  shows "\<exists>s'. ReplaceExtents s i ws sz now = (Inr (), s')"
proof -
  let ?n = "of_nat ((length ws + MaxExtentsPerPage - 1) div MaxExtentsPerPage) :: u32"
  obtain s1 where m: "putExtentMetas s ws = (Inr (), s1)"
    using metas_ok [OF _ assms(2), of s] assms(1) by (auto simp: servable_def)
  have one: "servable s1 i v" by (rule servable_same [OF assms(1) metas_same(1) [OF m]]) simp
  obtain s2 where w: "writePages s1 i (v_ExtentRoot v + 1) ws (pageNumbers ?n) = (Inr (), s2)"
    using writePages_ok [OF _ assms(2), of s1 i "v_ExtentRoot v + 1" "pageNumbers ?n"] one
    by (auto simp: servable_def)
  have two: "servable s2 i v"
    by (rule servable_same [OF one writePages_same(1) [OF w distinct_pageNumbers assms(2)]]) simp
  let ?v = "v\<lparr>v_Layout := LayoutExtentPages, v_InlineExtent := None, v_ExtentRoot := v_ExtentRoot v + 1,
     v_ExtentRootVersion := v_ExtentRootVersion v + 1, v_ExtentPageCount := ?n,
     v_Size := sz, v_MTime := now, v_CTime := now\<rparr>"
  obtain s3 where p: "is_putWithBucketStats s2 ?v (v_Size v) = (Inr (), s3)"
    using putStats_ok [of s2 i v ?v "v_Size v"] two by (auto simp: servable_def)
  have get: "\<not> st_closed s" "is_Get s1 i = Inr (Some v)" using assms(1) one by (simp_all add: servable_def)
  show ?thesis
    unfolding ReplaceExtents_def is_ReplaceExtents_def Let_def by (simp only: get m w p if_False prod.case sum.case option.case) blast
qed

lemma SetInlineExtent_ok:
  assumes "servable s i v"
  shows "\<exists>s'. SetInlineExtent s i (Some x) sz now = (Inr (), s')"
proof -
  have writable: "\<not> IsReadOnly (st_deg s)" using assms by (simp add: servable_def)
  obtain s1 where m: "putExtentMeta s x = (Inr (), s1)"
    using put_ok [OF writable, of "extentMetaKey (x_ID x)" "RExtent x"] by (auto simp: putExtentMeta_def)
  have one: "servable s1 i v"
    by (rule servable_same [OF assms put_same(1) [OF m [unfolded putExtentMeta_def]]]) simp
  let ?v = "v\<lparr>v_Layout := LayoutInlineExtent, v_InlineExtent := Some x, v_Size := sz, v_MTime := now, v_CTime := now\<rparr>"
  obtain s2 where p: "is_putWithBucketStats s1 ?v (v_Size v) = (Inr (), s2)"
    using putStats_ok [of s1 i v ?v "v_Size v"] one by (auto simp: servable_def)
  have get: "\<not> st_closed s" "is_Get s1 i = Inr (Some v)" using assms one by (simp_all add: servable_def)
  show ?thesis
    unfolding SetInlineExtent_def is_SetInlineExtent_def Let_def
    by (simp only: get m p if_False prod.case sum.case option.case) blast
qed

end
