(* ===== verification/Extent_Props.thy ===== *)
theory Extent_Props
  imports Extent_Pages Namespace_Sample
begin

text \<open>
  What the extent layouts promise: the round trips of the writers with the readers, appending,
  and two states in which appending goes wrong.
\<close>

section \<open>Overwriting and reading back\<close>

text \<open>
  C30: replacing the extents of a file stores exactly the given set. On an open, writable store
  with a readable row of the inode the call succeeds whatever layout the row had, and afterwards
  the extents resolve to the given ones, in the given order, however many pages they take.
\<close>

theorem ReplaceExtents_resolves:
  assumes "servable s i v" and "\<forall>w \<in> set ws. ew_Extent w \<noteq> None"
    and "v_ExtentRoot v + 1 \<noteq> 0" and "(length ws + 255) div 256 < 2 ^ 32"
  shows "\<exists>s'. ReplaceExtents s i ws sz now = (Inr (), s') \<and> ResolveExtents s' i = Inr (map writeRef ws)"
proof -
  obtain s' where r: "ReplaceExtents s i ws sz now = (Inr (), s')" using ReplaceExtents_ok [OF assms(1,2)] by blast
  have sv: "is_Get s i = Inr (Some v)" "v_ID v = i" "codec_ok (st_codec s)"
    using assms(1) by (simp_all add: servable_def)
  obtain v' where v': "is_Get s' i = Inr (Some v')" "v_ID v' = i" "v_Layout v' = LayoutExtentPages"
    "v_Size v' = sz" "ps_ResolveExtents s' v' = Inr (map writeRef ws)" "\<not> st_closed s'"
    "st_codec s' = st_codec s" "cacheGet s' i = None"
    "distinct (map (\<lambda>w. x_ID (writeExtent w)) ws) \<longrightarrow>
         (\<forall>w \<in> set ws. GetExtentMeta s' (x_ID (writeExtent w)) = Inr (writeExtent w))"
    by (rule ReplaceExtents_rows [OF r sv(1,2) assms(3) sv(3) assms(4)])
  show ?thesis using r v' by (auto simp: ResolveExtents_def is_ResolveExtents_def)
qed

definition sampleExtent :: "ExtentIDV2 \<Rightarrow> int \<Rightarrow> ExtentMetaV2" where
  "sampleExtent x n = extentForRef \<lparr>cr_ID = x, cr_Offset = 0, cr_Length = n, cr_Version = 0\<rparr> StorageClassHotReplica []"

lemma demo_servable: "servable demoStore 2 (v1AsV2 (newInode 2 FileRegular 420 2 0 0))"
  by (simp add: servable_def is_Get_def storeGet_def getValue_def demoRows_def dbGet_def v1AsV2_def newInode_def)

theorem ReplaceExtents_resolves_witness:
  "\<exists>s'. ReplaceExtents demoStore 2 [\<lparr>ew_Extent = Some (sampleExtent 70 10), ew_Offset = 0\<rparr>,
                                    \<lparr>ew_Extent = Some (sampleExtent 71 5), ew_Offset = 10\<rparr>] 15 9 = (Inr (), s')
     \<and> ResolveExtents s' 2 = Inr [\<lparr>er_ExtentID = 70, er_LogicalOffset = 0\<rparr>, \<lparr>er_ExtentID = 71, er_LogicalOffset = 10\<rparr>]"
  using ReplaceExtents_resolves [OF demo_servable, of "[\<lparr>ew_Extent = Some (sampleExtent 70 10), ew_Offset = 0\<rparr>,
      \<lparr>ew_Extent = Some (sampleExtent 71 5), ew_Offset = 10\<rparr>]" 15 9]
  by (simp add: writeRef_def sampleExtent_def extentForRef_def v1AsV2_def)

lemma read_back:
  assumes "is_Get s i = Inr (Some v)" and "v_ID v = i" and "v_Layout v \<noteq> LayoutEmpty" and "v_Size v = sz"
    and "\<not> st_closed s" and "codec_ok (st_codec s)" and "cacheGet s i = None"
    and "is_ResolveExtents s i = Inr (map writeRef ws)" and "ws \<noteq> []"
    and "\<forall>w \<in> set ws. GetExtentMeta s (x_ID (writeExtent w)) = Inr (writeExtent w)"
  shows "\<exists>m s'. GetInode s i = (Inr m, s') \<and> i_Size m = sz \<and> ResolveFileChunks True s' (Some m) =
    Inr (map (\<lambda>w. \<lparr>cr_ID = x_ID (writeExtent w), cr_Offset = ew_Offset w,
                    cr_Length = toInt32 (x_LogicalLen (writeExtent w)), cr_Version = 0\<rparr>) ws)"
proof -
  let ?s = "cachePut s i (cachedCopy (v2AsV1 v))"
  have get: "GetInode s i = (Inr (v2AsV1 v), ?s)" by (rule GetInode_uncached [OF assms(7,5,1,3,6)])
  have "is_ResolveExtents ?s i = is_ResolveExtents s i"
    by (rule resolve_views(3)) simp_all
  then have "ResolveExtents ?s i = Inr (map writeRef ws)" using assms(5,8) by (simp add: ResolveExtents_def)
  moreover have "\<forall>w \<in> set ws. GetExtentMeta ?s (x_ID (writeExtent w)) = Inr (writeExtent w)"
    using assms(5,10) by (simp add: GetExtentMeta_def)
  ultimately show ?thesis
    using get assms(2,4,9) extentChunks_metas [of ws ?s]
    by (simp add: ResolveFileChunks_def v2AsV1_def)
qed



section \<open>Appending\<close>

text \<open>
  The page sets on which appending is meant to work: there is a page, the last page lies under the
  current root, and no page lies under a later root.
\<close>

definition pagesOk :: "'v store \<Rightarrow> InodeID \<Rightarrow> InodeMetaV2 \<Rightarrow> bool" where
  "pagesOk s i v \<longleftrightarrow> v_Layout v = LayoutExtentPages \<and> v_ExtentPageCount v \<noteq> 0 \<and> v_ExtentRoot v \<noteq> 0
     \<and> (\<forall>r p. v_ExtentRoot v < r \<longrightarrow> dbGet (st_db s) (extentPageKey i r p) = None)
     \<and> (\<exists>pg. ps_GetPage s i (v_ExtentRoot v) (v_ExtentPageCount v - 1) = Inr (Some pg))"

lemma next_greater: "(x :: 'a :: len word) + 1 \<noteq> 0 \<Longrightarrow> x < x + 1"
proof -
  assume "x + 1 \<noteq> 0"
  then have "unat (x + 1) = Suc (unat x)" using unat_succ [of x] by fastforce
  then show ?thesis by (simp add: word_less_nat_alt)
qed

lemma pageNumbers_succ: "n + 1 \<noteq> 0 \<Longrightarrow> pageNumbers (n + 1) = pageNumbers n @ [n]"
proof -
  assume "n + 1 \<noteq> 0"
  then have "unat (n + 1) = Suc (unat n)" using unat_succ [of n] by fastforce
  then show ?thesis by (simp add: pageNumbers_def)
qed

lemma getPage_fields: "ps_GetPage s i r p = Inr (Some pg) \<Longrightarrow> ep_InodeID pg = i \<and> ep_PageNo pg = p"
  by (auto simp: ps_GetPage_def split: sum.splits option.splits)

lemma append_page:
  assumes "\<not> IsReadOnly (st_deg s)" and "ps_GetPage s i r p = Inr (Some pg)" and "r \<noteq> 0"
  obtains pg' s1 created where "ps_AppendExtent s i r p ref = (Inr (ep_PageNo pg', created), s1)"
    and "ps_writePage s pg' (r + 1) = (Inr (), s1)" and "ep_InodeID pg' = i"
    and "created \<longrightarrow> ep_PageNo pg' = p + 1 \<and> ep_Extents pg' = [ref]"
    and "\<not> created \<longrightarrow> ep_PageNo pg' = p \<and> ep_Extents pg' = ep_Extents pg @ [ref]"
proof -
  note hit = resolvePage_hit [OF assms(2,3)] and ids = getPage_fields [OF assms(2)]
  show thesis
  proof (cases "MaxExtentsPerPage \<le> length (ep_Extents pg)")
    case True
    let ?pg = "\<lparr>ep_InodeID = i, ep_PageNo = p + 1, ep_Extents = [ref]\<rparr>"
    obtain s1 where w: "ps_writePage s ?pg (r + 1) = (Inr (), s1)" using writePage_ok [OF assms(1)] by blast
    then have "ps_AppendExtent s i r p ref = (Inr (ep_PageNo ?pg, True), s1)"
      using True hit by (simp add: ps_AppendExtent_def Let_def)
    from that [OF this w] show thesis by simp
  next
    case False
    let ?pg = "pg\<lparr>ep_Extents := ep_Extents pg @ [ref]\<rparr>"
    obtain s1 where w: "ps_writePage s ?pg (r + 1) = (Inr (), s1)" using writePage_ok [OF assms(1)] by blast
    then have "ps_AppendExtent s i r p ref = (Inr (ep_PageNo ?pg, False), s1)"
      using False hit assms(2) by (simp add: ps_AppendExtent_def ps_UpdatePage_def Let_def)
    from that [OF this w] show thesis using ids by simp
  qed
qed

text \<open>How a page set reads after one page was written under the next root.\<close>

lemma resolve_next_root:
  assumes "st_codec t = st_codec s" and "codec_ok (st_codec s)" and "r + 1 \<noteq> 0"
    and "dbGet (st_db t) (extentPageKey i (r + 1) (ep_PageNo pg)) = Some (marshalValue (st_codec s) (RPage pg))"
    and "ep_InodeID pg = i"
    and "\<And>q p. q \<noteq> r + 1 \<or> p \<noteq> ep_PageNo pg \<Longrightarrow>
           dbGet (st_db t) (extentPageKey i q p) = dbGet (st_db s) (extentPageKey i q p)"
    and "\<And>p. dbGet (st_db s) (extentPageKey i (r + 1) p) = None"
  shows "ps_ResolvePage t i (r + 1) p = (if p = ep_PageNo pg then Inr (Some pg) else ps_ResolvePage s i r p)"
proof (cases "p = ep_PageNo pg")
  case True
  have "ps_GetPage t i (r + 1) (ep_PageNo pg) = Inr (Some pg)"
    using getPage_row [of t i "r + 1" "ep_PageNo pg" pg] assms(1,2,4,5) by simp
  then show ?thesis using resolvePage_hit assms(3) True by simp
next
  case False
  have "ps_GetPage t i (r + 1) p = Inr None" using assms(6,7) False by (intro getPage_None) simp
  then have "ps_ResolvePage t i (r + 1) p = ps_ResolvePage t i r p" using assms(3) by (rule resolvePage_older)
  also have "\<dots> = ps_ResolvePage s i r p"
    unfolding ps_ResolvePage_def
    by (rule resolveFrom_cong, rule getPage_cong) (use assms(1,6) False in auto)
  finally show ?thesis using False by simp
qed

lemma append_same_page:
  assumes "\<And>p. ps_ResolvePage t i (r + 1) p = (if p = n - 1 then Inr (Some pg') else ps_ResolvePage s i r p)"
    and "ps_ResolvePage s i r (n - 1) = Inr (Some pg)" and "ep_Extents pg' = ep_Extents pg @ [ref]" and "n \<noteq> 0"
    and "resolvePages s i r (pageNumbers n) = Inr old"
  shows "resolvePages t i (r + 1) (pageNumbers n) = Inr (old @ [ref])"
proof -
  have split: "pageNumbers n = pageNumbers (n - 1) @ [n - 1]" using pageNumbers_succ [of "n - 1"] assms(4) by simp
  have "n - 1 \<notin> set (pageNumbers (n - 1))" by (simp add: pageNumbers_set)
  then have "resolvePages t i (r + 1) (pageNumbers (n - 1)) = resolvePages s i r (pageNumbers (n - 1))"
    by (intro resolvePages_cong) (auto simp: assms(1))
  then show ?thesis
    using assms(1,2,3,5) by (auto simp: split resolvePages_append split: sum.splits)
qed

lemma append_new_page:
  assumes "\<And>p. ps_ResolvePage t i (r + 1) p = (if p = n then Inr (Some pg') else ps_ResolvePage s i r p)"
    and "ep_Extents pg' = [ref]" and "n + 1 \<noteq> 0" and "resolvePages s i r (pageNumbers n) = Inr old"
  shows "resolvePages t i (r + 1) (pageNumbers (n + 1)) = Inr (old @ [ref])"
proof -
  have "resolvePages t i (r + 1) (pageNumbers n) = resolvePages s i r (pageNumbers n)"
    by (intro resolvePages_cong) (auto simp: assms(1) pageNumbers_set)
  then show ?thesis
    using assms by (simp add: pageNumbers_succ resolvePages_append)
qed

lemma appendToPages_resolves:
  assumes "servable s i v" and "pagesOk s i v" and "v_ExtentRoot v + 1 \<noteq> 0" and "v_ExtentPageCount v + 1 \<noteq> 0"
    and "ps_ResolveExtents s v = Inr old"
  shows "\<exists>s' v'. appendToPages s i v ref sz now = (Inr (v_ExtentRoot v + 1), s') \<and> servable s' i v'
     \<and> pagesOk s' i v' \<and> ps_ResolveExtents s' v' = Inr (old @ [ref])"
proof -
  let ?r = "v_ExtentRoot v" and ?n = "v_ExtentPageCount v"
  have writable: "\<not> IsReadOnly (st_deg s)" and codec: "codec_ok (st_codec s)" and vid: "v_ID v = i"
    using assms(1) by (simp_all add: servable_def)
  obtain pg where pg: "ps_GetPage s i ?r (?n - 1) = Inr (Some pg)" and n0: "?n \<noteq> 0" and r0: "?r \<noteq> 0"
    and later: "\<And>r p. ?r < r \<Longrightarrow> dbGet (st_db s) (extentPageKey i r p) = None"
    and layout: "v_Layout v = LayoutExtentPages"
    using assms(2) by (auto simp: pagesOk_def)
  have up: "?r < ?r + 1" by (rule next_greater [OF assms(3)])
  obtain pg' s1 created where ap: "ps_AppendExtent s i ?r (?n - 1) ref = (Inr (ep_PageNo pg', created), s1)"
    and w: "ps_writePage s pg' (?r + 1) = (Inr (), s1)" and pid: "ep_InodeID pg' = i"
    and new: "created \<longrightarrow> ep_PageNo pg' = ?n - 1 + 1 \<and> ep_Extents pg' = [ref]"
    and same: "\<not> created \<longrightarrow> ep_PageNo pg' = ?n - 1 \<and> ep_Extents pg' = ep_Extents pg @ [ref]"
    by (rule append_page [OF writable pg r0, of ref])
  note W = writePage_same [OF w, unfolded pid]
  let ?n' = "if created then ?n + 1 else ?n"
  let ?v = "v\<lparr>v_ExtentPageCount := ?n', v_ExtentRoot := ?r + 1, v_ExtentRootVersion := v_ExtentRootVersion v + 1,
     v_Size := v_Size v + sz, v_MTime := now, v_CTime := now\<rparr>"
  have one: "servable s1 i v" by (rule servable_same [OF assms(1) W(1)]) simp
  obtain s2 where p: "is_putWithBucketStats s1 ?v (v_Size v) = (Inr (), s2)"
    using putStats_ok [of s1 i v ?v "v_Size v"] one by (auto simp: servable_def)
  note P = putStats_same [OF p, simplified, unfolded vid]
  have eqs: "st_codec s1 = st_codec s" "st_codec s2 = st_codec s" "st_closed s2 = st_closed s" "st_deg s2 = st_deg s"
    using W(1) P(1) by (auto simp: sameExcept_def)
  have keep: "dbGet (st_db s2) (extentPageKey i q p) = dbGet (st_db s) (extentPageKey i q p)"
    if "q \<noteq> ?r + 1 \<or> p \<noteq> ep_PageNo pg'" for q p
    using sameExcept_db [OF P(1), of "extentPageKey i q p"] sameExcept_db [OF W(1), of "extentPageKey i q p"] that
    by auto
  have put: "dbGet (st_db s2) (extentPageKey i (?r + 1) (ep_PageNo pg')) = Some (marshalValue (st_codec s) (RPage pg'))"
    using sameExcept_db [OF P(1), of "extentPageKey i (?r + 1) (ep_PageNo pg')"] W(2) by simp
  note res = resolve_next_root [OF eqs(2) codec assms(3) put pid keep later [OF up]]
  have "resolvePages s2 i (?r + 1) (pageNumbers ?n') = Inr (old @ [ref])"
  proof (cases created)
    case True
    then show ?thesis
      using append_new_page [of s2 i ?r ?n pg' s ref old] res new assms(4,5) vid by (simp add: ps_ResolveExtents_def)
  next
    case False
    then show ?thesis
      using append_same_page [of s2 i ?r ?n pg' s pg ref old] res same n0 resolvePage_hit [OF pg r0] assms(5) vid
      by (simp add: ps_ResolveExtents_def)
  qed
  then have out: "ps_ResolveExtents s2 ?v = Inr (old @ [ref])" using vid by (simp add: ps_ResolveExtents_def)
  have get: "is_Get s2 i = Inr (Some ?v)"
    unfolding is_Get_def by (rule storeGet_row [of _ _ "RInodeV2 ?v"]) (use P(2) eqs codec in simp_all)
  have "servable s2 i ?v" using get eqs assms(1) by (simp add: servable_def)
  moreover have "pagesOk s2 i ?v"
  proof -
    have "ps_GetPage s2 i (?r + 1) (ep_PageNo pg') = Inr (Some pg')"
      using getPage_row [of s2 i "?r + 1" "ep_PageNo pg'" pg'] put eqs codec pid by simp
    moreover have "dbGet (st_db s2) (extentPageKey i q p) = None" if "?r + 1 < q" for q p
      using keep [of q p] later [of q p] up that by auto
    moreover have "ep_PageNo pg' = ?n' - 1" using new same by auto
    ultimately show ?thesis using layout n0 assms(3,4) by (simp add: pagesOk_def)
  qed
  moreover have "appendToPages s i v ref sz now = (Inr (?r + 1), s2)"
    using ap p n0 by (simp add: appendToPages_def Let_def)
  ultimately show ?thesis using out by blast
qed

text \<open>
  C31: appending adds the extent behind all others and keeps the page set appendable. For a paged
  inode with at least one page the call returns the next root, the extents then resolve to the
  old ones followed by the new one, whether it went into the last page or into a new one, and the
  conditions for the next append hold again.
\<close>

theorem AppendExtent_resolves:
  assumes "servable s i v" and "pagesOk s i v" and "v_ExtentRoot v + 1 \<noteq> 0" and "v_ExtentPageCount v + 1 \<noteq> 0"
    and "ResolveExtents s i = Inr old"
  shows "\<exists>s' v'. AppendExtent s i (Some x) offset now = (Inr (v_ExtentRoot v + 1), s')
     \<and> ResolveExtents s' i = Inr (old @ [\<lparr>er_ExtentID = x_ID x, er_LogicalOffset = offset\<rparr>])
     \<and> servable s' i v' \<and> pagesOk s' i v'"
proof -
  let ?ref = "\<lparr>er_ExtentID = x_ID x, er_LogicalOffset = offset\<rparr>"
  have sv: "\<not> st_closed s" "is_Get s i = Inr (Some v)" "\<not> IsReadOnly (st_deg s)" using assms(1) by (simp_all add: servable_def)
  have layout: "v_Layout v = LayoutExtentPages" using assms(2) by (simp add: pagesOk_def)
  obtain s1 where m: "putExtentMeta s x = (Inr (), s1)"
    using put_ok [OF sv(3), of "extentMetaKey (x_ID x)" "RExtent x"] by (auto simp: putExtentMeta_def)
  note M = put_same(1) [OF m [unfolded putExtentMeta_def]]
  have one: "servable s1 i v" by (rule servable_same [OF assms(1) M]) simp
  have page: "ps_GetPage s1 i r p = ps_GetPage s i r p" for r p
    by (rule getPage_cong) (use M in \<open>auto simp: sameExcept_def\<close>)
  have "dbGet (st_db s1) (extentPageKey i r p) = dbGet (st_db s) (extentPageKey i r p)" for r p
    using sameExcept_db [OF M, of "extentPageKey i r p"] by simp
  then have ok: "pagesOk s1 i v" using assms(2) page by (simp add: pagesOk_def)
  have "ps_ResolvePage s1 i r p = ps_ResolvePage s i r p" for r p
    unfolding ps_ResolvePage_def by (rule resolveFrom_cong) (rule page)
  then have "ps_ResolveExtents s1 v = ps_ResolveExtents s v"
    using assms(1) unfolding ps_ResolveExtents_def servable_def by (intro resolvePages_cong) simp
  then have old: "ps_ResolveExtents s1 v = Inr old"
    using assms(5) sv layout by (simp add: ResolveExtents_def is_ResolveExtents_def)
  obtain s2 v' where a: "appendToPages s1 i v ?ref (x_LogicalLen x) now = (Inr (v_ExtentRoot v + 1), s2)"
    and s2: "servable s2 i v'" "pagesOk s2 i v'" "ps_ResolveExtents s2 v' = Inr (old @ [?ref])"
    using appendToPages_resolves [OF one ok assms(3,4) old] by blast
  have get1: "is_Get s1 i = Inr (Some v)" using one by (simp add: servable_def)
  have "AppendExtent s i (Some x) offset now = (Inr (v_ExtentRoot v + 1), cacheDel s2 i)"
    using sv(1) m a get1 layout by (simp add: AppendExtent_def is_AppendExtent_def)
  moreover have "ResolveExtents (cacheDel s2 i) i = Inr (old @ [?ref])"
    using s2 resolve_views(1,2) [of "cacheDel s2 i" s2]
    by (simp add: ResolveExtents_def is_ResolveExtents_def servable_def pagesOk_def)
  moreover have "servable (cacheDel s2 i) i v'"
    using s2(1) resolve_views(1) [of "cacheDel s2 i" s2] by (simp add: servable_def cacheDel_def)
  moreover have "pagesOk (cacheDel s2 i) i v'"
    using s2(2) getPage_cong [of "cacheDel s2 i" s2] by (simp add: pagesOk_def)
  ultimately show ?thesis by blast
qed

definition pagedInode :: InodeMetaV2 where
  "pagedInode = (v1AsV2 (newInode 5 FileRegular 420 1 0 0))\<lparr>v_Layout := LayoutExtentPages, v_ExtentRoot := 1,
     v_ExtentPageCount := 1\<rparr>"

definition pagedStore :: "row option store" where
  "pagedStore = freshStore\<lparr>st_db := [(inodeKey 5, Some (RInodeV2 pagedInode)),
     (extentPageKey 5 1 0, Some (RPage \<lparr>ep_InodeID = 5, ep_PageNo = 0,
        ep_Extents = [\<lparr>er_ExtentID = 70, er_LogicalOffset = 0\<rparr>]\<rparr>))]\<rparr>"

lemma pagedInode_simps [simp]:
  "v_ID pagedInode = 5" "v_Layout pagedInode = LayoutExtentPages" "v_ExtentRoot pagedInode = 1" "v_ExtentPageCount pagedInode = 1"
  by (simp_all add: pagedInode_def v1AsV2_def newInode_def)

lemma paged_get: "dbGet (st_db pagedStore) k =
  (if k = inodeKey 5 then Some (Some (RInodeV2 pagedInode))
   else if k = extentPageKey 5 1 0 then Some (Some (RPage \<lparr>ep_InodeID = 5, ep_PageNo = 0,
        ep_Extents = [\<lparr>er_ExtentID = 70, er_LogicalOffset = 0\<rparr>]\<rparr>)) else None)"
  by (simp add: pagedStore_def dbGet_def)

lemma pagedStore_simps [simp]:
  "st_codec pagedStore = plainCodec" "\<not> st_closed pagedStore" "st_deg pagedStore = NewDegradationManager"
  by (simp_all add: pagedStore_def)

lemma paged_servable: "servable pagedStore 5 pagedInode"
  by (simp add: servable_def is_Get_def storeGet_def getValue_def paged_get)

lemma paged_page: "ps_GetPage pagedStore 5 1 0 = Inr (Some \<lparr>ep_InodeID = 5, ep_PageNo = 0,
    ep_Extents = [\<lparr>er_ExtentID = 70, er_LogicalOffset = 0\<rparr>]\<rparr>)"
  by (simp add: ps_GetPage_def storeGet_def getValue_def paged_get)

lemma paged_ok: "pagesOk pagedStore 5 pagedInode"
  by (auto simp: pagesOk_def paged_page paged_get)

lemma paged_resolves: "ResolveExtents pagedStore 5 = Inr [\<lparr>er_ExtentID = 70, er_LogicalOffset = 0\<rparr>]"
proof -
  have "ps_ResolvePage pagedStore 5 1 0 = Inr (Some \<lparr>ep_InodeID = 5, ep_PageNo = 0,
      ep_Extents = [\<lparr>er_ExtentID = 70, er_LogicalOffset = 0\<rparr>]\<rparr>)"
    by (rule resolvePage_hit [OF paged_page]) simp
  then show ?thesis
    using paged_servable
    by (simp add: servable_def ResolveExtents_def is_ResolveExtents_def ps_ResolveExtents_def pageNumbers_def)
qed

theorem AppendExtent_resolves_witness:
  "\<exists>s' v'. AppendExtent pagedStore 5 (Some (sampleExtent 71 4)) 10 9 = (Inr 2, s')
     \<and> ResolveExtents s' 5 = Inr [\<lparr>er_ExtentID = 70, er_LogicalOffset = 0\<rparr>, \<lparr>er_ExtentID = 71, er_LogicalOffset = 10\<rparr>]
     \<and> servable s' 5 v' \<and> pagesOk s' 5 v'"
  using AppendExtent_resolves [OF paged_servable paged_ok _ _ paged_resolves, of "sampleExtent 71 4" 10 9]
  by (simp add: sampleExtent_def extentForRef_def)

text \<open>
  The condition of at least one page is needed. Overwriting a file with nothing leaves a paged
  inode without pages; an extent appended to it goes to page 0, but the page count stays zero, so
  the call succeeds and the extent never resolves.
\<close>

lemma append_without_pages_is_lost:
  assumes "servable s i v" and "v_Layout v = LayoutExtentPages" and "v_ExtentPageCount v = 0"
    and "ps_ResolvePage s i (v_ExtentRoot v) 0 = Inr None" and "ps_GetPage s i (v_ExtentRoot v) 0 = Inr None"
  shows "\<exists>s'. is_AppendExtent s i ref sz now = (Inr (v_ExtentRoot v + 1), s') \<and> is_ResolveExtents s' i = Inr []"
proof -
  let ?pg = "\<lparr>ep_InodeID = i, ep_PageNo = 0, ep_Extents = [ref]\<rparr>"
  have sv: "is_Get s i = Inr (Some v)" "\<not> IsReadOnly (st_deg s)" "v_ID v = i" "codec_ok (st_codec s)"
    using assms(1) by (simp_all add: servable_def)
  obtain s1 where w: "ps_writePage s ?pg (v_ExtentRoot v + 1) = (Inr (), s1)" using writePage_ok [OF sv(2)] by blast
  have ap: "ps_AppendExtent s i (v_ExtentRoot v) 0 ref = (Inr (0, False), s1)"
    using assms(4,5) w by (simp add: ps_AppendExtent_def ps_UpdatePage_def Let_def)
  let ?v = "v\<lparr>v_ExtentPageCount := 0, v_ExtentRoot := v_ExtentRoot v + 1,
     v_ExtentRootVersion := v_ExtentRootVersion v + 1, v_Size := v_Size v + sz, v_MTime := now, v_CTime := now\<rparr>"
  have one: "servable s1 i v" by (rule servable_same [OF assms(1) writePage_same(1) [OF w]]) simp
  obtain s2 where p: "is_putWithBucketStats s1 ?v (v_Size v) = (Inr (), s2)"
    using putStats_ok [of s1 i v ?v "v_Size v"] one by (auto simp: servable_def)
  note P = putStats_same [OF p, simplified, unfolded sv(3)]
  have "is_Get s2 i = Inr (Some ?v)"
    unfolding is_Get_def
    by (rule storeGet_row [of _ _ "RInodeV2 ?v"])
      (use P writePage_same(1) [OF w] sv(4) in \<open>simp_all add: sameExcept_def\<close>)
  then have "is_ResolveExtents s2 i = Inr []"
    using assms(2) by (simp add: is_ResolveExtents_def ps_ResolveExtents_def pageNumbers_def)
  moreover have "is_AppendExtent s i ref sz now = (Inr (v_ExtentRoot v + 1), s2)"
    using sv(1) assms(2,3) ap p by (simp add: is_AppendExtent_def appendToPages_def Let_def)
  ultimately show ?thesis by blast
qed

end
