(* ===== verification/Backup_Catalog.thy ===== *)
theory Backup_Catalog
  imports Meta_Store
begin

text \<open>
  The backup metadata of the store (\<open>backup_catalog.go\<close>): tasks, the committed catalog, the cluster
  identity and the restore marker. Every mutation reads the current row, validates, and commits a
  conditional batch whose precondition is the raw value it read. Calls run concurrently, so an
  operation takes the database \<open>rd\<close> its read observed beside the store \<open>s\<close> in which it commits;
  after a conflict it reads the store again. Without raft a term-fenced mutation is refused.
  Contexts, metrics and the raft path are left out.
\<close>

section \<open>The newest tasks\<close>

definition maxBackupTaskListLimit :: int where "maxBackupTaskListLimit = 1000"

definition backupTaskNewer :: "BackupTask \<Rightarrow> BackupTask \<Rightarrow> bool" where
  "backupTaskNewer a b \<longleftrightarrow>
     (if bt_StartedAt a = bt_StartedAt b then bt_ID a < bt_ID b else bt_StartedAt b < bt_StartedAt a)"

text \<open>
  \<open>container/heap\<close> keeps a minimal element in front: here an oldest task. The heap is the list of
  its tasks from the newest to the oldest, so that its front is the last element; \<open>heap.Push\<close> inserts
  and \<open>heap.Pop\<close> removes that last element.
\<close>

record backupTaskTopK =
  tk_limit :: int
  tk_tasks :: "BackupTask list"

fun heapPush :: "BackupTask \<Rightarrow> BackupTask list \<Rightarrow> BackupTask list" where
  "heapPush t [] = [t]"
| "heapPush t (u # us) = (if backupTaskNewer u t then u # heapPush t us else t # u # us)"

definition heapPop :: "BackupTask list \<Rightarrow> BackupTask list" where
  "heapPop ts = butlast ts"

definition newBackupTaskTopK :: "int \<Rightarrow> backupTaskTopK" where
  "newBackupTaskTopK limit = \<lparr>tk_limit = limit, tk_tasks = []\<rparr>"

definition topKAdd :: "backupTaskTopK \<Rightarrow> BackupTask \<Rightarrow> backupTaskTopK" where
  "topKAdd tk task =
     (if tk_limit tk \<le> 0 then tk
      else if int (length (tk_tasks tk)) < tk_limit tk
      then tk\<lparr>tk_tasks := heapPush task (tk_tasks tk)\<rparr>
      else if backupTaskNewer task (last (tk_tasks tk))
      then tk\<lparr>tk_tasks := heapPush task (heapPop (tk_tasks tk))\<rparr>
      else tk)"

definition topKSorted :: "backupTaskTopK \<Rightarrow> BackupTask list" where
  "topKSorted tk = sort_key (\<lambda>t. (- bt_StartedAt t, bt_ID t)) (tk_tasks tk)"

section \<open>Guards and commits\<close>

definition checkBackupMetadataCall :: "'v store \<Rightarrow> unit result" where
  "checkBackupMetadataCall s = (if st_closed s then Inl ErrServiceClosed else Inr ())"

definition checkBackupMetadataMutation :: "'v store \<Rightarrow> unit result" where
  "checkBackupMetadataMutation s = checkBackupMetadataCall s"

definition backupConditionalBatchVersion :: "u64 \<Rightarrow> u8" where
  "backupConditionalBatchVersion expectedRaftTerm =
     (if expectedRaftTerm \<noteq> 0 then conditionalBatchTermFencedVersion else conditionalBatchVersion)"

definition applyBackupMetadataConditional :: "'v store \<Rightarrow> 'v ConditionalBatch \<Rightarrow> unit result \<times> 'v store" where
  "applyBackupMetadataConditional s b =
     (case checkBackupMetadataCall s of
        Inl e \<Rightarrow> (Inl e, s)
      | Inr _ \<Rightarrow>
          if IsReadOnly (st_deg s) then (Inl ErrServiceClosed, s)
          else if cd_ExpectedRaftTerm b \<noteq> 0
          then (fail ''term-fenced mutation requires Raft'', s)
          else (case applyConditionalBatch (st_codec s) (st_db s) b of
                  Inl e \<Rightarrow> (Inl (if e = ErrRaftConditionalConflict then ErrBackupMetadataConflict else e), s)
                | Inr d \<Rightarrow> (Inr (), s\<lparr>st_db := d\<rparr>)))"

text \<open>The precondition on the raw value that was read.\<close>

definition observedPre :: "'v codec \<Rightarrow> string \<Rightarrow> 'v option \<Rightarrow> 'v ConditionalPrecondition" where
  "observedPre c key raw = (case raw of Some v \<Rightarrow> expectValue key v | None \<Rightarrow> expectAbsent c key)"

section \<open>Tasks\<close>

text \<open>
  The checks of \<open>putBackupTask\<close> against the row that was read: either the call already is done
  (\<open>True\<close>), or it goes on to write.
\<close>

definition admitTask :: "'v codec \<Rightarrow> BackupTask \<Rightarrow> 'v option \<Rightarrow> bool result" where
  "admitTask c candidate found =
     (case found of
        None \<Rightarrow> if bt_State candidate \<noteq> BackupTaskCreating then fail ''initial state must be creating''
                else Inr False
      | Some raw \<Rightarrow>
          (case storedTask c raw of
             Inl e \<Rightarrow> Inl e
           | Inr existing \<Rightarrow>
               if bt_ID existing \<noteq> bt_ID candidate then fail ''durable key identity mismatch''
               else if isTerminalBackupTaskState (bt_State existing)
               then (if terminalBackupTasksEqual existing candidate then Inr True
                     else fail ''terminal record is immutable'')
               else if \<not> validateBackupTaskUpdate existing candidate then fail ''backup task update''
               else Inr False))"

definition reconcileTask :: "'v store \<Rightarrow> string \<Rightarrow> BackupTask \<Rightarrow> unit result" where
  "reconcileTask s key candidate =
     (case dbGet (st_db s) key of
        None \<Rightarrow> Inl ErrBackupMetadataConflict
      | Some raw \<Rightarrow>
          (case storedTask (st_codec s) raw of
             Inl e \<Rightarrow> Inl e
           | Inr latest \<Rightarrow>
               if isTerminalBackupTaskState (bt_State latest) \<and> terminalBackupTasksEqual latest candidate
               then Inr () else Inl ErrBackupMetadataConflict))"

definition putBackupTask :: "'v db \<Rightarrow> 'v store \<Rightarrow> BackupTask \<Rightarrow> u64 \<Rightarrow> unit result \<times> 'v store" where
  "putBackupTask rd s task expectedRaftTerm =
     (case checkBackupMetadataMutation s of
        Inl e \<Rightarrow> (Inl e, s)
      | Inr _ \<Rightarrow>
     (case normalizeBackupTask task of
        Inl e \<Rightarrow> (Inl e, s)
      | Inr candidate \<Rightarrow>
          let key = prefixBackupTask @ bt_ID candidate; found = dbGet rd key
          in case admitTask (st_codec s) candidate found of
               Inl e \<Rightarrow> (Inl e, s)
             | Inr True \<Rightarrow> (Inr (), s)
             | Inr False \<Rightarrow>
                 (case applyBackupMetadataConditional s
                         \<lparr>cd_Version = backupConditionalBatchVersion expectedRaftTerm,
                          cd_ExpectedRaftTerm = expectedRaftTerm,
                          cd_Preconditions = [observedPre (st_codec s) key found],
                          cd_Mutations = [putRow s key (RTask candidate)], cd_PrefixReplacements = []\<rparr> of
                    (Inr _, s') \<Rightarrow> (Inr (), s')
                  | (Inl e, s') \<Rightarrow>
                      if e \<noteq> ErrBackupMetadataConflict then (Inl e, s')
                      else (reconcileTask s' key candidate, s'))))"

definition PutBackupTask :: "'v db \<Rightarrow> 'v store \<Rightarrow> BackupTask \<Rightarrow> unit result \<times> 'v store" where
  "PutBackupTask rd s task = putBackupTask rd s task 0"

definition putBackupTaskAtTerm :: "'v db \<Rightarrow> 'v store \<Rightarrow> BackupTask \<Rightarrow> u64 \<Rightarrow> unit result \<times> 'v store" where
  "putBackupTaskAtTerm rd s task expectedRaftTerm =
     (if expectedRaftTerm = 0 then (fail ''expected Raft term is required'', s)
      else putBackupTask rd s task expectedRaftTerm)"

definition GetBackupTask :: "'v store \<Rightarrow> string \<Rightarrow> BackupTask option result" where
  "GetBackupTask s i =
     (case checkBackupMetadataCall s of
        Inl e \<Rightarrow> Inl e
      | Inr _ \<Rightarrow>
          if \<not> validateCatalogBackupID i then fail ''backup ID''
          else case dbGet (st_db s) (prefixBackupTask @ i) of
                 None \<Rightarrow> Inr None
               | Some raw \<Rightarrow>
                   (case storedTask (st_codec s) raw of
                      Inl e \<Rightarrow> Inl e
                    | Inr task \<Rightarrow> if bt_ID task \<noteq> i then fail ''durable identity mismatch''
                                  else Inr (Some task)))"

text \<open>One row of a task scan.\<close>

definition scannedTask :: "'v codec \<Rightarrow> string \<times> 'v \<Rightarrow> BackupTask result" where
  "scannedTask c kv =
     (case storedTask c (snd kv) of
        Inl e \<Rightarrow> Inl e
      | Inr task \<Rightarrow> if fst kv \<noteq> prefixBackupTask @ bt_ID task then fail ''mismatched ID'' else Inr task)"

fun listTaskRows :: "'v codec \<Rightarrow> backupTaskTopK \<Rightarrow> (string \<times> 'v) list \<Rightarrow> backupTaskTopK result" where
  "listTaskRows c tk [] = Inr tk"
| "listTaskRows c tk (kv # kvs) =
     (case scannedTask c kv of
        Inl e \<Rightarrow> Inl e
      | Inr task \<Rightarrow> listTaskRows c (topKAdd tk task) kvs)"

definition ListBackupTasks :: "'v store \<Rightarrow> int \<Rightarrow> BackupTask list result" where
  "ListBackupTasks s limit =
     (case checkBackupMetadataCall s of
        Inl e \<Rightarrow> Inl e
      | Inr _ \<Rightarrow>
          if limit \<le> 0 \<or> maxBackupTaskListLimit < limit then fail ''limit''
          else map_sum id topKSorted
                 (listTaskRows (st_codec s) (newBackupTaskTopK limit) (scanPrefix (st_db s) prefixBackupTask)))"

text \<open>The visitor of the active tasks is a state transformer that may fail.\<close>

fun visitActiveRows ::
  "'v codec \<Rightarrow> (BackupTask \<Rightarrow> 'a \<Rightarrow> Error + 'a) \<Rightarrow> 'a \<Rightarrow> (string \<times> 'v) list \<Rightarrow> Error + 'a" where
  "visitActiveRows c visit a [] = Inr a"
| "visitActiveRows c visit a (kv # kvs) =
     (case scannedTask c kv of
        Inl e \<Rightarrow> Inl e
      | Inr task \<Rightarrow>
          if isTerminalBackupTaskState (bt_State task) then visitActiveRows c visit a kvs
          else (case visit task a of
                  Inl e \<Rightarrow> Inl e
                | Inr a' \<Rightarrow> visitActiveRows c visit a' kvs))"

definition ScanActiveBackupTasks ::
  "'v store \<Rightarrow> (BackupTask \<Rightarrow> 'a \<Rightarrow> Error + 'a) option \<Rightarrow> 'a \<Rightarrow> Error + 'a" where
  "ScanActiveBackupTasks s visit a =
     (case checkBackupMetadataCall s of
        Inl e \<Rightarrow> Inl e
      | Inr _ \<Rightarrow>
          (case visit of
             None \<Rightarrow> Inl (ErrMessage ''active-task visitor is required'')
           | Some f \<Rightarrow> visitActiveRows (st_codec s) f a (scanPrefix (st_db s) prefixBackupTask)))"

section \<open>The committed catalog\<close>

definition catalogEntry :: "'v store \<Rightarrow> CommittedBackup \<Rightarrow> 'v BatchOp" where
  "catalogEntry s entry = putRow s (prefixBackupCatalog @ cb_ID entry) (RBackup entry)"

definition replaceCommittedBackupCatalog ::
  "'v store \<Rightarrow> CommittedBackup list \<Rightarrow> time \<Rightarrow> u64 \<Rightarrow> unit result \<times> 'v store" where
  "replaceCommittedBackupCatalog s backups reconciledAt expectedRaftTerm =
     (case checkBackupMetadataMutation s of
        Inl e \<Rightarrow> (Inl e, s)
      | Inr _ \<Rightarrow>
     (case normalizeBackupCatalog backups reconciledAt of
        Inl e \<Rightarrow> (Inl e, s)
      | Inr state \<Rightarrow>
          applyBackupMetadataConditional s
            \<lparr>cd_Version = backupConditionalBatchVersion expectedRaftTerm,
             cd_ExpectedRaftTerm = expectedRaftTerm, cd_Preconditions = [],
             cd_Mutations = [putRow s keyBackupCatalog (RCatalog state)],
             cd_PrefixReplacements = [\<lparr>pr_Prefix = prefixBackupCatalog,
                                       pr_Sets = map (catalogEntry s) (bc_Backups state)\<rparr>]\<rparr>))"

definition ReplaceCommittedBackupCatalog ::
  "'v store \<Rightarrow> CommittedBackup list \<Rightarrow> time \<Rightarrow> unit result \<times> 'v store" where
  "ReplaceCommittedBackupCatalog s backups reconciledAt = replaceCommittedBackupCatalog s backups reconciledAt 0"

definition replaceCommittedBackupCatalogAtTerm ::
  "'v store \<Rightarrow> CommittedBackup list \<Rightarrow> time \<Rightarrow> u64 \<Rightarrow> unit result \<times> 'v store" where
  "replaceCommittedBackupCatalogAtTerm s backups reconciledAt expectedRaftTerm =
     (if expectedRaftTerm = 0 then (fail ''expected Raft term is required'', s)
      else replaceCommittedBackupCatalog s backups reconciledAt expectedRaftTerm)"

fun indexEntries ::
  "'v codec \<Rightarrow> (string \<times> CommittedBackup) list \<Rightarrow> (string \<times> 'v) list \<Rightarrow> (string \<times> CommittedBackup) list result" where
  "indexEntries c indexed [] = Inr indexed"
| "indexEntries c indexed (kv # kvs) =
     (case Option.bind (unmarshalValue c (snd kv)) asBackup of
        None \<Rightarrow> fail ''decode''
      | Some entry \<Rightarrow>
          (case normalizeCommittedBackup entry of
             Inl e \<Rightarrow> Inl e
           | Inr canonical \<Rightarrow>
               if fst kv \<noteq> prefixBackupCatalog @ cb_ID canonical then fail ''mismatched ID''
               else if map_of indexed (cb_ID canonical) \<noteq> None then fail ''duplicate durable entry''
               else indexEntries c ((cb_ID canonical, canonical) # indexed) kvs))"

definition GetBackupCatalogState :: "'v store \<Rightarrow> BackupCatalogState option result" where
  "GetBackupCatalogState s =
     (case checkBackupMetadataCall s of
        Inl e \<Rightarrow> Inl e
      | Inr _ \<Rightarrow>
     (case storeGet asCatalog s keyBackupCatalog of
        Inl e \<Rightarrow> Inl e
      | Inr None \<Rightarrow> Inr None
      | Inr (Some state) \<Rightarrow>
     (case normalizeBackupCatalog (bc_Backups state) (bc_ReconciledAt state) of
        Inl e \<Rightarrow> Inl e
      | Inr normalized \<Rightarrow>
          if bc_Backups state \<noteq> bc_Backups normalized \<or> bc_ReconciledAt state \<noteq> bc_ReconciledAt normalized
          then fail ''durable state is not canonical''
          else (case indexEntries (st_codec s) [] (scanPrefix (st_db s) prefixBackupCatalog) of
                  Inl e \<Rightarrow> Inl e
                | Inr indexed \<Rightarrow>
                    if length indexed \<noteq> length (bc_Backups normalized) then fail ''entry count mismatch''
                    else if list_all (\<lambda>x. map_of indexed (cb_ID x) = Some x) (bc_Backups normalized)
                    then Inr (Some normalized)
                    else fail ''state/index mismatch''))))"

section \<open>The cluster identity\<close>

definition reconcileClusterID :: "'v codec \<Rightarrow> 'v \<Rightarrow> string \<Rightarrow> string result" where
  "reconcileClusterID c raw requested =
     (case Option.bind (unmarshalValue c raw) asText of
        None \<Rightarrow> fail ''decode durable identity''
      | Some existing \<Rightarrow>
          if \<not> validateOpaqueID existing then fail ''malformed durable identity''
          else if requested = [] \<or> requested = existing then Inr existing
          else if \<not> validateOpaqueID requested then fail ''requested cluster ID''
          else Inl ErrBackupMetadataConflict)"

definition hexDigit :: "nat \<Rightarrow> char" where
  "hexDigit n = (if n < 10 then char_of (48 + n) else char_of (87 + n))"

definition hexByte :: "u8 \<Rightarrow> string" where
  "hexByte b = [hexDigit (unat b div 16), hexDigit (unat b mod 16)]"

text \<open>\<open>random\<close> is what \<open>rand.Read\<close> delivers: 16 bytes, or nothing when it fails.\<close>

definition generateClusterID :: "u8 list option \<Rightarrow> string result" where
  "generateClusterID random =
     (case random of
        None \<Rightarrow> fail ''generate random identity''
      | Some r \<Rightarrow>
          let raw = r[6 := or (and (r ! 6) 0x0F) 0x40, 8 := or (and (r ! 8) 0x3F) 0x80];
              encoded = concat (map hexByte raw)
          in Inr (take 8 encoded @ ''-'' @ take 4 (drop 8 encoded) @ ''-'' @ take 4 (drop 12 encoded) @ ''-''
                  @ take 4 (drop 16 encoded) @ ''-'' @ take 12 (drop 20 encoded)))"

definition EnsureClusterID ::
  "'v db \<Rightarrow> 'v store \<Rightarrow> string \<Rightarrow> u8 list option \<Rightarrow> string result \<times> 'v store" where
  "EnsureClusterID rd s requested random =
     (case checkBackupMetadataMutation s of
        Inl e \<Rightarrow> (Inl e, s)
      | Inr _ \<Rightarrow>
     (case dbGet rd keyClusterID of
        Some raw \<Rightarrow> (reconcileClusterID (st_codec s) raw requested, s)
      | None \<Rightarrow>
     (case (if requested = [] then generateClusterID random else Inr requested) of
        Inl e \<Rightarrow> (Inl e, s)
      | Inr i \<Rightarrow>
          if \<not> validateOpaqueID i then (fail ''cluster ID'', s)
          else (case applyBackupMetadataConditional s
                       \<lparr>cd_Version = conditionalBatchVersion, cd_ExpectedRaftTerm = 0,
                        cd_Preconditions = [expectAbsent (st_codec s) keyClusterID],
                        cd_Mutations = [putRow s keyClusterID (RText i)], cd_PrefixReplacements = []\<rparr> of
                  (Inr _, s') \<Rightarrow> (Inr i, s')
                | (Inl e, s') \<Rightarrow>
                    if e \<noteq> ErrBackupMetadataConflict then (Inl e, s')
                    else (case dbGet (st_db s') keyClusterID of
                            None \<Rightarrow> (Inl ErrBackupMetadataConflict, s')
                          | Some latest \<Rightarrow> (reconcileClusterID (st_codec s') latest requested, s'))))))"

section \<open>The restore marker\<close>

definition normalizeRestorePendingMarker :: "RestorePendingMarker \<Rightarrow> RestorePendingMarker result" where
  "normalizeRestorePendingMarker m =
     (if \<not> validateCatalogBackupID (rp_BackupID m) then fail ''backup ID''
      else if \<not> validateOpaqueID (rp_SourceClusterID m) then fail ''restore source cluster ID''
      else if rp_AppliedIndex m = 0 then fail ''applied index must be non-zero''
      else if rp_RestoredAt m = zeroTime then fail ''restore time is required''
      else Inr m)"

definition storedMarker :: "'v codec \<Rightarrow> 'v \<Rightarrow> RestorePendingMarker result" where
  "storedMarker c raw =
     (case Option.bind (unmarshalValue c raw) asMarker of
        None \<Rightarrow> fail ''decode''
      | Some m \<Rightarrow> normalizeRestorePendingMarker m)"

definition PutRestorePendingMarker ::
  "'v db \<Rightarrow> 'v store \<Rightarrow> RestorePendingMarker \<Rightarrow> unit result \<times> 'v store" where
  "PutRestorePendingMarker rd s marker =
     (case checkBackupMetadataMutation s of
        Inl e \<Rightarrow> (Inl e, s)
      | Inr _ \<Rightarrow>
     (case normalizeRestorePendingMarker marker of
        Inl e \<Rightarrow> (Inl e, s)
      | Inr candidate \<Rightarrow>
     (case dbGet rd keyRestorePending of
        Some raw \<Rightarrow>
          (case storedMarker (st_codec s) raw of
             Inl e \<Rightarrow> (Inl e, s)
           | Inr canonical \<Rightarrow>
               (if canonical = candidate then Inr () else Inl ErrBackupMetadataConflict, s))
      | None \<Rightarrow>
          (case applyBackupMetadataConditional s
                  \<lparr>cd_Version = conditionalBatchVersion, cd_ExpectedRaftTerm = 0,
                   cd_Preconditions = [expectAbsent (st_codec s) keyRestorePending],
                   cd_Mutations = [putRow s keyRestorePending (RMarker candidate)], cd_PrefixReplacements = []\<rparr> of
             (Inr _, s') \<Rightarrow> (Inr (), s')
           | (Inl e, s') \<Rightarrow>
               if e \<noteq> ErrBackupMetadataConflict then (Inl e, s')
               else (case dbGet (st_db s') keyRestorePending of
                       None \<Rightarrow> (Inl ErrBackupMetadataConflict, s')
                     | Some latest \<Rightarrow>
                         (case storedMarker (st_codec s') latest of
                            Inl e' \<Rightarrow> (Inl e', s')
                          | Inr canonical \<Rightarrow>
                              (if canonical = candidate then Inr () else Inl ErrBackupMetadataConflict, s')))))))"

definition GetRestorePendingMarker :: "'v store \<Rightarrow> RestorePendingMarker option result" where
  "GetRestorePendingMarker s =
     (case checkBackupMetadataCall s of
        Inl e \<Rightarrow> Inl e
      | Inr _ \<Rightarrow>
          (case storeGet asMarker s keyRestorePending of
             Inl e \<Rightarrow> Inl e
           | Inr None \<Rightarrow> Inr None
           | Inr (Some m) \<Rightarrow> map_sum id Some (normalizeRestorePendingMarker m)))"

definition ClearRestorePendingMarker :: "'v db \<Rightarrow> 'v store \<Rightarrow> unit result \<times> 'v store" where
  "ClearRestorePendingMarker rd s =
     (case checkBackupMetadataMutation s of
        Inl e \<Rightarrow> (Inl e, s)
      | Inr _ \<Rightarrow>
     (case dbGet rd keyRestorePending of
        None \<Rightarrow> (Inr (), s)
      | Some raw \<Rightarrow>
          (case storedMarker (st_codec s) raw of
             Inl e \<Rightarrow> (Inl e, s)
           | Inr _ \<Rightarrow>
               (case applyBackupMetadataConditional s
                       \<lparr>cd_Version = conditionalBatchVersion, cd_ExpectedRaftTerm = 0,
                        cd_Preconditions = [expectValue keyRestorePending raw],
                        cd_Mutations = [dropRow s keyRestorePending], cd_PrefixReplacements = []\<rparr> of
                  (Inr _, s') \<Rightarrow> (Inr (), s')
                | (Inl e, s') \<Rightarrow>
                    if e \<noteq> ErrBackupMetadataConflict then (Inl e, s')
                    else (case dbGet (st_db s') keyRestorePending of
                            None \<Rightarrow> (Inr (), s')
                          | Some _ \<Rightarrow> (Inl ErrBackupMetadataConflict, s'))))))"

end
