(* ===== verification/Backup_Props.thy ===== *)
theory Backup_Props
  imports Backup_Catalog Namespace_Sample
begin

text \<open>
  What the backup metadata promises under concurrent calls. A run is a sequence of commits; every
  call may have read any database of the run so far, which covers all interleavings of calls that
  read, validate and then commit. The conditional batches make the histories of tasks, of the
  cluster identity and of the catalog independent of these interleavings.
\<close>

section \<open>Runs of concurrent calls\<close>

datatype backupCall =
    PutTask BackupTask
  | ReplaceCatalog "CommittedBackup list" time
  | EnsureCluster string "u8 list option"
  | PutMarker RestorePendingMarker
  | ClearMarker

fun performCall :: "'v db \<Rightarrow> 'v store \<Rightarrow> backupCall \<Rightarrow> string option result \<times> 'v store" where
  "performCall rd s (PutTask t) = map_prod (map_sum id (\<lambda>_. None)) id (PutBackupTask rd s t)"
| "performCall rd s (ReplaceCatalog bs tm) = map_prod (map_sum id (\<lambda>_. None)) id (ReplaceCommittedBackupCatalog s bs tm)"
| "performCall rd s (EnsureCluster req rnd) = map_prod (map_sum id Some) id (EnsureClusterID rd s req rnd)"
| "performCall rd s (PutMarker m) = map_prod (map_sum id (\<lambda>_. None)) id (PutRestorePendingMarker rd s m)"
| "performCall rd s ClearMarker = map_prod (map_sum id (\<lambda>_. None)) id (ClearRestorePendingMarker rd s)"

definition returnedID :: "string option result \<Rightarrow> string list" where
  "returnedID r = (case r of Inr (Some i) \<Rightarrow> [i] | _ \<Rightarrow> [])"

text \<open>
  \<open>backupRun s0 H ids cs s\<close>: from \<open>s0\<close> the calls \<open>cs\<close> led to \<open>s\<close>; \<open>H\<close> are the databases on the way and
  \<open>ids\<close> the cluster identities returned, all newest first.
\<close>

inductive backupRun :: "'v store \<Rightarrow> 'v db list \<Rightarrow> string list \<Rightarrow> backupCall list \<Rightarrow> 'v store \<Rightarrow> bool" for s0 where
  start: "backupRun s0 [st_db s0] [] [] s0"
| call: "backupRun s0 H ids cs s \<Longrightarrow> rd \<in> set H \<Longrightarrow> performCall rd s cl = (r, s') \<Longrightarrow>
    backupRun s0 (st_db s' # H) (returnedID r @ ids) (cl # cs) s'"

section \<open>What a commit changes\<close>

definition footprint :: "backupCall \<Rightarrow> string set" where
  "footprint cl =
     (case cl of
        PutTask t \<Rightarrow> {prefixBackupTask @ bt_ID t}
      | ReplaceCatalog _ _ \<Rightarrow> insert keyBackupCatalog {k. prefix prefixBackupCatalog k}
      | EnsureCluster _ _ \<Rightarrow> {keyClusterID}
      | _ \<Rightarrow> {keyRestorePending})"

text \<open>A store that differs from another in its database only.\<close>

definition movedTo :: "'v store \<Rightarrow> 'v store \<Rightarrow> bool" where
  "movedTo s s' \<longleftrightarrow> wf_db (st_db s') \<and> s'\<lparr>st_db := st_db s\<rparr> = s"

lemma movedTo_refl [simp]: "wf_db (st_db s) \<Longrightarrow> movedTo s s"
  by (simp add: movedTo_def)

lemma movedTo_set: "wf_db d \<Longrightarrow> movedTo s (s\<lparr>st_db := d\<rparr>)"
  by (simp add: movedTo_def)

lemma movedTo_fields:
  assumes "movedTo s s'"
  shows "wf_db (st_db s')" "st_codec s' = st_codec s" "st_closed s' = st_closed s" "st_deg s' = st_deg s"
proof -
  have eq: "s'\<lparr>st_db := st_db s\<rparr> = s" and "wf_db (st_db s')" using assms by (simp_all add: movedTo_def)
  then show "wf_db (st_db s')" by simp
  show "st_codec s' = st_codec s" by (subst eq [symmetric]) simp
  show "st_closed s' = st_closed s" by (subst eq [symmetric]) simp
  show "st_deg s' = st_deg s" by (subst eq [symmetric]) simp
qed

lemma applyBackupMetadataConditional_cases:
  assumes "wf_db (st_db s)" and "applyBackupMetadataConditional s b = (r, s')"
  obtains (refused) e where "r = Inl e" "s' = s"
    | (done') "r = Inr ()" "movedTo s s'" "\<not> st_closed s"
      "dbGet (st_db s') = batchSpec b (st_db s)" "list_all (preHolds (st_db s)) (cd_Preconditions b)"
proof (cases r)
  case (Inl e)
  then have "s' = s" using assms(2)
    by (auto simp: applyBackupMetadataConditional_def split: sum.splits if_splits)
  with Inl refused show thesis by blast
next
  case (Inr u)
  then obtain d where d: "applyConditionalBatch (st_codec s) (st_db s) b = Inr d" and s': "s' = s\<lparr>st_db := d\<rparr>"
    and closed: "\<not> st_closed s"
    using assms(2) by (auto simp: applyBackupMetadataConditional_def checkBackupMetadataCall_def
        fail_def split: sum.splits if_splits)
  note ap = applyConditionalBatch_Inr [OF assms(1) d]
  have "dbGet (st_db s') = batchSpec b (st_db s)" using ap(1) s' by (simp add: fun_eq_iff)
  moreover have "movedTo s s'" using ap(2) s' by (simp add: movedTo_set)
  ultimately show thesis using done' ap(3) Inr closed by (auto simp: list_all_iff)
qed

lemma preHolds_observed: "preHolds d (observedPre c key raw) \<longleftrightarrow> dbGet d key = raw"
  by (auto simp: preHolds_def observedPre_def split: option.splits)

lemma preHolds_absent: "preHolds d (expectAbsent c key) \<longleftrightarrow> dbGet d key = None"
  by (simp add: preHolds_def split: option.splits)

lemma preHolds_value: "preHolds d (expectValue key v) \<longleftrightarrow> dbGet d key = Some v"
  by (simp add: preHolds_def split: option.splits)

lemma batchSpec_put:
  "batchSpec \<lparr>cd_Version = v, cd_ExpectedRaftTerm = t, cd_Preconditions = ps,
     cd_Mutations = [putRow s key x], cd_PrefixReplacements = []\<rparr> d = (dbGet d)(key \<mapsto> marshalValue (st_codec s) x)"
  by (auto simp: batchSpec_def putRow_def opEffect_def fun_eq_iff)

lemma batchSpec_drop:
  "batchSpec \<lparr>cd_Version = v, cd_ExpectedRaftTerm = t, cd_Preconditions = ps,
     cd_Mutations = [dropRow s key], cd_PrefixReplacements = []\<rparr> d = (dbGet d)(key := None)"
  by (auto simp: batchSpec_def dropRow_def opEffect_def fun_eq_iff)

lemma normalizeBackupTask_ID: "normalizeBackupTask t = Inr u \<Longrightarrow> bt_ID u = bt_ID t"
  by (auto simp: normalizeBackupTask_def fail_def Let_def split: if_splits)

lemma putBackupTask_effect:
  assumes wf: "wf_db (st_db s)" and call: "PutBackupTask rd s t = (r, s')"
  obtains (same) "s' = s"
    | (wrote) u where "r = Inr ()" "movedTo s s'" "bt_ID u = bt_ID t"
      "admitTask (st_codec s) u (dbGet (st_db s) (prefixBackupTask @ bt_ID t)) = Inr False"
      "dbGet (st_db s') = (dbGet (st_db s))(prefixBackupTask @ bt_ID t \<mapsto> marshalValue (st_codec s) (RTask u))"
proof (cases "s' = s")
  case False
  obtain u where u: "normalizeBackupTask t = Inr u"
    using call False by (auto simp: PutBackupTask_def putBackupTask_def split: sum.splits)
  let ?key = "prefixBackupTask @ bt_ID u"
  let ?b = "\<lparr>cd_Version = backupConditionalBatchVersion 0, cd_ExpectedRaftTerm = 0,
    cd_Preconditions = [observedPre (st_codec s) ?key (dbGet rd ?key)],
    cd_Mutations = [putRow s ?key (RTask u)], cd_PrefixReplacements = []\<rparr>"
  have adm: "admitTask (st_codec s) u (dbGet rd ?key) = Inr False"
    using call False u by (auto simp: PutBackupTask_def putBackupTask_def Let_def split: sum.splits bool.splits)
  obtain r1 s1 where ap: "applyBackupMetadataConditional s ?b = (r1, s1)" by fastforce
  from wf ap show thesis
  proof (cases rule: applyBackupMetadataConditional_cases)
    case (refused e)
    then have "s' = s" using call u adm ap
      by (auto simp: PutBackupTask_def putBackupTask_def Let_def split: sum.splits if_splits)
    with False show ?thesis by simp
  next
    case done'
    then have "s' = s1" "r = Inr ()" using call u adm ap
      by (simp_all add: PutBackupTask_def putBackupTask_def checkBackupMetadataMutation_def
          checkBackupMetadataCall_def Let_def)
    then show ?thesis
      using wrote [of u] done' adm normalizeBackupTask_ID [OF u]
      by (simp add: preHolds_observed batchSpec_put)
  qed
qed

lemma EnsureClusterID_effect:
  assumes wf: "wf_db (st_db s)" and call: "EnsureClusterID rd s req rnd = (r, s')"
  obtains (same) "s' = s"
      "\<forall>i. r = Inr i \<longrightarrow> (\<exists>raw. (dbGet rd keyClusterID = Some raw \<or> dbGet (st_db s) keyClusterID = Some raw)
         \<and> reconcileClusterID (st_codec s) raw req = Inr i)"
    | (wrote) i where "r = Inr i" "movedTo s s'" "validateOpaqueID i" "dbGet (st_db s) keyClusterID = None"
      "dbGet (st_db s') = (dbGet (st_db s))(keyClusterID \<mapsto> marshalValue (st_codec s) (RText i))"
proof (cases "st_closed s \<or> dbGet rd keyClusterID \<noteq> None
    \<or> (\<forall>i. (if req = [] then generateClusterID rnd else Inr req) = Inr i \<longrightarrow> \<not> validateOpaqueID i)")
  case True
  then show thesis using call same
    by (auto simp: EnsureClusterID_def checkBackupMetadataMutation_def checkBackupMetadataCall_def fail_def
        split: sum.splits option.splits if_splits)
next
  case False
  then obtain i where i: "(if req = [] then generateClusterID rnd else Inr req) = Inr i" "validateOpaqueID i"
    and opn: "\<not> st_closed s" "dbGet rd keyClusterID = None" by auto
  let ?b = "\<lparr>cd_Version = conditionalBatchVersion, cd_ExpectedRaftTerm = 0,
    cd_Preconditions = [expectAbsent (st_codec s) keyClusterID],
    cd_Mutations = [putRow s keyClusterID (RText i)], cd_PrefixReplacements = []\<rparr>"
  obtain r1 s1 where ap: "applyBackupMetadataConditional s ?b = (r1, s1)" by fastforce
  have form: "EnsureClusterID rd s req rnd = (case (r1, s1) of
       (Inr _, s') \<Rightarrow> (Inr i, s')
     | (Inl e, s') \<Rightarrow>
         if e \<noteq> ErrBackupMetadataConflict then (Inl e, s')
         else (case dbGet (st_db s') keyClusterID of
                 None \<Rightarrow> (Inl ErrBackupMetadataConflict, s')
               | Some latest \<Rightarrow> (reconcileClusterID (st_codec s') latest req, s')))"
    unfolding EnsureClusterID_def checkBackupMetadataMutation_def checkBackupMetadataCall_def
    using i opn ap by simp
  from wf ap show thesis
  proof (cases rule: applyBackupMetadataConditional_cases)
    case (refused e)
    then show ?thesis using call form by (intro same) (auto split: if_splits option.splits)
  next
    case done'
    then show ?thesis using call form i by (intro wrote [of i]) (auto simp: preHolds_absent batchSpec_put)
  qed
qed

lemma PutRestorePendingMarker_effect:
  assumes wf: "wf_db (st_db s)" and call: "PutRestorePendingMarker rd s m = (r, s')"
  shows "s' = s \<or> movedTo s s' \<and> (\<forall>k. k \<noteq> keyRestorePending \<longrightarrow> dbGet (st_db s') k = dbGet (st_db s) k)"
proof (cases "s' = s")
  case False
  obtain u where u: "normalizeRestorePendingMarker m = Inr u" and rd: "dbGet rd keyRestorePending = None"
    using call False by (auto simp: PutRestorePendingMarker_def split: sum.splits option.splits)
  obtain r1 s1 where ap: "applyBackupMetadataConditional s
     \<lparr>cd_Version = conditionalBatchVersion, cd_ExpectedRaftTerm = 0,
      cd_Preconditions = [expectAbsent (st_codec s) keyRestorePending],
      cd_Mutations = [putRow s keyRestorePending (RMarker u)], cd_PrefixReplacements = []\<rparr> = (r1, s1)" by fastforce
  have s1: "s' = s1" using call u rd ap False
    by (auto simp: PutRestorePendingMarker_def split: sum.splits option.splits if_splits)
  from wf ap show ?thesis
    by (cases rule: applyBackupMetadataConditional_cases) (auto simp: s1 batchSpec_put)
qed simp

lemma ClearRestorePendingMarker_effect:
  assumes wf: "wf_db (st_db s)" and call: "ClearRestorePendingMarker rd s = (r, s')"
  shows "s' = s \<or> movedTo s s' \<and> (\<forall>k. k \<noteq> keyRestorePending \<longrightarrow> dbGet (st_db s') k = dbGet (st_db s) k)"
proof (cases "s' = s")
  case False
  obtain raw where raw: "dbGet rd keyRestorePending = Some raw"
    using call False by (auto simp: ClearRestorePendingMarker_def split: sum.splits option.splits)
  obtain r1 s1 where ap: "applyBackupMetadataConditional s
     \<lparr>cd_Version = conditionalBatchVersion, cd_ExpectedRaftTerm = 0,
      cd_Preconditions = [expectValue keyRestorePending raw],
      cd_Mutations = [dropRow s keyRestorePending], cd_PrefixReplacements = []\<rparr> = (r1, s1)" by fastforce
  have s1: "s' = s1" using call raw ap False
    by (auto simp: ClearRestorePendingMarker_def split: sum.splits option.splits if_splits)
  from wf ap show ?thesis
    by (cases rule: applyBackupMetadataConditional_cases) (auto simp: s1 batchSpec_drop)
qed simp

lemma ReplaceCommittedBackupCatalog_effect:
  assumes wf: "wf_db (st_db s)" and call: "ReplaceCommittedBackupCatalog s bs tm = (r, s')"
  obtains (same) e where "r = Inl e" "s' = s"
    | (wrote) n where "r = Inr ()" "movedTo s s'" "\<not> st_closed s" "normalizeBackupCatalog bs tm = Inr n"
      "dbGet (st_db s') = (\<lambda>k. if k = keyBackupCatalog then Some (marshalValue (st_codec s) (RCatalog n))
         else if prefix prefixBackupCatalog k
         then map_of (map (\<lambda>e. (prefixBackupCatalog @ cb_ID e, marshalValue (st_codec s) (RBackup e))) (bc_Backups n)) k
         else dbGet (st_db s) k)"
proof (cases "st_closed s \<or> (\<forall>n. normalizeBackupCatalog bs tm \<noteq> Inr n)")
  case True
  then show thesis using call same
    by (auto simp: ReplaceCommittedBackupCatalog_def replaceCommittedBackupCatalog_def
        checkBackupMetadataMutation_def checkBackupMetadataCall_def split: sum.splits if_splits)
next
  case False
  then obtain n where n: "normalizeBackupCatalog bs tm = Inr n" and opn: "\<not> st_closed s" by auto
  let ?b = "\<lparr>cd_Version = backupConditionalBatchVersion 0, cd_ExpectedRaftTerm = 0, cd_Preconditions = [],
     cd_Mutations = [putRow s keyBackupCatalog (RCatalog n)],
     cd_PrefixReplacements = [\<lparr>pr_Prefix = prefixBackupCatalog, pr_Sets = map (catalogEntry s) (bc_Backups n)\<rparr>]\<rparr>"
  have ap: "applyBackupMetadataConditional s ?b = (r, s')" using call n opn
    by (simp add: ReplaceCommittedBackupCatalog_def replaceCommittedBackupCatalog_def
        checkBackupMetadataMutation_def checkBackupMetadataCall_def)
  from wf ap show thesis
  proof (cases rule: applyBackupMetadataConditional_cases)
    case (refused e)
    then show ?thesis by (rule same)
  next
    case done'
    then show ?thesis using n
      by (intro wrote [of n])
        (auto simp: batchSpec_def fun_eq_iff putRow_def opEffect_def catalogEntry_def comp_def split: option.splits)
  qed
qed

lemma performCall_frame:
  assumes wf: "wf_db (st_db s)" and call: "performCall rd s cl = (r, s')"
  shows "movedTo s s' \<and> (\<forall>k. k \<notin> footprint cl \<longrightarrow> dbGet (st_db s') k = dbGet (st_db s) k)"
proof (cases cl)
  case (PutTask t)
  then obtain r' where "PutBackupTask rd s t = (r', s')" using call by (auto simp: map_prod_def split: prod.splits)
  from wf this show ?thesis
    by (cases rule: putBackupTask_effect) (auto simp: wf PutTask footprint_def)
next
  case (ReplaceCatalog bs tm)
  then obtain r' where "ReplaceCommittedBackupCatalog s bs tm = (r', s')"
    using call by (auto simp: map_prod_def split: prod.splits)
  from wf this show ?thesis
    by (cases rule: ReplaceCommittedBackupCatalog_effect) (auto simp: wf ReplaceCatalog footprint_def)
next
  case (EnsureCluster req rnd)
  then obtain r' where "EnsureClusterID rd s req rnd = (r', s')" using call by (auto simp: map_prod_def split: prod.splits)
  from wf this show ?thesis
    by (cases rule: EnsureClusterID_effect) (auto simp: wf EnsureCluster footprint_def)
next
  case (PutMarker m)
  then obtain r' where "PutRestorePendingMarker rd s m = (r', s')" using call by (auto simp: map_prod_def split: prod.splits)
  from PutRestorePendingMarker_effect [OF wf this] show ?thesis using wf by (auto simp: PutMarker footprint_def)
next
  case ClearMarker
  then obtain r' where "ClearRestorePendingMarker rd s = (r', s')" using call by (auto simp: map_prod_def split: prod.splits)
  from ClearRestorePendingMarker_effect [OF wf this] show ?thesis using wf by (auto simp: ClearMarker footprint_def)
qed

lemma movedTo_trans: "movedTo s t \<Longrightarrow> movedTo t u \<Longrightarrow> movedTo s u"
proof -
  assume st: "movedTo s t" and tu: "movedTo t u"
  have "u\<lparr>st_db := st_db s\<rparr> = (u\<lparr>st_db := st_db t\<rparr>)\<lparr>st_db := st_db s\<rparr>" by simp
  also have "\<dots> = s" using st tu by (simp add: movedTo_def)
  finally show "movedTo s u" using tu by (simp add: movedTo_def)
qed

lemma backupRun_basic:
  assumes "backupRun s0 H ids cs s" and "wf_db (st_db s0)"
  shows "movedTo s0 s \<and> H \<noteq> [] \<and> hd H = st_db s"
  using assms
proof (induction)
  case (call H ids cs s rd cl r s')
  then have m: "movedTo s0 s" by simp
  have "movedTo s s'" using performCall_frame [OF movedTo_fields(1) [OF m] call.hyps(3)] by simp
  then show ?case using movedTo_trans [OF m] by simp
qed simp

text \<open>Every step of a run starts from a well formed store with the codec of the start.\<close>

lemmas run_fields = movedTo_fields [OF conjunct1 [OF backupRun_basic]]

section \<open>The history of a task\<close>

definition taskIn :: "'v codec \<Rightarrow> 'v db \<Rightarrow> string \<Rightarrow> BackupTask option" where
  "taskIn c d i = Option.bind (dbGet d (prefixBackupTask @ i)) (\<lambda>raw. Option.bind (unmarshalValue c raw) asTask)"

fun taskStage :: "BackupTaskState \<Rightarrow> nat" where
  "taskStage BackupTaskCreating = 0"
| "taskStage BackupTaskUploading = 1"
| "taskStage BackupTaskVerifying = 2"
| "taskStage BackupTaskCommitted = 3"
| "taskStage BackupTaskFailed = 4"
| "taskStage (BackupTaskUnknown _) = 0"

definition taskIdentity :: "BackupTask \<Rightarrow> string \<times> string \<times> string \<times> u64 \<times> u64 \<times> time" where
  "taskIdentity t = (bt_ID t, bt_SourceClusterID t, bt_OwnerNodeID t, bt_LeadershipTerm t, bt_AppliedIndex t, bt_StartedAt t)"

text \<open>\<open>t'\<close> is a later record of the task \<open>t\<close>; a terminal record is never followed by another one.\<close>

definition advances :: "BackupTask \<Rightarrow> BackupTask \<Rightarrow> bool" where
  "advances t t' \<longleftrightarrow>
     (if isTerminalBackupTaskState (bt_State t) then t' = t
      else taskIdentity t' = taskIdentity t \<and> taskStage (bt_State t) \<le> taskStage (bt_State t')
           \<and> bt_BytesUploaded t \<le> bt_BytesUploaded t' \<and> bt_FilesUploaded t \<le> bt_FilesUploaded t'
           \<and> bt_UpdatedAt t \<le> bt_UpdatedAt t')"

fun taskLeq :: "BackupTask option \<Rightarrow> BackupTask option \<Rightarrow> bool" where
  "taskLeq None _ \<longleftrightarrow> True"
| "taskLeq (Some t) None \<longleftrightarrow> False"
| "taskLeq (Some t) (Some t') \<longleftrightarrow> advances t t'"

lemma advances_refl [simp]: "advances t t"
  by (simp add: advances_def)

lemma advances_trans: "advances t u \<Longrightarrow> advances u v \<Longrightarrow> advances t v"
  by (auto simp: advances_def split: if_splits)

lemma taskLeq_refl [simp]: "taskLeq x x"
  by (cases x) simp_all

lemma taskLeq_trans: "taskLeq x y \<Longrightarrow> taskLeq y z \<Longrightarrow> taskLeq x z"
  by (cases x; cases y; cases z) (auto intro: advances_trans)

lemma storedTask_Inr: "storedTask c raw = Inr t \<Longrightarrow> Option.bind (unmarshalValue c raw) asTask = Some t"
  by (auto simp: storedTask_def validateStoredBackupTask_def normalizeBackupTask_def fail_def Let_def
      split: option.splits if_splits)

lemma next_stage: "nextBackupTaskState a = Some b \<Longrightarrow> taskStage a \<le> taskStage b"
  by (cases a) auto

lemma update_advances:
  assumes "validateBackupTaskUpdate t u" and "bt_ID t = bt_ID u"
    and "\<not> isTerminalBackupTaskState (bt_State t)"
  shows "advances t u"
proof -
  have "taskStage (bt_State t) \<le> taskStage (bt_State u)"
    using assms(1) next_stage by (cases "bt_State t") (auto simp: validateBackupTaskUpdate_def)
  then show ?thesis using assms by (auto simp: advances_def taskIdentity_def validateBackupTaskUpdate_def)
qed

lemma admitTask_write:
  assumes "admitTask c u found = Inr False"
  shows "taskLeq (Option.bind found (\<lambda>raw. Option.bind (unmarshalValue c raw) asTask)) (Some u)"
    and "found = None \<Longrightarrow> bt_State u = BackupTaskCreating"
proof -
  show "taskLeq (Option.bind found (\<lambda>raw. Option.bind (unmarshalValue c raw) asTask)) (Some u)"
  proof (cases found)
    case (Some raw)
    then obtain t where t: "storedTask c raw = Inr t" using assms
      by (auto simp: admitTask_def split: sum.splits)
    then have "advances t u" using assms Some
      by (auto simp: admitTask_def fail_def split: if_splits intro: update_advances)
    then show ?thesis using Some storedTask_Inr [OF t] by simp
  qed simp
qed (use assms in \<open>auto simp: admitTask_def fail_def split: if_splits\<close>)

lemma task_key_foreign:
  "prefixBackupTask @ i \<in> footprint cl \<Longrightarrow> \<exists>t. cl = PutTask t \<and> bt_ID t = i"
  by (cases cl) (auto simp: footprint_def key_defs)

lemma performCall_task:
  assumes wf: "wf_db (st_db s)" and ok: "codec_ok (st_codec s)" and call: "performCall rd s cl = (r, s')"
  shows "taskLeq (taskIn (st_codec s) (st_db s) i) (taskIn (st_codec s) (st_db s') i)
    \<and> (dbGet (st_db s) (prefixBackupTask @ i) = None \<longrightarrow> dbGet (st_db s') (prefixBackupTask @ i) = None
       \<or> (\<exists>t. taskIn (st_codec s) (st_db s') i = Some t \<and> bt_State t = BackupTaskCreating))"
proof (cases "prefixBackupTask @ i \<in> footprint cl")
  case False
  then have "dbGet (st_db s') (prefixBackupTask @ i) = dbGet (st_db s) (prefixBackupTask @ i)"
    using performCall_frame [OF wf call] by simp
  then show ?thesis by (simp add: taskIn_def)
next
  case True
  from task_key_foreign [OF this] obtain u where cl: "cl = PutTask u" "bt_ID u = i" by blast
  then obtain r' where "PutBackupTask rd s u = (r', s')" using call by (auto simp: map_prod_def split: prod.splits)
  from wf this show ?thesis
  proof (cases rule: putBackupTask_effect)
    case same
    then show ?thesis by (simp add: taskIn_def)
  next
    case (wrote v)
    then show ?thesis using admitTask_write [OF wrote(4)] cl ok by (simp add: taskIn_def)
  qed
qed

text \<open>
  C32: backup tasks move forward only, however calls interleave. In the history of databases of
  any run, a later record of a task has the same identity, owner, term, index and start as every
  earlier one, its stage, its counters and its update time are not smaller, and once a record is
  committed or failed it is the last one. A task that is not there at the start begins in the
  creating stage.
\<close>

theorem backup_task_history:
  assumes "backupRun s0 H ids cs s" and "wf_db (st_db s0)" and "codec_ok (st_codec s0)"
  shows "sorted_wrt (\<lambda>new old. taskLeq (taskIn (st_codec s0) old i) (taskIn (st_codec s0) new i)) H
    \<and> (dbGet (st_db s0) (prefixBackupTask @ i) = None \<longrightarrow> dbGet (st_db s) (prefixBackupTask @ i) = None
       \<or> (\<exists>d \<in> set H. \<exists>t. taskIn (st_codec s0) d i = Some t \<and> bt_State t = BackupTaskCreating))"
  using assms
proof (induction)
  case (call H ids cs s rd cl r s')
  note IH = call.IH [OF call.prems]
  note bas = backupRun_basic [OF call.hyps(1) call.prems(1)]
  have fs: "wf_db (st_db s)" "st_codec s = st_codec s0" using bas movedTo_fields by blast+
  note step = performCall_task [OF fs(1) _ call.hyps(3), unfolded fs(2), OF call.prems(2), of i]
  have "taskLeq (taskIn (st_codec s0) d i) (taskIn (st_codec s0) (st_db s) i)" if "d \<in> set H" for d
    using IH bas that by (cases H) auto
  then have "\<forall>d \<in> set H. taskLeq (taskIn (st_codec s0) d i) (taskIn (st_codec s0) (st_db s') i)"
    using step taskLeq_trans by blast
  then show ?case using IH step by auto
qed simp

section \<open>The cluster identity\<close>

lemma cluster_key_foreign: "keyClusterID \<in> footprint cl \<Longrightarrow> \<exists>req rnd. cl = EnsureCluster req rnd"
  by (cases cl) (auto simp: footprint_def key_defs)

definition identityOf :: "'v codec \<Rightarrow> 'v \<Rightarrow> string option" where
  "identityOf c raw = Option.bind (unmarshalValue c raw) asText"

lemma reconcileClusterID_Inr:
  "reconcileClusterID c raw req = Inr i \<Longrightarrow> identityOf c raw = Some i \<and> validateOpaqueID i"
  by (auto simp: reconcileClusterID_def identityOf_def fail_def split: option.splits if_splits)

lemma returnedID_None [simp]: "returnedID (map_sum id (\<lambda>_. None) x) = []"
  by (cases x) (simp_all add: returnedID_def)

lemma returnedID_Some [simp]: "returnedID (map_sum id Some x) = (case x of Inr i \<Rightarrow> [i] | Inl _ \<Rightarrow> [])"
  by (cases x) (simp_all add: returnedID_def)

text \<open>Every identity that was seen or returned in a run is the one of the current store.\<close>

lemma cluster_run:
  assumes "backupRun s0 H ids cs s" and "wf_db (st_db s0)" and "codec_ok (st_codec s0)"
  shows "(\<forall>d \<in> set H. \<forall>raw. dbGet d keyClusterID = Some raw \<longrightarrow> dbGet (st_db s) keyClusterID = Some raw)
    \<and> (\<forall>i \<in> set ids. \<exists>raw. dbGet (st_db s) keyClusterID = Some raw \<and> identityOf (st_codec s0) raw = Some i
         \<and> validateOpaqueID i)"
  using assms
proof (induction)
  case (call H ids cs s rd cl r s')
  note IH = call.IH [OF call.prems]
  note bas = backupRun_basic [OF call.hyps(1) call.prems(1)]
  have fs: "wf_db (st_db s)" "st_codec s = st_codec s0" using bas movedTo_fields by blast+
  show ?case
  proof (cases "\<exists>req rnd. cl = EnsureCluster req rnd")
    case False
    then have "dbGet (st_db s') keyClusterID = dbGet (st_db s) keyClusterID"
      using performCall_frame [OF fs(1) call.hyps(3)] cluster_key_foreign by blast
    moreover have "returnedID r = []" using False call.hyps(3)
      by (cases cl) (auto simp: map_prod_def split: prod.splits)
    ultimately show ?thesis using IH by simp
  next
    case True
    then obtain req rnd r' where e: "EnsureClusterID rd s req rnd = (r', s')" and r: "r = map_sum id Some r'"
      using call.hyps(3) by (auto simp: map_prod_def split: prod.splits)
    from fs(1) e show ?thesis
    proof (cases rule: EnsureClusterID_effect)
      case same
      have "\<exists>raw. dbGet (st_db s) keyClusterID = Some raw \<and> identityOf (st_codec s0) raw = Some i \<and> validateOpaqueID i"
        if ri: "r' = Inr i" for i
      proof -
        obtain raw where raw: "dbGet rd keyClusterID = Some raw \<or> dbGet (st_db s) keyClusterID = Some raw"
          and i: "reconcileClusterID (st_codec s0) raw req = Inr i" using same(2) ri fs(2) by auto
        then have "dbGet (st_db s) keyClusterID = Some raw" using IH call.hyps(2) by blast
        then show ?thesis using reconcileClusterID_Inr [OF i] by blast
      qed
      then show ?thesis using IH same(1) r by (auto split: sum.splits)
    next
      case (wrote i)
      then show ?thesis using IH r fs(2) call.prems(2) by (auto simp: identityOf_def returnedID_def)
    qed
  qed
qed simp

text \<open>
  C33: a cluster has one identity. However calls interleave, all successful calls of
  \<open>EnsureClusterID\<close> in a run return the same, valid identifier, and it is the one that is stored.
\<close>

theorem cluster_identity_unique:
  assumes "backupRun s0 H ids cs s" and "wf_db (st_db s0)" and "codec_ok (st_codec s0)" and "i \<in> set ids"
  shows "storeGet asText s keyClusterID = Inr (Some i) \<and> validateOpaqueID i \<and> set ids = {i}"
proof -
  note run = cluster_run [OF assms(1-3)]
  have codec: "st_codec s = st_codec s0" using run_fields(2) [OF assms(1,2)] .
  obtain raw where raw: "dbGet (st_db s) keyClusterID = Some raw" "identityOf (st_codec s0) raw = Some i"
    "validateOpaqueID i" using run assms(4) by blast
  have "j = i" if "j \<in> set ids" for j using run that raw by fastforce
  then have "set ids = {i}" using assms(4) by blast
  moreover obtain x where "unmarshalValue (st_codec s0) raw = Some x" "asText x = Some i"
    using raw(2) by (auto simp: identityOf_def bind_eq_Some_conv)
  ultimately show ?thesis using raw codec by (simp add: storeGet_def getValue_def)
qed

section \<open>The catalog\<close>

lemma normalizeCommittedBackup_Inr: "normalizeCommittedBackup e = Inr e' \<Longrightarrow> e' = e"
  by (auto simp: normalizeCommittedBackup_def fail_def split: if_splits)

lemma normalizeEntries_Inr:
  "normalizeEntries seen bs = Inr es \<longleftrightarrow>
     es = bs \<and> list_all (\<lambda>e. normalizeCommittedBackup e = Inr e) bs \<and> distinct (map cb_ID bs)
     \<and> set (map cb_ID bs) \<inter> set seen = {}"
proof (induction bs arbitrary: seen es)
  case (Cons b bs)
  show ?case
  proof (cases "normalizeCommittedBackup b")
    case (Inl e)
    then show ?thesis by simp
  next
    case (Inr b')
    then have b: "normalizeCommittedBackup b = Inr b" using normalizeCommittedBackup_Inr by blast
    note IH = Cons.IH [of "cb_ID b # seen"]
    show ?thesis
    proof (cases "cb_ID b \<in> set seen")
      case True
      then show ?thesis using b by (simp add: fail_def)
    next
      case False
      show ?thesis
      proof (cases "normalizeEntries (cb_ID b # seen) bs")
        case (Inl e)
        then show ?thesis using False b IH [of bs] by simp
      next
        case (Inr es')
        then show ?thesis using False b IH [of es'] by auto
      qed
    qed
  qed
qed auto

lemma normalizeBackupCatalog_Inr:
  assumes "normalizeBackupCatalog bs tm = Inr n"
  shows "bc_Backups n = sortBackups bs" "bc_ReconciledAt n = tm" "distinct (map cb_ID (bc_Backups n))"
    "list_all (\<lambda>e. normalizeCommittedBackup e = Inr e) (bc_Backups n)"
    "normalizeBackupCatalog (bc_Backups n) (bc_ReconciledAt n) = Inr n"
proof -
  have tm: "tm \<noteq> zeroTime" and nb: "normalizeEntries [] bs = Inr bs"
    and n: "n = \<lparr>bc_Backups = sortBackups bs, bc_ReconciledAt = tm\<rparr>"
    using assms by (auto simp: normalizeBackupCatalog_def normalizeEntries_Inr fail_def split: if_splits sum.splits)
  have "mset (map cb_ID (sortBackups bs)) = mset (map cb_ID bs)" by (simp add: sortBackups_def)
  note perm = mset_eq_imp_distinct_iff [OF this]
  have nd: "distinct (map cb_ID bs)" using iffD1 [OF normalizeEntries_Inr nb] by simp
  show d: "distinct (map cb_ID (bc_Backups n))" using nd n by (simp only: perm BackupCatalogState.simps)
  show l: "list_all (\<lambda>e. normalizeCommittedBackup e = Inr e) (bc_Backups n)"
    using nb n by (simp add: normalizeEntries_Inr list_all_iff sortBackups_def)
  have "sortBackups (sortBackups bs) = sortBackups bs"
    by (simp add: sortBackups_def sort_key_id_if_sorted)
  moreover have "normalizeEntries [] (sortBackups bs) = Inr (sortBackups bs)"
    using d l n by (simp add: normalizeEntries_Inr)
  ultimately show "normalizeBackupCatalog (bc_Backups n) (bc_ReconciledAt n) = Inr n"
    using tm n by (simp add: normalizeBackupCatalog_def)
  show "bc_Backups n = sortBackups bs" "bc_ReconciledAt n = tm" using n by simp_all
qed

definition entryRow :: "'v codec \<Rightarrow> CommittedBackup \<Rightarrow> string \<times> 'v" where
  "entryRow c e = (prefixBackupCatalog @ cb_ID e, marshalValue c (RBackup e))"

lemma indexEntries_rows:
  assumes "codec_ok c" and "list_all (\<lambda>e. normalizeCommittedBackup e = Inr e) es"
    and "distinct (map cb_ID es)" and "set (map cb_ID es) \<inter> fst ` set idx = {}"
  shows "indexEntries c idx (map (entryRow c) es) = Inr (rev (map (\<lambda>e. (cb_ID e, e)) es) @ idx)"
  using assms(2-)
proof (induction es arbitrary: idx)
  case (Cons e es)
  have "map_of idx (cb_ID e) = None" using Cons.prems(3) by (simp add: map_of_eq_None_iff)
  then show ?case using Cons.prems Cons.IH [of "(cb_ID e, e) # idx"] assms(1)
    by (simp add: entryRow_def)
qed simp

lemma map_entries_exist:
  assumes "set rows \<subseteq> f ` set es"
  shows "\<exists>es'. rows = map f es' \<and> set es' \<subseteq> set es"
  using assms
proof (induction rows)
  case (Cons r rows)
  then obtain es' e where "rows = map f es'" "set es' \<subseteq> set es" "r = f e" "e \<in> set es" by auto
  then show ?case by (intro exI [of _ "e # es'"]) simp
qed simp

definition catalogIs :: "'v codec \<Rightarrow> 'v db \<Rightarrow> BackupCatalogState \<Rightarrow> bool" where
  "catalogIs c d n \<longleftrightarrow> dbGet d keyBackupCatalog = Some (marshalValue c (RCatalog n))
     \<and> (\<forall>k. prefix prefixBackupCatalog k \<longrightarrow> dbGet d k = map_of (map (entryRow c) (bc_Backups n)) k)"

text \<open>The scanned rows are the entries of the catalog, in key order.\<close>

lemma catalog_scan:
  assumes wf: "wf_db d" and cat: "catalogIs c d n" and dist: "distinct (map cb_ID (bc_Backups n))"
  obtains es where "scanPrefix d prefixBackupCatalog = map (entryRow c) es" "mset es = mset (bc_Backups n)"
proof -
  let ?rows = "scanPrefix d prefixBackupCatalog"
  have keys: "map fst (map (entryRow c) (bc_Backups n)) = map ((@) prefixBackupCatalog) (map cb_ID (bc_Backups n))"
    by (simp add: entryRow_def)
  have dk: "distinct (map fst (map (entryRow c) (bc_Backups n)))"
    unfolding keys using dist by (simp add: distinct_map inj_on_def)
  have "set ?rows = set (map (entryRow c) (bc_Backups n))"
  proof (rule set_eqI)
    fix kv :: "string \<times> 'a"
    obtain k v where kv: "kv = (k, v)" by fastforce
    have "prefix prefixBackupCatalog k" if "(k, v) \<in> set (map (entryRow c) (bc_Backups n))"
      using that by (auto simp: entryRow_def)
    then show "kv \<in> set ?rows \<longleftrightarrow> kv \<in> set (map (entryRow c) (bc_Backups n))"
      unfolding kv scanPrefix_set [OF wf] using cat dk map_of_eq_Some_iff [OF dk, of k v]
      by (auto simp: catalogIs_def)
  qed
  then have rows: "set ?rows = entryRow c ` set (bc_Backups n)" by simp
  then obtain es where es: "?rows = map (entryRow c) es" "set es \<subseteq> set (bc_Backups n)"
    using map_entries_exist [of ?rows "entryRow c" "bc_Backups n"] by auto
  have "distinct es" using scanPrefix_distinct [OF wf, of prefixBackupCatalog] es(1)
    by (auto simp: distinct_map)
  moreover have "set es = set (bc_Backups n)"
  proof -
    have "inj_on cb_ID (set (bc_Backups n))" using dist by (simp add: distinct_map)
    then have inj: "inj_on (entryRow c) (set (bc_Backups n))" by (auto simp: inj_on_def entryRow_def)
    have "entryRow c ` set es = entryRow c ` set (bc_Backups n)" using rows es(1) by simp
    then show ?thesis using inj_on_image_eq_iff [OF inj es(2) order_refl] by simp
  qed
  moreover have "distinct (bc_Backups n)" using dist by (simp add: distinct_map)
  ultimately have "mset es = mset (bc_Backups n)" by (simp add: set_eq_iff_mset_eq_distinct)
  with es(1) that show thesis by blast
qed

lemma GetBackupCatalogState_is:
  assumes wf: "wf_db (st_db s)" and ok: "codec_ok (st_codec s)" and opn: "\<not> st_closed s"
    and n: "normalizeBackupCatalog bs tm = Inr n" and cat: "catalogIs (st_codec s) (st_db s) n"
  shows "GetBackupCatalogState s = Inr (Some n)"
proof -
  note nn = normalizeBackupCatalog_Inr [OF n]
  obtain es where es: "scanPrefix (st_db s) prefixBackupCatalog = map (entryRow (st_codec s)) es"
    "mset es = mset (bc_Backups n)" using catalog_scan [OF wf cat nn(3)] by blast
  have "mset (map cb_ID es) = mset (map cb_ID (bc_Backups n))" using es(2) by simp
  then have d: "distinct (map cb_ID es)" using nn(3) mset_eq_imp_distinct_iff by blast
  have st: "set es = set (bc_Backups n)" using es(2) by (metis set_mset_mset)
  have "indexEntries (st_codec s) [] (map (entryRow (st_codec s)) es) = Inr (rev (map (\<lambda>e. (cb_ID e, e)) es) @ [])"
    by (rule indexEntries_rows [OF ok _ d]) (use nn(4) st in \<open>simp_all add: list_all_iff\<close>)
  then have idx: "indexEntries (st_codec s) [] (scanPrefix (st_db s) prefixBackupCatalog)
      = Inr (rev (map (\<lambda>e. (cb_ID e, e)) es))" by (simp add: es(1))
  have look: "map_of (rev (map (\<lambda>e. (cb_ID e, e)) es)) (cb_ID e) = Some e" if "e \<in> set (bc_Backups n)" for e
  proof (rule map_of_is_SomeI)
    show "distinct (map fst (rev (map (\<lambda>e. (cb_ID e, e)) es)))" using d by (simp add: rev_map [symmetric] comp_def)
    show "(cb_ID e, e) \<in> set (rev (map (\<lambda>e. (cb_ID e, e)) es))" using that st by auto
  qed
  have "length es = length (bc_Backups n)" using es(2) by (metis size_mset)
  moreover have "storeGet asCatalog s keyBackupCatalog = Inr (Some n)"
    using cat ok by (simp add: catalogIs_def storeGet_def getValue_def)
  ultimately show ?thesis using opn nn(5) idx look
    by (simp add: GetBackupCatalogState_def checkBackupMetadataCall_def list_all_iff)
qed

fun replacesCatalog :: "backupCall \<Rightarrow> bool" where
  "replacesCatalog (ReplaceCatalog _ _) \<longleftrightarrow> True"
| "replacesCatalog _ \<longleftrightarrow> False"

lemma catalog_key_foreign:
  "\<not> replacesCatalog cl \<Longrightarrow> keyBackupCatalog \<notin> footprint cl \<and> (prefix prefixBackupCatalog k \<longrightarrow> k \<notin> footprint cl)"
  by (cases cl) (auto simp: footprint_def key_defs)

lemma catalog_run:
  assumes "backupRun s0 H ids cs s" and "wf_db (st_db s0)" and "catalogIs (st_codec s0) (st_db s0) n"
    and "list_all (\<lambda>cl. \<not> replacesCatalog cl) cs"
  shows "catalogIs (st_codec s0) (st_db s) n"
  using assms
proof (induction)
  case (call H ids cs s rd cl r s')
  have "wf_db (st_db s)" using backupRun_basic [OF call.hyps(1) call.prems(1)] movedTo_fields(1) by blast
  note fr = conjunct2 [OF performCall_frame [OF this call.hyps(3)]]
  have "\<not> replacesCatalog cl" using call.prems(3) by simp
  note foreign = catalog_key_foreign [OF this]
  have "catalogIs (st_codec s0) (st_db s) n" using call by simp
  then show ?case using fr foreign by (simp add: catalogIs_def)
qed simp

text \<open>
  C34: the catalog that was stored is the catalog that is read. After a successful replacement, and
  whatever other backup calls interleave until the next replacement, the catalog state reads back as
  the normal form of the given backups: the same backups, newest first, with matching index rows.
\<close>

theorem catalog_reads_back:
  assumes "wf_db (st_db s)" and "codec_ok (st_codec s)"
    and "ReplaceCommittedBackupCatalog s bs tm = (Inr (), s1)"
    and "backupRun s1 H ids cs s2" and "list_all (\<lambda>cl. \<not> replacesCatalog cl) cs"
  shows "\<exists>n. GetBackupCatalogState s2 = Inr (Some n) \<and> normalizeBackupCatalog bs tm = Inr n
    \<and> mset (bc_Backups n) = mset bs \<and> bc_ReconciledAt n = tm"
  using assms(1,3)
proof (cases rule: ReplaceCommittedBackupCatalog_effect)
  case (wrote n)
  note m1 = movedTo_fields [OF wrote(2)]
  note m2 = run_fields [OF assms(4) m1(1)]
  have row: "(\<lambda>e. (prefixBackupCatalog @ cb_ID e, marshalValue (st_codec s) (RBackup e))) = entryRow (st_codec s)"
    by (simp add: fun_eq_iff entryRow_def)
  have "\<not> prefix prefixBackupCatalog keyBackupCatalog" by (simp add: key_defs)
  then have "catalogIs (st_codec s1) (st_db s1) n"
    using wrote(5) [unfolded row] m1(2) by (auto simp: catalogIs_def)
  from catalog_run [OF assms(4) m1(1) this assms(5)]
  have cat: "catalogIs (st_codec s2) (st_db s2) n" using m2(2) by simp
  have "GetBackupCatalogState s2 = Inr (Some n)"
    by (rule GetBackupCatalogState_is [OF m2(1) _ _ wrote(4) cat]) (use m1 m2 wrote(3) assms(2) in simp_all)
  then show ?thesis using wrote(4) normalizeBackupCatalog_Inr [OF wrote(4)] by (simp add: sortBackups_def)
qed simp

section \<open>The newest tasks\<close>

definition newestFirst :: "BackupTask \<Rightarrow> int \<times> string" where
  "newestFirst t = (- bt_StartedAt t, bt_ID t)"

lemma backupTaskNewer_key: "backupTaskNewer a b \<longleftrightarrow> newestFirst a < newestFirst b"
  by (auto simp: backupTaskNewer_def newestFirst_def less_prod_def)

lemma heapPush_insort: "heapPush t ts = insort_key newestFirst t ts"
  by (induction ts) (auto simp: backupTaskNewer_key)

text \<open>Inserting into the \<open>k\<close> least elements of a sorted list.\<close>

lemma insort_key_take:
  assumes "sorted (map f ts)" and "k < length ts" and "f t < f (ts ! k)"
  shows "insort_key f t (take k ts) = take (Suc k) (insort_key f t ts)"
  using assms
proof (induction ts arbitrary: k)
  case (Cons u us)
  show ?case
  proof (cases k)
    case 0
    then show ?thesis using Cons.prems by (simp add: less_imp_le)
  next
    case (Suc j)
    then show ?thesis using Cons by auto
  qed
qed simp

lemma insort_key_take_big:
  assumes "sorted (map f ts)" and "k < length ts" and "f (ts ! k) < f t"
  shows "take (Suc k) (insort_key f t ts) = take (Suc k) ts"
  using assms
proof (induction ts arbitrary: k)
  case (Cons u us)
  then have "f u \<le> f (us ! (k - 1))" if "k \<noteq> 0" using that by (cases k) auto
  then have "f u < f t" using Cons.prems(3) by (cases k) auto
  then show ?case using Cons by (cases k) auto
qed simp

lemma last_take: "k < length ts \<Longrightarrow> last (take (Suc k) ts) = ts ! k"
  by (simp add: take_Suc_conv_app_nth)

text \<open>One more task keeps the collector at the newest ones.\<close>

lemma topKAdd_sorted:
  assumes k: "0 < tk_limit tk" and tasks: "tk_tasks tk = take (nat (tk_limit tk)) ts"
    and ts: "sorted (map newestFirst ts)" and fresh: "newestFirst t \<notin> newestFirst ` set ts"
  shows "topKAdd tk t = tk\<lparr>tk_tasks := take (nat (tk_limit tk)) (insort_key newestFirst t ts)\<rparr>"
proof -
  obtain k where k': "nat (tk_limit tk) = Suc k" "tk_limit tk = int (Suc k)" using k by (metis gr0_implies_Suc nat_0_le zero_less_nat_eq less_imp_le)
  show ?thesis
  proof (cases "length ts \<le> k")
    case True
    then have "take (Suc k) ts = ts" "take (Suc k) (insort_key newestFirst t ts) = insort_key newestFirst t ts" by simp_all
    then show ?thesis using True k' tasks by (simp add: topKAdd_def heapPush_insort)
  next
    case False
    then have len: "k < length ts" by simp
    then have neq: "newestFirst t \<noteq> newestFirst (ts ! k)" using fresh nth_mem by blast
    have bl: "butlast (take (Suc k) ts) = take k ts" using len by (simp add: butlast_take)
    show ?thesis
    proof (cases "newestFirst t < newestFirst (ts ! k)")
      case True
      then show ?thesis using insort_key_take [OF ts len True] len k' tasks bl
        by (simp add: topKAdd_def heapPush_insort heapPop_def backupTaskNewer_key last_take)
    next
      case False
      then have "newestFirst (ts ! k) < newestFirst t" using neq by simp
      from insort_key_take_big [OF ts len this] show ?thesis using False len k' tasks
        by (simp add: topKAdd_def backupTaskNewer_key last_take)
    qed
  qed
qed

lemma insort_all:
  "sorted (map newestFirst us) \<Longrightarrow> sorted (map newestFirst (foldl (\<lambda>acc t. insort_key newestFirst t acc) us ts))
    \<and> mset (foldl (\<lambda>acc t. insort_key newestFirst t acc) us ts) = mset us + mset ts"
  by (induction ts arbitrary: us) (simp_all add: sorted_insort_key)

lemma topKAdd_all:
  assumes "0 < tk_limit tk" and "tk_tasks tk = take (nat (tk_limit tk)) us" and "sorted (map newestFirst us)"
    and "distinct (map newestFirst (us @ ts))"
  shows "foldl topKAdd tk ts
    = tk\<lparr>tk_tasks := take (nat (tk_limit tk)) (foldl (\<lambda>acc t. insort_key newestFirst t acc) us ts)\<rparr>"
  using assms
proof (induction ts arbitrary: tk us)
  case (Cons t ts)
  let ?us = "insort_key newestFirst t us"
  have "topKAdd tk t = tk\<lparr>tk_tasks := take (nat (tk_limit tk)) ?us\<rparr>"
    using Cons.prems by (intro topKAdd_sorted) auto
  moreover have "mset (map newestFirst (?us @ ts)) = mset (map newestFirst (us @ t # ts))" by simp
  then have "distinct (map newestFirst (?us @ ts))"
    using Cons.prems(4) mset_eq_imp_distinct_iff by blast
  ultimately show ?case
    using Cons.IH [of "tk\<lparr>tk_tasks := take (nat (tk_limit tk)) ?us\<rparr>" ?us] Cons.prems
    by (simp add: sorted_insort_key)
qed simp

lemma listTaskRows_all:
  "map (scannedTask c) rows = map Inr ts \<Longrightarrow> listTaskRows c tk rows = Inr (foldl topKAdd tk ts)"
proof (induction rows arbitrary: ts tk)
  case (Cons kv rows)
  then obtain t ts' where "ts = t # ts'" by (cases ts) auto
  then show ?case using Cons by simp
qed simp

lemma scanned_ids:
  "map (scannedTask c) rows = map Inr ts \<Longrightarrow> map fst rows = map (\<lambda>t. prefixBackupTask @ bt_ID t) ts"
proof (induction rows arbitrary: ts)
  case (Cons kv rows)
  then obtain t ts' where ts: "ts = t # ts'" by (cases ts) auto
  then have "fst kv = prefixBackupTask @ bt_ID t" using Cons.prems
    by (auto simp: scannedTask_def fail_def split: sum.splits if_splits)
  then show ?case using Cons ts by simp
qed simp

text \<open>
  C35: listing tasks with a bounded collector is listing the newest ones. When every stored task
  row is valid, \<open>ListBackupTasks\<close> returns the first \<open>limit\<close> tasks of all stored tasks sorted from the
  newest to the oldest, although it never holds more than \<open>limit\<close> tasks.
\<close>

theorem ListBackupTasks_newest:
  assumes "wf_db (st_db s)" and "\<not> st_closed s" and "0 < limit" and "limit \<le> maxBackupTaskListLimit"
    and scan: "map (scannedTask (st_codec s)) (scanPrefix (st_db s) prefixBackupTask) = map Inr ts"
  shows "ListBackupTasks s limit = Inr (take (nat limit) (sort_key (\<lambda>t. (- bt_StartedAt t, bt_ID t)) ts))"
proof -
  let ?sorted = "foldl (\<lambda>acc t. insort_key newestFirst t acc) [] ts"
  have "distinct (map (\<lambda>t. prefixBackupTask @ bt_ID t) ts)"
    using scanPrefix_distinct [OF assms(1), of prefixBackupTask] scanned_ids [OF scan] by simp
  then have inj: "distinct (map newestFirst ts)" by (auto simp: distinct_map inj_on_def newestFirst_def)
  have "foldl topKAdd (newBackupTaskTopK limit) ts
      = (newBackupTaskTopK limit)\<lparr>tk_tasks := take (nat limit) ?sorted\<rparr>"
    using topKAdd_all [of "newBackupTaskTopK limit" "[]" ts] inj assms(3) by (simp add: newBackupTaskTopK_def)
  moreover have "?sorted = sort_key newestFirst ts"
    using insort_all [of "[]" ts] inj sort_key_inj_key_eq [of ts ?sorted newestFirst]
    by (simp add: distinct_map)
  moreover have "sort_key newestFirst (take (nat limit) (sort_key newestFirst ts)) = take (nat limit) (sort_key newestFirst ts)"
    by (rule sort_key_id_if_sorted) (simp add: take_map [symmetric] sorted_wrt_take)
  moreover have "(\<lambda>t. (- bt_StartedAt t, bt_ID t)) = newestFirst" by (simp add: fun_eq_iff newestFirst_def)
  ultimately show ?thesis using assms(2-4) listTaskRows_all [OF scan]
    by (simp add: ListBackupTasks_def checkBackupMetadataCall_def topKSorted_def newBackupTaskTopK_def)
qed

section \<open>A sample run\<close>

definition sampleTask :: "string \<Rightarrow> time \<Rightarrow> BackupTask" where
  "sampleTask i tm = \<lparr>bt_ID = i, bt_SourceClusterID = ''c1'', bt_OwnerNodeID = ''n1'', bt_LeadershipTerm = 1,
     bt_AppliedIndex = 1, bt_State = BackupTaskCreating, bt_StartedAt = tm, bt_CompletedAt = zeroTime,
     bt_BytesUploaded = 0, bt_FilesUploaded = 0, bt_LastError = [], bt_UpdatedAt = tm\<rparr>"

definition taskStore :: "row option store" where
  "taskStore = freshStore\<lparr>st_db := [(prefixBackupTask @ ''b1'', Some (RTask (sampleTask ''b1'' 5)))]\<rparr>"

lemma plain_commit:
  assumes "st_codec s = plainCodec" and "\<not> st_closed s" and "\<not> IsReadOnly (st_deg s)"
    and "key \<noteq> []" and "length key \<le> 100"
  shows "applyBackupMetadataConditional s
     \<lparr>cd_Version = conditionalBatchVersion, cd_ExpectedRaftTerm = 0, cd_Preconditions = [expectAbsent plainCodec key],
      cd_Mutations = [putRow s key x], cd_PrefixReplacements = []\<rparr>
     = (if dbGet (st_db s) key = None then (Inr (), s\<lparr>st_db := dbSet (st_db s) key (Some x)\<rparr>)
        else (Inl ErrBackupMetadataConflict, s))"
proof -
  let ?b = "\<lparr>cd_Version = conditionalBatchVersion, cd_ExpectedRaftTerm = 0, cd_Preconditions = [expectAbsent plainCodec key],
      cd_Mutations = [putRow s key x], cd_PrefixReplacements = []\<rparr>"
  have "canonicalConditionalBatch plainCodec ?b = Inr (sortedBatch ?b)"
    by (rule plain_batch_canonical) (use assms in \<open>simp_all add: preOK_def mutationOK_def validateConditionalKey_def
        limit_defs putRow_def conditionalBatchEncodedSize_def preSize_def opSize_def version_defs plain_sizes\<close>)
  then show ?thesis using assms
    by (simp add: applyBackupMetadataConditional_def checkBackupMetadataCall_def applyConditionalBatch_def
        sortedBatch_def preHolds_absent putRow_def applyOp_def)
qed

lemma sample_put: "performCall [] freshStore (PutTask (sampleTask ''b1'' 5)) = (Inr None, taskStore)"
proof -
  let ?k = "prefixBackupTask @ ''b1''"
  have n: "normalizeBackupTask (sampleTask ''b1'' 5) = Inr (sampleTask ''b1'' 5)"
    by (simp add: normalizeBackupTask_def sampleTask_def validateCatalogBackupID_def validateBackupID_def
        validateOpaqueID_def isWindowsVolumePath_def isAlphaNumeric_def charIn_def maxBackupOpaqueIDBytes_def
        validateBackupTaskFields_def maxBackupTaskErrorBytes_def stateFieldsOK_def zeroTime_def)
  have a: "admitTask plainCodec (sampleTask ''b1'' 5) None = Inr False"
    by (simp add: admitTask_def sampleTask_def)
  have c: "applyBackupMetadataConditional freshStore
     \<lparr>cd_Version = conditionalBatchVersion, cd_ExpectedRaftTerm = 0, cd_Preconditions = [expectAbsent plainCodec ?k],
      cd_Mutations = [putRow freshStore ?k (RTask (sampleTask ''b1'' 5))], cd_PrefixReplacements = []\<rparr> = (Inr (), taskStore)"
    using plain_commit [of freshStore ?k] by (simp add: prefixBackupTask_def dbGet_def dbSet_def taskStore_def)
  have i: "bt_ID (sampleTask ''b1'' 5) = ''b1''" by (simp add: sampleTask_def)
  show ?thesis using a c
    by (simp add: PutBackupTask_def putBackupTask_def checkBackupMetadataMutation_def checkBackupMetadataCall_def
        n i Let_def dbGet_def observedPre_def backupConditionalBatchVersion_def)
qed

lemma sample_run: "backupRun freshStore [st_db taskStore, []] [] [PutTask (sampleTask ''b1'' 5)] taskStore"
  using backupRun.call [OF backupRun.start [of freshStore] _ sample_put] by (simp add: returnedID_def)

theorem backup_task_history_witness:
  "taskLeq (taskIn plainCodec [] ''b1'') (taskIn plainCodec (st_db taskStore) ''b1'')
   \<and> (\<exists>d \<in> {st_db taskStore, []}. \<exists>t. taskIn plainCodec d ''b1'' = Some t \<and> bt_State t = BackupTaskCreating)"
  using backup_task_history [OF sample_run, of "''b1''"] by (simp add: dbGet_def taskStore_def)

definition clusterStore :: "row option store" where
  "clusterStore = freshStore\<lparr>st_db := [(keyClusterID, Some (RText ''c1''))]\<rparr>"

lemma sample_id: "validateOpaqueID ''c1''"
  by (simp add: validateOpaqueID_def isAlphaNumeric_def charIn_def maxBackupOpaqueIDBytes_def)

text \<open>The second call read the store before the first one committed.\<close>

lemma sample_cluster:
  "performCall [] freshStore (EnsureCluster ''c1'' None) = (Inr (Some ''c1''), clusterStore)"
  "performCall [] clusterStore (EnsureCluster ''c1'' None) = (Inr (Some ''c1''), clusterStore)"
proof -
  have c: "applyBackupMetadataConditional freshStore
     \<lparr>cd_Version = conditionalBatchVersion, cd_ExpectedRaftTerm = 0, cd_Preconditions = [expectAbsent plainCodec keyClusterID],
      cd_Mutations = [putRow freshStore keyClusterID (RText ''c1'')], cd_PrefixReplacements = []\<rparr> = (Inr (), clusterStore)"
    using plain_commit [of freshStore keyClusterID] by (simp add: keyClusterID_def dbGet_def dbSet_def clusterStore_def)
  show "performCall [] freshStore (EnsureCluster ''c1'' None) = (Inr (Some ''c1''), clusterStore)"
    by (simp add: EnsureClusterID_def checkBackupMetadataMutation_def checkBackupMetadataCall_def sample_id dbGet_def c)
  have c2: "st_codec clusterStore = plainCodec" "st_db clusterStore = [(keyClusterID, Some (RText ''c1''))]"
    "\<not> st_closed clusterStore" "st_deg clusterStore = NewDegradationManager" by (simp_all add: clusterStore_def)
  have "applyBackupMetadataConditional clusterStore
     \<lparr>cd_Version = conditionalBatchVersion, cd_ExpectedRaftTerm = 0, cd_Preconditions = [expectAbsent plainCodec keyClusterID],
      cd_Mutations = [putRow clusterStore keyClusterID (RText ''c1'')], cd_PrefixReplacements = []\<rparr>
      = (Inl ErrBackupMetadataConflict, clusterStore)"
    using plain_commit [of clusterStore keyClusterID] by (simp add: keyClusterID_def dbGet_def c2)
  then show "performCall [] clusterStore (EnsureCluster ''c1'' None) = (Inr (Some ''c1''), clusterStore)"
    by (simp add: EnsureClusterID_def checkBackupMetadataMutation_def checkBackupMetadataCall_def sample_id dbGet_def
        c2 reconcileClusterID_def)
qed

theorem cluster_identity_unique_witness:
  "storeGet asText clusterStore keyClusterID = Inr (Some ''c1'') \<and> validateOpaqueID ''c1''"
proof -
  have run: "backupRun freshStore [st_db clusterStore, st_db clusterStore, []] [''c1'', ''c1'']
      [EnsureCluster ''c1'' None, EnsureCluster ''c1'' None] clusterStore"
    using backupRun.call [OF backupRun.call [OF backupRun.start [of freshStore] _ sample_cluster(1)] _ sample_cluster(2)]
    by (simp add: returnedID_def)
  show ?thesis using cluster_identity_unique [OF run, of "''c1''"] by simp
qed

definition sampleBackup :: "string \<Rightarrow> time \<Rightarrow> CommittedBackup" where
  "sampleBackup i tm = \<lparr>cb_ID = i, cb_SourceClusterID = ''c1'', cb_CreatedAt = tm, cb_RaftTerm = 1,
     cb_AppliedIndex = 1, cb_TotalBytes = 10\<rparr>"

lemma sampleBackup_ID [simp]: "cb_ID (sampleBackup i tm) = i"
  by (simp add: sampleBackup_def)

lemma sample_backups:
  "normalizeBackupCatalog [sampleBackup ''b1'' 5, sampleBackup ''b2'' 6] 9
   = Inr \<lparr>bc_Backups = [sampleBackup ''b2'' 6, sampleBackup ''b1'' 5], bc_ReconciledAt = 9\<rparr>"
  by (simp add: normalizeBackupCatalog_def normalizeCommittedBackup_def sampleBackup_def
      validateCatalogBackupID_def validateBackupID_def validateOpaqueID_def isWindowsVolumePath_def
      isAlphaNumeric_def charIn_def maxBackupOpaqueIDBytes_def zeroTime_def sortBackups_def)

lemma sample_replace:
  "\<exists>s1. ReplaceCommittedBackupCatalog freshStore [sampleBackup ''b1'' 5, sampleBackup ''b2'' 6] 9 = (Inr (), s1)"
  by (simp add: ReplaceCommittedBackupCatalog_def replaceCommittedBackupCatalog_def sample_backups
      checkBackupMetadataMutation_def checkBackupMetadataCall_def applyBackupMetadataConditional_def
      applyConditionalBatch_def canonicalConditionalBatch_def countLimits_def supportedVersion_def
      backupConditionalBatchVersion_def validateConditionalBatch_def mutationOK_def validateConditionalKey_def
      replacementOK_def validateConditionalReplacementPrefix_def catalogEntry_def putRow_def
      conditionalBatchEncodedSize_def opSize_def replSize_def version_defs limit_defs key_defs sortedBatch_def
      plain_sizes less_char_def)

theorem catalog_reads_back_witness:
  "\<exists>s :: row option store. GetBackupCatalogState s
     = Inr (Some \<lparr>bc_Backups = [sampleBackup ''b2'' 6, sampleBackup ''b1'' 5], bc_ReconciledAt = 9\<rparr>)"
proof -
  obtain s1 where s1: "ReplaceCommittedBackupCatalog freshStore [sampleBackup ''b1'' 5, sampleBackup ''b2'' 6] 9 = (Inr (), s1)"
    using sample_replace by blast
  show ?thesis
    by (rule exI [of _ s1]) (use catalog_reads_back [OF _ _ s1 backupRun.start] in \<open>simp add: sample_backups\<close>)
qed

definition twoTasks :: "row option store" where
  "twoTasks = freshStore\<lparr>st_db := [(prefixBackupTask @ ''b1'', Some (RTask (sampleTask ''b1'' 5))),
     (prefixBackupTask @ ''b2'', Some (RTask (sampleTask ''b2'' 9)))]\<rparr>"

lemma twoTasks_scan:
  "scanPrefix (st_db twoTasks) prefixBackupTask = [(prefixBackupTask @ ''b1'', Some (RTask (sampleTask ''b1'' 5))),
     (prefixBackupTask @ ''b2'', Some (RTask (sampleTask ''b2'' 9)))]"
  by (simp add: twoTasks_def scanPrefix_def dbRange_def inRange_def key_defs prefixUpperBound_def less_char_def)

theorem ListBackupTasks_newest_witness: "ListBackupTasks twoTasks 1 = Inr [sampleTask ''b2'' 9]"
proof -
  have stored: "storedTask plainCodec (Some (RTask (sampleTask ''b1'' 5))) = Inr (sampleTask ''b1'' 5)"
    "storedTask plainCodec (Some (RTask (sampleTask ''b2'' 9))) = Inr (sampleTask ''b2'' 9)"
    by (simp_all add: storedTask_def validateStoredBackupTask_def normalizeBackupTask_def sampleTask_def
        validateCatalogBackupID_def validateBackupID_def validateOpaqueID_def isWindowsVolumePath_def
        isAlphaNumeric_def charIn_def maxBackupOpaqueIDBytes_def validateBackupTaskFields_def
        maxBackupTaskErrorBytes_def stateFieldsOK_def zeroTime_def)
  have ids: "bt_ID (sampleTask i tm) = i" "bt_StartedAt (sampleTask i tm) = tm" for i tm
    by (simp_all add: sampleTask_def)
  have "map (scannedTask (st_codec twoTasks)) (scanPrefix (st_db twoTasks) prefixBackupTask)
      = map Inr [sampleTask ''b1'' 5, sampleTask ''b2'' 9]"
    unfolding twoTasks_scan by (simp add: scannedTask_def stored ids twoTasks_def)
  from ListBackupTasks_newest [OF _ _ _ _ this, of 1] show ?thesis
    by (simp add: twoTasks_def wf_db_def maxBackupTaskListLimit_def ids)
qed

end
