(* ===== verification/Byte_Codec.thy ===== *)
theory Byte_Codec
  imports Nufs_Prelude
begin

text \<open>
  Byte buffers of the data node: the big-endian integers of \<open>encoding/binary\<close>, slices of a buffer,
  positional reads and writes of a file (\<open>ReadAt\<close>, \<open>WriteAt\<close>, \<open>Truncate\<close> of \<open>os.File\<close>) and the
  CRC-32C of \<open>datanode/storage/crc32c.go\<close>. Buffers and files are lists of bytes. The lemmas show
  that integers read back, that the fields of a buffer can be cut out again and that two buffers of
  equal length which differ in one byte never have the same checksum.
\<close>

section \<open>Big-endian integers\<close>

fun putBE :: "nat \<Rightarrow> nat \<Rightarrow> u8 list" where
  "putBE 0 n = []"
| "putBE (Suc k) n = putBE k (n div 256) @ [of_nat n]"

definition getBE :: "u8 list \<Rightarrow> nat" where
  "getBE bs = foldl (\<lambda>a b. 256 * a + unat b) 0 bs"

definition putUint16 :: "u16 \<Rightarrow> u8 list" where
  "putUint16 w = putBE 2 (unat w)"

definition putUint32 :: "u32 \<Rightarrow> u8 list" where
  "putUint32 w = putBE 4 (unat w)"

definition putUint64 :: "u64 \<Rightarrow> u8 list" where
  "putUint64 w = putBE 8 (unat w)"

definition getUint16 :: "u8 list \<Rightarrow> u16" where
  "getUint16 bs = of_nat (getBE bs)"

definition getUint32 :: "u8 list \<Rightarrow> u32" where
  "getUint32 bs = of_nat (getBE bs)"

definition getUint64 :: "u8 list \<Rightarrow> u64" where
  "getUint64 bs = of_nat (getBE bs)"

lemma length_putBE [simp]: "length (putBE k n) = k"
  by (induction k arbitrary: n) auto

lemma length_putUint [simp]:
  "length (putUint16 a) = 2" "length (putUint32 b) = 4" "length (putUint64 c) = 8"
  by (simp_all add: putUint16_def putUint32_def putUint64_def)

lemma getBE_snoc: "getBE (bs @ [b]) = 256 * getBE bs + unat b"
  by (simp add: getBE_def)

lemma getBE_putBE: "getBE (putBE k n) = n mod 256 ^ k"
proof (induction k arbitrary: n)
  case 0
  then show ?case by (simp add: getBE_def)
next
  case (Suc k)
  have "unat (of_nat n :: u8) = n mod 256" by (simp add: unsigned_of_nat take_bit_eq_mod)
  then show ?case
    by (simp add: getBE_snoc Suc mod_mult2_eq mult.commute)
qed

lemma getUint_putUint [simp]:
  "getUint16 (putUint16 a) = a" "getUint32 (putUint32 b) = b" "getUint64 (putUint64 c) = c"
proof -
  have "unat a < 2 ^ LENGTH(16)" "unat b < 2 ^ LENGTH(32)" "unat c < 2 ^ LENGTH(64)"
    by (rule unsigned_less)+
  then show "getUint16 (putUint16 a) = a" "getUint32 (putUint32 b) = b" "getUint64 (putUint64 c) = c"
    by (simp_all add: getUint16_def putUint16_def getUint32_def putUint32_def getUint64_def
        putUint64_def getBE_putBE)
qed

lemma putUint16_inject [simp]: "putUint16 a = putUint16 b \<longleftrightarrow> a = b"
  by (metis getUint_putUint(1))

lemma putUint32_inject [simp]: "putUint32 a = putUint32 b \<longleftrightarrow> a = b"
  by (metis getUint_putUint(2))

lemma putUint64_inject [simp]: "putUint64 a = putUint64 b \<longleftrightarrow> a = b"
  by (metis getUint_putUint(3))

lemma getBE_less: "getBE bs < 256 ^ length bs"
proof (induction bs rule: rev_induct)
  case Nil
  then show ?case by (simp add: getBE_def)
next
  case (snoc b bs)
  have "unat b < 256" using unsigned_less [of b] by simp
  with snoc show ?case by (simp add: getBE_snoc)
qed

lemma getBE_inject: "length a = length b \<Longrightarrow> getBE a = getBE b \<Longrightarrow> a = b"
proof (induction a arbitrary: b rule: rev_induct)
  case Nil
  then show ?case by simp
next
  case (snoc x a)
  then obtain c y where b: "b = c @ [y]" by (metis length_0_conv rev_exhaust snoc_eq_iff_butlast)
  have lt: "unat x < 256" "unat y < 256" using unsigned_less [of x] unsigned_less [of y] by simp_all
  have e: "256 * getBE a + unat x = 256 * getBE c + unat y"
    using snoc.prems(2) by (simp add: b getBE_snoc)
  have "getBE a = getBE c" using arg_cong [OF e, of "\<lambda>n. n div 256"] lt by simp
  moreover have "unat x = unat y" using arg_cong [OF e, of "\<lambda>n. n mod 256"] lt by simp
  ultimately show ?case using snoc.IH [of c] snoc.prems(1) by (simp add: b unsigned_word_eqI)
qed

lemma getUint32_inject:
  assumes "length a = 4" "length b = 4" "getUint32 a = getUint32 b"
  shows "a = b"
proof -
  have "getBE a < 2 ^ 32" "getBE b < 2 ^ 32" using getBE_less [of a] getBE_less [of b] assms by simp_all
  moreover have "unat (getUint32 a) = unat (getUint32 b)" using assms(3) by simp
  ultimately have "getBE a = getBE b" by (simp add: getUint32_def unsigned_of_nat take_bit_nat_eq_self)
  then show ?thesis using assms by (simp add: getBE_inject)
qed

section \<open>Slices and files\<close>

definition slice :: "nat \<Rightarrow> nat \<Rightarrow> u8 list \<Rightarrow> u8 list" where
  "slice a b src = take (b - a) (drop a src)"

lemma length_slice [simp]: "length (slice a b src) = min (b - a) (length src - a)"
  by (simp add: slice_def min.commute)

lemma slice_skip [simp]: "length xs \<le> a \<Longrightarrow> slice a b (xs @ ys) = slice (a - length xs) (b - length xs) ys"
  by (simp add: slice_def)

lemma slice_first [simp]: "b = length xs \<Longrightarrow> slice 0 b (xs @ ys) = xs"
  by (simp add: slice_def)

lemma slice_all [simp]: "b = length xs \<Longrightarrow> slice 0 b xs = xs"
  by (simp add: slice_def)

lemma slice_Cons [simp]: "0 < a \<Longrightarrow> slice a b (x # xs) = slice (a - 1) (b - 1) xs"
  by (cases a) (simp_all add: slice_def)

lemma slice_update: "slice a b (xs[i := x]) = (if a \<le> i \<and> i < b then (slice a b xs)[i - a := x] else slice a b xs)"
proof (cases "a \<le> i")
  case True
  then show ?thesis
    by (cases "i < b") (simp_all add: slice_def drop_update_swap take_update_swap list_update_beyond)
next
  case False
  then show ?thesis by (simp add: slice_def)
qed

text \<open>The bytes of a file from an offset on; a short read is an error of the caller's choice.\<close>

definition readAt :: "'e \<Rightarrow> u8 list \<Rightarrow> nat \<Rightarrow> nat \<Rightarrow> 'e + u8 list" where
  "readAt eof f off n = (if n = 0 then Inr [] else if off + n \<le> length f then Inr (take n (drop off f)) else Inl eof)"

definition writeAt :: "u8 list \<Rightarrow> nat \<Rightarrow> u8 list \<Rightarrow> u8 list" where
  "writeAt f off buf = take off (f @ replicate (off - length f) 0) @ buf @ drop (off + length buf) f"

definition truncateTo :: "u8 list \<Rightarrow> nat \<Rightarrow> u8 list" where
  "truncateTo f n = take n f @ replicate (n - length f) 0"

text \<open>The buffer stands in the file at the offset.\<close>

definition holds_at :: "u8 list \<Rightarrow> nat \<Rightarrow> u8 list \<Rightarrow> bool" where
  "holds_at f off buf \<longleftrightarrow> off + length buf \<le> length f \<and> take (length buf) (drop off f) = buf"

lemma writeAt_holds [simp]: "holds_at (writeAt f off buf) off buf"
  by (auto simp: holds_at_def writeAt_def)

lemma writeAt_end: "writeAt f (length f) buf = f @ buf"
  by (simp add: writeAt_def)

lemma writeAt_keeps:
  assumes "holds_at f p b" "p + length b \<le> off"
  shows "holds_at (writeAt f off buf) p b"
  using assms by (auto simp: holds_at_def writeAt_def drop_take min_def take_append)

lemma holds_at_readAt: "holds_at f off buf \<Longrightarrow> readAt e f off (length buf) = Inr buf"
  by (auto simp: holds_at_def readAt_def)

lemma holds_at_append: "holds_at f off (a @ b) \<longleftrightarrow> holds_at f off a \<and> holds_at f (off + length a) b"
proof
  assume h: "holds_at f off (a @ b)"
  have d: "take (length a + length b) (drop off f) = a @ b" using h by (simp add: holds_at_def)
  have "take (length a) (drop off f) = a"
    using arg_cong [OF d, of "take (length a)"] by simp
  moreover have "take (length b) (drop (off + length a) f) = b"
    using arg_cong [OF d, of "drop (length a)"] by (simp add: drop_take add.commute)
  ultimately show "holds_at f off a \<and> holds_at f (off + length a) b"
    using h by (simp add: holds_at_def)
next
  assume h: "holds_at f off a \<and> holds_at f (off + length a) b"
  then show "holds_at f off (a @ b)"
    by (simp add: holds_at_def take_add add.commute add.left_commute)
qed

lemma holds_at_extend: "holds_at f off buf \<Longrightarrow> holds_at (f @ g) off buf"
  by (auto simp: holds_at_def)

lemma holds_at_here: "holds_at (f @ b @ g) (length f) b"
  by (simp add: holds_at_def)

lemma holds_at_length: "holds_at f off buf \<Longrightarrow> off + length buf \<le> length f"
  by (simp add: holds_at_def)

lemma holds_at_slice: "holds_at f off (concat ps) \<Longrightarrow> i < length ps
  \<Longrightarrow> holds_at f (off + sum_list (map length (take i ps))) (ps ! i)"
proof (induction ps arbitrary: off i)
  case Nil
  then show ?case by simp
next
  case (Cons p ps)
  show ?case
  proof (cases i)
    case 0
    then show ?thesis using Cons.prems by (simp add: holds_at_append)
  next
    case (Suc j)
    then show ?thesis using Cons.prems Cons.IH [of "off + length p" j] by (simp add: holds_at_append add.assoc)
  qed
qed

section \<open>CRC-32C\<close>

text \<open>\<open>hash/crc32\<close> with the reflected Castagnoli polynomial, bit by bit.\<close>

definition crcBit :: "u32 \<Rightarrow> u32" where
  "crcBit s = (if bit s 0 then xor (drop_bit 1 s) 0x82F63B78 else drop_bit 1 s)"

definition crcByte :: "u32 \<Rightarrow> u8 \<Rightarrow> u32" where
  "crcByte s b = (crcBit ^^ 8) (xor s (ucast b))"

definition CRC32C :: "u8 list \<Rightarrow> u32" where
  "CRC32C data = not (foldl crcByte (- 1) data)"

text \<open>The polynomial has its top bit set, so the bit shifted out can be read off the result.\<close>

lemma crcBit_top: "bit (crcBit s) 31 \<longleftrightarrow> bit s 0"
proof -
  have "\<not> bit s 32" using bit_imp_le_length [of s 32] by auto
  then show ?thesis by (auto simp: crcBit_def bit_simps)
qed

lemma xor_cancel_left: "xor a b = xor a c \<Longrightarrow> b = (c :: 'a :: len word)"
  by (auto simp: bit_eq_iff bit_xor_iff)

lemma xor_cancel_right: "xor a c = xor b c \<Longrightarrow> a = (b :: 'a :: len word)"
  by (auto simp: bit_eq_iff bit_xor_iff)

lemma crcBit_inject: "crcBit s = crcBit t \<Longrightarrow> s = t"
proof -
  assume e: "crcBit s = crcBit t"
  have b0: "bit s 0 \<longleftrightarrow> bit t 0" using crcBit_top [of s] crcBit_top [of t] e by simp
  have d: "drop_bit 1 s = drop_bit 1 t"
  proof (cases "bit s 0")
    case True
    then have "xor (drop_bit 1 s) 0x82F63B78 = xor (drop_bit 1 t) (0x82F63B78 :: u32)"
      using e b0 by (simp add: crcBit_def)
    then show ?thesis by (rule xor_cancel_right)
  next
    case False
    then show ?thesis using e b0 by (simp add: crcBit_def)
  qed
  show ?thesis
  proof (rule bit_eqI)
    fix n
    show "bit s n \<longleftrightarrow> bit t n"
    proof (cases n)
      case 0
      then show ?thesis using b0 by simp
    next
      case (Suc m)
      then show ?thesis using arg_cong [OF d, of "\<lambda>w. bit w m"] by (simp add: bit_drop_bit_eq)
    qed
  qed
qed

lemma crcBit_pow_inject: "(crcBit ^^ n) s = (crcBit ^^ n) t \<Longrightarrow> s = t"
  by (induction n) (auto dest: crcBit_inject)

lemma crcByte_state: "crcByte s b = crcByte t b \<Longrightarrow> s = t"
  unfolding crcByte_def by (drule crcBit_pow_inject) (rule xor_cancel_right)

lemma crcByte_byte: "crcByte s a = crcByte s b \<Longrightarrow> a = b"
proof -
  assume "crcByte s a = crcByte s b"
  then have "xor s (ucast a) = xor s (ucast b)" unfolding crcByte_def by (rule crcBit_pow_inject)
  then have "(ucast a :: u32) = ucast b" by (rule xor_cancel_left)
  then have "unat (ucast a :: u32) = unat (ucast b :: u32)" by simp
  moreover have "unat a < 2 ^ LENGTH(8)" "unat b < 2 ^ LENGTH(8)" by (rule unsigned_less)+
  ultimately have "unat a = unat b" by (simp add: unsigned_ucast_eq take_bit_nat_eq_self)
  then show "a = b" by (rule unsigned_word_eqI)
qed

lemma crc_fold_state: "foldl crcByte s ys = foldl crcByte t ys \<Longrightarrow> s = t"
  by (induction ys arbitrary: s t) (auto dest: crcByte_state)

lemma CRC32C_update:
  assumes "i < length xs" "x \<noteq> xs ! i"
  shows "CRC32C (xs[i := x]) \<noteq> CRC32C xs"
proof
  assume e: "CRC32C (xs[i := x]) = CRC32C xs"
  let ?p = "foldl crcByte (- 1) (take i xs)"
  have xs: "xs = take i xs @ (xs ! i) # drop (Suc i) xs" using assms(1) by (simp add: id_take_nth_drop [symmetric])
  have ys: "xs[i := x] = take i xs @ x # drop (Suc i) xs" using assms(1) by (simp add: upd_conv_take_nth_drop)
  have "foldl crcByte (- 1) (xs[i := x]) = foldl crcByte (- 1) xs"
    using e by (simp add: CRC32C_def)
  then have "foldl crcByte (crcByte ?p x) (drop (Suc i) xs) = foldl crcByte (crcByte ?p (xs ! i)) (drop (Suc i) xs)"
    using arg_cong [OF ys, of "foldl crcByte (- 1)"] arg_cong [OF xs, of "foldl crcByte (- 1)"] by simp
  then have "crcByte ?p x = crcByte ?p (xs ! i)" by (rule crc_fold_state)
  then have "x = xs ! i" by (rule crcByte_byte)
  with assms(2) show False ..
qed

end
