(* ===== verification/Record_Crypto.thy ===== *)
theory Record_Crypto
  imports Byte_Codec
begin

text \<open>
  At-rest encryption of the data node: the blob format and the two key services of
  \<open>internal/crypto\<close> (\<open>LocalKMS\<close>, \<open>FileKMS\<close>) and the per-frame encryption and key registry of
  \<open>datanode/storage/encryption\<close>. AES-GCM is the field pair \<open>gcm_Seal\<close>, \<open>gcm_Open\<close> of an \<open>aead\<close>;
  \<open>aead_ok\<close> states what the algorithm documents: opening what was sealed with the same key, nonce and
  associated data returns the plaintext, and the tag is sixteen bytes. What \<open>rand.Reader\<close> yields is
  an argument, \<open>None\<close> when it fails. The directory of \<open>FileKMS\<close> is the list of its files.
\<close>

section \<open>Errors and AES-GCM\<close>

datatype StorageError =
    ErrExtentNotFound | ErrStaleGeneration | ErrUnsupportedRecordOperation | ErrChecksumMismatch
  | ErrSegmentUnavailable | ErrIndexCorrupt | ErrDecryptFailed | ErrQuarantined | ErrCapacity
  | ErrSegmentFull | ErrRecoveryBudgetExceeded | ErrStoreClosed | ErrInvalidRange
  | ErrEOF | ErrCrypto string | ErrFormat string | ErrPanic string

record aead =
  gcm_Seal :: "u8 list \<Rightarrow> u8 list \<Rightarrow> u8 list \<Rightarrow> u8 list \<Rightarrow> u8 list"
  gcm_Open :: "u8 list \<Rightarrow> u8 list \<Rightarrow> u8 list \<Rightarrow> u8 list \<Rightarrow> u8 list option"

definition aead_ok :: "aead \<Rightarrow> bool" where
  "aead_ok z \<longleftrightarrow> (\<forall>k n p a. gcm_Open z k n (gcm_Seal z k n p a) a = Some p
                    \<and> length (gcm_Seal z k n p a) = length p + 16)"

definition NonceSize :: nat where
  "NonceSize = 12"

definition AEADOverhead :: nat where
  "AEADOverhead = 16"

text \<open>\<open>aes.NewCipher\<close> accepts keys of sixteen, twenty-four and thirty-two bytes.\<close>

definition aesKey :: "u8 list \<Rightarrow> bool" where
  "aesKey key \<longleftrightarrow> length key = 16 \<or> length key = 24 \<or> length key = 32"

definition strBytes :: "string \<Rightarrow> u8 list" where
  "strBytes s = map (\<lambda>c. of_nat (of_char c)) s"

definition bytesStr :: "u8 list \<Rightarrow> string" where
  "bytesStr bs = map (\<lambda>b. char_of (unat b)) bs"

lemma bytesStr_strBytes [simp]: "bytesStr (strBytes s) = s"
proof -
  have "unat (of_nat (of_char c) :: u8) = of_char c" for c
    by (simp add: unsigned_of_nat take_bit_eq_mod)
  then show ?thesis by (simp add: bytesStr_def strBytes_def o_def)
qed

lemma length_strBytes [simp]: "length (strBytes s) = length s"
  by (simp add: strBytes_def)

section \<open>Frames (datanode/storage/encryption)\<close>

definition EncryptFrame :: "aead \<Rightarrow> u8 list option \<Rightarrow> u8 list \<Rightarrow> u8 list \<Rightarrow> StorageError + u8 list" where
  "EncryptFrame z rnd key plaintext =
     (if \<not> aesKey key then Inl (ErrCrypto ''aes new'')
      else case rnd of
             None \<Rightarrow> Inl (ErrCrypto ''nonce'')
           | Some nonce \<Rightarrow> Inr (nonce @ gcm_Seal z key nonce plaintext []))"

definition DecryptFrame :: "aead \<Rightarrow> u8 list \<Rightarrow> u8 list \<Rightarrow> StorageError + u8 list" where
  "DecryptFrame z key blob =
     (if \<not> aesKey key then Inl (ErrCrypto ''aes new'')
      else if length blob < NonceSize + AEADOverhead then Inl ErrDecryptFailed
      else case gcm_Open z key (take NonceSize blob) (drop NonceSize blob) [] of
             None \<Rightarrow> Inl (ErrCrypto ''message authentication failed'')
           | Some p \<Rightarrow> Inr p)"

definition FrameStoredLen :: "nat \<Rightarrow> nat" where
  "FrameStoredLen plainLen = plainLen + (NonceSize + AEADOverhead)"

lemma DecryptFrame_EncryptFrame:
  assumes "aead_ok z" "EncryptFrame z (Some nonce) key p = Inr q" "length nonce = NonceSize"
  shows "DecryptFrame z key q = Inr p" "length q = FrameStoredLen (length p)"
  using assms
  by (auto simp: EncryptFrame_def DecryptFrame_def aead_ok_def FrameStoredLen_def NonceSize_def
      AEADOverhead_def split: if_splits)

definition EncodeKeyID :: "string \<Rightarrow> StorageError + u8 list" where
  "EncodeKeyID kid =
     (let b = strBytes kid in
      if 65535 < length b then Inl (ErrCrypto ''key id too long'')
      else Inr (putUint16 (of_nat (length b)) @ b))"

definition DecodeKeyID :: "u8 list \<Rightarrow> StorageError + (string \<times> nat)" where
  "DecodeKeyID src =
     (if length src < 2 then Inl (ErrCrypto ''key id truncated'')
      else let n = unat (getUint16 (slice 0 2 src)) in
           if length src < 2 + n then Inl (ErrCrypto ''key id body truncated'')
           else Inr (bytesStr (slice 2 (2 + n) src), 2 + n))"

lemma unat_of_nat_u16: "n < 65536 \<Longrightarrow> unat (of_nat n :: u16) = n"
  by (simp add: unsigned_of_nat take_bit_nat_eq_self)

lemma DecodeKeyID_EncodeKeyID:
  assumes "EncodeKeyID kid = Inr b"
  shows "DecodeKeyID (b @ rest) = Inr (kid, length b)"
proof -
  have n: "length kid < 65536" and b: "b = putUint16 (of_nat (length kid)) @ strBytes kid"
    using assms by (auto simp: EncodeKeyID_def Let_def split: if_splits)
  show ?thesis using n by (simp add: DecodeKeyID_def b Let_def unat_of_nat_u16)
qed

section \<open>Key services (internal/crypto)\<close>

definition KeyIDLenSize :: nat where
  "KeyIDLenSize = 2"

text \<open>A sealed blob: the key identifier with its length, the nonce, the ciphertext with its tag.\<close>

definition sealedBlob :: "aead \<Rightarrow> u8 list \<Rightarrow> string \<Rightarrow> u8 list \<Rightarrow> u8 list \<Rightarrow> u8 list" where
  "sealedBlob z nonce kid key plain =
     putUint16 (of_nat (length (strBytes kid))) @ strBytes kid @ nonce @ gcm_Seal z key nonce plain (strBytes kid)"

definition Encrypt :: "aead \<Rightarrow> u8 list option \<Rightarrow> u8 list \<Rightarrow> string \<Rightarrow> u8 list \<Rightarrow> StorageError + u8 list" where
  "Encrypt z rnd plaintext kid key =
     (if length key \<noteq> 32 then Inl (ErrCrypto ''invalid key size'')
      else case rnd of
             None \<Rightarrow> Inl (ErrCrypto ''generate nonce'')
           | Some nonce \<Rightarrow> Inr (sealedBlob z nonce kid key plaintext))"

definition Decrypt :: "aead \<Rightarrow> (string \<Rightarrow> StorageError + u8 list) \<Rightarrow> u8 list \<Rightarrow> StorageError + u8 list" where
  "Decrypt z decryptDEK blob =
     (if length blob < KeyIDLenSize then Inl (ErrCrypto ''blob too short'')
      else let n = unat (getUint16 (slice 0 KeyIDLenSize blob)); off = KeyIDLenSize + n in
           if length blob < off then Inl (ErrCrypto ''truncated key ID'')
           else let kid = bytesStr (slice KeyIDLenSize off blob) in
           if length blob < off + NonceSize then Inl (ErrCrypto ''truncated nonce'')
           else let nonce = slice off (off + NonceSize) blob; ct = drop (off + NonceSize) blob in
           if length ct < 16 then Inl (ErrCrypto ''ciphertext too short'')
           else case decryptDEK kid of
                  Inl e \<Rightarrow> Inl e
                | Inr key \<Rightarrow>
                    if \<not> aesKey key then Inl (ErrCrypto ''aes new cipher'')
                    else case gcm_Open z key nonce ct (strBytes kid) of
                           None \<Rightarrow> Inl (ErrCrypto ''gcm open'')
                         | Some p \<Rightarrow> Inr p)"

definition unwrapDEK :: "aead \<Rightarrow> u8 list \<Rightarrow> string \<Rightarrow> u8 list \<Rightarrow> StorageError + u8 list" where
  "unwrapDEK z rec wantID kek =
     (if length rec < KeyIDLenSize then Inl (ErrCrypto ''DEK record too short'')
      else let n = unat (getUint16 (slice 0 KeyIDLenSize rec)); off = KeyIDLenSize + n in
           if length rec < off then Inl (ErrCrypto ''DEK record truncated id'')
           else let kid = bytesStr (slice KeyIDLenSize off rec) in
           if kid \<noteq> wantID then Inl (ErrCrypto ''DEK record id does not match'')
           else if length rec < off + NonceSize then Inl (ErrCrypto ''DEK record truncated nonce'')
           else let nonce = slice off (off + NonceSize) rec; ct = drop (off + NonceSize) rec in
           if length ct < 16 then Inl (ErrCrypto ''DEK record ciphertext too short'')
           else if \<not> aesKey kek then Inl (ErrCrypto ''aes new cipher'')
           else case gcm_Open z kek nonce ct (strBytes kid) of
                  None \<Rightarrow> Inl (ErrCrypto ''KEK failed to unwrap DEK'')
                | Some plain \<Rightarrow> Inr plain)"

definition wrapDEK :: "aead \<Rightarrow> u8 list option \<Rightarrow> u8 list \<Rightarrow> string \<Rightarrow> u8 list \<Rightarrow> StorageError + u8 list" where
  "wrapDEK z rnd plain kid kek =
     (if \<not> aesKey kek then Inl (ErrCrypto ''aes new cipher'')
      else case rnd of
             None \<Rightarrow> Inl (ErrCrypto ''generate nonce'')
           | Some nonce \<Rightarrow> Inr (sealedBlob z nonce kid kek plain))"

lemma sealedBlob_parts:
  assumes "aead_ok z" "length kid < 65536" "length nonce = NonceSize"
  shows "unat (getUint16 (slice 0 KeyIDLenSize (sealedBlob z nonce kid key p))) = length kid"
    "bytesStr (slice KeyIDLenSize (KeyIDLenSize + length kid) (sealedBlob z nonce kid key p)) = kid"
    "slice (KeyIDLenSize + length kid) (KeyIDLenSize + length kid + NonceSize) (sealedBlob z nonce kid key p) = nonce"
    "drop (KeyIDLenSize + length kid + NonceSize) (sealedBlob z nonce kid key p) = gcm_Seal z key nonce p (strBytes kid)"
    "length (sealedBlob z nonce kid key p) = KeyIDLenSize + length kid + NonceSize + length p + 16"
  using assms by (auto simp: sealedBlob_def KeyIDLenSize_def unat_of_nat_u16 aead_ok_def)

lemma unwrapDEK_wrapDEK:
  assumes "aead_ok z" "wrapDEK z (Some nonce) plain kid kek = Inr b" "length nonce = NonceSize" "length kid < 65536"
  shows "unwrapDEK z b kid kek = Inr plain"
proof -
  have k: "aesKey kek" and b: "b = sealedBlob z nonce kid kek plain"
    using assms(2) by (auto simp: wrapDEK_def split: if_splits)
  show ?thesis
    using assms(1) k sealedBlob_parts [OF assms(1,4,3), of kek plain]
    by (simp add: unwrapDEK_def b Let_def aead_ok_def)
qed

lemma Decrypt_Encrypt:
  assumes "aead_ok z" "Encrypt z (Some nonce) p kid key = Inr b" "length nonce = NonceSize"
    "length kid < 65536" "decryptDEK kid = Inr key"
  shows "Decrypt z decryptDEK b = Inr p"
proof -
  have k: "aesKey key" and b: "b = sealedBlob z nonce kid key p"
    using assms(2) by (auto simp: Encrypt_def aesKey_def split: if_splits)
  show ?thesis
    using assms(1,5) k sealedBlob_parts [OF assms(1,4,3), of key p]
    by (simp add: Decrypt_def b Let_def aead_ok_def)
qed

record LocalKMS =
  lk_keys :: "(string \<times> u8 list) list"
  lk_activeID :: string

definition lk_GenerateDEK :: "u8 list option \<Rightarrow> LocalKMS \<Rightarrow> (StorageError + string \<times> u8 list) \<times> LocalKMS" where
  "lk_GenerateDEK rnd k =
     (case rnd of
        None \<Rightarrow> (Inl (ErrCrypto ''generate DEK''), k)
      | Some key \<Rightarrow>
          let kid = ''local-'' @ FormatUint (of_nat (length (lk_keys k) + 1)) in
          (Inr (kid, key), k\<lparr>lk_keys := AList.update kid key (lk_keys k), lk_activeID := kid\<rparr>))"

definition NewLocalKMS :: "u8 list option \<Rightarrow> StorageError + LocalKMS" where
  "NewLocalKMS rnd =
     (case lk_GenerateDEK rnd \<lparr>lk_keys = [], lk_activeID = []\<rparr> of
        (Inl e, _) \<Rightarrow> Inl e
      | (Inr _, k) \<Rightarrow> Inr k)"

definition lk_DecryptDEK :: "LocalKMS \<Rightarrow> string \<Rightarrow> StorageError + u8 list" where
  "lk_DecryptDEK k kid =
     (case map_of (lk_keys k) kid of None \<Rightarrow> Inl (ErrCrypto ''DEK not found'') | Some key \<Rightarrow> Inr key)"

definition lk_ActiveDEK :: "LocalKMS \<Rightarrow> StorageError + string \<times> u8 list" where
  "lk_ActiveDEK k =
     (if lk_activeID k = [] then Inl (ErrCrypto ''no active DEK'')
      else case map_of (lk_keys k) (lk_activeID k) of
             None \<Rightarrow> Inl (ErrCrypto ''active DEK not found'')
           | Some key \<Rightarrow> Inr (lk_activeID k, key))"

record FileKMS =
  fk_dek :: "u8 list"
  fk_files :: "(string \<times> u8 list) list"
  fk_activeID :: string
  fk_seq :: u64

text \<open>The pattern \<open>^dek-([0-9]+).bin$\<close> with its submatch.\<close>

definition dekIDRe :: "string \<Rightarrow> string option" where
  "dekIDRe name =
     (let body = drop 4 name; n = length body - 4 in
      if take 4 name = ''dek-'' \<and> 4 \<le> length body \<and> drop n body = ''.bin''
         \<and> take n body \<noteq> [] \<and> list_all isDigit (take n body)
      then Some (take n body) else None)"

definition scanSeq :: "u64 \<Rightarrow> string \<Rightarrow> u64" where
  "scanSeq m name =
     (case dekIDRe name of
        None \<Rightarrow> m
      | Some d \<Rightarrow> (case ParseUint d of None \<Rightarrow> m | Some n \<Rightarrow> if m < n then n else m))"

definition scanExisting :: "(string \<times> u8 list) list \<Rightarrow> u64" where
  "scanExisting files = foldl scanSeq 0 (map fst files)"

definition isSpace :: "char \<Rightarrow> bool" where
  "isSpace c \<longleftrightarrow> of_char c \<in> {9, 10, 11, 12, 13, 32 :: nat}"

definition TrimSpace :: "string \<Rightarrow> string" where
  "TrimSpace s = rev (dropWhile isSpace (rev (dropWhile isSpace s)))"

definition NewFileKMS :: "u8 list \<Rightarrow> (string \<times> u8 list) list \<Rightarrow> FileKMS" where
  "NewFileKMS kek files =
     \<lparr>fk_dek = kek, fk_files = files,
      fk_activeID = (case map_of files ''active.dek'' of None \<Rightarrow> [] | Some b \<Rightarrow> TrimSpace (bytesStr b)),
      fk_seq = scanExisting files\<rparr>"

definition dekPath :: "string \<Rightarrow> string" where
  "dekPath kid = (if list_ex (\<lambda>c. c = CHR ''/'' \<or> c = CHR 0x5C) kid then ''invalid'' else kid @ ''.bin'')"

definition persistDEKLocked ::
  "aead \<Rightarrow> u8 list option \<Rightarrow> FileKMS \<Rightarrow> string \<Rightarrow> u8 list \<Rightarrow> (StorageError + unit) \<times> FileKMS" where
  "persistDEKLocked z rnd k kid plain =
     (case wrapDEK z rnd plain kid (fk_dek k) of
        Inl e \<Rightarrow> (Inl e, k)
      | Inr blob \<Rightarrow> (Inr (), k\<lparr>fk_files := AList.update (dekPath kid) blob (fk_files k)\<rparr>))"

definition writeActiveLocked :: "FileKMS \<Rightarrow> string \<Rightarrow> FileKMS" where
  "writeActiveLocked k kid =
     k\<lparr>fk_activeID := kid, fk_files := AList.update ''active.dek'' (strBytes kid) (fk_files k)\<rparr>"

definition dekName :: "u64 \<Rightarrow> string" where
  "dekName n = ''dek-'' @ FormatUint n"

definition fk_GenerateDEK ::
  "aead \<Rightarrow> u8 list option \<Rightarrow> u8 list option \<Rightarrow> FileKMS \<Rightarrow> (StorageError + string \<times> u8 list) \<times> FileKMS" where
  "fk_GenerateDEK z rnd nonce k =
     (case rnd of
        None \<Rightarrow> (Inl (ErrCrypto ''generate DEK''), k)
      | Some plain \<Rightarrow>
          let k1 = k\<lparr>fk_seq := fk_seq k + 1\<rparr>;
              kid = dekName (fk_seq k1)
          in case persistDEKLocked z nonce k1 kid plain of
               (Inl e, k2) \<Rightarrow> (Inl e, k2)
             | (Inr _, k2) \<Rightarrow> (Inr (kid, plain), writeActiveLocked k2 kid))"

definition fk_DecryptDEK :: "aead \<Rightarrow> FileKMS \<Rightarrow> string \<Rightarrow> StorageError + u8 list" where
  "fk_DecryptDEK z k kid =
     (if kid = [] then Inl (ErrCrypto ''empty DEK id'')
      else case map_of (fk_files k) (dekPath kid) of
             None \<Rightarrow> Inl (ErrCrypto ''read DEK record'')
           | Some blob \<Rightarrow> unwrapDEK z blob kid (fk_dek k))"

definition fk_ActiveDEK ::
  "aead \<Rightarrow> u8 list option \<Rightarrow> u8 list option \<Rightarrow> FileKMS \<Rightarrow> (StorageError + string \<times> u8 list) \<times> FileKMS" where
  "fk_ActiveDEK z rnd nonce k =
     (if fk_activeID k = [] then fk_GenerateDEK z rnd nonce k
      else case fk_DecryptDEK z k (fk_activeID k) of
             Inl e \<Rightarrow> (Inl e, k)
           | Inr plain \<Rightarrow> (Inr (fk_activeID k, plain), k))"

definition ListDEKIDs :: "FileKMS \<Rightarrow> string list" where
  "ListDEKIDs k =
     sort (map (\<lambda>name. take (length name - 4) name)
             (filter (\<lambda>name. dekIDRe name \<noteq> None) (map fst (fk_files k))))"

datatype KMS = LocalService LocalKMS | FileService FileKMS

definition kms_ActiveDEK ::
  "aead \<Rightarrow> u8 list option \<Rightarrow> u8 list option \<Rightarrow> KMS \<Rightarrow> (StorageError + string \<times> u8 list) \<times> KMS" where
  "kms_ActiveDEK z rnd nonce kms =
     (case kms of
        LocalService k \<Rightarrow> (lk_ActiveDEK k, kms)
      | FileService k \<Rightarrow> (case fk_ActiveDEK z rnd nonce k of (r, k') \<Rightarrow> (r, FileService k')))"

definition kms_DecryptDEK :: "aead \<Rightarrow> KMS \<Rightarrow> string \<Rightarrow> StorageError + u8 list" where
  "kms_DecryptDEK z kms kid =
     (case kms of LocalService k \<Rightarrow> lk_DecryptDEK k kid | FileService k \<Rightarrow> fk_DecryptDEK z k kid)"

text \<open>The optional interface \<open>KeyEnumerator\<close>: only \<open>FileKMS\<close> has it.\<close>

definition kms_ListDEKIDs :: "KMS \<Rightarrow> string list option" where
  "kms_ListDEKIDs kms = (case kms of LocalService k \<Rightarrow> None | FileService k \<Rightarrow> Some (ListDEKIDs k))"

section \<open>The key registry\<close>

record KeyRegistry =
  kr_kms :: "KMS option"
  kr_cache :: "(string \<times> u8 list) list"
  kr_numericToID :: "(u64 \<times> string) list"
  kr_idToNumeric :: "(string \<times> u64) list"

definition fnv1a :: "string \<Rightarrow> u64" where
  "fnv1a s = foldl (\<lambda>h c. xor h (of_nat (of_char c)) * 1099511628211) 14695981039346656037 s"

definition lastField :: "string \<Rightarrow> string" where
  "lastField s = rev (takeWhile (\<lambda>c. c \<noteq> CHR ''-'') (rev s))"

definition hashNumeric :: "string \<Rightarrow> u64" where
  "hashNumeric s = (let n = fnv1a s in if n = 0 then 1 else n)"

definition numericFor :: "string \<Rightarrow> u64" where
  "numericFor s =
     (if CHR ''-'' \<in> set s \<and> lastField s \<noteq> []
      then (case ParseUint (lastField s) of
              Some n \<Rightarrow> if 0 < n then n else hashNumeric s
            | None \<Rightarrow> hashNumeric s)
      else hashNumeric s)"

definition numericOf :: "KeyRegistry \<Rightarrow> string \<Rightarrow> u64 \<times> KeyRegistry" where
  "numericOf r kid =
     (let n = numericFor kid in
      case map_of (kr_numericToID r) n of
        Some existing \<Rightarrow>
          if existing \<noteq> kid then (n, r)
          else (n, r\<lparr>kr_numericToID := AList.update n kid (kr_numericToID r),
                     kr_idToNumeric := AList.update kid n (kr_idToNumeric r)\<rparr>)
      | None \<Rightarrow> (n, r\<lparr>kr_numericToID := AList.update n kid (kr_numericToID r),
                       kr_idToNumeric := AList.update kid n (kr_idToNumeric r)\<rparr>))"

definition NewKeyRegistry :: "aead \<Rightarrow> u8 list option \<Rightarrow> u8 list option \<Rightarrow> KMS option \<Rightarrow> KeyRegistry" where
  "NewKeyRegistry z rnd nonce kms =
     (let r = \<lparr>kr_kms = kms, kr_cache = [], kr_numericToID = [], kr_idToNumeric = []\<rparr> in
      case kms of
        None \<Rightarrow> r
      | Some m \<Rightarrow>
          (case kms_ActiveDEK z rnd nonce m of
             (Inl _, m') \<Rightarrow> r\<lparr>kr_kms := Some m'\<rparr>
           | (Inr (kid, _), m') \<Rightarrow> snd (numericOf (r\<lparr>kr_kms := Some m'\<rparr>) kid)))"

definition ActiveKey ::
  "aead \<Rightarrow> u8 list option \<Rightarrow> u8 list option \<Rightarrow> KeyRegistry \<Rightarrow> (StorageError + u64 \<times> u8 list option) \<times> KeyRegistry" where
  "ActiveKey z rnd nonce r =
     (case kr_kms r of
        None \<Rightarrow> (Inr (0, None), r)
      | Some m \<Rightarrow>
          (case kms_ActiveDEK z rnd nonce m of
             (Inl e, m') \<Rightarrow> (Inl e, r\<lparr>kr_kms := Some m'\<rparr>)
           | (Inr (kid, key), m') \<Rightarrow>
               (case numericOf (r\<lparr>kr_kms := Some m'\<rparr>) kid of (n, r') \<Rightarrow> (Inr (n, Some key), r'))))"

definition Resolve :: "aead \<Rightarrow> KeyRegistry \<Rightarrow> string \<Rightarrow> (StorageError + u8 list option) \<times> KeyRegistry" where
  "Resolve z r kid =
     (case kr_kms r of
        None \<Rightarrow> (Inr None, r)
      | Some m \<Rightarrow>
          (case map_of (kr_cache r) kid of
             Some key \<Rightarrow> (Inr (Some key), r)
           | None \<Rightarrow>
               (case kms_DecryptDEK z m kid of
                  Inl e \<Rightarrow> (Inl e, r)
                | Inr key \<Rightarrow> (Inr (Some key), r\<lparr>kr_cache := AList.update kid key (kr_cache r)\<rparr>))))"

definition ResolveNumeric :: "aead \<Rightarrow> KeyRegistry \<Rightarrow> u64 \<Rightarrow> (StorageError + u8 list option) \<times> KeyRegistry" where
  "ResolveNumeric z r numeric =
     (case kr_kms r of
        None \<Rightarrow> (Inr None, r)
      | Some m \<Rightarrow>
          (case map_of (kr_numericToID r) numeric of
             Some kid \<Rightarrow> Resolve z r kid
           | None \<Rightarrow>
               (case kms_ListDEKIDs m of
                  None \<Rightarrow> (Inl (ErrCrypto ''unknown numeric key id''), r)
                | Some ids \<Rightarrow>
                    (case find (\<lambda>cand. numericFor cand = numeric) ids of
                       None \<Rightarrow> (Inl (ErrCrypto ''unknown numeric key id''), r)
                     | Some kid \<Rightarrow>
                         Resolve z (r\<lparr>kr_numericToID := AList.update numeric kid (kr_numericToID r),
                                      kr_idToNumeric := AList.update kid numeric (kr_idToNumeric r)\<rparr>) kid))))"

definition Enabled :: "KeyRegistry \<Rightarrow> bool" where
  "Enabled r \<longleftrightarrow> kr_kms r \<noteq> None"

section \<open>Keys survive restarts\<close>

lemma dash_notin_FormatUint [simp]: "CHR ''-'' \<notin> set (FormatUint n)"
  using FormatUint_digits [of n] by (auto simp: list_all_iff isDigit_def)

lemma backslash_notin_FormatUint [simp]: "CHR 0x5C \<notin> set (FormatUint n)"
  using FormatUint_digits [of n] by (auto simp: list_all_iff isDigit_def)

lemma showDec_short: "n < 10 ^ m \<Longrightarrow> 0 < m \<Longrightarrow> length (showDec n) \<le> m"
proof (induction m arbitrary: n)
  case (Suc m)
  show ?case
  proof (cases "n < 10")
    case True
    then show ?thesis by (subst showDec.simps) simp
  next
    case False
    then have "0 < m" using Suc.prems(1) by (cases m) auto
    moreover have "n div 10 < 10 ^ m" using Suc.prems(1) by (simp add: less_mult_imp_div_less)
    ultimately show ?thesis using Suc.IH [of "n div 10"] False by (subst showDec.simps) simp
  qed
qed simp

lemma length_dekName: "length (dekName n) < 65536"
proof -
  have "unat n < 2 ^ LENGTH(64)" by (rule unsigned_less)
  then have "unat n < 10 ^ 20" by simp
  then show ?thesis using showDec_short [of "unat n" 20] by (simp add: dekName_def FormatUint_def)
qed

lemma dekName_inject [simp]: "dekName m = dekName n \<longleftrightarrow> m = n"
  by (simp add: dekName_def)

lemma dekName_not_Nil [simp]: "dekName n \<noteq> []"
  by (simp add: dekName_def)

lemma numericFor_dekName: "0 < n \<Longrightarrow> numericFor (dekName n) = n"
proof -
  have "lastField (dekName n) = FormatUint n"
  proof -
    have "takeWhile (\<lambda>c. c \<noteq> CHR ''-'') (rev (FormatUint n) @ ''-ked'') = rev (FormatUint n)"
      by (subst takeWhile_append2) (auto intro: ccontr)
    then show ?thesis by (simp add: lastField_def dekName_def)
  qed
  then show "0 < n \<Longrightarrow> numericFor (dekName n) = n" by (simp add: numericFor_def) (simp add: dekName_def)
qed

lemma dekPath_dekName [simp]: "dekPath (dekName n) = dekName n @ ''.bin''"
proof -
  have "\<not> list_ex (\<lambda>c. c = CHR ''/'' \<or> c = CHR 0x5C) (FormatUint n)"
    by (auto simp: list_ex_iff)
  then show ?thesis by (simp add: dekPath_def dekName_def)
qed

lemma dekIDRe_dekName [simp]: "dekIDRe (dekName n @ ''.bin'') = Some (FormatUint n)"
  using FormatUint_digits [of n] by (simp add: dekIDRe_def dekName_def Let_def)

lemma dekPath_not_active: "dekPath kid \<noteq> ''active.dek''"
proof
  assume "dekPath kid = ''active.dek''"
  then have "rev (dekPath kid) = rev ''active.dek''" by simp
  then show False by (auto simp: dekPath_def split: if_splits)
qed

lemma dekIDRe_active [simp]: "dekIDRe ''active.dek'' = None"
  by (simp add: dekIDRe_def)

text \<open>Every record file was written by the generator and its number is not above the counter.\<close>

definition fk_ok :: "FileKMS \<Rightarrow> bool" where
  "fk_ok k \<longleftrightarrow> (\<forall>name \<in> set (map fst (fk_files k)).
     name = ''active.dek'' \<or> (\<exists>n. 0 < n \<and> n \<le> fk_seq k \<and> name = dekName n @ ''.bin''))"

definition active_ok :: "FileKMS \<Rightarrow> bool" where
  "active_ok k \<longleftrightarrow>
     (if fk_activeID k = [] then map_of (fk_files k) ''active.dek'' = None
      else map_of (fk_files k) ''active.dek'' = Some (strBytes (fk_activeID k)) \<and> (\<exists>n > 0. fk_activeID k = dekName n))"

text \<open>The service holds the key under a generated identifier.\<close>

definition holds_key :: "aead \<Rightarrow> FileKMS \<Rightarrow> string \<times> u8 list \<Rightarrow> bool" where
  "holds_key z k e \<longleftrightarrow> (\<exists>n > 0. fst e = dekName n) \<and> fk_DecryptDEK z k (fst e) = Inr (snd e)"

lemma fk_DecryptDEK_file:
  "fk_DecryptDEK z k kid = Inr key \<longleftrightarrow>
     kid \<noteq> [] \<and> (\<exists>blob. map_of (fk_files k) (dekPath kid) = Some blob \<and> unwrapDEK z blob kid (fk_dek k) = Inr key)"
  by (auto simp: fk_DecryptDEK_def split: option.splits)

lemma fresh_name: "fk_ok k \<Longrightarrow> fk_seq k < n \<Longrightarrow> dekName n @ ''.bin'' \<notin> set (map fst (fk_files k))"
  by (auto simp: fk_ok_def dekName_def)

lemma word_step: "(s :: u64) \<noteq> - 1 \<Longrightarrow> s < s + 1 \<and> 0 < s + 1"
proof -
  assume "s \<noteq> - 1"
  then have "1 + s \<noteq> 0" by (metis add.inverse_unique)
  then have "unat (s + 1) = Suc (unat s)" by (metis unatSuc add.commute)
  then show ?thesis by (simp add: word_less_nat_alt)
qed

lemma generate_cases:
  assumes "fk_GenerateDEK z rnd nonce k = (Inr (kid, key), k')"
  obtains blob where "rnd = Some key" "kid = dekName (fk_seq k + 1)"
    "wrapDEK z nonce key kid (fk_dek k) = Inr blob"
    "k' = k\<lparr>fk_seq := fk_seq k + 1, fk_activeID := kid,
            fk_files := AList.update ''active.dek'' (strBytes kid) (AList.update (kid @ ''.bin'') blob (fk_files k))\<rparr>"
  using assms
  by (auto simp: fk_GenerateDEK_def persistDEKLocked_def writeActiveLocked_def Let_def
      split: option.splits sum.splits)

lemma generate_ok:
  assumes g: "fk_GenerateDEK z (Some key0) (Some nonce) k = (Inr (kid, key), k')"
    and z: "aead_ok z" and n: "length nonce = NonceSize" and k: "fk_ok k" and s: "fk_seq k \<noteq> - 1"
  shows "fk_ok k'" "active_ok k'" "holds_key z k' (kid, key)" "fk_dek k' = fk_dek k" "fk_seq k' = fk_seq k + 1"
    "holds_key z k e \<Longrightarrow> holds_key z k' e"
proof -
  obtain blob where kid: "kid = dekName (fk_seq k + 1)"
    and w: "wrapDEK z (Some nonce) key kid (fk_dek k) = Inr blob"
    and k': "k' = k\<lparr>fk_seq := fk_seq k + 1, fk_activeID := kid,
            fk_files := AList.update ''active.dek'' (strBytes kid) (AList.update (kid @ ''.bin'') blob (fk_files k))\<rparr>"
    using g by (rule generate_cases) simp
  have pos: "fk_seq k < fk_seq k + 1" "0 < fk_seq k + 1" using word_step [OF s] by simp_all
  show "fk_ok k'"
    unfolding fk_ok_def
  proof
    fix name assume "name \<in> set (map fst (fk_files k'))"
    then have "name = ''active.dek'' \<or> name = kid @ ''.bin'' \<or> name \<in> set (map fst (fk_files k))"
      by (simp add: k' AList.update_keys split: if_splits) (auto simp: AList.update_keys split: if_splits)
    then show "name = ''active.dek'' \<or> (\<exists>n. 0 < n \<and> n \<le> fk_seq k' \<and> name = dekName n @ ''.bin'')"
    proof (elim disjE)
      assume "name = kid @ ''.bin''"
      then show ?thesis using pos by (auto simp: kid k')
    next
      assume "name \<in> set (map fst (fk_files k))"
      then consider "name = ''active.dek''" | n where "0 < n" "n \<le> fk_seq k" "name = dekName n @ ''.bin''"
        using k by (auto simp: fk_ok_def)
      then show ?thesis
      proof cases
        case 2
        then show ?thesis using pos(1) by (auto simp: k' intro: order.trans less_imp_le)
      qed simp
    qed simp
  qed
  show "fk_dek k' = fk_dek k" "fk_seq k' = fk_seq k + 1" by (simp_all add: k')
  show "active_ok k'" using pos by (auto simp: active_ok_def k' kid map_of_update)
  have len: "length kid < 65536" unfolding kid by (rule length_dekName)
  have f: "map_of (fk_files k') p = (if p = ''active.dek'' then Some (strBytes kid) else if p = kid @ ''.bin'' then Some blob else map_of (fk_files k) p)" for p
    by (simp add: k' AList.update_conv)
  show "holds_key z k' (kid, key)"
    using pos unwrapDEK_wrapDEK [OF z w n len] dekPath_not_active [of kid]
    by (auto simp: holds_key_def fk_DecryptDEK_file f kid) (simp add: k')
  show "holds_key z k' e" if h: "holds_key z k e"
  proof -
    obtain m blob' where m: "fst e = dekName m" "0 < m"
      and b: "map_of (fk_files k) (dekName m @ ''.bin'') = Some blob'" "unwrapDEK z blob' (fst e) (fk_dek k) = Inr (snd e)"
      using h by (auto simp: holds_key_def fk_DecryptDEK_file)
    have "dekName m @ ''.bin'' \<in> set (map fst (fk_files k))" using b(1) by (force dest: map_of_SomeD)
    then have "m \<noteq> fk_seq k + 1" using fresh_name [OF k pos(1)] by auto
    then show ?thesis using m b dekPath_not_active [of "dekName m"]
      by (auto simp: holds_key_def fk_DecryptDEK_file f kid) (simp add: k')
  qed
qed

lemma scanSeq_mono: "m \<le> foldl scanSeq m names"
proof (induction names arbitrary: m)
  case (Cons a names)
  have "m \<le> scanSeq m a" by (auto simp: scanSeq_def split: option.splits)
  then show ?case using Cons [of "scanSeq m a"] by simp
qed simp

lemma scanSeq_covers: "dekName n @ ''.bin'' \<in> set names \<Longrightarrow> n \<le> foldl scanSeq m names"
proof (induction names arbitrary: m)
  case (Cons a names)
  show ?case
  proof (cases "a = dekName n @ ''.bin''")
    case True
    have "n \<le> scanSeq m a" by (auto simp: True scanSeq_def)
    then show ?thesis using scanSeq_mono [of "scanSeq m a" names] by simp
  next
    case False
    then show ?thesis using Cons.IH [of "scanSeq m a"] Cons.prems by auto
  qed
qed simp

lemma scanSeq_bound:
  "m \<le> s \<Longrightarrow> (\<And>name. name \<in> set names \<Longrightarrow> name = ''active.dek'' \<or> (\<exists>n. 0 < n \<and> n \<le> s \<and> name = dekName n @ ''.bin''))
     \<Longrightarrow> foldl scanSeq m names \<le> s"
proof (induction names arbitrary: m)
  case (Cons a names)
  have "scanSeq m a \<le> s"
    using Cons.prems(1) Cons.prems(2) [of a] by (auto simp: scanSeq_def split: option.splits)
  then show ?case using Cons.IH [of "scanSeq m a"] Cons.prems(2) by simp
qed simp

definition restart :: "FileKMS \<Rightarrow> FileKMS" where
  "restart k = NewFileKMS (fk_dek k) (fk_files k)"

lemma restart_simps [simp]: "fk_dek (restart k) = fk_dek k" "fk_files (restart k) = fk_files k"
  by (simp_all add: restart_def NewFileKMS_def)

lemma restart_seq: "fk_ok k \<Longrightarrow> fk_seq (restart k) \<le> fk_seq k"
  unfolding restart_def NewFileKMS_def scanExisting_def
  by (simp, rule scanSeq_bound) (auto simp: fk_ok_def)

lemma restart_fk_ok: "fk_ok k \<Longrightarrow> fk_ok (restart k)"
proof -
  assume k: "fk_ok k"
  have s: "n \<le> fk_seq (restart k)" if "dekName n @ ''.bin'' \<in> set (map fst (fk_files k))" for n
    using scanSeq_covers [OF that] by (simp add: restart_def NewFileKMS_def scanExisting_def)
  show "fk_ok (restart k)"
    unfolding fk_ok_def restart_simps
  proof
    fix name assume m: "name \<in> set (map fst (fk_files k))"
    then consider "name = ''active.dek''" | n where "0 < n" "name = dekName n @ ''.bin''"
      using k unfolding fk_ok_def by blast
    then show "name = ''active.dek'' \<or> (\<exists>n. 0 < n \<and> n \<le> fk_seq (restart k) \<and> name = dekName n @ ''.bin'')"
      by cases (use m s in blast)+
  qed
qed

lemma restart_DecryptDEK [simp]: "fk_DecryptDEK z (restart k) kid = fk_DecryptDEK z k kid"
  by (simp add: fk_DecryptDEK_def split: option.split)

lemma TrimSpace_dekName [simp]: "TrimSpace (dekName n) = dekName n"
proof -
  obtain d ds where d: "rev (FormatUint n) = d # ds"
    by (metis FormatUint_not_Nil neq_Nil_conv rev_is_Nil_conv)
  have "isDigit d" using FormatUint_digits [of n] arg_cong [OF d, of set] by (auto simp: list_all_iff)
  then have s: "\<not> isSpace d" "\<not> isSpace (CHR ''d'')" by (auto simp: isSpace_def isDigit_def)
  have "rev (d # ds) = FormatUint n" by (metis d rev_rev_ident)
  then show ?thesis using s by (simp add: TrimSpace_def dekName_def d)
qed

lemma restart_active: "active_ok k \<Longrightarrow> fk_activeID (restart k) = fk_activeID k"
  by (auto simp: active_ok_def restart_def NewFileKMS_def split: if_splits)

lemma restart_active_ok: "active_ok k \<Longrightarrow> active_ok (restart k)"
  using restart_active [of k] by (simp add: active_ok_def)

text \<open>A life of the key service: keys are generated or asked for, and the process restarts.\<close>

datatype kmsOp = OpGenerate "u8 list" "u8 list" | OpActive "u8 list" "u8 list" | OpRestart

definition kmsStep :: "aead \<Rightarrow> FileKMS \<Rightarrow> kmsOp \<Rightarrow> (string \<times> u8 list) list \<times> FileKMS" where
  "kmsStep z k p =
     (case p of
        OpGenerate key nonce \<Rightarrow>
          (case fk_GenerateDEK z (Some key) (Some nonce) k of (Inl _, k') \<Rightarrow> ([], k') | (Inr e, k') \<Rightarrow> ([e], k'))
      | OpActive key nonce \<Rightarrow>
          (case fk_ActiveDEK z (Some key) (Some nonce) k of (Inl _, k') \<Rightarrow> ([], k') | (Inr e, k') \<Rightarrow> ([e], k'))
      | OpRestart \<Rightarrow> ([], restart k))"

fun kmsRun :: "aead \<Rightarrow> FileKMS \<Rightarrow> kmsOp list \<Rightarrow> (string \<times> u8 list) list \<times> FileKMS" where
  "kmsRun z k [] = ([], k)"
| "kmsRun z k (p # ps) = (case kmsStep z k p of (es, k1) \<Rightarrow> (case kmsRun z k1 ps of (es', k2) \<Rightarrow> (es @ es', k2)))"

definition op_ok :: "kmsOp \<Rightarrow> bool" where
  "op_ok p \<longleftrightarrow> (case p of OpGenerate _ n \<Rightarrow> length n = NonceSize | OpActive _ n \<Rightarrow> length n = NonceSize | OpRestart \<Rightarrow> True)"

definition kms_inv :: "aead \<Rightarrow> u8 list \<Rightarrow> nat \<Rightarrow> (string \<times> u8 list) list \<Rightarrow> FileKMS \<Rightarrow> bool" where
  "kms_inv z kek b es k \<longleftrightarrow> fk_ok k \<and> active_ok k \<and> fk_dek k = kek \<and> unat (fk_seq k) \<le> b
     \<and> list_all (holds_key z k) es \<and> (es \<noteq> [] \<longrightarrow> fk_activeID k \<noteq> [])
     \<and> (fk_activeID k \<noteq> [] \<longrightarrow> (\<exists>key. holds_key z k (fk_activeID k, key)))"

lemma generate_inv:
  assumes i: "kms_inv z kek b es k" and z: "aead_ok z" and n: "length nonce = NonceSize"
    and a: "aesKey kek" and b: "b < 2 ^ 64 - 1"
    and g: "fk_GenerateDEK z (Some key) (Some nonce) k = (r, k')"
  shows "\<exists>e. r = Inr e \<and> kms_inv z kek (Suc b) (es @ [e]) k'"
proof -
  have ok: "fk_ok k" and d: "fk_dek k = kek" using i by (simp_all add: kms_inv_def)
  have "unat (fk_seq k) < 2 ^ 64 - 1" using i b by (simp add: kms_inv_def)
  moreover have "unat (- 1 :: u64) = 2 ^ 64 - 1" by (simp add: unsigned_minus_1_eq_mask mask_eq_exp_minus_1)
  ultimately have s: "fk_seq k \<noteq> - 1" by (metis less_irrefl)
  obtain kid key' where r: "r = Inr (kid, key')"
    using g a d by (auto simp: fk_GenerateDEK_def persistDEKLocked_def wrapDEK_def Let_def)
  note G = generate_ok [OF g [unfolded r] z n ok s]
  have u: "unat (fk_seq k + 1) = Suc (unat (fk_seq k))"
    using unatSuc [of "fk_seq k"] s by (simp add: add.commute eq_neg_iff_add_eq_0)
  have "fk_activeID k' = kid" using g [unfolded r] by (rule generate_cases) simp
  moreover have "list_all (holds_key z k') es"
    using i G(6) by (auto simp: kms_inv_def list_all_iff)
  moreover have "kid \<noteq> []" using G(3) by (auto simp: holds_key_def)
  ultimately have "kms_inv z kek (Suc b) (es @ [(kid, key')]) k'"
    using i G(1-3) u unfolding kms_inv_def G(4,5) by (simp add: d) blast
  then show ?thesis using r by blast
qed

lemma active_inv:
  assumes i: "kms_inv z kek b es k" and ne: "fk_activeID k \<noteq> []"
    and g: "fk_ActiveDEK z rnd nonce k = (r, k')"
  shows "\<exists>e. r = Inr e \<and> kms_inv z kek (Suc b) (es @ [e]) k'"
proof -
  obtain key where "holds_key z k (fk_activeID k, key)" using i ne by (auto simp: kms_inv_def)
  then show ?thesis using g i ne by (auto simp: fk_ActiveDEK_def holds_key_def kms_inv_def)
qed

lemma restart_inv: "kms_inv z kek b es k \<Longrightarrow> kms_inv z kek (Suc b) es (restart k)"
  using restart_seq [of k]
  by (auto simp: kms_inv_def restart_fk_ok restart_active_ok restart_active holds_key_def word_le_nat_alt
      list_all_iff)

lemma kmsStep_inv:
  assumes i: "kms_inv z kek b es k" and z: "aead_ok z" and n: "op_ok p" and a: "aesKey kek" and b: "b < 2 ^ 64 - 1"
    and g: "kmsStep z k p = (es', k')"
  shows "kms_inv z kek (Suc b) (es @ es') k'"
proof (cases p)
  case (OpGenerate key nonce)
  obtain r k1 where r: "fk_GenerateDEK z (Some key) (Some nonce) k = (r, k1)" by fastforce
  have "length nonce = NonceSize" using n OpGenerate by (simp add: op_ok_def)
  from generate_inv [OF i z this a b r] show ?thesis
    using g r by (auto simp: kmsStep_def OpGenerate)
next
  case (OpActive key nonce)
  obtain r k1 where r: "fk_ActiveDEK z (Some key) (Some nonce) k = (r, k1)" by fastforce
  have l: "length nonce = NonceSize" using n OpActive by (simp add: op_ok_def)
  have "\<exists>e. r = Inr e \<and> kms_inv z kek (Suc b) (es @ [e]) k1"
  proof (cases "fk_activeID k = []")
    case True
    then show ?thesis using generate_inv [OF i z l a b] r by (simp add: fk_ActiveDEK_def)
  next
    case False
    then show ?thesis using active_inv [OF i] r by blast
  qed
  then show ?thesis using g r by (auto simp: kmsStep_def OpActive)
next
  case OpRestart
  then show ?thesis using g restart_inv [OF i] by (simp add: kmsStep_def)
qed

lemma kmsRun_inv:
  assumes "kms_inv z kek b es k" "aead_ok z" "list_all op_ok ps" "aesKey kek" "b + length ps < 2 ^ 64"
    "kmsRun z k ps = (es', k')"
  shows "kms_inv z kek (b + length ps) (es @ es') k'"
  using assms
proof (induction ps arbitrary: k b es es')
  case (Cons p ps)
  obtain e1 k1 e2 where s: "kmsStep z k p = (e1, k1)" and r: "kmsRun z k1 ps = (e2, k')" and e: "es' = e1 @ e2"
    using Cons.prems(6) by (auto split: prod.splits)
  have "kms_inv z kek (Suc b) (es @ e1) k1"
    using kmsStep_inv [OF Cons.prems(1,2) _ Cons.prems(4) _ s] Cons.prems(3,5) by simp
  from Cons.IH [OF this Cons.prems(2) _ Cons.prems(4) _ r] show ?case
    using Cons.prems(3,5) by (simp add: e)
qed simp

lemma new_inv: "kms_inv z kek 0 [] (NewFileKMS kek [])"
  by (simp add: kms_inv_def NewFileKMS_def fk_ok_def active_ok_def scanExisting_def)

lemma ListDEKIDs_generated:
  assumes "fk_ok k"
  shows "kid \<in> set (ListDEKIDs k) \<longleftrightarrow> (\<exists>n > 0. kid = dekName n \<and> kid @ ''.bin'' \<in> set (map fst (fk_files k)))"
proof
  assume "kid \<in> set (ListDEKIDs k)"
  then obtain name where m: "name \<in> set (map fst (fk_files k))" "dekIDRe name \<noteq> None" "kid = take (length name - 4) name"
    by (auto simp: ListDEKIDs_def)
  then obtain n where "0 < n" "name = dekName n @ ''.bin''" using assms unfolding fk_ok_def by fastforce
  then show "\<exists>n > 0. kid = dekName n \<and> kid @ ''.bin'' \<in> set (map fst (fk_files k))"
    using m by (intro exI [of _ n]) simp
next
  assume "\<exists>n > 0. kid = dekName n \<and> kid @ ''.bin'' \<in> set (map fst (fk_files k))"
  then obtain n where n: "kid = dekName n" "kid @ ''.bin'' \<in> set (map fst (fk_files k))" by blast
  have "dekIDRe (kid @ ''.bin'') \<noteq> None" using n(1) by simp
  moreover have "kid = take (length (kid @ ''.bin'') - 4) (kid @ ''.bin'')" by simp
  ultimately show "kid \<in> set (ListDEKIDs k)"
    unfolding ListDEKIDs_def set_sort set_map set_filter using n(2) by (intro image_eqI [of _ _ "kid @ ''.bin''"]) auto
qed

lemma find_generated:
  assumes k: "fk_ok k" and h: "holds_key z k (kid, key)"
  shows "find (\<lambda>cand. numericFor cand = numericFor kid) (ListDEKIDs k) = Some kid"
proof -
  obtain n blob where n: "0 < n" "kid = dekName n" and b: "map_of (fk_files k) (dekName n @ ''.bin'') = Some blob"
    using h by (auto simp: holds_key_def fk_DecryptDEK_file)
  have "dekName n @ ''.bin'' \<in> set (map fst (fk_files k))" using b by (force dest: map_of_SomeD)
  then have kin: "kid \<in> set (ListDEKIDs k)" using n by (auto simp: ListDEKIDs_generated [OF k])
  then have "find (\<lambda>cand. numericFor cand = numericFor kid) (ListDEKIDs k) \<noteq> None" by (auto simp: find_None_iff)
  then obtain c where c: "find (\<lambda>cand. numericFor cand = numericFor kid) (ListDEKIDs k) = Some c" by blast
  then have "c \<in> set (ListDEKIDs k)" "numericFor c = numericFor kid" by (auto simp: find_Some_iff)
  then have "c = kid" using n by (auto simp: ListDEKIDs_generated [OF k] numericFor_dekName)
  then show ?thesis using c by simp
qed

lemma fresh_registry_resolves:
  assumes i: "kms_inv z kek b es k" and e: "(kid, key) \<in> set es"
  shows "fst (ResolveNumeric z (NewKeyRegistry z rnd nonce (Some (FileService k))) (numericFor kid)) = Inr (Some key)"
proof -
  have h: "holds_key z k (kid, key)" and ne: "fk_activeID k \<noteq> []" and ok: "fk_ok k"
    using i e by (auto simp: kms_inv_def list_all_iff)
  obtain akey where ah: "holds_key z k (fk_activeID k, akey)" using i ne by (auto simp: kms_inv_def)
  obtain n m where n: "0 < n" "kid = dekName n" and m: "0 < m" "fk_activeID k = dekName m"
    using h ah by (auto simp: holds_key_def)
  have reg: "NewKeyRegistry z rnd nonce (Some (FileService k)) =
    \<lparr>kr_kms = Some (FileService k), kr_cache = [], kr_numericToID = [(m, dekName m)], kr_idToNumeric = [(dekName m, m)]\<rparr>"
    using ah ne m by (simp add: NewKeyRegistry_def kms_ActiveDEK_def fk_ActiveDEK_def holds_key_def numericOf_def numericFor_dekName Let_def)
  have d: "fk_DecryptDEK z k kid = Inr key" using h by (simp add: holds_key_def)
  show ?thesis
  proof (cases "n = m")
    case True
    then show ?thesis
      using n d by (simp add: reg ResolveNumeric_def numericFor_dekName Resolve_def kms_DecryptDEK_def)
  next
    case False
    then show ?thesis
      using n d find_generated [OF ok h]
      by (simp add: reg ResolveNumeric_def numericFor_dekName Resolve_def kms_DecryptDEK_def kms_ListDEKIDs_def)
  qed
qed

text \<open>
  C40: A data encryption key is never lost. Whatever sequence of key generations, requests for the
  active key and restarts the file key service has gone through, a registry opened on the service
  after one more restart resolves the numeric identifier that record headers carry for any key ever
  handed out to exactly that key, including keys that are no longer the active one.
\<close>

theorem keys_survive_restart:
  assumes "aead_ok z" "aesKey kek" "list_all op_ok ops" "length ops < 2 ^ 64"
    and "kmsRun z (NewFileKMS kek []) ops = (issued, k)" and "(kid, key) \<in> set issued"
  shows "fst (ResolveNumeric z (NewKeyRegistry z rnd nonce (Some (FileService (NewFileKMS kek (fk_files k)))))
           (numericFor kid)) = Inr (Some key)"
proof -
  have i: "kms_inv z kek (length ops) issued k"
    using kmsRun_inv [OF new_inv assms(1,3,2) _ assms(5)] assms(4) by simp
  then have "NewFileKMS kek (fk_files k) = restart k" by (simp add: restart_def kms_inv_def)
  then show ?thesis using fresh_registry_resolves [OF restart_inv [OF i] assms(6)] by simp
qed

text \<open>A cipher that satisfies the contract, for the witnesses.\<close>

definition plainAead :: aead where
  "plainAead = \<lparr>gcm_Seal = \<lambda>k n p a. p @ replicate 16 0, gcm_Open = \<lambda>k n c a. Some (take (length c - 16) c)\<rparr>"

lemma plainAead_ok: "aead_ok plainAead"
  by (simp add: aead_ok_def plainAead_def)

definition demoOps :: "kmsOp list" where
  "demoOps = [OpGenerate (replicate 32 7) (replicate 12 1), OpRestart, OpGenerate (replicate 32 9) (replicate 12 2)]"

definition demoKMS :: FileKMS where
  "demoKMS = NewFileKMS (replicate 32 5) []"

lemma demo_first: "(dekName 1, replicate 32 7) \<in> set (fst (kmsRun plainAead demoKMS demoOps))"
proof -
  have "fk_seq demoKMS = 0" "fk_dek demoKMS = replicate 32 5"
    by (simp_all add: demoKMS_def NewFileKMS_def scanExisting_def)
  then have "fst (kmsStep plainAead demoKMS (OpGenerate (replicate 32 7) (replicate 12 1))) = [(dekName 1, replicate 32 7)]"
    by (simp add: kmsStep_def fk_GenerateDEK_def persistDEKLocked_def wrapDEK_def aesKey_def Let_def)
  then show ?thesis by (auto simp: demoOps_def split: prod.splits)
qed

theorem keys_survive_restart_witness:
  "\<exists>issued k. kmsRun plainAead demoKMS demoOps = (issued, k) \<and>
     fst (ResolveNumeric plainAead
            (NewKeyRegistry plainAead None None (Some (FileService (NewFileKMS (replicate 32 5) (fk_files k)))))
            (numericFor (dekName 1))) = Inr (Some (replicate 32 7))"
proof -
  obtain issued k where r: "kmsRun plainAead demoKMS demoOps = (issued, k)" by fastforce
  moreover have "fst (ResolveNumeric plainAead
            (NewKeyRegistry plainAead None None (Some (FileService (NewFileKMS (replicate 32 5) (fk_files k)))))
            (numericFor (dekName 1))) = Inr (Some (replicate 32 7))"
    by (rule keys_survive_restart [OF plainAead_ok, of "replicate 32 5" demoOps])
      (use r demo_first in \<open>auto simp: demoKMS_def aesKey_def demoOps_def op_ok_def NonceSize_def\<close>)
  ultimately show ?thesis by blast
qed

end
