(* ===== verification/Segment_Record.thy ===== *)
theory Segment_Record
  imports Record_Crypto
begin

text \<open>
  The record format of the data node's segment files: the header, the checksummed index of the
  frames and the trailer of \<open>datanode/storage/segment/record.go\<close>, the builder of \<open>compress.go\<close>, the
  record half of \<open>writer.go\<close> and the reader of \<open>reader.go\<close>. The zstd encoder and decoder and AES-GCM
  are the fields of a \<open>frameCodec\<close>; \<open>frameCodec_ok\<close> states that decoding undoes encoding. A file is
  the list of its bytes. Offsets are natural numbers; the lengths and offsets that a record stores
  keep their width. A slice expression out of range is the error \<open>ErrPanic\<close>.
\<close>

section \<open>Headers, frame indexes and trailers\<close>

definition RecordMagic :: u32 where "RecordMagic = 0x4E554653"
definition FormatVersion :: u8 where "FormatVersion = 3"
definition SegmentHeaderSize :: nat where "SegmentHeaderSize = 22"
definition DefaultFrameSize :: nat where "DefaultFrameSize = 65536"
definition RecordHeaderSize :: nat where "RecordHeaderSize = 55"
definition RecordTrailerSize :: nat where "RecordTrailerSize = 12"
definition FrameIndexEntrySize :: nat where "FrameIndexEntrySize = 13"

lemmas size_defs = RecordHeaderSize_def RecordTrailerSize_def FrameIndexEntrySize_def

definition CompressionNone :: u8 where "CompressionNone = 0"
definition CompressionZstd :: u8 where "CompressionZstd = 1"

definition RecordPut :: u8 where "RecordPut = 1"
definition RecordDelete :: u8 where "RecordDelete = 2"
definition RecordRelocate :: u8 where "RecordRelocate = 3"

definition validOp :: "u8 \<Rightarrow> bool" where
  "validOp p \<longleftrightarrow> p = RecordPut \<or> p = RecordDelete \<or> p = RecordRelocate"

record RecordHeader =
  rh_Magic :: u32
  rh_Version :: u8
  rh_Op :: u8
  rh_ExtentID :: u64
  rh_Generation :: u64
  rh_LogicalLen :: u32
  rh_StoredLen :: u32
  rh_Codec :: u8
  rh_KeyID :: u64
  rh_FrameSize :: u16
  rh_FrameCount :: u16
  rh_PayloadChecksum :: u32
  rh_FrameIndexCRC :: u32

definition headerBody :: "RecordHeader \<Rightarrow> u8 list" where
  "headerBody h = putUint32 (rh_Magic h) @ [rh_Version h, rh_Op h] @ putUint64 (rh_ExtentID h)
     @ putUint64 (rh_Generation h) @ putUint32 (rh_LogicalLen h) @ putUint32 (rh_StoredLen h) @ [rh_Codec h]
     @ putUint64 (rh_KeyID h) @ putUint16 (rh_FrameSize h) @ putUint16 (rh_FrameCount h)
     @ putUint32 (rh_PayloadChecksum h)"

definition encodeHeader :: "RecordHeader \<Rightarrow> StorageError + u8 list" where
  "encodeHeader h =
     (if \<not> validOp (rh_Op h) then Inl (ErrFormat ''unsupported record operation'')
      else Inr (headerBody h @ putUint32 (CRC32C (headerBody h)) @ putUint32 (rh_FrameIndexCRC h)))"

definition parseHeader :: "u8 list \<Rightarrow> RecordHeader" where
  "parseHeader src =
     \<lparr>rh_Magic = getUint32 (slice 0 4 src), rh_Version = src ! 4, rh_Op = src ! 5,
      rh_ExtentID = getUint64 (slice 6 14 src), rh_Generation = getUint64 (slice 14 22 src),
      rh_LogicalLen = getUint32 (slice 22 26 src), rh_StoredLen = getUint32 (slice 26 30 src),
      rh_Codec = src ! 30, rh_KeyID = getUint64 (slice 31 39 src),
      rh_FrameSize = getUint16 (slice 39 41 src), rh_FrameCount = getUint16 (slice 41 43 src),
      rh_PayloadChecksum = getUint32 (slice 43 47 src), rh_FrameIndexCRC = getUint32 (slice 51 55 src)\<rparr>"

definition decodeHeader :: "u8 list \<Rightarrow> StorageError + RecordHeader" where
  "decodeHeader src =
     (if length src < RecordHeaderSize then Inl (ErrFormat ''record header too short'')
      else let h = parseHeader src in
           if rh_Magic h \<noteq> RecordMagic then Inl (ErrFormat ''bad record magic'')
           else if rh_Version h \<noteq> FormatVersion then Inl (ErrFormat ''unsupported record version'')
           else if CRC32C (slice 0 47 src) \<noteq> getUint32 (slice 47 51 src) then Inl (ErrFormat ''record header crc mismatch'')
           else if \<not> validOp (rh_Op h) then Inl (ErrFormat ''unsupported record operation'')
           else Inr h)"

definition EffectiveFrameSize :: "RecordHeader \<Rightarrow> nat" where
  "EffectiveFrameSize h = (if rh_FrameSize h = 0 then DefaultFrameSize else unat (rh_FrameSize h))"

record FrameIndexEntry =
  fe_Offset :: u32
  fe_StoredLen :: u32
  fe_Codec :: u8
  fe_CRC :: u32

definition encodeEntry :: "FrameIndexEntry \<Rightarrow> u8 list" where
  "encodeEntry e = putUint32 (fe_Offset e) @ putUint32 (fe_StoredLen e) @ [fe_Codec e] @ putUint32 (fe_CRC e)"

definition encodeFrameIndex :: "FrameIndexEntry list \<Rightarrow> u8 list \<times> u32" where
  "encodeFrameIndex es = (let dst = concat (map encodeEntry es) in (dst, CRC32C dst))"

definition parseEntry :: "u8 list \<Rightarrow> FrameIndexEntry" where
  "parseEntry src = \<lparr>fe_Offset = getUint32 (slice 0 4 src), fe_StoredLen = getUint32 (slice 4 8 src),
     fe_Codec = src ! 8, fe_CRC = getUint32 (slice 9 13 src)\<rparr>"

fun parseEntries :: "nat \<Rightarrow> u8 list \<Rightarrow> FrameIndexEntry list" where
  "parseEntries 0 src = []"
| "parseEntries (Suc n) src = parseEntry (take FrameIndexEntrySize src) # parseEntries n (drop FrameIndexEntrySize src)"

definition decodeFrameIndex :: "u8 list \<Rightarrow> u32 \<Rightarrow> StorageError + FrameIndexEntry list" where
  "decodeFrameIndex src expectedCRC =
     (if length src mod FrameIndexEntrySize \<noteq> 0 then Inl (ErrFormat ''frame index length'')
      else let es = parseEntries (length src div FrameIndexEntrySize) src in
           if CRC32C src \<noteq> expectedCRC then Inl (ErrFormat ''frame index crc mismatch'') else Inr es)"

definition encodeTrailer :: "u32 \<Rightarrow> u8 list" where
  "encodeTrailer framingLen = putUint32 framingLen @ putUint32 (CRC32C (putUint32 framingLen)) @ putUint32 0"

definition decodeTrailer :: "u8 list \<Rightarrow> StorageError + u32" where
  "decodeTrailer src =
     (if length src < RecordTrailerSize then Inl (ErrFormat ''record trailer too short'')
      else if CRC32C (slice 0 4 src) \<noteq> getUint32 (slice 4 8 src) then Inl (ErrFormat ''record trailer crc mismatch'')
      else if getUint32 (slice 8 12 src) \<noteq> 0 then Inl (ErrFormat ''record trailer reserved bytes are non-zero'')
      else Inr (getUint32 (slice 0 4 src)))"

definition RecordFraming :: "u32 \<Rightarrow> nat \<Rightarrow> u32" where
  "RecordFraming storedLen frameCount =
     of_nat RecordHeaderSize + of_nat (frameCount * FrameIndexEntrySize) + storedLen + of_nat RecordTrailerSize"

definition VerifyFrameCRC :: "u8 list \<Rightarrow> u32 \<Rightarrow> StorageError + unit" where
  "VerifyFrameCRC payload want = (if CRC32C payload \<noteq> want then Inl ErrChecksumMismatch else Inr ())"

section \<open>Compression and encryption of frames\<close>

record frameCodec =
  zs_EncodeAll :: "u8 list \<Rightarrow> u8 list"
  zs_DecodeAll :: "u8 list \<Rightarrow> u8 list option"
  fc_aead :: aead

definition frameCodec_ok :: "frameCodec \<Rightarrow> bool" where
  "frameCodec_ok z \<longleftrightarrow> aead_ok (fc_aead z) \<and> (\<forall>p. zs_DecodeAll z (zs_EncodeAll z p) = Some p)"

definition CompressFrame :: "frameCodec \<Rightarrow> u8 list \<Rightarrow> u8 list \<times> bool" where
  "CompressFrame z payload =
     (let out = zs_EncodeAll z payload in
      if length payload \<le> length out then (payload, False) else (out, True))"

definition DecompressFrame :: "frameCodec \<Rightarrow> u8 list \<Rightarrow> StorageError + u8 list" where
  "DecompressFrame z payload =
     (case zs_DecodeAll z payload of None \<Rightarrow> Inl (ErrFormat ''zstd'') | Some p \<Rightarrow> Inr p)"

definition CompressionNoCompressionThreshold :: nat where
  "CompressionNoCompressionThreshold = 4096"

definition SmallFileThreshold :: nat where
  "SmallFileThreshold = 65536"

definition CompressionMinSavingsRatio :: rat where
  "CompressionMinSavingsRatio = 1 / 10"

definition ShouldCompress :: "frameCodec \<Rightarrow> nat \<Rightarrow> u8 list \<Rightarrow> bool" where
  "ShouldCompress z logicalLen sample =
     (if logicalLen < CompressionNoCompressionThreshold then False
      else if SmallFileThreshold < logicalLen then True
      else let compressed = zs_EncodeAll z sample in
           if length sample \<le> length compressed then False
           else CompressionMinSavingsRatio \<le> 1 - of_nat (length compressed) / of_nat (length sample))"

definition SampledBytes :: "u8 list \<Rightarrow> nat \<Rightarrow> u8 list" where
  "SampledBytes payload m = (if length payload \<le> m then payload else take m payload)"

text \<open>One frame: compressed when that saves space, then sealed when there is a key.\<close>

definition storeFrame ::
  "frameCodec \<Rightarrow> bool \<Rightarrow> u8 list option \<Rightarrow> u8 list option \<Rightarrow> u8 list \<Rightarrow> StorageError + (u8 list \<times> u8)" where
  "storeFrame z compressed encKey nonce frame =
     (let (storedFrame, codec) =
            (if compressed
             then (case CompressFrame z frame of (cf, ok) \<Rightarrow>
                     if ok then (cf, CompressionZstd) else (frame, CompressionNone))
             else (frame, CompressionNone))
      in case encKey of
           None \<Rightarrow> Inr (storedFrame, codec)
         | Some key \<Rightarrow>
             (case EncryptFrame (fc_aead z) nonce key storedFrame of
                Inl e \<Rightarrow> Inl e
              | Inr sealed \<Rightarrow> Inr (sealed, codec)))"

text \<open>The loop over the frames; \<open>nonces i\<close> is what the random source yields for frame \<open>i\<close>.\<close>

fun storeFrames ::
  "frameCodec \<Rightarrow> bool \<Rightarrow> u8 list option \<Rightarrow> (nat \<Rightarrow> u8 list option) \<Rightarrow> nat \<Rightarrow> u32 \<Rightarrow> u8 list list
     \<Rightarrow> StorageError + (u8 list \<times> FrameIndexEntry list)" where
  "storeFrames z compressed encKey nonces i offset [] = Inr ([], [])"
| "storeFrames z compressed encKey nonces i offset (frame # frames) =
     (case storeFrame z compressed encKey (nonces i) frame of
        Inl e \<Rightarrow> Inl e
      | Inr (storedFrame, codec) \<Rightarrow>
          (case storeFrames z compressed encKey nonces (Suc i) (offset + of_nat (length storedFrame)) frames of
             Inl e \<Rightarrow> Inl e
           | Inr (stored, es) \<Rightarrow>
               Inr (storedFrame @ stored,
                    \<lparr>fe_Offset = offset, fe_StoredLen = of_nat (length storedFrame), fe_Codec = codec,
                     fe_CRC = CRC32C storedFrame\<rparr> # es)))"

definition frameNumber :: "nat \<Rightarrow> nat \<Rightarrow> nat" where
  "frameNumber len frameSize = (let n = (len + frameSize - 1) div frameSize in if n = 0 then 1 else n)"

definition splitFrames :: "u8 list \<Rightarrow> nat \<Rightarrow> u8 list list" where
  "splitFrames payload frameSize =
     map (\<lambda>i. take frameSize (drop (i * frameSize) payload)) [0 ..< frameNumber (length payload) frameSize]"

definition BuildFramedRecord ::
  "frameCodec \<Rightarrow> (nat \<Rightarrow> u8 list option) \<Rightarrow> u8 list \<Rightarrow> nat \<Rightarrow> bool \<Rightarrow> u8 list option
     \<Rightarrow> StorageError + (u8 list \<times> FrameIndexEntry list \<times> u8)" where
  "BuildFramedRecord z nonces payload frameSize0 compressed encKey =
     (let frameSize = (if frameSize0 = 0 then DefaultFrameSize else frameSize0);
          codec = (if compressed then CompressionZstd else CompressionNone)
      in case storeFrames z compressed encKey nonces 0 0 (splitFrames payload frameSize) of
           Inl e \<Rightarrow> Inl e
         | Inr (stored, es) \<Rightarrow> Inr (stored, es, codec))"

definition BuildFrames :: "u8 list \<Rightarrow> nat \<Rightarrow> u32 list" where
  "BuildFrames payload frameSize0 =
     (let frameSize = (if frameSize0 = 0 then DefaultFrameSize else frameSize0);
          n = (length payload + frameSize - 1) div frameSize
      in map (\<lambda>i. CRC32C (slice (i * frameSize) (min (i * frameSize + frameSize) (length payload)) payload)) [0 ..< n])"

text \<open>
  The record material of a put, as \<open>Store.Write\<close> prepares it before it joins a batch: whether to
  compress is decided from a sample, \<open>keyID\<close> and \<open>encKey\<close> come from the key registry.
\<close>

definition checksumOf :: "u8 list \<Rightarrow> u32" where
  "checksumOf data = CRC32C data"

definition putMaterial ::
  "frameCodec \<Rightarrow> (nat \<Rightarrow> u8 list option) \<Rightarrow> u64 \<times> u8 list option \<Rightarrow> u64 \<Rightarrow> u64 \<Rightarrow> u8 list
     \<Rightarrow> StorageError + (RecordHeader \<times> u8 list \<times> u8 list)" where
  "putMaterial z nonces key extentID generation data =
     (let compressed = ShouldCompress z (length data) (SampledBytes data 4096) in
      case BuildFramedRecord z nonces data DefaultFrameSize compressed (snd key) of
        Inl e \<Rightarrow> Inl e
      | Inr (stored, es, codec) \<Rightarrow>
          (case encodeFrameIndex es of (idxBuf, crc) \<Rightarrow>
             Inr (\<lparr>rh_Magic = RecordMagic, rh_Version = FormatVersion, rh_Op = RecordPut,
                   rh_ExtentID = extentID, rh_Generation = generation,
                   rh_LogicalLen = of_nat (length data), rh_StoredLen = of_nat (length stored),
                   rh_Codec = codec, rh_KeyID = fst key, rh_FrameSize = of_nat DefaultFrameSize,
                   rh_FrameCount = of_nat (length es), rh_PayloadChecksum = checksumOf data,
                   rh_FrameIndexCRC = crc\<rparr>, idxBuf, stored)))"

section \<open>Writing a record\<close>

definition recordImage :: "RecordHeader \<Rightarrow> u8 list \<Rightarrow> u8 list \<Rightarrow> StorageError + u8 list" where
  "recordImage header frameIndex payload =
     (case encodeHeader header of
        Inl e \<Rightarrow> Inl e
      | Inr hb \<Rightarrow>
          Inr (hb @ frameIndex @ payload
               @ encodeTrailer (RecordFraming (rh_StoredLen header) (unat (rh_FrameCount header)))))"

definition WriteRecordFramed :: "u8 list \<Rightarrow> nat \<Rightarrow> RecordHeader \<Rightarrow> u8 list \<Rightarrow> u8 list \<Rightarrow> StorageError + u8 list" where
  "WriteRecordFramed f offset header frameIndex payload =
     (case recordImage header frameIndex payload of Inl e \<Rightarrow> Inl e | Inr buf \<Rightarrow> Inr (writeAt f offset buf))"

section \<open>Reading a record\<close>

record Reader =
  rd_file :: "u8 list"
  rd_sizeBytes :: nat
  rd_enc :: "KeyRegistry option"

record recordLayout =
  rl_header :: RecordHeader
  rl_entries :: "FrameIndexEntry list"
  rl_firstFrameAt :: nat
  rl_totalStored :: nat
  rl_decKey :: "u8 list option"

definition refreshSize :: "Reader \<Rightarrow> Reader" where
  "refreshSize r = r\<lparr>rd_sizeBytes := length (rd_file r)\<rparr>"

definition recordKey :: "frameCodec \<Rightarrow> Reader \<Rightarrow> u64 \<Rightarrow> (StorageError + u8 list option) \<times> Reader" where
  "recordKey z r keyID =
     (if keyID = 0 then (Inr None, r)
      else case rd_enc r of
             None \<Rightarrow> (Inl ErrDecryptFailed, r)
           | Some reg \<Rightarrow> (case ResolveNumeric (fc_aead z) reg keyID of (k, reg') \<Rightarrow> (k, r\<lparr>rd_enc := Some reg'\<rparr>)))"

definition readTrailer :: "Reader \<Rightarrow> nat \<Rightarrow> nat \<Rightarrow> StorageError + unit" where
  "readTrailer r trailerOff framing =
     (case readAt ErrEOF (rd_file r) trailerOff RecordTrailerSize of
        Inl e \<Rightarrow> Inl e
      | Inr tr \<Rightarrow>
          (case decodeTrailer tr of
             Inl e \<Rightarrow> Inl e
           | Inr framingLen \<Rightarrow> if framingLen \<noteq> of_nat framing then Inl ErrIndexCorrupt else Inr ()))"

definition readIndexed :: "Reader \<Rightarrow> nat \<Rightarrow> u32 \<Rightarrow> StorageError + (RecordHeader \<times> FrameIndexEntry list)" where
  "readIndexed r offset logicalLen =
     (if offset < SegmentHeaderSize then Inl ErrIndexCorrupt
      else case readAt ErrEOF (rd_file r) offset RecordHeaderSize of
             Inl e \<Rightarrow> Inl e
           | Inr hb \<Rightarrow>
               (case decodeHeader hb of
                  Inl e \<Rightarrow> Inl e
                | Inr header \<Rightarrow>
                    if rh_LogicalLen header \<noteq> logicalLen then Inl ErrIndexCorrupt
                    else case readAt ErrEOF (rd_file r) (offset + RecordHeaderSize)
                                 (unat (rh_FrameCount header) * FrameIndexEntrySize) of
                           Inl e \<Rightarrow> Inl e
                         | Inr idxBuf \<Rightarrow>
                             (case decodeFrameIndex idxBuf (rh_FrameIndexCRC header) of
                                Inl e \<Rightarrow> Inl e
                              | Inr es \<Rightarrow> Inr (header, es))))"

definition readRecordLayout ::
  "frameCodec \<Rightarrow> Reader \<Rightarrow> nat \<Rightarrow> u32 \<Rightarrow> u32 \<Rightarrow> (StorageError + recordLayout) \<times> Reader" where
  "readRecordLayout z r offset storedLen logicalLen =
     (case readIndexed r offset logicalLen of
        Inl e \<Rightarrow> (Inl e, r)
      | Inr (header, es) \<Rightarrow>
          let indexBytes = unat (rh_FrameCount header) * FrameIndexEntrySize;
              firstFrameOff = offset + RecordHeaderSize + indexBytes;
              totalStored = sum_list (map (\<lambda>e. unat (fe_StoredLen e)) es);
              need = firstFrameOff + totalStored + RecordTrailerSize
          in if totalStored \<noteq> unat storedLen then (Inl ErrIndexCorrupt, r)
             else let r1 = (if rd_sizeBytes r < need then refreshSize r else r)
             in if rd_sizeBytes r1 < need then (Inl ErrIndexCorrupt, r1)
             else case recordKey z r1 (rh_KeyID header) of
                    (Inl e, r2) \<Rightarrow> (Inl e, r2)
                  | (Inr decKey, r2) \<Rightarrow>
                      (case readTrailer r2 (firstFrameOff + totalStored)
                              (RecordHeaderSize + indexBytes + totalStored + RecordTrailerSize) of
                         Inl e \<Rightarrow> (Inl e, r2)
                       | Inr _ \<Rightarrow>
                           (Inr \<lparr>rl_header = header, rl_entries = es, rl_firstFrameAt = firstFrameOff,
                                 rl_totalStored = totalStored, rl_decKey = decKey\<rparr>, r2)))"

text \<open>The bytes of one frame as stored, with its checksum verified.\<close>

definition readStored :: "Reader \<Rightarrow> recordLayout \<Rightarrow> FrameIndexEntry \<Rightarrow> StorageError + u8 list" where
  "readStored r layout e =
     (if rl_totalStored layout < unat (fe_Offset e) + unat (fe_StoredLen e) then Inl ErrIndexCorrupt
      else case readAt ErrEOF (rd_file r) (rl_firstFrameAt layout + unat (fe_Offset e)) (unat (fe_StoredLen e)) of
             Inl err \<Rightarrow> Inl err
           | Inr frame \<Rightarrow> (case VerifyFrameCRC frame (fe_CRC e) of Inl err \<Rightarrow> Inl err | Inr _ \<Rightarrow> Inr frame))"

definition readLogicalFrame :: "frameCodec \<Rightarrow> Reader \<Rightarrow> recordLayout \<Rightarrow> FrameIndexEntry \<Rightarrow> StorageError + u8 list" where
  "readLogicalFrame z r layout e =
     (case readStored r layout e of
        Inl err \<Rightarrow> Inl err
      | Inr frame \<Rightarrow>
          (case (case rl_decKey layout of None \<Rightarrow> Inr frame | Some key \<Rightarrow> DecryptFrame (fc_aead z) key frame) of
             Inl err \<Rightarrow> Inl err
           | Inr plain \<Rightarrow> if fe_Codec e = CompressionZstd then DecompressFrame z plain else Inr plain))"

definition recordIsPlain :: "recordLayout \<Rightarrow> bool" where
  "recordIsPlain layout \<longleftrightarrow> list_all (\<lambda>e. fe_Codec e = CompressionNone) (rl_entries layout)"

text \<open>The two loops of \<open>ReadPayloadFrames\<close>; \<open>out\<close> holds the bytes written so far.\<close>

fun readPlainFrames :: "Reader \<Rightarrow> recordLayout \<Rightarrow> nat \<Rightarrow> FrameIndexEntry list \<Rightarrow> u8 list \<Rightarrow> StorageError + u8 list" where
  "readPlainFrames r layout len [] out = (if length out \<noteq> len then Inl ErrIndexCorrupt else Inr out)"
| "readPlainFrames r layout len (e # es) out =
     (if unat (fe_Offset e) + unat (fe_StoredLen e) \<le> rl_totalStored layout
         \<and> len < length out + unat (fe_StoredLen e) then Inl (ErrPanic ''slice bounds out of range'')
      else case readStored r layout e of
             Inl err \<Rightarrow> Inl err
           | Inr frame \<Rightarrow> readPlainFrames r layout len es (out @ frame))"

fun readCodedFrames ::
  "frameCodec \<Rightarrow> Reader \<Rightarrow> recordLayout \<Rightarrow> nat \<Rightarrow> FrameIndexEntry list \<Rightarrow> u8 list \<Rightarrow> StorageError + u8 list" where
  "readCodedFrames z r layout len [] out = (if length out \<noteq> len then Inl ErrIndexCorrupt else Inr out)"
| "readCodedFrames z r layout len (e # es) out =
     (case readLogicalFrame z r layout e of
        Inl err \<Rightarrow> Inl err
      | Inr logical \<Rightarrow> readCodedFrames z r layout len es (out @ take (len - length out) logical))"

definition ReadPayloadFrames :: "frameCodec \<Rightarrow> Reader \<Rightarrow> nat \<Rightarrow> u32 \<Rightarrow> u32 \<Rightarrow> (StorageError + u8 list) \<times> Reader" where
  "ReadPayloadFrames z r offset storedLen logicalLen =
     (case readRecordLayout z r offset storedLen logicalLen of
        (Inl e, r') \<Rightarrow> (Inl e, r')
      | (Inr layout, r') \<Rightarrow>
          (if rl_decKey layout = None \<and> recordIsPlain layout
           then readPlainFrames r' layout (unat logicalLen) (rl_entries layout) []
           else readCodedFrames z r' layout (unat logicalLen) (rl_entries layout) [], r'))"

text \<open>The loop of \<open>ReadRangeFrames\<close> over the frame numbers that meet the range.\<close>

fun readRange ::
  "frameCodec \<Rightarrow> Reader \<Rightarrow> recordLayout \<Rightarrow> nat \<Rightarrow> nat \<Rightarrow> nat list \<Rightarrow> u8 list \<Rightarrow> StorageError + u8 list" where
  "readRange z r layout lo len [] out = (if length out \<noteq> len then Inl ErrIndexCorrupt else Inr out)"
| "readRange z r layout lo len (i # is) out =
     (let e = rl_entries layout ! i;
          frameStart = i * EffectiveFrameSize (rl_header layout);
          from = lo - frameStart;
          upto = lo + len - frameStart
      in if rl_totalStored layout < unat (fe_Offset e) + unat (fe_StoredLen e) then Inl ErrIndexCorrupt
         else if rl_decKey layout = None \<and> fe_Codec e = CompressionNone \<and> from = 0 \<and> unat (fe_StoredLen e) \<le> upto
         then (if len < length out + unat (fe_StoredLen e) then Inl (ErrPanic ''slice bounds out of range'')
               else case readStored r layout e of
                      Inl err \<Rightarrow> Inl err
                    | Inr frame \<Rightarrow> readRange z r layout lo len is (out @ frame))
         else case readLogicalFrame z r layout e of
                Inl err \<Rightarrow> Inl err
              | Inr logical \<Rightarrow>
                  let upto' = min upto (length logical) in
                  if upto' \<le> from then Inl ErrIndexCorrupt
                  else readRange z r layout lo len is (out @ take (len - length out) (slice from upto' logical)))"

definition ReadRangeFrames ::
  "frameCodec \<Rightarrow> Reader \<Rightarrow> nat \<Rightarrow> u32 \<Rightarrow> u32 \<Rightarrow> int \<Rightarrow> int \<Rightarrow> (StorageError + u8 list) \<times> Reader" where
  "ReadRangeFrames z r offset storedLen logicalLen logicalOffset length0 =
     (if length0 \<le> 0 \<or> logicalOffset < 0 \<or> uint logicalLen \<le> logicalOffset then (Inl ErrInvalidRange, r)
      else let lo = nat logicalOffset;
               len = (if uint logicalLen < logicalOffset + length0
                      then nat (uint logicalLen - logicalOffset) else nat length0)
      in case readRecordLayout z r offset storedLen logicalLen of
           (Inl e, r') \<Rightarrow> (Inl e, r')
         | (Inr layout, r') \<Rightarrow>
             let frameSize = EffectiveFrameSize (rl_header layout);
                 first = lo div frameSize;
                 last = (lo + len - 1) div frameSize
             in if length (rl_entries layout) \<le> last then (Inl ErrIndexCorrupt, r')
                else (readRange z r' layout lo len [first ..< Suc last] [], r'))"

end
