(* ===== verification/Record_Props.thy ===== *)
theory Record_Props
  imports Segment_Record
begin

text \<open>
  Properties of segment records: headers, frame indexes and trailers decode to what was encoded, a
  record that was written is read back, as a whole and for every range, and a record in which one
  byte has changed is refused.
\<close>

section \<open>Encodings\<close>

lemma length_headerBody [simp]: "length (headerBody h) = 47"
  by (simp add: headerBody_def)

lemma encodeHeader_Inr:
  "encodeHeader h = Inr hb \<longleftrightarrow> validOp (rh_Op h) \<and> hb = headerBody h @ putUint32 (CRC32C (headerBody h)) @ putUint32 (rh_FrameIndexCRC h)"
  by (auto simp: encodeHeader_def)

lemma length_encodeHeader: "encodeHeader h = Inr hb \<Longrightarrow> length hb = RecordHeaderSize"
  by (auto simp: encodeHeader_Inr RecordHeaderSize_def)

lemma parseHeader_encode:
  "parseHeader (headerBody h @ putUint32 c @ putUint32 (rh_FrameIndexCRC h)) = h"
  by (simp add: parseHeader_def headerBody_def nth_append)

definition headerOK :: "RecordHeader \<Rightarrow> bool" where
  "headerOK h \<longleftrightarrow> rh_Magic h = RecordMagic \<and> rh_Version h = FormatVersion"

lemma decodeHeader_encodeHeader:
  assumes "encodeHeader h = Inr hb" "headerOK h"
  shows "decodeHeader hb = Inr h"
proof -
  have v: "validOp (rh_Op h)" and hb: "hb = headerBody h @ putUint32 (CRC32C (headerBody h)) @ putUint32 (rh_FrameIndexCRC h)"
    using assms(1) by (auto simp: encodeHeader_Inr)
  have p: "parseHeader hb = h" by (simp add: hb parseHeader_encode)
  have "slice 0 47 hb = headerBody h" "getUint32 (slice 47 51 hb) = CRC32C (headerBody h)" by (simp_all add: hb)
  then show ?thesis
    using assms(2) v length_encodeHeader [OF assms(1)] by (simp add: decodeHeader_def p headerOK_def)
qed

lemma length_encodeEntry [simp]: "length (encodeEntry e) = FrameIndexEntrySize"
  by (simp add: encodeEntry_def FrameIndexEntrySize_def)

lemma parseEntry_encodeEntry [simp]: "parseEntry (encodeEntry e) = e"
  by (simp add: parseEntry_def encodeEntry_def nth_append)

lemma length_encodeEntries [simp]: "length (concat (map encodeEntry es)) = length es * FrameIndexEntrySize"
  by (induction es) auto

lemma parseEntries_encode: "parseEntries (length es) (concat (map encodeEntry es)) = es"
  by (induction es) simp_all

lemma decodeFrameIndex_encode:
  assumes "encodeFrameIndex es = (b, c)"
  shows "decodeFrameIndex b c = Inr es" "length b = length es * FrameIndexEntrySize"
  using assms by (auto simp: encodeFrameIndex_def decodeFrameIndex_def Let_def parseEntries_encode FrameIndexEntrySize_def)

lemma length_encodeTrailer [simp]: "length (encodeTrailer n) = RecordTrailerSize"
  by (simp add: encodeTrailer_def RecordTrailerSize_def)

lemma decodeTrailer_encodeTrailer [simp]: "decodeTrailer (encodeTrailer n) = Inr n"
  by (simp add: decodeTrailer_def encodeTrailer_def RecordTrailerSize_def)

section \<open>Stored frames\<close>

definition stored_as :: "frameCodec \<Rightarrow> u8 list option \<Rightarrow> u8 list \<Rightarrow> u8 list \<times> u8 \<Rightarrow> bool" where
  "stored_as z key frame sc \<longleftrightarrow>
     (case (case key of None \<Rightarrow> Inr (fst sc) | Some k \<Rightarrow> DecryptFrame (fc_aead z) k (fst sc)) of
        Inl e \<Rightarrow> False
      | Inr plain \<Rightarrow> (if snd sc = CompressionZstd then DecompressFrame z plain else Inr plain) = Inr frame)
     \<and> (key = None \<and> snd sc = CompressionNone \<longrightarrow> fst sc = frame)
     \<and> length (fst sc) \<le> FrameStoredLen (length frame)"

lemma storeFrame_stored:
  assumes z: "frameCodec_ok z" and n: "\<And>x. nonce = Some x \<Longrightarrow> length x = NonceSize"
    and s: "storeFrame z compressed key nonce frame = Inr sc"
  shows "stored_as z key frame sc"
proof -
  define pc where "pc = (if compressed
             then (case CompressFrame z frame of (cf, ok) \<Rightarrow>
                     if ok then (cf, CompressionZstd) else (frame, CompressionNone))
             else (frame, CompressionNone))"
  have pl: "(if snd pc = CompressionZstd then DecompressFrame z (fst pc) else Inr (fst pc)) = Inr frame"
    "snd pc = CompressionNone \<Longrightarrow> fst pc = frame" "length (fst pc) \<le> length frame"
    using z by (auto simp: pc_def CompressFrame_def Let_def DecompressFrame_def frameCodec_ok_def
        CompressionZstd_def CompressionNone_def)
  have st: "storeFrame z compressed key nonce frame = (case key of None \<Rightarrow> Inr pc
         | Some k \<Rightarrow> (case EncryptFrame (fc_aead z) nonce k (fst pc) of Inl e \<Rightarrow> Inl e | Inr q \<Rightarrow> Inr (q, snd pc)))"
    by (cases pc) (auto simp: storeFrame_def pc_def [symmetric] split: option.split sum.split)
  show ?thesis
  proof (cases key)
    case None
    then show ?thesis using s st pl by (simp add: stored_as_def FrameStoredLen_def)
  next
    case (Some k)
    then obtain q where q: "EncryptFrame (fc_aead z) nonce k (fst pc) = Inr q" and sc: "sc = (q, snd pc)"
      using s st by (auto split: sum.splits)
    obtain x where x: "nonce = Some x" using q by (auto simp: EncryptFrame_def split: if_splits option.splits)
    have a: "aead_ok (fc_aead z)" using z by (simp add: frameCodec_ok_def)
    note D = DecryptFrame_EncryptFrame [OF a q [unfolded x] n [OF x]]
    show ?thesis using Some sc pl D by (simp add: stored_as_def FrameStoredLen_def)
  qed
qed

text \<open>What a run of the frame loop produced: the stored frames one after the other, and an index that describes them.\<close>

definition entryFor :: "nat \<Rightarrow> u8 list \<times> u8 \<Rightarrow> FrameIndexEntry" where
  "entryFor offset sc = \<lparr>fe_Offset = of_nat offset, fe_StoredLen = of_nat (length (fst sc)), fe_Codec = snd sc, fe_CRC = CRC32C (fst sc)\<rparr>"

fun entriesFor :: "nat \<Rightarrow> (u8 list \<times> u8) list \<Rightarrow> FrameIndexEntry list" where
  "entriesFor offset [] = []"
| "entriesFor offset (sc # scs) = entryFor offset sc # entriesFor (offset + length (fst sc)) scs"

lemma length_entriesFor [simp]: "length (entriesFor offset scs) = length scs"
  by (induction scs arbitrary: offset) auto

lemma entriesFor_nth: "i < length scs \<Longrightarrow> entriesFor offset scs ! i = entryFor (offset + sum_list (map (length \<circ> fst) (take i scs))) (scs ! i)"
proof (induction scs arbitrary: offset i)
  case (Cons sc scs)
  then show ?case by (cases i) (auto simp: add.assoc)
qed simp

lemma storeFrames_Inr:
  assumes z: "frameCodec_ok z" and n: "\<And>j x. nonces j = Some x \<Longrightarrow> length x = NonceSize"
    and s: "storeFrames z compressed key nonces i (of_nat offset) frames = Inr (stored, es)"
  shows "\<exists>scs. stored = concat (map fst scs) \<and> es = entriesFor offset scs \<and> list_all2 (stored_as z key) frames scs"
  using s
proof (induction frames arbitrary: i offset stored es)
  case Nil
  then show ?case by (intro exI [of _ "[]"]) simp
next
  case (Cons frame frames)
  then obtain sf codec stored' es' where f: "storeFrame z compressed key (nonces i) frame = Inr (sf, codec)"
    and r: "storeFrames z compressed key nonces (Suc i) (of_nat (offset + length sf)) frames = Inr (stored', es')"
    and st: "stored = sf @ stored'" and es: "es = entryFor offset (sf, codec) # es'"
    by (auto simp: entryFor_def split: sum.splits)
  obtain scs where "stored' = concat (map fst scs)" "es' = entriesFor (offset + length sf) scs" "list_all2 (stored_as z key) frames scs"
    using Cons.IH [OF r] by blast
  then show ?case using storeFrame_stored [OF z n f] st es by (intro exI [of _ "(sf, codec) # scs"]) simp
qed

section \<open>Records in a file\<close>

definition storedBytes :: "(u8 list \<times> u8) list \<Rightarrow> u8 list" where
  "storedBytes scs = concat (map fst scs)"

definition indexBytes :: "(u8 list \<times> u8) list \<Rightarrow> u8 list" where
  "indexBytes scs = concat (map encodeEntry (entriesFor 0 scs))"

definition headerBytes :: "RecordHeader \<Rightarrow> u8 list" where
  "headerBytes h = headerBody h @ putUint32 (CRC32C (headerBody h)) @ putUint32 (rh_FrameIndexCRC h)"

definition framingLen :: "(u8 list \<times> u8) list \<Rightarrow> nat" where
  "framingLen scs = RecordHeaderSize + length scs * FrameIndexEntrySize + length (storedBytes scs) + RecordTrailerSize"

definition imageOf :: "RecordHeader \<Rightarrow> (u8 list \<times> u8) list \<Rightarrow> u8 list" where
  "imageOf h scs = headerBytes h @ indexBytes scs @ storedBytes scs @ encodeTrailer (of_nat (framingLen scs))"

text \<open>The header describes the stored frames, and the lengths fit their fields.\<close>

definition describes :: "RecordHeader \<Rightarrow> (u8 list \<times> u8) list \<Rightarrow> bool" where
  "describes h scs \<longleftrightarrow> headerOK h \<and> validOp (rh_Op h) \<and> unat (rh_FrameCount h) = length scs
     \<and> unat (rh_StoredLen h) = length (storedBytes scs) \<and> rh_FrameIndexCRC h = CRC32C (indexBytes scs)
     \<and> framingLen scs < 2 ^ 32"

definition keyFor :: "frameCodec \<Rightarrow> Reader \<Rightarrow> RecordHeader \<Rightarrow> u8 list option \<Rightarrow> bool" where
  "keyFor z r h key \<longleftrightarrow>
     (if rh_KeyID h = 0 then key = None
      else \<exists>reg. rd_enc r = Some reg \<and> fst (ResolveNumeric (fc_aead z) reg (rh_KeyID h)) = Inr key \<and> key \<noteq> None)"

lemma length_headerBytes [simp]: "length (headerBytes h) = RecordHeaderSize"
  by (simp add: headerBytes_def RecordHeaderSize_def)

lemma length_indexBytes [simp]: "length (indexBytes scs) = length scs * FrameIndexEntrySize"
  by (simp add: indexBytes_def)

lemma length_imageOf: "length (imageOf h scs) = framingLen scs"
  by (simp add: imageOf_def framingLen_def)

lemma decode_headerBytes: "describes h scs \<Longrightarrow> decodeHeader (headerBytes h) = Inr h"
  by (rule decodeHeader_encodeHeader) (simp_all add: encodeHeader_Inr headerBytes_def describes_def)

lemma decode_indexBytes: "decodeFrameIndex (indexBytes scs) (CRC32C (indexBytes scs)) = Inr (entriesFor 0 scs)"
  by (rule decodeFrameIndex_encode) (simp add: encodeFrameIndex_def indexBytes_def Let_def)

lemma framing_word: "describes h scs \<Longrightarrow> RecordFraming (rh_StoredLen h) (unat (rh_FrameCount h)) = of_nat (framingLen scs)"
proof -
  assume "describes h scs"
  then have n: "length scs = unat (rh_FrameCount h)" "length (storedBytes scs) = unat (rh_StoredLen h)"
    by (simp_all add: describes_def)
  show ?thesis by (simp add: RecordFraming_def framingLen_def n)
qed

lemma framing_value: "describes h scs \<Longrightarrow> unat (RecordFraming (rh_StoredLen h) (unat (rh_FrameCount h))) = framingLen scs"
  unfolding framing_word by (simp add: unsigned_of_nat take_bit_nat_eq_self describes_def)

lemma recordImage_imageOf:
  assumes "describes h scs"
  shows "recordImage h (indexBytes scs) (storedBytes scs) = Inr (imageOf h scs)"
  using assms framing_word [OF assms]
  by (simp add: recordImage_def imageOf_def describes_def encodeHeader_def headerBytes_def)

lemma entry_lengths:
  assumes "length (storedBytes scs) < 2 ^ 32"
  shows "sum_list (map (\<lambda>e. unat (fe_StoredLen e)) (entriesFor offset scs)) = length (storedBytes scs)"
  using assms
proof (induction scs arbitrary: offset)
  case (Cons sc scs)
  have "unat (of_nat (length (fst sc)) :: u32) = length (fst sc)"
    using Cons.prems by (simp add: storedBytes_def unsigned_of_nat take_bit_nat_eq_self)
  then show ?case using Cons by (simp add: entryFor_def storedBytes_def)
qed (simp add: storedBytes_def)

lemma readAt_here:
  assumes "holds_at f off b" "n = length b"
  shows "readAt e f off n = Inr b"
  using holds_at_readAt [OF assms(1)] assms(2) by simp

text \<open>The parts around the frames stand in the file.\<close>

definition partsAt :: "u8 list \<Rightarrow> nat \<Rightarrow> RecordHeader \<Rightarrow> (u8 list \<times> u8) list \<Rightarrow> bool" where
  "partsAt f off h scs \<longleftrightarrow> holds_at f off (headerBytes h) \<and> holds_at f (off + RecordHeaderSize) (indexBytes scs)
     \<and> holds_at f (off + RecordHeaderSize + length scs * FrameIndexEntrySize + length (storedBytes scs))
          (encodeTrailer (of_nat (framingLen scs)))"

lemma imageOf_parts: "holds_at f off (imageOf h scs) \<Longrightarrow> partsAt f off h scs"
  by (simp add: imageOf_def holds_at_append partsAt_def add.assoc)

lemma readIndexed_parts:
  assumes d: "describes h scs" and i: "holds_at (rd_file r) off (headerBytes h)"
    "holds_at (rd_file r) (off + RecordHeaderSize) (indexBytes scs)" and o: "SegmentHeaderSize \<le> off"
  shows "readIndexed r off (rh_LogicalLen h) = Inr (h, entriesFor 0 scs)"
proof -
  have "readAt ErrEOF (rd_file r) off RecordHeaderSize = Inr (headerBytes h)"
    "readAt ErrEOF (rd_file r) (off + RecordHeaderSize) (unat (rh_FrameCount h) * FrameIndexEntrySize) = Inr (indexBytes scs)"
    using d i by (auto intro!: readAt_here simp: describes_def)
  then show ?thesis
    using o d decode_headerBytes [OF d] decode_indexBytes [of scs]
    by (simp add: readIndexed_def describes_def)
qed

definition layoutOf :: "RecordHeader \<Rightarrow> nat \<Rightarrow> (u8 list \<times> u8) list \<Rightarrow> u8 list option \<Rightarrow> recordLayout" where
  "layoutOf h off scs key = \<lparr>rl_header = h, rl_entries = entriesFor 0 scs,
     rl_firstFrameAt = off + RecordHeaderSize + length scs * FrameIndexEntrySize,
     rl_totalStored = length (storedBytes scs), rl_decKey = key\<rparr>"

lemma layoutOf_simps [simp]: "rl_header (layoutOf h off scs key) = h" "rl_entries (layoutOf h off scs key) = entriesFor 0 scs"
  "rl_totalStored (layoutOf h off scs key) = length (storedBytes scs)" "rl_decKey (layoutOf h off scs key) = key"
  "rl_firstFrameAt (layoutOf h off scs key) = off + RecordHeaderSize + length scs * FrameIndexEntrySize"
  by (simp_all add: layoutOf_def)

lemma recordKey_keyFor:
  assumes "keyFor z r h key"
  obtains r2 where "recordKey z r (rh_KeyID h) = (Inr key, r2)" "rd_file r2 = rd_file r"
proof (cases "rh_KeyID h = 0")
  case True
  then show ?thesis using assms that by (simp add: keyFor_def recordKey_def)
next
  case False
  then obtain reg where "rd_enc r = Some reg" "fst (ResolveNumeric (fc_aead z) reg (rh_KeyID h)) = Inr key"
    using assms by (auto simp: keyFor_def)
  then show ?thesis
    using that False by (cases "ResolveNumeric (fc_aead z) reg (rh_KeyID h)") (simp add: recordKey_def)
qed

lemma recordKey_file: "recordKey z r k = (x, r2) \<Longrightarrow> rd_file r2 = rd_file r"
  by (auto simp: recordKey_def split: if_splits option.splits prod.splits)

lemma readRecordLayout_parts:
  assumes d: "describes h scs" and i: "partsAt (rd_file r) off h scs" and o: "SegmentHeaderSize \<le> off"
  obtains r1 where "rd_file r1 = rd_file r" "rd_enc r1 = rd_enc r"
    "readRecordLayout z r off (rh_StoredLen h) (rh_LogicalLen h) =
       (case recordKey z r1 (rh_KeyID h) of
          (Inl e, r2) \<Rightarrow> (Inl e, r2) | (Inr key, r2) \<Rightarrow> (Inr (layoutOf h off scs key), r2))"
proof -
  let ?ff = "off + RecordHeaderSize + length scs * FrameIndexEntrySize"
  let ?need = "?ff + length (storedBytes scs) + RecordTrailerSize"
  define r1 where "r1 = (if rd_sizeBytes r < ?need then refreshSize r else r)"
  have t: "holds_at (rd_file r) (?ff + length (storedBytes scs)) (encodeTrailer (of_nat (framingLen scs)))"
    using i by (simp add: partsAt_def)
  have "?need \<le> length (rd_file r)" using holds_at_length [OF t] by simp
  then have r1: "\<not> rd_sizeBytes r1 < ?need" "rd_file r1 = rd_file r" "rd_enc r1 = rd_enc r"
    by (auto simp: r1_def refreshSize_def)
  have tr: "readTrailer r2 (?ff + length (storedBytes scs))
      (RecordHeaderSize + length scs * FrameIndexEntrySize + length (storedBytes scs) + RecordTrailerSize) = Inr ()"
    if "rd_file r2 = rd_file r1" for r2
    using readAt_here [OF t, of RecordTrailerSize ErrEOF] r1 that by (simp add: readTrailer_def framingLen_def)
  obtain x r2 where rk: "recordKey z r1 (rh_KeyID h) = (x, r2)" by fastforce
  have "sum_list (map (\<lambda>e. unat (fe_StoredLen e)) (entriesFor 0 scs)) = length (storedBytes scs)"
    using d by (intro entry_lengths) (simp add: describes_def framingLen_def)
  then have "readRecordLayout z r off (rh_StoredLen h) (rh_LogicalLen h) =
       (case recordKey z r1 (rh_KeyID h) of
          (Inl e, r2) \<Rightarrow> (Inl e, r2) | (Inr key, r2) \<Rightarrow> (Inr (layoutOf h off scs key), r2))"
    using r1(1) d readIndexed_parts [OF d _ _ o, of r] i [unfolded partsAt_def] tr [OF recordKey_file [OF rk]] rk
    by (cases x) (simp_all add: readRecordLayout_def Let_def describes_def layoutOf_def r1_def [symmetric])
  then show ?thesis using that r1 by simp
qed

lemma readRecordLayout_image:
  assumes d: "describes h scs" and i: "partsAt (rd_file r) off h scs" and o: "SegmentHeaderSize \<le> off"
    and k: "keyFor z r h key"
  obtains r' where "readRecordLayout z r off (rh_StoredLen h) (rh_LogicalLen h) = (Inr (layoutOf h off scs key), r')"
    "rd_file r' = rd_file r"
proof -
  obtain r1 where r1: "rd_file r1 = rd_file r" "rd_enc r1 = rd_enc r"
    "readRecordLayout z r off (rh_StoredLen h) (rh_LogicalLen h) =
       (case recordKey z r1 (rh_KeyID h) of
          (Inl e, r2) \<Rightarrow> (Inl e, r2) | (Inr key, r2) \<Rightarrow> (Inr (layoutOf h off scs key), r2))"
    by (rule readRecordLayout_parts [OF d i o])
  have "keyFor z r1 h key" using k unfolding keyFor_def r1(2) .
  then obtain r2 where "recordKey z r1 (rh_KeyID h) = (Inr key, r2)" "rd_file r2 = rd_file r1"
    by (rule recordKey_keyFor)
  then show ?thesis using that r1 by simp
qed

section \<open>Frames of a record in a file\<close>

definition frameAt :: "(u8 list \<times> u8) list \<Rightarrow> nat \<Rightarrow> nat" where
  "frameAt scs i = sum_list (map (length \<circ> fst) (take i scs))"

lemma frameAt_bound: "i < length scs \<Longrightarrow> frameAt scs i + length (fst (scs ! i)) \<le> length (storedBytes scs)"
proof (induction scs arbitrary: i)
  case (Cons sc scs)
  then show ?case by (cases i) (auto simp: frameAt_def storedBytes_def)
qed simp

lemma storedBytes_frame: "i < length scs \<Longrightarrow> holds_at f p (storedBytes scs) \<Longrightarrow> holds_at f (p + frameAt scs i) (fst (scs ! i))"
  using holds_at_slice [of f p "map fst scs" i] by (simp add: storedBytes_def frameAt_def take_map)

lemma entry_fields:
  assumes "i < length scs" "length (storedBytes scs) < 2 ^ 32"
  shows "unat (fe_Offset (entriesFor 0 scs ! i)) = frameAt scs i"
    "unat (fe_StoredLen (entriesFor 0 scs ! i)) = length (fst (scs ! i))"
    "fe_CRC (entriesFor 0 scs ! i) = CRC32C (fst (scs ! i))" "fe_Codec (entriesFor 0 scs ! i) = snd (scs ! i)"
  using assms frameAt_bound [OF assms(1)]
  by (simp_all add: entriesFor_nth entryFor_def frameAt_def unsigned_of_nat take_bit_nat_eq_self)

lemma readStored_image:
  assumes d: "describes h scs" and b: "holds_at (rd_file r) (off + RecordHeaderSize + length scs * FrameIndexEntrySize) (storedBytes scs)"
    and i: "i < length scs"
  shows "readStored r (layoutOf h off scs key) (entriesFor 0 scs ! i) = Inr (fst (scs ! i))"
proof -
  have l: "length (storedBytes scs) < 2 ^ 32" using d by (simp add: describes_def framingLen_def)
  note e = entry_fields [OF i l]
  have "readAt ErrEOF (rd_file r) (off + RecordHeaderSize + length scs * FrameIndexEntrySize + frameAt scs i)
      (length (fst (scs ! i))) = Inr (fst (scs ! i))"
    by (rule holds_at_readAt) (rule storedBytes_frame [OF i b])
  then show ?thesis using frameAt_bound [OF i] by (simp add: readStored_def e VerifyFrameCRC_def)
qed

lemma image_stored: "holds_at f off (imageOf h scs) \<Longrightarrow>
  holds_at f (off + RecordHeaderSize + length scs * FrameIndexEntrySize) (storedBytes scs)"
  by (simp add: imageOf_def holds_at_append add.assoc)

lemma readLogicalFrame_image:
  assumes d: "describes h scs" and b: "holds_at (rd_file r) (off + RecordHeaderSize + length scs * FrameIndexEntrySize) (storedBytes scs)"
    and i: "i < length scs" and s: "stored_as z key frame (scs ! i)"
  shows "readLogicalFrame z r (layoutOf h off scs key) (entriesFor 0 scs ! i) = Inr frame"
proof -
  have l: "length (storedBytes scs) < 2 ^ 32" using d by (simp add: describes_def framingLen_def)
  show ?thesis
    using s by (auto simp: readLogicalFrame_def readStored_image [OF d b i] entry_fields [OF i l] stored_as_def
        split: sum.splits if_splits)
qed

section \<open>Reading a whole record\<close>

lemma readCodedFrames_image:
  assumes d: "describes h scs" and b: "holds_at (rd_file r) (off + RecordHeaderSize + length scs * FrameIndexEntrySize) (storedBytes scs)"
    and s: "list_all2 (stored_as z key) frames scs"
    and i: "i \<le> length scs" and out: "length out + length (concat (drop i frames)) = len"
  shows "readCodedFrames z r (layoutOf h off scs key) len (drop i (entriesFor 0 scs)) out = Inr (out @ concat (drop i frames))"
  using i out
proof (induction "length scs - i" arbitrary: i out)
  case 0
  then show ?case using list_all2_lengthD [OF s] by simp
next
  case (Suc n)
  have lt: "i < length scs" "i < length frames" using Suc.hyps(2) list_all2_lengthD [OF s] by simp_all
  have e: "drop i (entriesFor 0 scs) = entriesFor 0 scs ! i # drop (Suc i) (entriesFor 0 scs)"
    "drop i frames = frames ! i # drop (Suc i) frames" using lt by (simp_all add: Cons_nth_drop_Suc)
  have f: "readLogicalFrame z r (layoutOf h off scs key) (entriesFor 0 scs ! i) = Inr (frames ! i)"
    by (rule readLogicalFrame_image [OF d b lt(1)]) (use s lt in \<open>simp add: list_all2_nthD2\<close>)
  have t: "take (len - length out) (frames ! i) = frames ! i" using Suc.prems(2) e(2) by simp
  have "n = length scs - Suc i" "Suc i \<le> length scs" using Suc.hyps(2) lt by simp_all
  moreover have "length (out @ frames ! i) + length (concat (drop (Suc i) frames)) = len" using Suc.prems(2) e(2) by simp
  ultimately show ?case using Suc.hyps(1) [of "Suc i" "out @ frames ! i"] by (simp add: e f t)
qed

lemma readPlainFrames_image:
  assumes d: "describes h scs" and b: "holds_at (rd_file r) (off + RecordHeaderSize + length scs * FrameIndexEntrySize) (storedBytes scs)"
    and i: "i \<le> length scs" and out: "length out + length (storedBytes (drop i scs)) = len"
  shows "readPlainFrames r (layoutOf h off scs key) len (drop i (entriesFor 0 scs)) out = Inr (out @ storedBytes (drop i scs))"
  using i out
proof (induction "length scs - i" arbitrary: i out)
  case 0
  then show ?case by (simp add: storedBytes_def)
next
  case (Suc n)
  have lt: "i < length scs" using Suc.hyps(2) by simp
  have l: "length (storedBytes scs) < 2 ^ 32" using d by (simp add: describes_def framingLen_def)
  have e: "drop i (entriesFor 0 scs) = entriesFor 0 scs ! i # drop (Suc i) (entriesFor 0 scs)"
    "drop i scs = scs ! i # drop (Suc i) scs" using lt by (simp_all add: Cons_nth_drop_Suc)
  have p: "\<not> len < length out + unat (fe_StoredLen (entriesFor 0 scs ! i))"
    using Suc.prems(2) e(2) by (simp add: entry_fields [OF lt l] storedBytes_def)
  have "n = length scs - Suc i" "Suc i \<le> length scs" using Suc.hyps(2) lt by simp_all
  moreover have "length (out @ fst (scs ! i)) + length (storedBytes (drop (Suc i) scs)) = len"
    using Suc.prems(2) e(2) by (simp add: storedBytes_def)
  ultimately show ?case
    using Suc.hyps(1) [of "Suc i" "out @ fst (scs ! i)"] p
    by (simp add: e readStored_image [OF d b lt] storedBytes_def)
qed

section \<open>Reading a range\<close>

lemma range_piece:
  fixes data :: "u8 list"
  assumes "lo + len \<le> length data" "m < lo + len" "lo < m + fs" "0 < len" "0 < fs"
  defines "F \<equiv> take fs (drop m data)" and "from \<equiv> lo - m" and "out \<equiv> take (min len (m - lo)) (drop lo data)"
  defines "hi \<equiv> min (lo + len - m) (length F)"
  shows "from < hi" and "out @ slice from hi F = take (min len (m + fs - lo)) (drop lo data)"
    and "take (len - length out) (slice from hi F) = slice from hi F"
    and "lo \<le> m \<Longrightarrow> length F \<le> lo + len - m \<Longrightarrow>
           out @ F = take (min len (m + fs - lo)) (drop lo data) \<and> length out + length F \<le> len"
proof -
  have lF: "length F = min fs (length data - m)" by (simp add: F_def)
  show fu: "from < hi" using assms(1-5) unfolding from_def hi_def lF by auto
  have a: "length out = m - lo" using assms(1,2) by (simp add: out_def)
  have "min len (m - lo) = m - lo" using assms(2,4) by auto
  then have out: "out = take (m - lo) (drop lo data)" by (simp add: out_def)
  have sl: "slice from hi F = take (hi - from) (drop (m - lo) (drop lo data))"
  proof -
    have "hi - from \<le> fs - from" by (simp add: hi_def lF)
    moreover have "m + from = lo + (m - lo)" by (simp add: from_def)
    ultimately show ?thesis by (simp add: slice_def F_def drop_take min_absorb1 add.commute)
  qed
  have l: "m - lo + (hi - from) = min len (m + fs - lo)"
    using assms(1-5) unfolding from_def hi_def lF by (auto simp: min_def)
  show "out @ slice from hi F = take (min len (m + fs - lo)) (drop lo data)"
    unfolding sl out l [symmetric] by (simp add: take_add)
  have "hi - from \<le> len - length out" unfolding a using l by linarith
  moreover have "length (slice from hi F) \<le> hi - from" by simp
  ultimately have "length (slice from hi F) \<le> len - length out" by (rule order.trans [rotated])
  then show "take (len - length out) (slice from hi F) = slice from hi F" by simp
  assume m: "lo \<le> m" "length F \<le> lo + len - m"
  then have "slice from hi F = F" by (simp add: from_def hi_def)
  then show "out @ F = take (min len (m + fs - lo)) (drop lo data) \<and> length out + length F \<le> len"
    using \<open>out @ slice from hi F = _\<close> m assms(2) by (simp add: a)
qed

lemma readRange_coded:
  assumes "rl_entries L ! i = e" "EffectiveFrameSize (rl_header L) = fs"
    "\<not> rl_totalStored L < unat (fe_Offset e) + unat (fe_StoredLen e)"
    "\<not> (rl_decKey L = None \<and> fe_Codec e = CompressionNone \<and> lo - i * fs = 0 \<and> unat (fe_StoredLen e) \<le> lo + len - i * fs)"
    "readLogicalFrame z r L e = Inr F" "lo - i * fs < min (lo + len - i * fs) (length F)"
    "take (len - length out) (slice (lo - i * fs) (min (lo + len - i * fs) (length F)) F) = P"
  shows "readRange z r L lo len (i # js) out = readRange z r L lo len js (out @ P)"
  using assms(3,4,6,7) by (simp only: readRange.simps Let_def assms(1,2,5) if_False sum.case not_le [symmetric])

lemma readRange_plain:
  assumes "rl_entries L ! i = e" "EffectiveFrameSize (rl_header L) = fs"
    "\<not> rl_totalStored L < unat (fe_Offset e) + unat (fe_StoredLen e)"
    "rl_decKey L = None \<and> fe_Codec e = CompressionNone \<and> lo - i * fs = 0 \<and> unat (fe_StoredLen e) \<le> lo + len - i * fs"
    "readStored r L e = Inr F" "\<not> len < length out + unat (fe_StoredLen e)"
  shows "readRange z r L lo len (i # js) out = readRange z r L lo len js (out @ F)"
  using assms(3,4,6) by (simp only: readRange.simps Let_def assms(1,2,5) if_False if_True sum.case simp_thms)

lemma readRange_image:
  assumes d: "describes h scs" and b: "holds_at (rd_file r) (off + RecordHeaderSize + length scs * FrameIndexEntrySize) (storedBytes scs)"
    and s: "list_all2 (stored_as z key) (map (\<lambda>i. take fs (drop (i * fs) data)) [0 ..< length scs]) scs"
    and fs: "EffectiveFrameSize h = fs" "0 < fs"
    and len: "lo + len \<le> length data" "0 < len" and last: "(lo + len - 1) div fs < length scs"
    and i: "lo div fs \<le> i" "i \<le> Suc ((lo + len - 1) div fs)"
  shows "readRange z r (layoutOf h off scs key) lo len [i ..< Suc ((lo + len - 1) div fs)] (take (min len (i * fs - lo)) (drop lo data))
       = Inr (take len (drop lo data))"
  using i
proof (induction "Suc ((lo + len - 1) div fs) - i" arbitrary: i)
  case 0
  then have "i = Suc ((lo + len - 1) div fs)" by simp
  moreover have "lo + len - 1 < Suc ((lo + len - 1) div fs) * fs"
    using fs(2) by (metis dividend_less_div_times mult.commute mult_Suc add.commute)
  ultimately have "lo + len - 1 < i * fs" by (simp only:)
  then have "lo + len \<le> i * fs" by linarith
  then have "min len (i * fs - lo) = len" by simp
  then show ?case using 0 len by simp
next
  case (Suc n)
  let ?L = "layoutOf h off scs key" and ?out = "take (min len (i * fs - lo)) (drop lo data)"
  let ?F = "take fs (drop (i * fs) data)" and ?e = "entriesFor 0 scs ! i"
  have il: "i \<le> (lo + len - 1) div fs" using Suc.hyps(2) by simp
  then have lt: "i < length scs" using last by simp
  have m: "i * fs < lo + len" "lo < i * fs + fs"
  proof -
    have "i * fs \<le> (lo + len - 1) div fs * fs" using il by (rule mult_le_mono1)
    also have "\<dots> \<le> lo + len - 1" by simp
    finally show "i * fs < lo + len" using len(2) by linarith
    have "lo < lo div fs * fs + fs" using dividend_less_div_times [OF fs(2), of lo] by (simp add: add.commute)
    also have "\<dots> \<le> i * fs + fs" using Suc.prems(1) by simp
    finally show "lo < i * fs + fs" .
  qed
  note P = range_piece [OF len(1) m len(2) fs(2)]
  have sf: "stored_as z key ?F (scs ! i)" using list_all2_nthD2 [OF s lt] lt by simp
  have l32: "length (storedBytes scs) < 2 ^ 32" using d by (simp add: describes_def framingLen_def)
  note ef = entry_fields [OF lt l32]
  have ib: "\<not> length (storedBytes scs) < unat (fe_Offset ?e) + unat (fe_StoredLen ?e)"
    using frameAt_bound [OF lt] by (simp add: ef)
  define js where "js = [Suc i ..< Suc ((lo + len - 1) div fs)]"
  have nxt: "readRange z r ?L lo len js (take (min len (i * fs + fs - lo)) (drop lo data)) = Inr (take len (drop lo data))"
    using Suc.hyps(1) [of "Suc i"] Suc.hyps(2) Suc.prems by (simp add: add.commute js_def)
  have u: "[i ..< Suc ((lo + len - 1) div fs)] = i # js" unfolding js_def using il by (intro upt_conv_Cons) simp
  have rl: "readLogicalFrame z r ?L ?e = Inr ?F" by (rule readLogicalFrame_image [OF d b lt sf])
  have rs: "readStored r ?L ?e = Inr (fst (scs ! i))" by (rule readStored_image [OF d b lt])
  show ?case
  proof (cases "key = None \<and> snd (scs ! i) = CompressionNone \<and> lo - i * fs = 0 \<and> length (fst (scs ! i)) \<le> lo + len - i * fs")
    case True
    then have F: "fst (scs ! i) = ?F" using sf by (simp add: stored_as_def)
    have o: "?out @ ?F = take (min len (i * fs + fs - lo)) (drop lo data) \<and> length ?out + length ?F \<le> len"
      by (rule P(4)) (use True F in simp_all)
    have "readRange z r ?L lo len (i # js) ?out = readRange z r ?L lo len js (?out @ ?F)"
      by (rule readRange_plain [of ?L i ?e fs]) (use True rs ib o F fs in \<open>simp_all add: ef\<close>)
    then show ?thesis unfolding u using o nxt by simp
  next
    case False
    have "readRange z r ?L lo len (i # js) ?out
        = readRange z r ?L lo len js (?out @ slice (lo - i * fs) (min (lo + len - i * fs) (length ?F)) ?F)"
      by (rule readRange_coded [of ?L i ?e fs, OF _ _ _ _ rl P(1) P(3)]) (use False ib fs in \<open>simp_all add: ef\<close>)
    then show ?thesis unfolding u P(2) using nxt by simp
  qed
qed

section \<open>Records that Write prepares\<close>

definition MaxExtentSize :: nat where
  "MaxExtentSize = 16777216"

lemma stored_bound:
  assumes "list_all2 (stored_as z key) frames scs" "\<And>x. x \<in> set frames \<Longrightarrow> length x \<le> m"
  shows "length (storedBytes scs) \<le> length scs * FrameStoredLen m"
  using assms
proof (induction rule: list_all2_induct)
  case (Cons frame frames sc scs)
  have "length (fst sc) \<le> FrameStoredLen (length frame)" using Cons.hyps(1) by (simp add: stored_as_def)
  also have "\<dots> \<le> FrameStoredLen m" using Cons.prems [of frame] by (simp add: FrameStoredLen_def)
  finally have "length (fst sc) \<le> FrameStoredLen m" .
  moreover have "length (storedBytes scs) \<le> length scs * FrameStoredLen m" using Cons by simp
  ultimately show ?case by (simp add: storedBytes_def)
qed (simp add: storedBytes_def)

lemma putMaterial_record:
  assumes z: "frameCodec_ok z" and n: "\<And>j x. nonces j = Some x \<Longrightarrow> length x = NonceSize"
    and p: "putMaterial z nonces key ext gen data = Inr (h, idx, stored)" and l: "length data \<le> MaxExtentSize"
  obtains scs where "describes h scs" "idx = indexBytes scs" "stored = storedBytes scs"
    "list_all2 (stored_as z (snd key)) (map (\<lambda>i. take DefaultFrameSize (drop (i * DefaultFrameSize) data)) [0 ..< length scs]) scs"
    "length scs = frameNumber (length data) DefaultFrameSize"
    "rh_LogicalLen h = of_nat (length data)" "EffectiveFrameSize h = DefaultFrameSize" "rh_KeyID h = fst key"
proof -
  let ?c = "ShouldCompress z (length data) (SampledBytes data 4096)"
  obtain es codec where b: "storeFrames z ?c (snd key) nonces 0 0 (splitFrames data DefaultFrameSize) = Inr (stored, es)"
    and idx: "idx = concat (map encodeEntry es)"
    and h: "h = \<lparr>rh_Magic = RecordMagic, rh_Version = FormatVersion, rh_Op = RecordPut,
                   rh_ExtentID = ext, rh_Generation = gen,
                   rh_LogicalLen = of_nat (length data), rh_StoredLen = of_nat (length stored),
                   rh_Codec = codec, rh_KeyID = fst key, rh_FrameSize = of_nat DefaultFrameSize,
                   rh_FrameCount = of_nat (length es), rh_PayloadChecksum = checksumOf data,
                   rh_FrameIndexCRC = CRC32C idx\<rparr>"
    using p by (auto simp: putMaterial_def BuildFramedRecord_def encodeFrameIndex_def Let_def DefaultFrameSize_def
        split: sum.splits prod.splits)
  obtain scs where st: "stored = storedBytes scs" and es: "es = entriesFor 0 scs"
    and la: "list_all2 (stored_as z (snd key)) (splitFrames data DefaultFrameSize) scs"
    using storeFrames_Inr [where nonces = nonces and offset = 0, OF z n] b by (fastforce simp: storedBytes_def)
  have len: "length scs = frameNumber (length data) DefaultFrameSize"
    using list_all2_lengthD [OF la] by (simp add: splitFrames_def)
  have "(65535 + length data) div 65536 \<le> (65535 + 16777216) div 65536"
    using l by (intro div_le_mono) (simp add: MaxExtentSize_def)
  then have nb: "length scs \<le> 256" by (simp add: len frameNumber_def Let_def DefaultFrameSize_def)
  have "length (storedBytes scs) \<le> length scs * FrameStoredLen DefaultFrameSize"
    by (rule stored_bound [OF la]) (auto simp: splitFrames_def)
  also have "\<dots> \<le> 256 * FrameStoredLen DefaultFrameSize" using nb by simp
  finally have sb: "length (storedBytes scs) \<le> 16784384"
    by (simp add: FrameStoredLen_def DefaultFrameSize_def NonceSize_def AEADOverhead_def)
  have "describes h scs"
    using nb sb by (simp add: describes_def h headerOK_def validOp_def st es idx indexBytes_def framingLen_def size_defs
        unsigned_of_nat take_bit_nat_eq_self)
  moreover have "EffectiveFrameSize h = DefaultFrameSize" by (simp add: EffectiveFrameSize_def h DefaultFrameSize_def)
  moreover have "idx = indexBytes scs" by (simp add: idx es indexBytes_def)
  ultimately show ?thesis using that [of scs] st la len by (simp add: splitFrames_def h)
qed

lemma concat_frames:
  assumes "0 < fs" "length data \<le> n * fs"
  shows "concat (map (\<lambda>i. take fs (drop (i * fs) data)) [0 ..< n]) = data"
proof -
  have "concat (map (\<lambda>i. take fs (drop (i * fs) data)) [0 ..< k]) = take (k * fs) data" for k
  proof (induction k)
    case (Suc k)
    then show ?case by (simp add: take_add [symmetric] add.commute)
  qed simp
  then show ?thesis using assms(2) by simp
qed

lemma frameNumber_covers: "0 < fs \<Longrightarrow> len \<le> frameNumber len fs * fs"
  using dividend_less_div_times [of fs "len + fs - 1"] by (auto simp: frameNumber_def Let_def)

lemma written_holds:
  assumes "WriteRecordFramed f off h (indexBytes scs) (storedBytes scs) = Inr f'" "describes h scs"
  shows "holds_at (f' @ later) off (imageOf h scs)"
  using assms by (auto simp: WriteRecordFramed_def recordImage_imageOf intro: holds_at_extend)

lemma unat_logical: "length data \<le> MaxExtentSize \<Longrightarrow> unat (of_nat (length data) :: u32) = length data"
  by (simp add: MaxExtentSize_def unsigned_of_nat take_bit_nat_eq_self)

lemma plain_frames:
  assumes "list_all2 (stored_as z None) frames scs" "list_all (\<lambda>sc. snd sc = CompressionNone) scs"
  shows "storedBytes scs = concat frames"
  using assms by (induction rule: list_all2_induct) (auto simp: storedBytes_def stored_as_def)

lemma entriesFor_codecs: "list_all (\<lambda>e. fe_Codec e = c) (entriesFor offset scs) \<longleftrightarrow> list_all (\<lambda>sc. snd sc = c) scs"
  by (induction scs arbitrary: offset) (auto simp: entryFor_def)

lemma payload_read:
  assumes d: "describes h scs" and i: "holds_at (rd_file r) off (imageOf h scs)" and o: "SegmentHeaderSize \<le> off"
    and k: "keyFor z r h key" and s: "list_all2 (stored_as z key) frames scs"
    and l: "unat (rh_LogicalLen h) = length (concat frames)"
  shows "fst (ReadPayloadFrames z r off (rh_StoredLen h) (rh_LogicalLen h)) = Inr (concat frames)"
proof -
  obtain r' where r': "readRecordLayout z r off (rh_StoredLen h) (rh_LogicalLen h) = (Inr (layoutOf h off scs key), r')"
    "rd_file r' = rd_file r" by (rule readRecordLayout_image [OF d imageOf_parts [OF i] o k])
  have b: "holds_at (rd_file r') (off + RecordHeaderSize + length scs * FrameIndexEntrySize) (storedBytes scs)"
    using image_stored [OF i] r' by simp
  have c: "readCodedFrames z r' (layoutOf h off scs key) (length (concat frames)) (entriesFor 0 scs) [] = Inr (concat frames)"
    using readCodedFrames_image [OF d b s, of 0 "[]"] by simp
  have p: "readPlainFrames r' (layoutOf h off scs key) (length (concat frames)) (entriesFor 0 scs) [] = Inr (concat frames)"
    if "key = None" "list_all (\<lambda>sc. snd sc = CompressionNone) scs"
    using readPlainFrames_image [OF d b, of 0 "[]"] plain_frames [of z frames scs] s that by simp
  show ?thesis
    using c p by (simp add: ReadPayloadFrames_def r' l recordIsPlain_def entriesFor_codecs)
qed

lemma range_read:
  assumes d: "describes h scs" and i: "holds_at (rd_file r) off (imageOf h scs)" and o: "SegmentHeaderSize \<le> off"
    and k: "keyFor z r h key" and fs: "EffectiveFrameSize h = fs" "0 < fs"
    and s: "list_all2 (stored_as z key) (map (\<lambda>i. take fs (drop (i * fs) data)) [0 ..< length scs]) scs"
    and cov: "length data \<le> length scs * fs" and l: "unat (rh_LogicalLen h) = length data"
    and lo: "0 \<le> lo" "lo < int (length data)" and n: "0 < n"
  shows "fst (ReadRangeFrames z r off (rh_StoredLen h) (rh_LogicalLen h) lo n) = Inr (take (nat n) (drop (nat lo) data))"
proof -
  obtain r' where r': "readRecordLayout z r off (rh_StoredLen h) (rh_LogicalLen h) = (Inr (layoutOf h off scs key), r')"
    "rd_file r' = rd_file r" by (rule readRecordLayout_image [OF d imageOf_parts [OF i] o k])
  have b: "holds_at (rd_file r') (off + RecordHeaderSize + length scs * FrameIndexEntrySize) (storedBytes scs)"
    using image_stored [OF i] r' by simp
  define len where "len = (if int (length data) < lo + n then nat (int (length data) - lo) else nat n)"
  have len: "nat lo + len \<le> length data" "0 < len" using lo n by (auto simp: len_def)
  have "nat lo + len - 1 < length scs * fs" using len cov by linarith
  then have last: "(nat lo + len - 1) div fs < length scs" using fs(2) by (simp add: div_less_iff_less_mult)
  have "nat lo div fs \<le> (nat lo + len - 1) div fs" using len(2) by (intro div_le_mono) simp
  then have f: "nat lo div fs \<le> Suc ((nat lo + len - 1) div fs)" by simp
  have st: "take (min len (nat lo div fs * fs - nat lo)) (drop (nat lo) data) = []" by simp
  have "readRange z r' (layoutOf h off scs key) (nat lo) len [nat lo div fs ..< Suc ((nat lo + len - 1) div fs)] []
      = Inr (take len (drop (nat lo) data))"
    using readRange_image [OF d b s fs len last order_refl f] unfolding st .
  moreover have "take len (drop (nat lo) data) = take (nat n) (drop (nat lo) data)"
    using lo n by (auto simp: len_def nat_diff_distrib)
  moreover have "uint (rh_LogicalLen h) = int (length data)" using l by (metis uint_nat)
  ultimately show ?thesis
    using lo n last unfolding len_def
    by (cases "int (length data) < lo + n") (simp_all add: ReadRangeFrames_def r' fs Let_def del: upt_Suc)
qed

lemma material_reads:
  assumes "frameCodec_ok z" and "\<forall>j x. nonces j = Some x \<longrightarrow> length x = NonceSize"
    and "putMaterial z nonces (keyID, encKey) ext gen data = Inr (h, idx, stored)"
    and "length data \<le> MaxExtentSize" and "SegmentHeaderSize \<le> off"
    and "recordImage h idx stored = Inr img" and "holds_at (rd_file r) off img"
    and "keyFor z r h encKey"
  shows "fst (ReadPayloadFrames z r off (rh_StoredLen h) (of_nat (length data))) = Inr data"
    "0 \<le> lo \<Longrightarrow> lo < int (length data) \<Longrightarrow> 0 < n \<Longrightarrow>
       fst (ReadRangeFrames z r off (rh_StoredLen h) (of_nat (length data)) lo n) = Inr (take (nat n) (drop (nat lo) data))"
proof -
  obtain scs where d: "describes h scs" and idx: "idx = indexBytes scs" "stored = storedBytes scs"
    and s: "list_all2 (stored_as z encKey) (map (\<lambda>i. take DefaultFrameSize (drop (i * DefaultFrameSize) data)) [0 ..< length scs]) scs"
    and n: "length scs = frameNumber (length data) DefaultFrameSize"
    and h: "rh_LogicalLen h = of_nat (length data)" "EffectiveFrameSize h = DefaultFrameSize"
    using putMaterial_record [OF assms(1) _ assms(3,4)] assms(2) by auto
  have i: "holds_at (rd_file r) off (imageOf h scs)" using assms(6,7) recordImage_imageOf [OF d] idx by simp
  have fs: "0 < DefaultFrameSize" by (simp add: DefaultFrameSize_def)
  have cov: "length data \<le> length scs * DefaultFrameSize" using frameNumber_covers [OF fs] n by simp
  have l: "unat (rh_LogicalLen h) = length data" using unat_logical [OF assms(4)] h by simp
  show "fst (ReadPayloadFrames z r off (rh_StoredLen h) (of_nat (length data))) = Inr data"
    using payload_read [OF d i assms(5,8) s] concat_frames [OF fs cov] l h(1) by simp
  show "fst (ReadRangeFrames z r off (rh_StoredLen h) (of_nat (length data)) lo n) = Inr (take (nat n) (drop (nat lo) data))"
    if "0 \<le> lo" "lo < int (length data)" "0 < n"
    using range_read [OF d i assms(5,8) h(2) fs s cov l that] h(1) by simp
qed

text \<open>
  C38: What is written to a segment is what is read. A record that \<open>Store.Write\<close> prepares for a payload
  of at most 16 MiB and that the writer places at any offset behind the segment header is read back,
  also after the file has grown: the whole record gives the payload, and for every offset inside the
  payload and every positive length the range read gives exactly those bytes, cut off at the end of
  the payload. This holds for plain, compressed and encrypted records alike, when the reader's
  registry resolves the key identifier of the header to the key the frames were sealed with.
\<close>

theorem written_record_reads_back:
  assumes "frameCodec_ok z" and "\<forall>j x. nonces j = Some x \<longrightarrow> length x = NonceSize"
    and "putMaterial z nonces (keyID, encKey) ext gen data = Inr (h, idx, stored)"
    and "length data \<le> MaxExtentSize" and "SegmentHeaderSize \<le> off"
    and "WriteRecordFramed f off h idx stored = Inr f'" and "rd_file r = f' @ later"
    and "keyFor z r h encKey"
  shows "fst (ReadPayloadFrames z r off (rh_StoredLen h) (of_nat (length data))) = Inr data \<and>
    (0 \<le> lo \<and> lo < int (length data) \<and> 0 < n \<longrightarrow>
       fst (ReadRangeFrames z r off (rh_StoredLen h) (of_nat (length data)) lo n) = Inr (take (nat n) (drop (nat lo) data)))"
proof -
  obtain img where img: "recordImage h idx stored = Inr img" "f' = writeAt f off img"
    using assms(6) by (auto simp: WriteRecordFramed_def split: sum.splits)
  have "holds_at (rd_file r) off img" using img(2) assms(7) by (simp add: holds_at_extend)
  then show ?thesis using material_reads [OF assms(1-5) img(1) _ assms(8)] by blast
qed

text \<open>Codecs that satisfy the contract and a small record, for the witnesses.\<close>

definition plainFrames :: frameCodec where
  "plainFrames = \<lparr>zs_EncodeAll = (\<lambda>p. p), zs_DecodeAll = Some, fc_aead = plainAead\<rparr>"

lemma plainFrames_ok: "frameCodec_ok plainFrames"
  by (simp add: frameCodec_ok_def plainFrames_def plainAead_ok)

lemma demo_material:
  obtains h idx stored where "putMaterial plainFrames (\<lambda>i. None) (0, None) 7 1 [1, 2, 3] = Inr (h, idx, stored)"
    "validOp (rh_Op h)" "rh_KeyID h = 0"
  by (simp add: putMaterial_def BuildFramedRecord_def ShouldCompress_def CompressionNoCompressionThreshold_def splitFrames_def
      frameNumber_def DefaultFrameSize_def storeFrame_def encodeFrameIndex_def Let_def validOp_def)

theorem written_record_reads_back_witness:
  "\<exists>h idx stored f'. putMaterial plainFrames (\<lambda>i. None) (0, None) 7 1 [1, 2, 3] = Inr (h, idx, stored)
     \<and> WriteRecordFramed (replicate 22 0) 22 h idx stored = Inr f'
     \<and> fst (ReadRangeFrames plainFrames \<lparr>rd_file = f', rd_sizeBytes = 0, rd_enc = None\<rparr> 22 (rh_StoredLen h)
             (of_nat (length [1, 2, 3 :: u8])) 1 2) = Inr [2, 3]"
proof -
  obtain h idx stored where m: "putMaterial plainFrames (\<lambda>i. None) (0, None) 7 1 [1, 2, 3] = Inr (h, idx, stored)"
    and h: "validOp (rh_Op h)" "rh_KeyID h = 0" by (rule demo_material)
  obtain f' where w: "WriteRecordFramed (replicate 22 0) 22 h idx stored = Inr f'"
    using h by (auto simp: WriteRecordFramed_def recordImage_def encodeHeader_def)
  let ?r = "\<lparr>rd_file = f', rd_sizeBytes = 0, rd_enc = None\<rparr>"
  have "fst (ReadRangeFrames plainFrames ?r 22 (rh_StoredLen h) (of_nat (length [1, 2, 3 :: u8])) 1 2)
      = Inr (take (nat 2) (drop (nat 1) [1, 2, 3]))"
    by (rule written_record_reads_back [OF plainFrames_ok _ m _ _ w, of ?r "[]", THEN conjunct2, rule_format])
      (use h in \<open>simp_all add: MaxExtentSize_def SegmentHeaderSize_def keyFor_def\<close>)
  then show ?thesis using m w by auto
qed

end
