(* ===== verification/Record_Damage.thy ===== *)
theory Record_Damage
  imports Record_Props
begin

text \<open>
  Damage to segment records: a record in which one byte has changed, wherever it lies, is refused by
  a read of the whole record, and a read of a range returns the bytes that were written or an error.
\<close>

section \<open>Damaged records\<close>

lemma holds_at_update:
  assumes "holds_at f off buf"
  shows "holds_at (f[p := b]) off (if off \<le> p \<and> p < off + length buf then buf[p - off := b] else buf)"
  using assms slice_update [of off "off + length buf" f p b] by (auto simp: holds_at_def slice_def)

lemma holds_at_nth: "holds_at f off buf \<Longrightarrow> i < length buf \<Longrightarrow> f ! (off + i) = buf ! i"
  by (metis holds_at_def nth_take nth_drop add_leD1)

lemma holds_at_unique: "holds_at f off a \<Longrightarrow> holds_at f off b \<Longrightarrow> length a = length b \<Longrightarrow> a = b"
  by (simp add: holds_at_def)

lemma getUint32_changed: "i < 4 \<Longrightarrow> x \<noteq> putUint32 w ! i \<Longrightarrow> getUint32 ((putUint32 w)[i := x]) \<noteq> w"
proof
  assume i: "i < 4" "x \<noteq> putUint32 w ! i" and "getUint32 ((putUint32 w)[i := x]) = w"
  then have "getUint32 ((putUint32 w)[i := x]) = getUint32 (putUint32 w)" by simp
  then have "(putUint32 w)[i := x] = putUint32 w" by (intro getUint32_inject) simp_all
  then show False using i by (metis nth_list_update_eq length_putUint(2))
qed

lemma decodeHeader_changed:
  assumes i: "i < RecordHeaderSize" "x \<noteq> headerBytes h ! i"
    and d: "decodeHeader ((headerBytes h)[i := x]) = Inr h'"
  shows "rh_FrameCount h' = rh_FrameCount h \<and> rh_FrameIndexCRC h' \<noteq> rh_FrameIndexCRC h"
proof -
  let ?b = "headerBody h" and ?c = "putUint32 (CRC32C (headerBody h))" and ?f = "putUint32 (rh_FrameIndexCRC h)"
  have crc: "CRC32C (slice 0 47 ((headerBytes h)[i := x])) = getUint32 (slice 47 51 ((headerBytes h)[i := x]))"
    and h': "h' = parseHeader ((headerBytes h)[i := x])"
    using d by (auto simp: decodeHeader_def Let_def split: if_splits)
  have sl: "slice 0 47 (headerBytes h) = ?b" "slice 47 51 (headerBytes h) = ?c" "slice 51 55 (headerBytes h) = ?f"
    by (simp_all add: headerBytes_def)
  consider "i < 47" | "47 \<le> i" "i < 51" | "51 \<le> i" "i < 55" 
    using i(1) by (cases "i < 47"; cases "i < 51") (auto simp: RecordHeaderSize_def)
  then show ?thesis
  proof cases
    case 1
    then have "x \<noteq> ?b ! i" using i(2) by (auto simp: headerBytes_def nth_append split: if_splits)
    then have "CRC32C (?b[i := x]) \<noteq> CRC32C ?b" using 1 by (intro CRC32C_update) simp_all
    then show ?thesis using crc 1 by (simp add: slice_update sl)
  next
    case 2
    then have "x \<noteq> ?c ! (i - 47)" using i(2) by (auto simp: headerBytes_def nth_append split: if_splits)
    then have "getUint32 (?c[i - 47 := x]) \<noteq> CRC32C ?b" using 2 by (intro getUint32_changed) simp_all
    then show ?thesis using crc 2 by (simp add: slice_update sl)
  next
    case 3
    then have "x \<noteq> ?f ! (i - 51)" using i(2) by (auto simp: headerBytes_def nth_append split: if_splits)
    then have "getUint32 (?f[i - 51 := x]) \<noteq> rh_FrameIndexCRC h" using 3 by (intro getUint32_changed) simp_all
    moreover have "rh_FrameIndexCRC h' = getUint32 (?f[i - 51 := x])"
      using 3 by (simp add: h' parseHeader_def slice_update sl)
    moreover have "slice 41 43 ((headerBytes h)[i := x]) = slice 41 43 (headerBytes h)" using 3 by (simp add: slice_update)
    moreover have "rh_FrameCount h = getUint16 (slice 41 43 (headerBytes h))"
      using parseHeader_encode [of h "CRC32C ?b"] by (metis (no_types, lifting) RecordHeader.select_convs(11) headerBytes_def parseHeader_def)
    ultimately show ?thesis by (simp add: h' parseHeader_def)
  qed
qed

lemma decodeFrameIndex_changed:
  assumes "i < length b" "x \<noteq> b ! i"
  shows "\<exists>e. decodeFrameIndex (b[i := x]) (CRC32C b) = Inl e"
  using CRC32C_update [OF assms] by (simp add: decodeFrameIndex_def Let_def)

lemma decodeTrailer_changed:
  assumes "i < RecordTrailerSize" "x \<noteq> encodeTrailer n ! i"
  shows "\<exists>e. decodeTrailer ((encodeTrailer n)[i := x]) = Inl e"
proof -
  let ?n = "putUint32 n" and ?c = "putUint32 (CRC32C (putUint32 n))" and ?z = "putUint32 0"
  have sl: "slice 0 4 (encodeTrailer n) = ?n" "slice 4 8 (encodeTrailer n) = ?c" "slice 8 12 (encodeTrailer n) = ?z"
    by (simp_all add: encodeTrailer_def)
  consider "i < 4" | "4 \<le> i" "i < 8" | "8 \<le> i" "i < 12" 
    using assms(1) by (cases "i < 4"; cases "i < 8") (auto simp: RecordTrailerSize_def)
  then show ?thesis
  proof cases
    case 1
    then have "CRC32C (?n[i := x]) \<noteq> CRC32C ?n" using assms(2) by (intro CRC32C_update) (simp_all add: encodeTrailer_def nth_append)
    then show ?thesis using 1 by (simp add: decodeTrailer_def slice_update sl)
  next
    case 2
    then have "getUint32 (?c[i - 4 := x]) \<noteq> CRC32C ?n"
      using assms(2) by (intro getUint32_changed) (auto simp: encodeTrailer_def nth_append split: if_splits)
    then show ?thesis using 2 by (simp add: decodeTrailer_def slice_update sl)
  next
    case 3
    then have "getUint32 (?z[i - 8 := x]) \<noteq> 0"
      using assms(2) by (intro getUint32_changed) (auto simp: encodeTrailer_def nth_append split: if_splits)
    then show ?thesis using 3 by (simp add: decodeTrailer_def slice_update sl)
  qed
qed

lemma readAt_damaged:
  assumes "holds_at f p b" "n = length b" "q < length f"
  shows "readAt e (f[q := x]) p n = Inr (if p \<le> q \<and> q < p + length b then b[q - p := x] else b)"
  by (rule readAt_here [OF holds_at_update [OF assms(1)]]) (simp add: assms(2))

lemma readIndexed_damaged:
  assumes d: "describes h scs" and i: "holds_at f off (imageOf h scs)"
    and r: "rd_file r = f[off + k := x]" and k: "k < RecordHeaderSize + length scs * FrameIndexEntrySize" and x: "x \<noteq> imageOf h scs ! k"
  shows "\<exists>e. readIndexed r off (rh_LogicalLen h) = Inl e"
proof -
  have p: "holds_at f off (headerBytes h)" "holds_at f (off + RecordHeaderSize) (indexBytes scs)"
    using imageOf_parts [OF i] by (simp_all add: partsAt_def)
  have q: "off + k < length f" using holds_at_length [OF i] k by (simp add: length_imageOf framingLen_def)
  have fc: "unat (rh_FrameCount h) * FrameIndexEntrySize = length (indexBytes scs)" and ic: "rh_FrameIndexCRC h = CRC32C (indexBytes scs)"
    using d by (simp_all add: describes_def)
  note rh = readAt_damaged [OF p(1) _ q, of RecordHeaderSize ErrEOF x] and ri = readAt_damaged [OF p(2) fc q, of ErrEOF x]
  show ?thesis
  proof (cases "k < RecordHeaderSize")
    case True
    then have a: "readAt ErrEOF (rd_file r) off RecordHeaderSize = Inr ((headerBytes h)[k := x])"
      and b: "readAt ErrEOF (rd_file r) (off + RecordHeaderSize) (unat (rh_FrameCount h) * FrameIndexEntrySize) = Inr (indexBytes scs)"
      using rh ri by (simp_all add: r)
    have xh: "x \<noteq> headerBytes h ! k" using x True by (simp add: imageOf_def nth_append)
    show ?thesis
    proof (cases "decodeHeader ((headerBytes h)[k := x])")
      case (Inl e)
      then show ?thesis using a by (simp add: readIndexed_def)
    next
      case (Inr h')
      from decodeHeader_changed [OF True xh this] have "rh_FrameCount h' = rh_FrameCount h" "rh_FrameIndexCRC h' \<noteq> CRC32C (indexBytes scs)"
        using ic by simp_all
      then have "\<exists>e. decodeFrameIndex (indexBytes scs) (rh_FrameIndexCRC h') = Inl e" by (auto simp: decodeFrameIndex_def Let_def)
      then show ?thesis using a b Inr \<open>rh_FrameCount h' = rh_FrameCount h\<close> by (auto simp: readIndexed_def)
    qed
  next
    case False
    let ?j = "k - RecordHeaderSize"
    have a: "readAt ErrEOF (rd_file r) off RecordHeaderSize = Inr (headerBytes h)"
      and b: "readAt ErrEOF (rd_file r) (off + RecordHeaderSize) (unat (rh_FrameCount h) * FrameIndexEntrySize) = Inr ((indexBytes scs)[?j := x])"
      using rh ri False k by (simp_all add: r)
    have "?j < length (indexBytes scs)" "x \<noteq> indexBytes scs ! ?j"
      using x False k by (auto simp: imageOf_def nth_append split: if_splits)
    from decodeFrameIndex_changed [OF this] show ?thesis
      using a b decode_headerBytes [OF d] ic by (auto simp: readIndexed_def)
  qed
qed

lemma layout_damaged:
  assumes d: "describes h scs" and i: "holds_at f off (imageOf h scs)"
    and r: "rd_file r = f[off + k := x]" and x: "x \<noteq> imageOf h scs ! k" and k: "k < framingLen scs"
    and out: "\<not> (RecordHeaderSize + length scs * FrameIndexEntrySize \<le> k
                \<and> k < RecordHeaderSize + length scs * FrameIndexEntrySize + length (storedBytes scs))"
  shows "\<exists>e. fst (readRecordLayout z r off (rh_StoredLen h) (rh_LogicalLen h)) = Inl e"
proof (cases "k < RecordHeaderSize + length scs * FrameIndexEntrySize")
  case True
  then show ?thesis using readIndexed_damaged [OF d i r _ x] by (auto simp: readRecordLayout_def)
next
  case False
  let ?ff = "off + RecordHeaderSize + length scs * FrameIndexEntrySize" and ?s = "length (storedBytes scs)"
  let ?t = "encodeTrailer (of_nat (framingLen scs))"
  let ?j = "k - (RecordHeaderSize + length scs * FrameIndexEntrySize + ?s)"
  have t: "holds_at f (?ff + ?s) ?t" using imageOf_parts [OF i] by (simp add: partsAt_def)
  have q: "off + k < length f" using holds_at_length [OF i] k by (simp add: length_imageOf)
  have j: "?j < RecordTrailerSize" using k False out by (simp add: framingLen_def)
  have xt: "x \<noteq> ?t ! ?j" using x False out by (auto simp: imageOf_def nth_append diff_diff_eq split: if_splits)
  have tr: "\<exists>e. readTrailer r2 (?ff + ?s) n = Inl e" if "rd_file r2 = rd_file r" for r2 n
    using readAt_damaged [OF t _ q, of RecordTrailerSize ErrEOF x] decodeTrailer_changed [OF j xt] False out k that
    by (auto simp: readTrailer_def r framingLen_def diff_diff_eq add.assoc)
  define r1 where "r1 = (if rd_sizeBytes r < ?ff + ?s + RecordTrailerSize then refreshSize r else r)"
  obtain y r2 where rk: "recordKey z r1 (rh_KeyID h) = (y, r2)" by fastforce
  have "rd_file r2 = rd_file r" using recordKey_file [OF rk] by (simp add: r1_def refreshSize_def)
  from tr [OF this] obtain e where e: "readTrailer r2 (?ff + ?s) (RecordHeaderSize + length scs * FrameIndexEntrySize + ?s + RecordTrailerSize) = Inl e"
    by blast
  have su: "sum_list (map (\<lambda>e. unat (fe_StoredLen e)) (entriesFor 0 scs)) = ?s"
    using d by (intro entry_lengths) (simp add: describes_def framingLen_def)
  have hi: "holds_at (rd_file r) off (headerBytes h)" "holds_at (rd_file r) (off + RecordHeaderSize) (indexBytes scs)"
    using holds_at_update [of f off "headerBytes h" "off + k" x] holds_at_update [of f "off + RecordHeaderSize" "indexBytes scs" "off + k" x]
      imageOf_parts [OF i] False by (simp_all add: partsAt_def r)
  show ?thesis
  proof (cases "SegmentHeaderSize \<le> off")
    case True
    then show ?thesis
      using readIndexed_parts [OF d hi True] e su rk d
      by (cases y) (simp_all add: readRecordLayout_def Let_def describes_def r1_def [symmetric])
  next
    case False
    then show ?thesis by (simp add: readRecordLayout_def readIndexed_def)
  qed
qed

lemma frame_of_position:
  "k < length (storedBytes scs) \<Longrightarrow> \<exists>j < length scs. frameAt scs j \<le> k \<and> k < frameAt scs j + length (fst (scs ! j))"
proof (induction scs arbitrary: k)
  case (Cons sc scs)
  show ?case
  proof (cases "k < length (fst sc)")
    case True
    then show ?thesis by (intro exI [of _ 0]) (simp add: frameAt_def)
  next
    case False
    then have "k - length (fst sc) < length (storedBytes scs)" using Cons.prems by (simp add: storedBytes_def)
    then obtain j where "j < length scs" "frameAt scs j \<le> k - length (fst sc)"
      "k - length (fst sc) < frameAt scs j + length (fst (scs ! j))"
      using Cons.IH [of "k - length (fst sc)"] by blast
    then show ?thesis using False by (intro exI [of _ "Suc j"]) (auto simp: frameAt_def)
  qed
qed (simp add: storedBytes_def)

lemma readStored_damaged:
  assumes d: "describes h scs" and p: "p = off + RecordHeaderSize + length scs * FrameIndexEntrySize"
    and b: "holds_at f p (storedBytes scs)" and r: "rd_file r = f[p + k := x]"
    and k: "k < length (storedBytes scs)" "x \<noteq> storedBytes scs ! k" and i: "i < length scs"
  shows "if frameAt scs i \<le> k \<and> k < frameAt scs i + length (fst (scs ! i))
         then \<exists>e. readStored r (layoutOf h off scs key) (entriesFor 0 scs ! i) = Inl e
         else readStored r (layoutOf h off scs key) (entriesFor 0 scs ! i) = Inr (fst (scs ! i))"
proof -
  let ?s = "fst (scs ! i)" and ?in = "frameAt scs i \<le> k \<and> k < frameAt scs i + length (fst (scs ! i))"
  have l: "length (storedBytes scs) < 2 ^ 32" using d by (simp add: describes_def framingLen_def)
  note e = entry_fields [OF i l]
  have hf: "holds_at f (p + frameAt scs i) ?s" by (rule storedBytes_frame [OF i b])
  have q: "p + k < length f" using holds_at_length [OF b] k by simp
  have rd: "readAt ErrEOF (rd_file r) (p + frameAt scs i) (length ?s) = Inr (if ?in then ?s[k - frameAt scs i := x] else ?s)"
    using readAt_damaged [OF hf refl q, of ErrEOF x] by (simp add: r)
  have "CRC32C (?s[k - frameAt scs i := x]) \<noteq> CRC32C ?s" if inn: ?in
  proof (rule CRC32C_update)
    show "k - frameAt scs i < length ?s" using inn by linarith
    obtain t where t: "k = frameAt scs i + t" using inn le_Suc_ex [of "frameAt scs i" k] by auto
    have "t < length ?s" using inn by (simp add: t)
    then have "storedBytes scs ! k = ?s ! t"
      using holds_at_nth [OF b k(1)] holds_at_nth [OF hf, of t] unfolding t add.assoc by simp
    then have "storedBytes scs ! k = ?s ! (k - frameAt scs i)" by (simp add: t)
    then show "x \<noteq> ?s ! (k - frameAt scs i)" using k(2) by simp
  qed
  then have v: "VerifyFrameCRC (?s[k - frameAt scs i := x]) (CRC32C ?s) = Inl ErrChecksumMismatch" if ?in
    using that by (simp add: VerifyFrameCRC_def)
  have "readStored r (layoutOf h off scs key) (entriesFor 0 scs ! i)
      = (case readAt ErrEOF (rd_file r) (p + frameAt scs i) (length ?s) of Inl err \<Rightarrow> Inl err
         | Inr frame \<Rightarrow> (case VerifyFrameCRC frame (CRC32C ?s) of Inl err \<Rightarrow> Inl err | Inr _ \<Rightarrow> Inr frame))"
    using frameAt_bound [OF i] unfolding readStored_def e layoutOf_simps p by simp
  then show ?thesis unfolding rd using v by (cases ?in) (simp_all add: VerifyFrameCRC_def)
qed

lemma plain_stops: "e \<in> set es \<Longrightarrow> readStored r L e = Inl err \<Longrightarrow> \<exists>x. readPlainFrames r L len es out = Inl x"
proof (induction es arbitrary: out)
  case (Cons a es)
  then show ?case by (cases "readStored r L a") auto
qed simp

lemma coded_stops: "e \<in> set es \<Longrightarrow> readStored r L e = Inl err \<Longrightarrow> \<exists>x. readCodedFrames z r L len es out = Inl x"
proof (induction es arbitrary: out)
  case (Cons a es)
  show ?case
  proof (cases "a = e")
    case True
    then show ?thesis using Cons.prems(2) by (simp add: readLogicalFrame_def)
  next
    case False
    then show ?thesis using Cons by (cases "readLogicalFrame z r L a") auto
  qed
qed simp

text \<open>A reader that sees the same frames, or an error in their place, returns the same range or an error.\<close>

lemma logical_same_or_error:
  assumes "readStored r L e = readStored r0 L e \<or> (\<exists>x. readStored r L e = Inl x)"
  shows "readLogicalFrame z r L e = readLogicalFrame z r0 L e \<or> (\<exists>x. readLogicalFrame z r L e = Inl x)"
  using assms by (auto simp: readLogicalFrame_def)

declare readRange.simps(2) [simp del]

definition verbatim :: "recordLayout \<Rightarrow> nat \<Rightarrow> nat \<Rightarrow> nat \<Rightarrow> bool" where
  "verbatim L lo len i \<longleftrightarrow> (let e = rl_entries L ! i; m = i * EffectiveFrameSize (rl_header L) in
     rl_decKey L = None \<and> fe_Codec e = CompressionNone \<and> lo - m = 0 \<and> unat (fe_StoredLen e) \<le> lo + len - m)"

lemma readRange_verbatim:
  "verbatim L lo len i \<Longrightarrow> readRange z r L lo len (i # js) out =
     (let e = rl_entries L ! i in
      if rl_totalStored L < unat (fe_Offset e) + unat (fe_StoredLen e) then Inl ErrIndexCorrupt
      else if len < length out + unat (fe_StoredLen e) then Inl (ErrPanic ''slice bounds out of range'')
      else case readStored r L e of Inl err \<Rightarrow> Inl err | Inr frame \<Rightarrow> readRange z r L lo len js (out @ frame))"
  unfolding verbatim_def Let_def by (simp only: readRange.simps Let_def simp_thms if_True)

lemma readRange_decoded:
  "\<not> verbatim L lo len i \<Longrightarrow> readRange z r L lo len (i # js) out =
     (let e = rl_entries L ! i; m = i * EffectiveFrameSize (rl_header L) in
      if rl_totalStored L < unat (fe_Offset e) + unat (fe_StoredLen e) then Inl ErrIndexCorrupt
      else case readLogicalFrame z r L e of
             Inl err \<Rightarrow> Inl err
           | Inr F \<Rightarrow> if min (lo + len - m) (length F) \<le> lo - m then Inl ErrIndexCorrupt
               else readRange z r L lo len js (out @ take (len - length out) (slice (lo - m) (min (lo + len - m) (length F)) F)))"
  unfolding verbatim_def Let_def by (simp only: readRange.simps Let_def if_False)

lemma readRange_same_or_error:
  assumes "\<And>i. i \<in> set js \<Longrightarrow> readStored r L (rl_entries L ! i) = readStored r0 L (rl_entries L ! i)
      \<or> (\<exists>x. readStored r L (rl_entries L ! i) = Inl x)"
  shows "readRange z r L lo len js out = readRange z r0 L lo len js out \<or> (\<exists>x. readRange z r L lo len js out = Inl x)"
  using assms
proof (induction js arbitrary: out)
  case (Cons i js)
  let ?e = "rl_entries L ! i"
  have s: "readStored r L ?e = readStored r0 L ?e \<or> (\<exists>x. readStored r L ?e = Inl x)" using Cons.prems by simp
  have rec: "readRange z r L lo len js out' = readRange z r0 L lo len js out' \<or> (\<exists>x. readRange z r L lo len js out' = Inl x)" for out'
    using Cons.IH [of out'] Cons.prems by simp
  show ?case
  proof (cases "verbatim L lo len i")
    case True
    show ?thesis
      using s rec [of "out @ projr (readStored r0 L ?e)"]
      by (cases "readStored r0 L ?e") (auto simp: readRange_verbatim [OF True] Let_def)
  next
    case False
    from logical_same_or_error [OF s, of z] show ?thesis
    proof
      let ?m = "i * EffectiveFrameSize (rl_header L)" and ?F = "projr (readLogicalFrame z r0 L ?e)"
      assume "readLogicalFrame z r L ?e = readLogicalFrame z r0 L ?e"
      then show ?thesis
        using rec [of "out @ take (len - length out) (slice (lo - ?m) (min (lo + len - ?m) (length ?F)) ?F)"]
        by (cases "readLogicalFrame z r0 L ?e") (simp_all add: readRange_decoded [OF False] Let_def)
    qed (auto simp: readRange_decoded [OF False] Let_def)
  qed
qed simp

definition inFrames :: "(u8 list \<times> u8) list \<Rightarrow> nat \<Rightarrow> bool" where
  "inFrames scs k \<longleftrightarrow> RecordHeaderSize + length scs * FrameIndexEntrySize \<le> k
     \<and> k < RecordHeaderSize + length scs * FrameIndexEntrySize + length (storedBytes scs)"

lemma damaged_parts:
  assumes "holds_at f off (imageOf h scs)" "inFrames scs k"
  shows "partsAt (f[off + k := x]) off h scs"
proof -
  have p: "partsAt f off h scs" by (rule imageOf_parts [OF assms(1)])
  then show ?thesis
    using assms(2) holds_at_update [of f off "headerBytes h" "off + k" x]
      holds_at_update [of f "off + RecordHeaderSize" "indexBytes scs" "off + k" x]
      holds_at_update [of f "off + RecordHeaderSize + length scs * FrameIndexEntrySize + length (storedBytes scs)"
        "encodeTrailer (of_nat (framingLen scs))" "off + k" x]
    by (simp add: partsAt_def inFrames_def)
qed

lemma damaged_frame:
  assumes d: "describes h scs" and i: "holds_at f off (imageOf h scs)" and k: "inFrames scs k" and x: "x \<noteq> imageOf h scs ! k"
    and r: "rd_file r = f[off + k := x]" and j: "j < length scs"
  shows "if frameAt scs j \<le> k - (RecordHeaderSize + length scs * FrameIndexEntrySize)
            \<and> k - (RecordHeaderSize + length scs * FrameIndexEntrySize) < frameAt scs j + length (fst (scs ! j))
         then \<exists>e. readStored r (layoutOf h off scs key) (entriesFor 0 scs ! j) = Inl e
         else readStored r (layoutOf h off scs key) (entriesFor 0 scs ! j) = Inr (fst (scs ! j))"
proof (rule readStored_damaged [OF d refl image_stored [OF i] _ _ _ j])
  show "rd_file r = f[off + RecordHeaderSize + length scs * FrameIndexEntrySize
      + (k - (RecordHeaderSize + length scs * FrameIndexEntrySize)) := x]"
    using k by (simp add: r inFrames_def add.assoc)
  show "k - (RecordHeaderSize + length scs * FrameIndexEntrySize) < length (storedBytes scs)"
    using k by (simp add: inFrames_def) linarith
  have "imageOf h scs ! k = storedBytes scs ! (k - (RecordHeaderSize + length scs * FrameIndexEntrySize))"
    using k by (auto simp: inFrames_def imageOf_def nth_append diff_diff_eq)
  then show "x \<noteq> storedBytes scs ! (k - (RecordHeaderSize + length scs * FrameIndexEntrySize))" using x by simp
qed

lemma payload_damaged:
  assumes d: "describes h scs" and i: "holds_at f off (imageOf h scs)" and o: "SegmentHeaderSize \<le> off"
    and k: "k < framingLen scs" and x: "x \<noteq> imageOf h scs ! k" and r: "rd_file r = f[off + k := x]"
  shows "\<exists>e. fst (ReadPayloadFrames z r off (rh_StoredLen h) (rh_LogicalLen h)) = Inl e"
proof (cases "inFrames scs k")
  case False
  then have "\<exists>e. fst (readRecordLayout z r off (rh_StoredLen h) (rh_LogicalLen h)) = Inl e"
    by (intro layout_damaged [OF d i r x k]) (simp add: inFrames_def)
  then show ?thesis by (auto simp: ReadPayloadFrames_def split: prod.splits)
next
  case True
  have p: "partsAt (rd_file r) off h scs" unfolding r by (rule damaged_parts [OF i True])
  obtain r1 where r1: "rd_file r1 = rd_file r" "rd_enc r1 = rd_enc r"
    "readRecordLayout z r off (rh_StoredLen h) (rh_LogicalLen h) =
       (case recordKey z r1 (rh_KeyID h) of
          (Inl e, r2) \<Rightarrow> (Inl e, r2) | (Inr key, r2) \<Rightarrow> (Inr (layoutOf h off scs key), r2))"
    by (rule readRecordLayout_parts [OF d p o])
  obtain y r2 where rk: "recordKey z r1 (rh_KeyID h) = (y, r2)" by fastforce
  then have r2: "rd_file r2 = f[off + k := x]" using recordKey_file [OF rk] r1(1) r by simp
  have "k - (RecordHeaderSize + length scs * FrameIndexEntrySize) < length (storedBytes scs)"
    using True by (simp add: inFrames_def) linarith
  then obtain j where j: "j < length scs" "frameAt scs j \<le> k - (RecordHeaderSize + length scs * FrameIndexEntrySize)"
    "k - (RecordHeaderSize + length scs * FrameIndexEntrySize) < frameAt scs j + length (fst (scs ! j))"
    using frame_of_position by blast
  have e: "entriesFor 0 scs ! j \<in> set (entriesFor 0 scs)" using j(1) by simp
  show ?thesis
  proof (cases y)
    case (Inl a)
    then show ?thesis using r1(3) rk by (simp add: ReadPayloadFrames_def)
  next
    case (Inr key)
    obtain err where err: "readStored r2 (layoutOf h off scs key) (entriesFor 0 scs ! j) = Inl err"
      using damaged_frame [OF d i True x r2 j(1), of key] j by auto
    show ?thesis
      using r1(3) rk Inr plain_stops [OF e err] coded_stops [OF e err] by (auto simp: ReadPayloadFrames_def)
  qed
qed

lemma range_damaged:
  assumes d: "describes h scs" and i: "holds_at f off (imageOf h scs)" and o: "SegmentHeaderSize \<le> off"
    and k: "k < framingLen scs" and x: "x \<noteq> imageOf h scs ! k" and r: "rd_file r = f[off + k := x]"
    and key: "keyFor z r h key" and r0: "r0 = r\<lparr>rd_file := f\<rparr>"
  shows "fst (ReadRangeFrames z r off (rh_StoredLen h) (rh_LogicalLen h) lo n)
       = fst (ReadRangeFrames z r0 off (rh_StoredLen h) (rh_LogicalLen h) lo n)
     \<or> (\<exists>e. fst (ReadRangeFrames z r off (rh_StoredLen h) (rh_LogicalLen h) lo n) = Inl e)"
proof (cases "inFrames scs k")
  case False
  then have "\<exists>e. fst (readRecordLayout z r off (rh_StoredLen h) (rh_LogicalLen h)) = Inl e"
    by (intro layout_damaged [OF d i r x k]) (simp add: inFrames_def)
  then show ?thesis by (auto simp: ReadRangeFrames_def Let_def split: prod.splits)
next
  case True
  have p: "partsAt (rd_file r) off h scs" unfolding r by (rule damaged_parts [OF i True])
  have p0: "partsAt (rd_file r0) off h scs" using imageOf_parts [OF i] by (simp add: r0)
  have key0: "keyFor z r0 h key" using key by (auto simp: keyFor_def r0 split: if_splits)
  obtain r' where r': "readRecordLayout z r off (rh_StoredLen h) (rh_LogicalLen h) = (Inr (layoutOf h off scs key), r')"
    "rd_file r' = rd_file r" by (rule readRecordLayout_image [OF d p o key])
  obtain r0' where r0': "readRecordLayout z r0 off (rh_StoredLen h) (rh_LogicalLen h) = (Inr (layoutOf h off scs key), r0')"
    "rd_file r0' = rd_file r0" by (rule readRecordLayout_image [OF d p0 o key0])
  have b0: "holds_at (rd_file r0') (off + RecordHeaderSize + length scs * FrameIndexEntrySize) (storedBytes scs)"
    using image_stored [OF i] r0'(2) by (simp add: r0)
  have rf: "rd_file r' = f[off + k := x]" using r' r by simp
  have s: "readStored r' (layoutOf h off scs key) (entriesFor 0 scs ! j) = readStored r0' (layoutOf h off scs key) (entriesFor 0 scs ! j)
      \<or> (\<exists>e. readStored r' (layoutOf h off scs key) (entriesFor 0 scs ! j) = Inl e)" if j: "j < length scs" for j
    using damaged_frame [OF d i True x rf j, of key] readStored_image [OF d b0 j, of key] by (auto split: if_splits)
  have rr: "readRange z r' (layoutOf h off scs key) a b [c ..< Suc e] [] = readRange z r0' (layoutOf h off scs key) a b [c ..< Suc e] []
      \<or> (\<exists>y. readRange z r' (layoutOf h off scs key) a b [c ..< Suc e] [] = Inl y)" if "e < length scs" for a b c e
  proof (rule readRange_same_or_error)
    fix j assume "j \<in> set [c ..< Suc e]"
    then have "j < length scs" using that by auto
    from s [OF this] show "readStored r' (layoutOf h off scs key) (rl_entries (layoutOf h off scs key) ! j)
        = readStored r0' (layoutOf h off scs key) (rl_entries (layoutOf h off scs key) ! j)
      \<or> (\<exists>y. readStored r' (layoutOf h off scs key) (rl_entries (layoutOf h off scs key) ! j) = Inl y)" by simp
  qed
  show ?thesis
    using rr by (auto simp: ReadRangeFrames_def r'(1) r0'(1) Let_def simp del: upt_Suc)
qed

text \<open>
  C39: Damaged data is never served. Take a record that was written to a segment and change any one
  byte of it, in the header, the frame index, a frame or the trailer. Reading the whole record then
  fails, and a range read either fails or returns exactly the bytes that were written: the checksums
  of the header, the index, every frame and the trailer leave no byte uncovered.
\<close>

theorem damaged_record_refused:
  assumes "frameCodec_ok z" and "\<forall>j x. nonces j = Some x \<longrightarrow> length x = NonceSize"
    and "putMaterial z nonces (keyID, encKey) ext gen data = Inr (h, idx, stored)"
    and "length data \<le> MaxExtentSize" and "SegmentHeaderSize \<le> off"
    and "WriteRecordFramed f off h idx stored = Inr f'" and "keyFor z r h encKey"
    and "k < unat (RecordFraming (rh_StoredLen h) (unat (rh_FrameCount h)))" and "x \<noteq> (f' @ later) ! (off + k)"
    and "rd_file r = (f' @ later)[off + k := x]"
  shows "(\<exists>e. fst (ReadPayloadFrames z r off (rh_StoredLen h) (of_nat (length data))) = Inl e) \<and>
    (0 \<le> lo \<and> lo < int (length data) \<and> 0 < n \<longrightarrow>
       fst (ReadRangeFrames z r off (rh_StoredLen h) (of_nat (length data)) lo n) = Inr (take (nat n) (drop (nat lo) data))
     \<or> (\<exists>e. fst (ReadRangeFrames z r off (rh_StoredLen h) (of_nat (length data)) lo n) = Inl e))"
proof -
  obtain scs where d: "describes h scs" and idx: "idx = indexBytes scs" "stored = storedBytes scs"
    and s: "list_all2 (stored_as z encKey) (map (\<lambda>i. take DefaultFrameSize (drop (i * DefaultFrameSize) data)) [0 ..< length scs]) scs"
    and n: "length scs = frameNumber (length data) DefaultFrameSize"
    and h: "rh_LogicalLen h = of_nat (length data)" "EffectiveFrameSize h = DefaultFrameSize"
    using putMaterial_record [OF assms(1) _ assms(3,4)] assms(2) by auto
  have i: "holds_at (f' @ later) off (imageOf h scs)" using written_holds [OF _ d] assms(6) idx by simp
  have k: "k < framingLen scs" using assms(8) d framing_value [OF d] by simp
  have x: "x \<noteq> imageOf h scs ! k" using assms(9) holds_at_nth [OF i, of k] k by (simp add: length_imageOf)
  have fs: "0 < DefaultFrameSize" by (simp add: DefaultFrameSize_def)
  have cov: "length data \<le> length scs * DefaultFrameSize" using frameNumber_covers [OF fs] n by simp
  have l: "unat (rh_LogicalLen h) = length data" using unat_logical [OF assms(4)] h by simp
  have k0: "keyFor z (r\<lparr>rd_file := f' @ later\<rparr>) h encKey" using assms(7) by (auto simp: keyFor_def split: if_splits)
  have i0: "holds_at (rd_file (r\<lparr>rd_file := f' @ later\<rparr>)) off (imageOf h scs)" using i by simp
  show ?thesis
    using payload_damaged [OF d i assms(5) k x assms(10), of z] range_damaged [OF d i assms(5) k x assms(10,7) refl, of lo n]
      range_read [OF d i0 assms(5) k0 h(2) fs s cov l, of lo n] h(1) by auto
qed

theorem damaged_record_refused_witness:
  "\<exists>h idx stored f'. putMaterial plainFrames (\<lambda>i. None) (0, None) 7 1 [1, 2, 3] = Inr (h, idx, stored)
     \<and> WriteRecordFramed (replicate 22 0) 22 h idx stored = Inr f'
     \<and> (\<exists>e. fst (ReadPayloadFrames plainFrames \<lparr>rd_file = f'[22 := f' ! 22 + 1], rd_sizeBytes = 0, rd_enc = None\<rparr> 22
                  (rh_StoredLen h) (of_nat (length [1, 2, 3 :: u8]))) = Inl e)"
proof -
  obtain h idx stored where m: "putMaterial plainFrames (\<lambda>i. None) (0, None) 7 1 [1, 2, 3] = Inr (h, idx, stored)"
    and h: "validOp (rh_Op h)" "rh_KeyID h = 0" by (rule demo_material)
  obtain f' where w: "WriteRecordFramed (replicate 22 0) 22 h idx stored = Inr f'"
    using h by (auto simp: WriteRecordFramed_def recordImage_def encodeHeader_def)
  obtain scs where d: "describes h scs" by (rule putMaterial_record [OF plainFrames_ok _ m]) (simp_all add: MaxExtentSize_def)
  let ?r = "\<lparr>rd_file = (f' @ [])[22 + 0 := f' ! 22 + 1], rd_sizeBytes = 0, rd_enc = None\<rparr>"
  have "\<exists>e. fst (ReadPayloadFrames plainFrames ?r 22 (rh_StoredLen h) (of_nat (length [1, 2, 3 :: u8]))) = Inl e"
    by (rule conjunct1 [OF damaged_record_refused [OF plainFrames_ok _ m _ _ w, of _ 0 "f' ! 22 + 1" "[]"]])
      (use h framing_value [OF d] in \<open>simp_all add: MaxExtentSize_def SegmentHeaderSize_def keyFor_def framingLen_def size_defs\<close>)
  then show ?thesis using m w by auto
qed

end
