(* ===== verification/Segment_Log.thy ===== *)
theory Segment_Log
  imports Segment_Record
begin

text \<open>
  The log structure of a segment file: the commit records of \<open>datanode/storage/journal\<close>
  (\<open>record.go\<close>, \<open>commit.go\<close>), the segment header and footer of \<open>segment/segment.go\<close>, the allocator of
  \<open>segment/allocator.go\<close>, and the recovery parser of \<open>segment/recover.go\<close>. Offsets of type \<open>int64\<close> are
  natural numbers in the model; in the encodings they are the 64-bit words of those numbers. The
  elapsed-time budget of recovery is an argument: \<open>late n\<close> says whether the n-th check of the clock
  finds the deadline exceeded. A segment's path is represented by the identifier it carries.
\<close>

section \<open>Commit records\<close>

definition OpPut :: u8 where
  "OpPut = 0"

definition OpTombstone :: u8 where
  "OpTombstone = 1"

definition OpRelocate :: u8 where
  "OpRelocate = 2"

definition OpSealSegment :: u8 where
  "OpSealSegment = 3"

definition OpIndexSafe :: u8 where
  "OpIndexSafe = 4"

record CommitRecord =
  cr_Seq :: u64
  cr_Op :: u8
  cr_ExtentID :: u64
  cr_Generation :: u64
  cr_SegmentID :: u64
  cr_Offset :: u64
  cr_StoredLen :: u32
  cr_LogicalLen :: u32
  cr_Checksum :: u32
  cr_SourceSegment :: u64
  cr_SourceOffset :: u64

definition CommitRecordSize :: nat where
  "CommitRecordSize = 73"

definition commitBody :: "CommitRecord \<Rightarrow> u8 list" where
  "commitBody r = putUint64 (cr_Seq r) @ [cr_Op r] @ putUint64 (cr_ExtentID r) @ putUint64 (cr_Generation r)
     @ putUint64 (cr_SegmentID r) @ putUint64 (cr_Offset r) @ putUint32 (cr_StoredLen r) @ putUint32 (cr_LogicalLen r)
     @ putUint32 (cr_Checksum r) @ putUint64 (cr_SourceSegment r) @ putUint64 (cr_SourceOffset r)"

definition encodeCommitRecord :: "CommitRecord \<Rightarrow> u8 list" where
  "encodeCommitRecord r = commitBody r @ putUint32 (CRC32C (commitBody r))"

definition decodeCommitRecord :: "u8 list \<Rightarrow> StorageError + CommitRecord" where
  "decodeCommitRecord src =
     (if length src < CommitRecordSize then Inl (ErrFormat ''commit record body too short'')
      else if CRC32C (slice 0 69 src) \<noteq> getUint32 (slice 69 73 src) then Inl (ErrFormat ''commit record crc mismatch'')
      else Inr \<lparr>cr_Seq = getUint64 (slice 0 8 src), cr_Op = src ! 8, cr_ExtentID = getUint64 (slice 9 17 src),
                cr_Generation = getUint64 (slice 17 25 src), cr_SegmentID = getUint64 (slice 25 33 src),
                cr_Offset = getUint64 (slice 33 41 src), cr_StoredLen = getUint32 (slice 41 45 src),
                cr_LogicalLen = getUint32 (slice 45 49 src), cr_Checksum = getUint32 (slice 49 53 src),
                cr_SourceSegment = getUint64 (slice 53 61 src), cr_SourceOffset = getUint64 (slice 61 69 src)\<rparr>)"

record BatchCommit =
  bc_Magic :: u32
  bc_Version :: u8
  bc_StreamID :: u8
  bc_Seq :: u64
  bc_RecordCount :: u32
  bc_FirstOffset :: u64
  bc_LastOffset :: u64
  bc_DescriptorsCRC :: u32

definition BatchCommitMagic :: u32 where
  "BatchCommitMagic = 0x42434F4D"

definition BatchCommitSize :: nat where
  "BatchCommitSize = 42"

definition batchBody :: "BatchCommit \<Rightarrow> u8 list" where
  "batchBody b = putUint32 (bc_Magic b) @ [bc_Version b, bc_StreamID b] @ putUint64 (bc_Seq b) @ putUint32 (bc_RecordCount b)
     @ putUint64 (bc_FirstOffset b) @ putUint64 (bc_LastOffset b) @ putUint32 (bc_DescriptorsCRC b)"

definition encodeBatchCommit :: "BatchCommit \<Rightarrow> u8 list" where
  "encodeBatchCommit b = batchBody b @ putUint32 (CRC32C (batchBody b))"

definition decodeBatchCommit :: "u8 list \<Rightarrow> StorageError + BatchCommit" where
  "decodeBatchCommit src =
     (if length src < BatchCommitSize then Inl (ErrFormat ''batchcommit too short'')
      else let b = \<lparr>bc_Magic = getUint32 (slice 0 4 src), bc_Version = src ! 4, bc_StreamID = src ! 5,
                    bc_Seq = getUint64 (slice 6 14 src), bc_RecordCount = getUint32 (slice 14 18 src),
                    bc_FirstOffset = getUint64 (slice 18 26 src), bc_LastOffset = getUint64 (slice 26 34 src),
                    bc_DescriptorsCRC = getUint32 (slice 34 38 src)\<rparr>
           in if bc_Magic b \<noteq> BatchCommitMagic then Inl (ErrFormat ''bad batchcommit magic'')
              else if CRC32C (slice 0 38 src) \<noteq> getUint32 (slice 38 42 src) then Inl (ErrFormat ''batchcommit crc mismatch'')
              else Inr b)"

text \<open>One location that a batch commits; the journal's \<open>BatchDescriptor\<close> and the parser's \<open>CommitDescriptor\<close> have the same fields.\<close>

record CommitDescriptor =
  cd_ExtentID :: u64
  cd_Generation :: u64
  cd_SegmentID :: u64
  cd_Offset :: nat
  cd_StoredLen :: u32
  cd_LogicalLen :: u32
  cd_Checksum :: u32
  cd_Op :: u8

definition BatchDescriptorSize :: nat where
  "BatchDescriptorSize = 45"

definition encodeDescriptor :: "CommitDescriptor \<Rightarrow> u8 list" where
  "encodeDescriptor d = putUint64 (cd_ExtentID d) @ putUint64 (cd_Generation d) @ putUint64 (cd_SegmentID d)
     @ putUint64 (of_nat (cd_Offset d)) @ putUint32 (cd_StoredLen d) @ putUint32 (cd_LogicalLen d)
     @ putUint32 (cd_Checksum d) @ [cd_Op d]"

definition EncodeDescriptors :: "CommitDescriptor list \<Rightarrow> u8 list \<times> u32" where
  "EncodeDescriptors ds = (let dst = concat (map encodeDescriptor ds) in (dst, CRC32C dst))"

definition decodeDescriptor :: "u8 list \<Rightarrow> CommitDescriptor" where
  "decodeDescriptor src =
     \<lparr>cd_ExtentID = getUint64 (slice 0 8 src), cd_Generation = getUint64 (slice 8 16 src),
      cd_SegmentID = getUint64 (slice 16 24 src), cd_Offset = unat (getUint64 (slice 24 32 src)),
      cd_StoredLen = getUint32 (slice 32 36 src), cd_LogicalLen = getUint32 (slice 36 40 src),
      cd_Checksum = getUint32 (slice 40 44 src), cd_Op = src ! 44\<rparr>"

fun decodeDescriptorList :: "nat \<Rightarrow> u8 list \<Rightarrow> CommitDescriptor list" where
  "decodeDescriptorList 0 src = []"
| "decodeDescriptorList (Suc n) src =
     decodeDescriptor (take BatchDescriptorSize src) # decodeDescriptorList n (drop BatchDescriptorSize src)"

definition DecodeDescriptors :: "u8 list \<Rightarrow> StorageError + CommitDescriptor list" where
  "DecodeDescriptors src =
     (if length src mod BatchDescriptorSize \<noteq> 0 then Inl (ErrFormat ''descriptor buffer length'')
      else Inr (decodeDescriptorList (length src div BatchDescriptorSize) src))"

definition pendingDescriptorsCRC :: "CommitDescriptor list \<Rightarrow> u32" where
  "pendingDescriptorsCRC ds = not (foldl (\<lambda>h d. foldl crcByte h (encodeDescriptor d)) (- 1) ds)"

section \<open>Segment header and footer\<close>

definition SegmentMagic :: u32 where
  "SegmentMagic = 0x53454744"

definition SegmentFooterSize :: nat where
  "SegmentFooterSize = 65"

definition segmentFooterCRCOffset :: nat where
  "segmentFooterCRCOffset = SegmentFooterSize - 4"

record SegmentHeader =
  sh_Magic :: u32
  sh_Version :: u8
  sh_ID :: u64
  sh_SegmentClass :: u8
  sh_Reserved :: u32

definition segmentHeaderBody :: "SegmentHeader \<Rightarrow> u8 list" where
  "segmentHeaderBody h = putUint32 (sh_Magic h) @ [sh_Version h] @ putUint64 (sh_ID h) @ [sh_SegmentClass h] @ putUint32 (sh_Reserved h)"

definition encodeSegmentHeader :: "SegmentHeader \<Rightarrow> u8 list" where
  "encodeSegmentHeader h = segmentHeaderBody h @ putUint32 (CRC32C (segmentHeaderBody h))"

definition decodeSegmentHeader :: "u8 list \<Rightarrow> StorageError + SegmentHeader" where
  "decodeSegmentHeader src =
     (if length src < SegmentHeaderSize then Inl (ErrFormat ''segment header too short'')
      else let h = \<lparr>sh_Magic = getUint32 (slice 0 4 src), sh_Version = src ! 4, sh_ID = getUint64 (slice 5 13 src),
                    sh_SegmentClass = src ! 13, sh_Reserved = getUint32 (slice 14 18 src)\<rparr>
           in if sh_Magic h \<noteq> SegmentMagic then Inl (ErrFormat ''bad segment magic'')
              else if sh_Version h \<noteq> FormatVersion then Inl (ErrFormat ''unsupported segment version'')
              else if CRC32C (slice 0 18 src) \<noteq> getUint32 (slice 18 22 src) then Inl (ErrFormat ''segment header crc mismatch'')
              else Inr h)"

record SegmentFooter =
  sf_Magic :: u32
  sf_Version :: u8
  sf_RecordCount :: u64
  sf_TotalPayload :: u64
  sf_MinExtentID :: u64
  sf_MaxExtentID :: u64
  sf_LastCommittedSeq :: u64
  sf_CreatedAtUnix :: u64
  sf_SealedAtUnix :: u64
  sf_SegmentCRC :: u32

definition footerPrefix :: "SegmentFooter \<Rightarrow> u8 list" where
  "footerPrefix f = putUint32 (sf_Magic f) @ [sf_Version f] @ putUint64 (sf_RecordCount f) @ putUint64 (sf_TotalPayload f)
     @ putUint64 (sf_MinExtentID f) @ putUint64 (sf_MaxExtentID f) @ putUint64 (sf_LastCommittedSeq f)
     @ putUint64 (sf_CreatedAtUnix f) @ putUint64 (sf_SealedAtUnix f)"

definition encodeSegmentFooter :: "SegmentFooter \<Rightarrow> u8 list" where
  "encodeSegmentFooter f = footerPrefix f @ putUint32 (sf_SegmentCRC f)"

definition decodeSegmentFooter :: "u8 list \<Rightarrow> StorageError + SegmentFooter" where
  "decodeSegmentFooter src =
     (if length src < SegmentFooterSize then Inl (ErrFormat ''segment footer too short'')
      else let f = \<lparr>sf_Magic = getUint32 (slice 0 4 src), sf_Version = src ! 4, sf_RecordCount = getUint64 (slice 5 13 src),
                    sf_TotalPayload = getUint64 (slice 13 21 src), sf_MinExtentID = getUint64 (slice 21 29 src),
                    sf_MaxExtentID = getUint64 (slice 29 37 src), sf_LastCommittedSeq = getUint64 (slice 37 45 src),
                    sf_CreatedAtUnix = getUint64 (slice 45 53 src), sf_SealedAtUnix = getUint64 (slice 53 61 src),
                    sf_SegmentCRC = getUint32 (slice 61 65 src)\<rparr>
           in if sf_Magic f \<noteq> SegmentMagic then Inl (ErrFormat ''bad segment footer magic'')
              else if sf_Version f \<noteq> FormatVersion then Inl (ErrFormat ''unsupported segment footer version'')
              else Inr f)"

definition sealedSegmentCRC :: "u8 list \<Rightarrow> nat \<Rightarrow> u8 list \<Rightarrow> StorageError + u32" where
  "sealedSegmentCRC f footerOffset pre =
     (if footerOffset < SegmentHeaderSize \<or> length pre \<noteq> segmentFooterCRCOffset then Inl (ErrFormat ''invalid sealed segment crc range'')
      else if length f < footerOffset then Inl ErrEOF
      else Inr (CRC32C (take footerOffset f @ pre)))"

definition ValidateSealedSegment :: "u8 list \<Rightarrow> StorageError + SegmentFooter" where
  "ValidateSealedSegment f =
     (if length f < SegmentHeaderSize + SegmentFooterSize then Inl (ErrFormat ''sealed segment shorter than header and footer'')
      else let footerOffset = length f - SegmentFooterSize; footerBuf = drop footerOffset f in
           case decodeSegmentHeader (take SegmentHeaderSize f) of
             Inl e \<Rightarrow> Inl e
           | Inr _ \<Rightarrow>
               (case decodeSegmentFooter footerBuf of
                  Inl e \<Rightarrow> Inl e
                | Inr footer \<Rightarrow>
                    if sf_SegmentCRC footer = 0 then Inl ErrChecksumMismatch
                    else case sealedSegmentCRC f footerOffset (take segmentFooterCRCOffset footerBuf) of
                           Inl e \<Rightarrow> Inl e
                         | Inr got \<Rightarrow> if got \<noteq> sf_SegmentCRC footer then Inl ErrChecksumMismatch else Inr footer))"

definition hasEncodedSegmentFooter :: "u8 list \<Rightarrow> bool" where
  "hasEncodedSegmentFooter f \<longleftrightarrow> SegmentHeaderSize + SegmentFooterSize \<le> length f
     \<and> getUint32 (slice 0 4 (drop (length f - SegmentFooterSize) f)) = SegmentMagic
     \<and> drop (length f - SegmentFooterSize) f ! 4 = FormatVersion"

text \<open>\<open>OpenReaderWithEnc\<close>; \<open>inSealed\<close> says whether the file's directory is named \<open>sealed\<close>.\<close>

definition OpenReaderWithEnc :: "bool \<Rightarrow> u8 list \<Rightarrow> KeyRegistry option \<Rightarrow> StorageError + Reader" where
  "OpenReaderWithEnc inSealed f enc =
     (let r = \<lparr>rd_file = f, rd_sizeBytes = length f, rd_enc = enc\<rparr> in
      if inSealed \<or> hasEncodedSegmentFooter f
      then (case ValidateSealedSegment f of Inl e \<Rightarrow> Inl e | Inr _ \<Rightarrow> Inr r)
      else Inr r)"

text \<open>\<open>WriteFooter\<close> of the writer, with the new contents of the file.\<close>

definition WriteFooter :: "u8 list \<Rightarrow> nat \<Rightarrow> SegmentFooter \<Rightarrow> StorageError + u8 list" where
  "WriteFooter f offset footer =
     (if length f \<noteq> offset then Inl (ErrFormat ''seal offset does not match segment size'')
      else case sealedSegmentCRC f offset (take segmentFooterCRCOffset (encodeSegmentFooter (footer\<lparr>sf_SegmentCRC := 0\<rparr>))) of
             Inl e \<Rightarrow> Inl e
           | Inr crc \<Rightarrow>
               if crc = 0 then Inl (ErrFormat ''refusing to seal segment with unset crc'')
               else Inr (writeAt f offset (encodeSegmentFooter (footer\<lparr>sf_SegmentCRC := crc\<rparr>))))"

definition WriteBatchCommit :: "u8 list \<Rightarrow> nat \<Rightarrow> BatchCommit \<Rightarrow> u8 list" where
  "WriteBatchCommit f offset bc = writeAt f offset (encodeBatchCommit bc)"

section \<open>The allocator\<close>

definition SegmentData :: u8 where
  "SegmentData = 0"

definition SegmentSmall :: u8 where
  "SegmentSmall = 1"

definition DefaultDataSegmentSize :: nat where
  "DefaultDataSegmentSize = 4294967296"

definition MaxRecordsPerSegment :: u64 where
  "MaxRecordsPerSegment = 1000000"

record Allocator =
  al_segmentID :: u64
  al_offset :: nat
  al_payloadBytes :: nat
  al_recordCount :: u64
  al_minExtent :: u64
  al_maxExtent :: u64
  al_hasRecord :: bool
  al_maxSegmentBytes :: nat
  al_maxRecords :: u64
  al_createdAt :: u64
  al_class :: u8
  al_lastCommitSeq :: u64

definition NewAllocator :: "u64 \<Rightarrow> u8 \<Rightarrow> nat \<Rightarrow> u64 \<Rightarrow> Allocator" where
  "NewAllocator segmentID class maxSegmentBytes createdAt =
     \<lparr>al_segmentID = segmentID, al_offset = SegmentHeaderSize, al_payloadBytes = 0, al_recordCount = 0,
      al_minExtent = 0, al_maxExtent = 0, al_hasRecord = False,
      al_maxSegmentBytes = (if maxSegmentBytes = 0 then DefaultDataSegmentSize else maxSegmentBytes),
      al_maxRecords = MaxRecordsPerSegment, al_createdAt = createdAt, al_class = class, al_lastCommitSeq = 0\<rparr>"

definition Reserve :: "Allocator \<Rightarrow> u32 \<Rightarrow> u64 \<Rightarrow> u32 \<Rightarrow> (StorageError + nat) \<times> Allocator" where
  "Reserve a framingLen extent storedLen =
     (if al_maxRecords a \<le> al_recordCount a then (Inl ErrSegmentFull, a)
      else if al_maxSegmentBytes a < al_offset a + unat framingLen then (Inl ErrSegmentFull, a)
      else (Inr (al_offset a),
            a\<lparr>al_offset := al_offset a + unat framingLen, al_payloadBytes := al_payloadBytes a + unat storedLen,
              al_recordCount := al_recordCount a + 1,
              al_minExtent := (if \<not> al_hasRecord a \<or> extent < al_minExtent a then extent else al_minExtent a),
              al_maxExtent := (if \<not> al_hasRecord a \<or> al_maxExtent a < extent then extent else al_maxExtent a),
              al_hasRecord := True\<rparr>))"

definition CanReserveBatch :: "Allocator \<Rightarrow> nat \<Rightarrow> bool" where
  "CanReserveBatch a required \<longleftrightarrow> al_offset a \<le> al_maxSegmentBytes a \<and> required \<le> al_maxSegmentBytes a - al_offset a"

definition CanReserveRecords :: "Allocator \<Rightarrow> nat \<Rightarrow> bool" where
  "CanReserveRecords a n \<longleftrightarrow> al_recordCount a \<le> al_maxRecords a \<and> n \<le> unat (al_maxRecords a - al_recordCount a)"

definition ReserveCommit :: "Allocator \<Rightarrow> nat \<Rightarrow> (StorageError + nat) \<times> Allocator" where
  "ReserveCommit a commitLen =
     (if al_maxSegmentBytes a < al_offset a + commitLen then (Inl ErrSegmentFull, a)
      else (Inr (al_offset a), a\<lparr>al_offset := al_offset a + commitLen\<rparr>))"

definition CurrentTail :: "Allocator \<Rightarrow> StorageError + nat" where
  "CurrentTail a = (if al_maxSegmentBytes a < al_offset a + BatchCommitSize then Inl ErrSegmentFull else Inr (al_offset a))"

definition Consume :: "Allocator \<Rightarrow> nat \<Rightarrow> Allocator" where
  "Consume a n = a\<lparr>al_offset := al_offset a + n\<rparr>"

definition RecordCommit :: "Allocator \<Rightarrow> u64 \<Rightarrow> Allocator" where
  "RecordCommit a s = a\<lparr>al_lastCommitSeq := s\<rparr>"

section \<open>Recovery\<close>

definition MaxRecoveryRecords :: nat where
  "MaxRecoveryRecords = 100000"

definition MaxRecoveryReplayBytes :: nat where
  "MaxRecoveryReplayBytes = 268435456"

definition MaxRecoveryTrailingBytes :: nat where
  "MaxRecoveryTrailingBytes = 134217728"

record RecoverOptions =
  ro_StreamID :: u8
  ro_SafeOffset :: int
  ro_SafeSeq :: u64
  ro_RequireSafeMarker :: bool
  ro_MaxRecords :: nat
  ro_MaxReplayBytes :: int
  ro_MaxTrailingBytes :: int

definition recoveryRecordLimit :: "RecoverOptions \<Rightarrow> nat" where
  "recoveryRecordLimit opts =
     (if ro_MaxRecords opts = 0 \<or> MaxRecoveryRecords < ro_MaxRecords opts then MaxRecoveryRecords else ro_MaxRecords opts)"

definition recoveryByteLimits :: "RecoverOptions \<Rightarrow> nat \<times> nat" where
  "recoveryByteLimits opts =
     (if ro_MaxReplayBytes opts \<le> 0 \<or> int MaxRecoveryReplayBytes < ro_MaxReplayBytes opts
      then MaxRecoveryReplayBytes else nat (ro_MaxReplayBytes opts),
      if ro_MaxTrailingBytes opts \<le> 0 \<or> int MaxRecoveryTrailingBytes < ro_MaxTrailingBytes opts
      then MaxRecoveryTrailingBytes else nat (ro_MaxTrailingBytes opts))"

record 'o recoveryState =
  rs_segID :: u64
  rs_size :: nat
  rs_pending :: "CommitDescriptor list"
  rs_pendingBytes :: nat
  rs_lastValid :: nat
  rs_safeOffset :: nat
  rs_lastCommittedSeq :: u64
  rs_safeSeq :: u64
  rs_commits :: nat
  rs_applied :: nat
  rs_records :: nat
  rs_replayBytes :: nat
  rs_recordLimit :: nat
  rs_replayLimit :: nat
  rs_checks :: nat
  rs_target :: 'o

record RecoverResult =
  rr_Commits :: nat
  rr_Applied :: nat
  rr_LastSeq :: u64
  rr_SafeOffset :: nat
  rr_LastCommittedOffset :: nat
  rr_TrailingBytes :: nat
  rr_SafeSeq :: u64
  rr_ReplayBytes :: nat
  rr_DataReady :: bool

datatype recoverError = BudgetExceeded | UnsupportedFormat | ApplyFailed StorageError nat u64 | Torn StorageError

definition recoverResult :: "'o recoveryState \<Rightarrow> bool \<Rightarrow> RecoverResult" where
  "recoverResult s dataReady =
     \<lparr>rr_Commits = rs_commits s, rr_Applied = rs_applied s, rr_LastSeq = rs_lastCommittedSeq s,
      rr_SafeOffset = rs_safeOffset s, rr_LastCommittedOffset = rs_lastValid s,
      rr_TrailingBytes = rs_size s - rs_lastValid s, rr_SafeSeq = rs_safeSeq s,
      rr_ReplayBytes = rs_replayBytes s, rr_DataReady = dataReady\<rparr>"

definition deadlineExceeded :: "(nat \<Rightarrow> bool) \<Rightarrow> 'o recoveryState \<Rightarrow> bool \<times> 'o recoveryState" where
  "deadlineExceeded late s = (late (rs_checks s), s\<lparr>rs_checks := Suc (rs_checks s)\<rparr>)"

definition addReplayBytes :: "'o recoveryState \<Rightarrow> nat \<Rightarrow> 'o recoveryState option" where
  "addReplayBytes s n =
     (if rs_replayLimit s < rs_replayBytes s + n then None else Some (s\<lparr>rs_replayBytes := rs_replayBytes s + n\<rparr>))"

text \<open>\<open>crc32.ChecksumIEEE\<close>, which protected the headers of the older format.\<close>

definition crcBitIEEE :: "u32 \<Rightarrow> u32" where
  "crcBitIEEE s = (if bit s 0 then xor (drop_bit 1 s) 0xEDB88320 else drop_bit 1 s)"

definition ChecksumIEEE :: "u8 list \<Rightarrow> u32" where
  "ChecksumIEEE data = not (foldl (\<lambda>s b. (crcBitIEEE ^^ 8) (xor s (ucast b))) (- 1) data)"

definition validateV2RecordHeader :: "u8 list \<Rightarrow> nat \<Rightarrow> StorageError + unit" where
  "validateV2RecordHeader f off =
     (case readAt ErrEOF f off 50 of
        Inl e \<Rightarrow> Inl e
      | Inr buf \<Rightarrow>
          if getUint32 (slice 0 4 buf) \<noteq> RecordMagic \<or> buf ! 4 \<noteq> 2 then Inl (ErrFormat ''invalid V2 record header'')
          else if ChecksumIEEE (slice 0 42 buf) \<noteq> getUint32 (slice 42 46 buf) then Inl (ErrFormat ''invalid V2 record header crc'')
          else Inr ())"

text \<open>The checkpoint named by the caller must lie right behind a batch commit or an index-safe marker.\<close>

definition checkpointCommit :: "u8 list \<Rightarrow> nat \<Rightarrow> u8 \<Rightarrow> (StorageError + u64) option" where
  "checkpointCommit f off streamID =
     (if off < SegmentHeaderSize + BatchCommitSize then None
      else let commitOff = off - BatchCommitSize in
           case readAt ErrEOF f commitOff BatchCommitSize of
             Inl _ \<Rightarrow> None
           | Inr buf \<Rightarrow>
               (case decodeBatchCommit buf of
                  Inl _ \<Rightarrow> None
                | Inr commit \<Rightarrow>
                    if bc_Version commit \<noteq> FormatVersion then Some (Inl (ErrFormat ''unsupported checkpoint batchcommit version''))
                    else if bc_StreamID commit \<noteq> streamID \<or> bc_Seq commit = 0 \<or> bc_RecordCount commit = 0
                            \<or> sint (bc_FirstOffset commit) < int SegmentHeaderSize
                            \<or> int commitOff \<le> sint (bc_FirstOffset commit)
                            \<or> sint (bc_LastOffset commit) \<noteq> int commitOff
                    then Some (Inl (ErrFormat ''invalid checkpoint batchcommit''))
                    else Some (Inr (bc_Seq commit))))"

definition checkpointMarker :: "u8 list \<Rightarrow> nat \<Rightarrow> u64 option" where
  "checkpointMarker f off =
     (if off < SegmentHeaderSize + CommitRecordSize then None
      else case readAt ErrEOF f (off - CommitRecordSize) CommitRecordSize of
             Inl _ \<Rightarrow> None
           | Inr buf \<Rightarrow>
               (case decodeCommitRecord buf of
                  Inl _ \<Rightarrow> None
                | Inr marker \<Rightarrow> if cr_Op marker = OpIndexSafe \<and> cr_Seq marker \<noteq> 0 then Some (cr_Seq marker) else None))"

definition validateSafeRecoveryStart :: "u8 list \<Rightarrow> nat \<Rightarrow> u8 \<Rightarrow> StorageError + (u64 \<times> bool)" where
  "validateSafeRecoveryStart f off streamID =
     (case checkpointCommit f off streamID of
        Some (Inl e) \<Rightarrow> Inl e
      | Some (Inr s) \<Rightarrow> Inr (s, False)
      | None \<Rightarrow>
          (case checkpointMarker f off of
             Some s \<Rightarrow> Inr (s, True)
           | None \<Rightarrow> Inl (ErrFormat ''safe offset is not after a committed boundary'')))"

text \<open>The bounds of the frame index: entries follow each other and add up to the stored length.\<close>

fun checkBounds :: "nat \<Rightarrow> FrameIndexEntry list \<Rightarrow> nat \<Rightarrow> StorageError + unit" where
  "checkBounds storedLen [] stored =
     (if stored \<noteq> storedLen then Inl (ErrFormat ''frame index stored length mismatch'') else Inr ())"
| "checkBounds storedLen (e # es) stored =
     (if unat (fe_Offset e) \<noteq> stored \<or> storedLen - stored < unat (fe_StoredLen e)
      then Inl (ErrFormat ''invalid frame index bounds'')
      else checkBounds storedLen es (stored + unat (fe_StoredLen e)))"

definition checkTrailer :: "u8 list \<Rightarrow> nat \<Rightarrow> nat \<Rightarrow> StorageError + unit" where
  "checkTrailer f trailerOff framing =
     (case readAt ErrEOF f trailerOff RecordTrailerSize of
        Inl e \<Rightarrow> Inl e
      | Inr buf \<Rightarrow>
          (case decodeTrailer buf of
             Inl e \<Rightarrow> Inl e
           | Inr framingLen \<Rightarrow>
               if framingLen \<noteq> of_nat framing then Inl (ErrFormat ''record trailer framing mismatch'') else Inr ()))"

text \<open>The structure of one record: its header and the number of bytes it takes.\<close>

definition parseHeaderAt :: "nat \<Rightarrow> u8 list \<Rightarrow> nat \<Rightarrow> StorageError + (RecordHeader \<times> nat)" where
  "parseHeaderAt fileSize f off =
     (case readAt ErrEOF f off RecordHeaderSize of
        Inl e \<Rightarrow> Inl e
      | Inr headerBuf \<Rightarrow>
          (case decodeHeader headerBuf of
             Inl e \<Rightarrow> Inl e
           | Inr header \<Rightarrow>
               let indexBytes = unat (rh_FrameCount header) * FrameIndexEntrySize;
                   storedLen = unat (rh_StoredLen header);
                   framing = RecordHeaderSize + indexBytes + storedLen + RecordTrailerSize
               in if 1048576 < indexBytes then Inl (ErrFormat ''frame index too large'')
                  else if rh_FrameCount header = 0 \<and> rh_StoredLen header \<noteq> 0 then Inl (ErrFormat ''zero-frame record has stored bytes'')
                  else if rh_Op header = RecordDelete
                          \<and> (rh_StoredLen header \<noteq> 0 \<or> rh_LogicalLen header \<noteq> 0 \<or> rh_FrameCount header \<noteq> 0)
                  then Inl (ErrFormat ''delete record carries payload'')
                  else if fileSize < off + framing then Inl ErrEOF
                  else case readAt ErrEOF f (off + RecordHeaderSize) indexBytes of
                         Inl e \<Rightarrow> Inl e
                       | Inr idx \<Rightarrow>
                           if CRC32C idx \<noteq> rh_FrameIndexCRC header then Inl (ErrFormat ''frame index crc mismatch'')
                           else case checkBounds storedLen (parseEntries (unat (rh_FrameCount header)) idx) 0 of
                                  Inl e \<Rightarrow> Inl e
                                | Inr _ \<Rightarrow>
                                    (case checkTrailer f (off + RecordHeaderSize + indexBytes + storedLen) framing of
                                       Inl e \<Rightarrow> Inl e
                                     | Inr _ \<Rightarrow> Inr (header, framing))))"

definition parseRecord ::
  "u8 list \<Rightarrow> 'o recoveryState \<Rightarrow> nat \<Rightarrow> (recoverError + (nat \<times> bool)) \<times> 'o recoveryState" where
  "parseRecord f s off =
     (case readAt ErrEOF f off 5 of
        Inl e \<Rightarrow> (Inl (Torn e), s)
      | Inr pre \<Rightarrow>
          if getUint32 (slice 0 4 pre) \<noteq> RecordMagic then (Inl (Torn (ErrFormat ''bad record magic'')), s)
          else if pre ! 4 = 2
          then (case validateV2RecordHeader f off of
                  Inl e \<Rightarrow> (Inl (Torn e), s)
                | Inr _ \<Rightarrow> (Inl UnsupportedFormat, s))
          else case parseHeaderAt (rs_size s) f off of
                 Inl e \<Rightarrow> (Inl (Torn e), s)
               | Inr (header, framing) \<Rightarrow>
                   if rs_records s = rs_recordLimit s then (Inl BudgetExceeded, s)
                   else (Inr (off + framing, False),
                         s\<lparr>rs_records := Suc (rs_records s), rs_pendingBytes := rs_pendingBytes s + framing,
                           rs_pending := rs_pending s @
                             [\<lparr>cd_ExtentID = rh_ExtentID header, cd_Generation = rh_Generation header,
                               cd_SegmentID = rs_segID s, cd_Offset = off, cd_StoredLen = rh_StoredLen header,
                               cd_LogicalLen = rh_LogicalLen header, cd_Checksum = rh_PayloadChecksum header,
                               cd_Op = rh_Op header\<rparr>]\<rparr>))"

fun checkDeadlines :: "(nat \<Rightarrow> bool) \<Rightarrow> nat \<Rightarrow> 'o recoveryState \<Rightarrow> bool \<times> 'o recoveryState" where
  "checkDeadlines late 0 s = (False, s)"
| "checkDeadlines late (Suc n) s =
     (case deadlineExceeded late s of (True, s') \<Rightarrow> (True, s') | (False, s') \<Rightarrow> checkDeadlines late n s')"

text \<open>The descriptors of a committed batch are handed to the caller one by one.\<close>

fun applyPending ::
  "(nat \<Rightarrow> bool) \<Rightarrow> (CommitDescriptor \<Rightarrow> 'o \<Rightarrow> StorageError + 'o) \<Rightarrow> nat \<Rightarrow> u64 \<Rightarrow> CommitDescriptor list
     \<Rightarrow> 'o recoveryState \<Rightarrow> (recoverError + unit) \<times> 'o recoveryState" where
  "applyPending late apply committedEnd sq [] s = (Inr (), s)"
| "applyPending late apply committedEnd sq (d # ds) s =
     (case deadlineExceeded late s of
        (True, s1) \<Rightarrow> (Inl BudgetExceeded, s1)
      | (False, s1) \<Rightarrow>
          (case apply d (rs_target s1) of
             Inl e \<Rightarrow> (Inl (ApplyFailed e committedEnd sq), s1)
           | Inr t \<Rightarrow> applyPending late apply committedEnd sq ds (s1\<lparr>rs_target := t, rs_applied := Suc (rs_applied s1)\<rparr>)))"

definition finishCommit :: "nat \<Rightarrow> BatchCommit \<Rightarrow> 'o recoveryState \<Rightarrow> (recoverError + (nat \<times> bool)) \<times> 'o recoveryState" where
  "finishCommit off commit s =
     (Inr (off + BatchCommitSize, True),
      s\<lparr>rs_pending := [], rs_pendingBytes := 0, rs_lastCommittedSeq := bc_Seq commit, rs_commits := Suc (rs_commits s)\<rparr>)"

definition parseCommit ::
  "(nat \<Rightarrow> bool) \<Rightarrow> (CommitDescriptor \<Rightarrow> 'o \<Rightarrow> StorageError + 'o) \<Rightarrow> RecoverOptions \<Rightarrow> u8 list \<Rightarrow> 'o recoveryState
     \<Rightarrow> nat \<Rightarrow> (recoverError + (nat \<times> bool)) \<times> 'o recoveryState" where
  "parseCommit late apply opts f s off =
     (case readAt ErrEOF f off BatchCommitSize of
        Inl e \<Rightarrow> (Inl (Torn e), s)
      | Inr buf \<Rightarrow>
          (case decodeBatchCommit buf of
             Inl e \<Rightarrow> (Inl (Torn e), s)
           | Inr commit \<Rightarrow>
               if bc_Version commit = 2 then (Inl UnsupportedFormat, s)
               else if bc_Version commit \<noteq> FormatVersion then (Inl (Torn (ErrFormat ''unsupported batchcommit version'')), s)
               else if bc_StreamID commit \<noteq> ro_StreamID opts \<or> bc_Seq commit \<le> rs_lastCommittedSeq s
                       \<or> bc_RecordCount commit \<noteq> of_nat (length (rs_pending s))
               then (Inl (Torn (ErrFormat ''invalid batchcommit fields'')), s)
               else if rs_pending s = [] \<or> sint (bc_FirstOffset commit) \<noteq> int (cd_Offset (hd (rs_pending s)))
                       \<or> sint (bc_LastOffset commit) \<noteq> int off
               then (Inl (Torn (ErrFormat ''invalid batchcommit offsets'')), s)
               else case checkDeadlines late (length (rs_pending s)) s of
                      (True, s1) \<Rightarrow> (Inl BudgetExceeded, s1)
                    | (False, s1) \<Rightarrow>
                        if bc_DescriptorsCRC commit \<noteq> pendingDescriptorsCRC (rs_pending s1)
                        then (Inl (Torn (ErrFormat ''batch descriptor crc mismatch'')), s1)
                        else if ro_SafeSeq opts < bc_Seq commit
                        then (case addReplayBytes s1 (rs_pendingBytes s1 + BatchCommitSize) of
                                None \<Rightarrow> (Inl BudgetExceeded, s1)
                              | Some s2 \<Rightarrow>
                                  (case applyPending late apply (off + BatchCommitSize) (bc_Seq commit) (rs_pending s2) s2 of
                                     (Inl e, s3) \<Rightarrow> (Inl e, s3)
                                   | (Inr _, s3) \<Rightarrow> finishCommit off commit s3))
                        else finishCommit off commit s1))"

text \<open>An index-safe marker has no magic number; it is tried when the bytes are no record header.\<close>

definition indexSafeAt :: "u8 list \<Rightarrow> nat \<Rightarrow> nat \<Rightarrow> u32 \<Rightarrow> CommitRecord option" where
  "indexSafeAt f fileSize off magic =
     (if magic \<noteq> RecordMagic \<and> off + CommitRecordSize \<le> fileSize
      then (case readAt ErrEOF f off CommitRecordSize of
              Inl _ \<Rightarrow> None
            | Inr buf \<Rightarrow>
                (case decodeCommitRecord buf of
                   Inl _ \<Rightarrow> None
                 | Inr r \<Rightarrow> if cr_Op r = OpIndexSafe then Some r else None))
      else None)"

definition parseEntryAt ::
  "(nat \<Rightarrow> bool) \<Rightarrow> (CommitDescriptor \<Rightarrow> 'o \<Rightarrow> StorageError + 'o) \<Rightarrow> RecoverOptions \<Rightarrow> u8 list \<Rightarrow> 'o recoveryState
     \<Rightarrow> nat \<Rightarrow> (recoverError + (nat \<times> bool)) \<times> 'o recoveryState" where
  "parseEntryAt late apply opts f s off =
     (case readAt ErrEOF f off 4 of
        Inl e \<Rightarrow> (Inl (Torn e), s)
      | Inr magicBuf \<Rightarrow>
          let magic = getUint32 magicBuf in
          if magic = BatchCommitMagic then parseCommit late apply opts f s off
          else case indexSafeAt f (rs_size s) off magic of
                 None \<Rightarrow> parseRecord f s off
               | Some r \<Rightarrow>
                   if rs_pending s \<noteq> [] then (Inl (Torn (ErrFormat ''index safe follows uncommitted records'')), s)
                   else let s1 = (if rs_safeSeq s < cr_Seq r then s\<lparr>rs_safeSeq := cr_Seq r\<rparr> else s) in
                        case addReplayBytes s1 CommitRecordSize of
                          None \<Rightarrow> (Inl BudgetExceeded, s1)
                        | Some s2 \<Rightarrow> (Inr (off + CommitRecordSize, True), s2))"

text \<open>
  The loop over the entries. Every entry takes at least one byte, so the size of the file is enough
  fuel. The outcome is the error that ends recovery, or none when the log was read up to its end or
  up to a torn entry.
\<close>

datatype scanOutcome = ScanDone | ScanBudget | ScanUnsupported | ScanApply StorageError

fun scanLog ::
  "(nat \<Rightarrow> bool) \<Rightarrow> (CommitDescriptor \<Rightarrow> 'o \<Rightarrow> StorageError + 'o) \<Rightarrow> RecoverOptions \<Rightarrow> u8 list \<Rightarrow> nat
     \<Rightarrow> 'o recoveryState \<Rightarrow> nat \<Rightarrow> scanOutcome \<times> 'o recoveryState" where
  "scanLog late apply opts f 0 s off = (ScanDone, s)"
| "scanLog late apply opts f (Suc fuel) s off =
     (if rs_size s \<le> off then (ScanDone, s)
      else case deadlineExceeded late s of
             (True, s0) \<Rightarrow> (ScanBudget, s0)
           | (False, s0) \<Rightarrow>
               (case parseEntryAt late apply opts f s0 off of
                  (Inl BudgetExceeded, s1) \<Rightarrow> (ScanBudget, s1)
                | (Inl (ApplyFailed e committedEnd sq), s1) \<Rightarrow>
                    (ScanApply e, s1\<lparr>rs_lastValid := committedEnd, rs_lastCommittedSeq := sq, rs_commits := Suc (rs_commits s1)\<rparr>)
                | (Inl UnsupportedFormat, s1) \<Rightarrow> (ScanUnsupported, s1)
                | (Inl (Torn e), s1) \<Rightarrow> (ScanDone, s1)
                | (Inr (nxt, boundary), s1) \<Rightarrow>
                    scanLog late apply opts f fuel (if boundary then s1\<lparr>rs_lastValid := nxt\<rparr> else s1) nxt))"

definition startState :: "u64 \<Rightarrow> RecoverOptions \<Rightarrow> nat \<Rightarrow> nat \<Rightarrow> u64 \<Rightarrow> 'o \<Rightarrow> 'o recoveryState" where
  "startState segID opts fileSize start checkpointSeq t =
     \<lparr>rs_segID = segID, rs_size = fileSize, rs_pending = [], rs_pendingBytes = 0, rs_lastValid = start,
      rs_safeOffset = start, rs_lastCommittedSeq = checkpointSeq, rs_safeSeq = ro_SafeSeq opts, rs_commits = 0,
      rs_applied = 0, rs_records = 0, rs_replayBytes = 0, rs_recordLimit = recoveryRecordLimit opts,
      rs_replayLimit = fst (recoveryByteLimits opts), rs_checks = 0, rs_target = t\<rparr>"

text \<open>The recovered target, the result (none when there is none), the error (none on success) and the file.\<close>

type_synonym 'o recovered = "'o \<times> RecoverResult option \<times> StorageError option \<times> u8 list"

definition finishScan ::
  "(nat \<Rightarrow> bool) \<Rightarrow> RecoverOptions \<Rightarrow> u8 list \<Rightarrow> nat \<Rightarrow> scanOutcome \<times> 'o recoveryState \<Rightarrow> 'o recovered" where
  "finishScan late opts f start r =
     (case r of
        (ScanBudget, s) \<Rightarrow> (rs_target s, Some (recoverResult s False), Some ErrRecoveryBudgetExceeded, f)
      | (ScanApply e, s) \<Rightarrow> (rs_target s, Some (recoverResult s False), Some e, f)
      | (ScanUnsupported, s) \<Rightarrow> (rs_target s, None, Some (ErrFormat ''unsupported recovery format''), f)
      | (ScanDone, s) \<Rightarrow>
          let trailing = rs_size s - rs_lastValid s in
          if snd (recoveryByteLimits opts) < trailing
          then (rs_target s, Some (recoverResult s False), Some ErrRecoveryBudgetExceeded, f)
          else if 0 < trailing \<and> rs_lastValid s < start
          then (rs_target s, None, Some (ErrFormat ''refusing to truncate below safe offset''), f)
          else let f' = (if 0 < trailing then truncateTo f (rs_lastValid s) else f) in
               case deadlineExceeded late s of
                 (True, s1) \<Rightarrow> (rs_target s1, Some (recoverResult s1 False), Some ErrRecoveryBudgetExceeded, f')
               | (False, s1) \<Rightarrow> (rs_target s1, Some (recoverResult s1 True), None, f'))"

definition RecoverFromSegmentLog ::
  "(nat \<Rightarrow> bool) \<Rightarrow> (CommitDescriptor \<Rightarrow> 'o \<Rightarrow> StorageError + 'o) \<Rightarrow> u64 \<Rightarrow> RecoverOptions \<Rightarrow> u8 list \<Rightarrow> 'o \<Rightarrow> 'o recovered" where
  "RecoverFromSegmentLog late apply segID opts f t =
     (if length f < SegmentHeaderSize then (t, None, Some (ErrFormat ''segment shorter than header''), f)
      else case decodeSegmentHeader (take SegmentHeaderSize f) of
             Inl e \<Rightarrow> (t, None, Some e, f)
           | Inr _ \<Rightarrow>
               if ro_SafeOffset opts < 0 then (t, None, Some (ErrFormat ''safe offset outside segment''), f)
               else let start = max SegmentHeaderSize (nat (ro_SafeOffset opts)) in
                 if length f < start then (t, None, Some (ErrFormat ''safe offset outside segment size''), f)
                 else case (if start > SegmentHeaderSize then validateSafeRecoveryStart f start (ro_StreamID opts) else Inr (0, True)) of
                        Inl e \<Rightarrow> (t, None, Some e, f)
                      | Inr (checkpointSeq, isIndexSafe) \<Rightarrow>
                          if start > SegmentHeaderSize \<and> ro_RequireSafeMarker opts \<and> (\<not> isIndexSafe \<or> checkpointSeq \<noteq> ro_SafeSeq opts)
                          then (t, None, Some (ErrFormat ''safe offset does not match index-safe checkpoint''), f)
                          else finishScan late opts f start
                                 (scanLog late apply opts f (length f) (startState segID opts (length f) start checkpointSeq t) start))"

end
