(* ===== verification/Segment_Index.thy ===== *)
theory Segment_Index
  imports Segment_Log
begin

text \<open>
  What the store of a commit stream keeps beside the segment log: the derived location index of
  \<open>datanode/storage/index\<close> with its recovery checkpoint, the overlay of committed locations that are
  not in the index yet (\<open>segment/overlay.go\<close>), and the two caches of \<open>segment/cache.go\<close>. The index
  database is a list of encoded rows; its own failures are not modelled.
\<close>

section \<open>The derived index (datanode/storage/index)\<close>

definition KeyLen :: nat where
  "KeyLen = 16"

definition ValueLen :: nat where
  "ValueLen = 30"

definition indexKey :: "u64 \<Rightarrow> u64 \<Rightarrow> u8 list" where
  "indexKey extentID generation = putUint64 extentID @ putUint64 generation"

definition ExtentFromKey :: "u8 list \<Rightarrow> u64" where
  "ExtentFromKey k = getUint64 (slice 0 8 k)"

definition GenerationFromKey :: "u8 list \<Rightarrow> u64" where
  "GenerationFromKey k = getUint64 (slice 8 16 k)"

definition ExtentDurable :: u8 where
  "ExtentDurable = 0"

definition ExtentTombstoned :: u8 where
  "ExtentTombstoned = 1"

definition ExtentCorrupt :: u8 where
  "ExtentCorrupt = 2"

definition ExtentRelocating :: u8 where
  "ExtentRelocating = 3"

text \<open>The offset of a value is an \<open>int64\<close>; the model keeps its 64 bits.\<close>

record Value =
  va_SegmentID :: u64
  va_Offset :: u64
  va_StoredLen :: u32
  va_LogicalLen :: u32
  va_State :: u8
  va_Checksum :: u32

definition encodeValue :: "Value \<Rightarrow> u8 list" where
  "encodeValue v = putUint64 (va_SegmentID v) @ putUint64 (va_Offset v) @ putUint32 (va_StoredLen v)
     @ putUint32 (va_LogicalLen v) @ [va_State v] @ putUint32 (va_Checksum v) @ [0]"

definition decodeValue :: "u8 list \<Rightarrow> StorageError + Value" where
  "decodeValue src =
     (if length src < ValueLen then Inl (ErrFormat ''index value too short'')
      else Inr \<lparr>va_SegmentID = getUint64 (slice 0 8 src), va_Offset = getUint64 (slice 8 16 src),
                va_StoredLen = getUint32 (slice 16 20 src), va_LogicalLen = getUint32 (slice 20 24 src),
                va_State = src ! 24, va_Checksum = getUint32 (slice 25 29 src)\<rparr>)"

type_synonym Index = "(u8 list \<times> u8 list) list"

definition index_Get :: "Index \<Rightarrow> u64 \<Rightarrow> u64 \<Rightarrow> StorageError + Value" where
  "index_Get ix extentID generation =
     (case map_of ix (indexKey extentID generation) of
        None \<Rightarrow> Inl ErrExtentNotFound
      | Some raw \<Rightarrow> (case decodeValue raw of Inl _ \<Rightarrow> Inl ErrIndexCorrupt | Inr v \<Rightarrow> Inr v))"

record Mutation =
  mu_ExtentID :: u64
  mu_Generation :: u64
  mu_Value :: Value

definition applyMutation :: "Index \<Rightarrow> Mutation \<Rightarrow> Index" where
  "applyMutation ix m = AList.update (indexKey (mu_ExtentID m) (mu_Generation m)) (encodeValue (mu_Value m)) ix"

definition applyMutations :: "Index \<Rightarrow> Mutation list \<Rightarrow> Index" where
  "applyMutations ix ms = foldl applyMutation ix ms"

text \<open>The keys of the database in order.\<close>

definition indexKeys :: "Index \<Rightarrow> u8 list list" where
  "indexKeys ix = sort (remdups (map fst ix))"

definition LatestGeneration :: "Index \<Rightarrow> u64 \<Rightarrow> u64 option" where
  "LatestGeneration ix extentID =
     (let ks = filter (\<lambda>k. indexKey extentID 0 \<le> k \<and> k < indexKey (extentID + 1) 0) (indexKeys ix) in
      if ks = [] then None else Some (GenerationFromKey (last ks)))"

text \<open>\<open>Iterate\<close> collects, per extent, the last generation it meets in key order.\<close>

fun iterateKeys ::
  "Index \<Rightarrow> u8 list list \<Rightarrow> (u64 \<times> u64 \<times> Value) option \<Rightarrow> StorageError + (u64 \<times> u64 \<times> Value) list" where
  "iterateKeys ix [] cur = Inr (case cur of None \<Rightarrow> [] | Some c \<Rightarrow> [c])"
| "iterateKeys ix (k # ks) cur =
     (if length k < KeyLen then iterateKeys ix ks cur
      else case decodeValue (the (map_of ix k)) of
             Inl _ \<Rightarrow> Inl ErrIndexCorrupt
           | Inr v \<Rightarrow>
               let here = (ExtentFromKey k, GenerationFromKey k, v) in
               (case cur of
                  Some c \<Rightarrow>
                    if fst c = ExtentFromKey k then iterateKeys ix ks (Some here)
                    else (case iterateKeys ix ks (Some here) of Inl e \<Rightarrow> Inl e | Inr out \<Rightarrow> Inr (c # out))
                | None \<Rightarrow> iterateKeys ix ks (Some here)))"

definition index_Iterate :: "Index \<Rightarrow> StorageError + (u64 \<times> u64 \<times> Value) list" where
  "index_Iterate ix = iterateKeys ix (indexKeys ix) None"

text \<open>The recovery checkpoint beside the index.\<close>

record RecoveryCheckpoint =
  ck_FormatVersion :: u8
  ck_StreamID :: u8
  ck_SegmentID :: u64
  ck_SafeOffset :: int
  ck_SafeSeq :: u64

definition recoveryCheckpointMagic :: u32 where
  "recoveryCheckpointMagic = 0x52435054"

definition recoveryCheckpointVersion :: u8 where
  "recoveryCheckpointVersion = 1"

definition recoveryCheckpointSize :: nat where
  "recoveryCheckpointSize = 34"

definition checkpointBody :: "RecoveryCheckpoint \<Rightarrow> u8 list" where
  "checkpointBody c = putUint32 recoveryCheckpointMagic @ [ck_FormatVersion c, ck_StreamID c] @ putUint64 (ck_SegmentID c)
     @ putUint64 (word_of_int (ck_SafeOffset c)) @ putUint64 (ck_SafeSeq c)"

definition encodeRecoveryCheckpoint :: "RecoveryCheckpoint \<Rightarrow> u8 list" where
  "encodeRecoveryCheckpoint c = checkpointBody c @ putUint32 (CRC32C (checkpointBody c))"

definition decodeRecoveryCheckpoint :: "u8 list \<Rightarrow> StorageError + RecoveryCheckpoint" where
  "decodeRecoveryCheckpoint data =
     (if length data \<noteq> recoveryCheckpointSize then Inl (ErrFormat ''invalid recovery checkpoint size'')
      else if getUint32 (slice 0 4 data) \<noteq> recoveryCheckpointMagic then Inl (ErrFormat ''invalid recovery checkpoint magic'')
      else if data ! 4 \<noteq> recoveryCheckpointVersion then Inl (ErrFormat ''unsupported recovery checkpoint version'')
      else if getUint32 (slice 30 34 data) \<noteq> CRC32C (slice 0 30 data) then Inl (ErrFormat ''recovery checkpoint crc mismatch'')
      else let c = \<lparr>ck_FormatVersion = data ! 4, ck_StreamID = data ! 5, ck_SegmentID = getUint64 (slice 6 14 data),
                    ck_SafeOffset = sint (getUint64 (slice 14 22 data)), ck_SafeSeq = getUint64 (slice 22 30 data)\<rparr>
           in if ck_SegmentID c = 0 \<or> ck_SafeOffset c < int SegmentHeaderSize \<or> ck_SafeSeq c = 0
              then Inl (ErrFormat ''invalid recovery checkpoint fields'') else Inr c)"

text \<open>The side files of the streams, by stream identifier; an index in memory keeps none.\<close>

definition StoreRecoveryCheckpoint ::
  "bool \<Rightarrow> (u8 \<times> u8 list) list \<Rightarrow> RecoveryCheckpoint \<Rightarrow> StorageError + (u8 \<times> u8 list) list" where
  "StoreRecoveryCheckpoint persistent side c0 =
     (if \<not> persistent then Inr side
      else let c = (if ck_FormatVersion c0 = 0 then c0\<lparr>ck_FormatVersion := recoveryCheckpointVersion\<rparr> else c0) in
           if ck_FormatVersion c \<noteq> recoveryCheckpointVersion \<or> ck_SegmentID c = 0
              \<or> ck_SafeOffset c < int SegmentHeaderSize \<or> ck_SafeSeq c = 0
           then Inl (ErrFormat ''invalid recovery checkpoint'')
           else Inr (AList.update (ck_StreamID c) (encodeRecoveryCheckpoint c) side))"

definition LoadRecoveryCheckpoint ::
  "bool \<Rightarrow> (u8 \<times> u8 list) list \<Rightarrow> u8 \<Rightarrow> StorageError + RecoveryCheckpoint option" where
  "LoadRecoveryCheckpoint persistent side streamID =
     (if \<not> persistent then Inr None
      else case map_of side streamID of
             None \<Rightarrow> Inr None
           | Some data \<Rightarrow>
               (case decodeRecoveryCheckpoint data of
                  Inl e \<Rightarrow> Inl e
                | Inr c \<Rightarrow>
                    if ck_StreamID c \<noteq> streamID then Inl (ErrFormat ''recovery checkpoint stream mismatch'') else Inr (Some c)))"

section \<open>The overlay (overlay.go)\<close>

type_synonym Locations = "(u8 list \<times> Value) list"

record Overlay =
  ov_entries :: Locations
  ov_draining :: Locations

definition NewOverlay :: Overlay where
  "NewOverlay = \<lparr>ov_entries = [], ov_draining = []\<rparr>"

definition ov_Put :: "Overlay \<Rightarrow> u8 list \<Rightarrow> Value \<Rightarrow> Overlay" where
  "ov_Put ov k v = ov\<lparr>ov_entries := AList.update k v (ov_entries ov)\<rparr>"

definition ov_Get :: "Overlay \<Rightarrow> u8 list \<Rightarrow> Value option" where
  "ov_Get ov k = (case map_of (ov_entries ov) k of Some v \<Rightarrow> Some v | None \<Rightarrow> map_of (ov_draining ov) k)"

definition ov_Delete :: "Overlay \<Rightarrow> u8 list \<Rightarrow> Overlay" where
  "ov_Delete ov k = \<lparr>ov_entries = AList.delete k (ov_entries ov), ov_draining = AList.delete k (ov_draining ov)\<rparr>"

definition mutationOf :: "u8 list \<times> Value \<Rightarrow> Mutation" where
  "mutationOf e = \<lparr>mu_ExtentID = getUint64 (slice 0 8 (fst e)), mu_Generation = getUint64 (slice 8 16 (fst e)), mu_Value = snd e\<rparr>"

definition ov_Drain :: "Overlay \<Rightarrow> Mutation list \<times> Overlay" where
  "ov_Drain ov =
     (map mutationOf (ov_entries ov),
      \<lparr>ov_entries = [], ov_draining = foldl (\<lambda>d e. AList.update (fst e) (snd e) d) (ov_draining ov) (ov_entries ov)\<rparr>)"

definition ov_DiscardDrained :: "Overlay \<Rightarrow> Overlay" where
  "ov_DiscardDrained ov = ov\<lparr>ov_draining := []\<rparr>"

definition ov_RestoreDrained :: "Overlay \<Rightarrow> Overlay" where
  "ov_RestoreDrained ov =
     \<lparr>ov_entries = ov_entries ov @ filter (\<lambda>e. map_of (ov_entries ov) (fst e) = None) (ov_draining ov), ov_draining = []\<rparr>"

definition ov_Len :: "Overlay \<Rightarrow> nat" where
  "ov_Len ov = length (ov_entries ov)"

definition ov_Snapshot :: "Overlay \<Rightarrow> Locations" where
  "ov_Snapshot ov = ov_entries ov @ filter (\<lambda>e. map_of (ov_entries ov) (fst e) = None) (ov_draining ov)"

section \<open>Caches (cache.go)\<close>

text \<open>An LRU list with the most recently used entry first.\<close>

record LocationCache =
  lc_maxSize :: nat
  lc_lru :: Locations

definition NewLocationCache :: "nat \<Rightarrow> LocationCache" where
  "NewLocationCache m = \<lparr>lc_maxSize = (if m = 0 then 1000000 else m), lc_lru = []\<rparr>"

definition lc_Get :: "LocationCache \<Rightarrow> u8 list \<Rightarrow> Value option \<times> LocationCache" where
  "lc_Get c k =
     (case map_of (lc_lru c) k of
        Some v \<Rightarrow> (Some v, c\<lparr>lc_lru := (k, v) # AList.delete k (lc_lru c)\<rparr>)
      | None \<Rightarrow> (None, c))"

definition lc_Put :: "LocationCache \<Rightarrow> u8 list \<Rightarrow> Value \<Rightarrow> LocationCache" where
  "lc_Put c k v =
     (case map_of (lc_lru c) k of
        Some _ \<Rightarrow> c\<lparr>lc_lru := (k, v) # AList.delete k (lc_lru c)\<rparr>
      | None \<Rightarrow> c\<lparr>lc_lru := (k, v) # take (lc_maxSize c - 1) (lc_lru c)\<rparr>)"

definition lc_Delete :: "LocationCache \<Rightarrow> u8 list \<Rightarrow> LocationCache" where
  "lc_Delete c k = c\<lparr>lc_lru := AList.delete k (lc_lru c)\<rparr>"

definition lc_Clear :: "LocationCache \<Rightarrow> LocationCache" where
  "lc_Clear c = c\<lparr>lc_lru := []\<rparr>"

record cacheEntry =
  ce_path :: u64
  ce_rd :: Reader
  ce_pinned :: bool

record SegmentDescriptorCache =
  dc_maxSize :: nat
  dc_lru :: "cacheEntry list"

definition NewSegmentDescriptorCache :: "nat \<Rightarrow> SegmentDescriptorCache" where
  "NewSegmentDescriptorCache m = \<lparr>dc_maxSize = (if m = 0 then 4096 else m), dc_lru = []\<rparr>"

definition moveToFront :: "cacheEntry \<Rightarrow> cacheEntry list \<Rightarrow> cacheEntry list" where
  "moveToFront e es = e # filter (\<lambda>x. ce_path x \<noteq> ce_path e) es"

text \<open>The eviction loop: it stops at a pinned entry, which it moves to the front.\<close>

fun evict :: "nat \<Rightarrow> cacheEntry list \<Rightarrow> nat \<Rightarrow> cacheEntry list" where
  "evict m es 0 = es"
| "evict m es (Suc fuel) =
     (if length es < m \<or> es = [] then es
      else if ce_pinned (last es) then moveToFront (last es) es
      else evict m (butlast es) fuel)"

text \<open>
  A cached reader holds the file open, so it sees what is written to the file afterwards, and it shares
  the key registry with the store.
\<close>

definition freshReader :: "(u64 \<times> u8 list) list \<Rightarrow> KeyRegistry option \<Rightarrow> cacheEntry \<Rightarrow> Reader" where
  "freshReader files enc e =
     (case map_of files (ce_path e) of
        None \<Rightarrow> (ce_rd e)\<lparr>rd_enc := enc\<rparr>
      | Some f \<Rightarrow> (ce_rd e)\<lparr>rd_file := f, rd_enc := enc\<rparr>)"

definition dc_Get ::
  "(u64 \<times> u8 list) list \<Rightarrow> SegmentDescriptorCache \<Rightarrow> u64 \<Rightarrow> KeyRegistry option
     \<Rightarrow> (StorageError + Reader) \<times> SegmentDescriptorCache" where
  "dc_Get files c path enc =
     (case find (\<lambda>e. ce_path e = path) (dc_lru c) of
        Some e \<Rightarrow> (Inr (freshReader files enc e), c\<lparr>dc_lru := moveToFront e (dc_lru c)\<rparr>)
      | None \<Rightarrow>
          (case map_of files path of
             None \<Rightarrow> (Inl ErrSegmentUnavailable, c)
           | Some f \<Rightarrow>
               (case OpenReaderWithEnc False f enc of
                  Inl e \<Rightarrow> (Inl e, c)
                | Inr rd \<Rightarrow>
                    (Inr rd, c\<lparr>dc_lru := \<lparr>ce_path = path, ce_rd = rd, ce_pinned = False\<rparr>
                                          # evict (dc_maxSize c) (dc_lru c) (length (dc_lru c))\<rparr>))))"

definition dc_Pin :: "SegmentDescriptorCache \<Rightarrow> u64 \<Rightarrow> SegmentDescriptorCache" where
  "dc_Pin c path = c\<lparr>dc_lru := map (\<lambda>e. if ce_path e = path then e\<lparr>ce_pinned := True\<rparr> else e) (dc_lru c)\<rparr>"

text \<open>What a read leaves in the cached reader: the refreshed size.\<close>

definition dc_Store :: "SegmentDescriptorCache \<Rightarrow> u64 \<Rightarrow> Reader \<Rightarrow> SegmentDescriptorCache" where
  "dc_Store c path rd = c\<lparr>dc_lru := map (\<lambda>e. if ce_path e = path then e\<lparr>ce_rd := rd\<rparr> else e) (dc_lru c)\<rparr>"

definition dc_Close :: "SegmentDescriptorCache \<Rightarrow> SegmentDescriptorCache" where
  "dc_Close c = c\<lparr>dc_lru := []\<rparr>"

end
