(* ===== verification/Segment_Store.thy ===== *)
theory Segment_Store
  imports Segment_Index
begin

text \<open>
  The store of one commit stream on one disk, \<open>datanode/storage/segment/store.go\<close> with \<open>flush.go\<close> and the
  batches of \<open>commit_coordinator.go\<close>. The directory of segment files is a list of files by segment
  identifier. A request that joins a group commit is split where it waits: what it prepares, the
  commit of the batch it ends up in, and what it does when the batch has finished. \<open>st_faults\<close> is the
  fault hook of the configuration: the error it injects at a stage, if any. Values read from the wall
  clock and from the random source are arguments. The mutex of the store makes the modelled steps
  atomic; the asynchronous index queue is part of the state.
\<close>

section \<open>The store (store.go)\<close>

datatype CrashPoint =
    CrashBeforeBatchAppend | CrashAfterRecordAppend | CrashAfterFrameIndex | CrashAfterBatchCommitWrite
  | CrashAfterBatchSync | CrashBeforeOverlayApply | CrashAfterOverlayApply | CrashAfterAck
  | CrashBeforeIndexApply | CrashAfterIndexApply | CrashBeforeIndexSafe | CrashAfterIndexSafe

record pendingWrite =
  pw_extentID :: u64
  pw_generation :: u64
  pw_header :: RecordHeader
  pw_idxBuf :: "u8 list"
  pw_stored :: "u8 list"
  pw_storedLen :: u32
  pw_logicalLen :: u32
  pw_payloadCRC :: u32
  pw_publishedValue :: "Value option"
  pw_segID :: u64
  pw_offset :: nat
  pw_streamSeq :: u64

record recoveryPublishBatch =
  rb_previousSeq :: u64
  rb_seq :: u64
  rb_remaining :: int
  rb_mutations :: int

datatype storeEvent = EventRelocated u64 u64 u64 | EventCorrupt u64 u64 u64

record Store =
  st_alloc :: Allocator
  st_writer :: "u64 option"
  st_files :: "(u64 \<times> u8 list) list"
  st_index :: Index
  st_persistent :: bool
  st_sidecars :: "(u8 \<times> u8 list) list"
  st_overlay :: Overlay
  st_streamID :: u8
  st_streamSeq :: u64
  st_dataReady :: bool
  st_nextSeg :: u64
  st_segmentSize :: nat
  st_applyCh :: "Mutation list list"
  st_syncCalls :: nat
  st_flushSeq :: u64
  st_flushMutations :: int
  st_publishedSeq :: u64
  st_readyBatches :: "(u64 \<times> recoveryPublishBatch) list"
  st_safeSeq :: u64
  st_enc :: "KeyRegistry option"
  st_locCache :: LocationCache
  st_segCache :: SegmentDescriptorCache
  st_changeJournal :: "storeEvent list option"
  st_recoveryResult :: "RecoverResult option"
  st_closing :: bool
  st_faults :: "CrashPoint \<Rightarrow> StorageError option"

definition classForStream :: "u8 \<Rightarrow> u8" where
  "classForStream streamID = (if streamID = 0 then SegmentSmall else SegmentData)"

text \<open>The contents of the file the writer has open, and a change of them.\<close>

definition activeFile :: "Store \<Rightarrow> u8 list" where
  "activeFile s = (case st_writer s of None \<Rightarrow> [] | Some w \<Rightarrow> (case map_of (st_files s) w of None \<Rightarrow> [] | Some f \<Rightarrow> f))"

definition setActive :: "Store \<Rightarrow> u8 list \<Rightarrow> Store" where
  "setActive s f = (case st_writer s of None \<Rightarrow> s | Some w \<Rightarrow> s\<lparr>st_files := AList.update w f (st_files s)\<rparr>)"

definition newActiveSegment :: "u64 \<Rightarrow> Store \<Rightarrow> u8 \<Rightarrow> nat \<Rightarrow> Store" where
  "newActiveSegment now s class segSize =
     (let segID = st_nextSeg s + 1;
          hb = encodeSegmentHeader \<lparr>sh_Magic = SegmentMagic, sh_Version = FormatVersion, sh_ID = segID,
                                    sh_SegmentClass = class, sh_Reserved = 0\<rparr>;
          f = (case map_of (st_files s) segID of None \<Rightarrow> [] | Some f \<Rightarrow> f)
      in s\<lparr>st_nextSeg := segID, st_files := AList.update segID (writeAt f 0 hb) (st_files s),
           st_alloc := NewAllocator segID class segSize now, st_writer := Some segID,
           st_segCache := dc_Pin (st_segCache s) segID\<rparr>)"

definition sealActiveLocked :: "u64 \<Rightarrow> Store \<Rightarrow> (StorageError + unit) \<times> Store" where
  "sealActiveLocked now s =
     (let a = st_alloc s;
          footer = \<lparr>sf_Magic = SegmentMagic, sf_Version = FormatVersion, sf_RecordCount = al_recordCount a,
                    sf_TotalPayload = of_nat (al_payloadBytes a), sf_MinExtentID = al_minExtent a,
                    sf_MaxExtentID = al_maxExtent a, sf_LastCommittedSeq = al_lastCommitSeq a,
                    sf_CreatedAtUnix = al_createdAt a, sf_SealedAtUnix = now, sf_SegmentCRC = 0\<rparr>
      in case WriteFooter (activeFile s) (al_offset a) footer of
           Inl e \<Rightarrow> (Inl e, s)
         | Inr f \<Rightarrow> (Inr (), newActiveSegment now (setActive s f) (al_class a) (st_segmentSize s)))"

text \<open>The watermark moves through contiguous batches only.\<close>

fun drainReady :: "nat \<Rightarrow> Store \<Rightarrow> Store" where
  "drainReady 0 s = s"
| "drainReady (Suc fuel) s =
     (case map_of (st_readyBatches s) (st_publishedSeq s) of
        None \<Rightarrow> s
      | Some nxt \<Rightarrow>
          drainReady fuel
            (s\<lparr>st_readyBatches := AList.delete (st_publishedSeq s) (st_readyBatches s),
               st_publishedSeq := rb_seq nxt, st_flushSeq := rb_seq nxt,
               st_flushMutations := st_flushMutations s + rb_mutations nxt\<rparr>))"

definition publishRecoveryBatch :: "recoveryPublishBatch \<Rightarrow> Store \<Rightarrow> recoveryPublishBatch \<times> Store" where
  "publishRecoveryBatch b0 s =
     (let b = b0\<lparr>rb_remaining := rb_remaining b0 - 1\<rparr> in
      if rb_remaining b \<noteq> 0 then (b, s)
      else let s1 = s\<lparr>st_readyBatches := AList.update (rb_previousSeq b) b (st_readyBatches s)\<rparr> in
           (b, drainReady (length (st_readyBatches s1)) s1))"

fun publishEach :: "nat \<Rightarrow> recoveryPublishBatch \<Rightarrow> Store \<Rightarrow> Store" where
  "publishEach 0 b s = s"
| "publishEach (Suc n) b s = (case publishRecoveryBatch b s of (b', s') \<Rightarrow> publishEach n b' s')"

definition descriptorOf :: "pendingWrite \<Rightarrow> CommitDescriptor" where
  "descriptorOf pw =
     \<lparr>cd_ExtentID = pw_extentID pw, cd_Generation = pw_generation pw, cd_SegmentID = pw_segID pw,
      cd_Offset = pw_offset pw, cd_StoredLen = pw_storedLen pw, cd_LogicalLen = pw_logicalLen pw,
      cd_Checksum = pw_payloadCRC pw, cd_Op = rh_Op (pw_header pw)\<rparr>"

definition batchDescriptorsCRC :: "pendingWrite list \<Rightarrow> u32" where
  "batchDescriptorsCRC batch = snd (EncodeDescriptors (map descriptorOf batch))"

definition framingOf :: "pendingWrite \<Rightarrow> u32" where
  "framingOf pw = RecordFraming (pw_storedLen pw) (unat (rh_FrameCount (pw_header pw)))"

fun reserveBatch ::
  "u64 \<Rightarrow> Allocator \<Rightarrow> u64 \<Rightarrow> pendingWrite list \<Rightarrow> (StorageError + pendingWrite list) \<times> Allocator \<times> u64" where
  "reserveBatch segID a sq [] = (Inr [], a, sq)"
| "reserveBatch segID a sq (pw # pws) =
     (case Reserve a (framingOf pw) (pw_extentID pw) (pw_storedLen pw) of
        (Inl e, a1) \<Rightarrow> (Inl e, a1, sq)
      | (Inr off, a1) \<Rightarrow>
          (case reserveBatch segID a1 (sq + 1) pws of
             (Inl e, r) \<Rightarrow> (Inl e, r)
           | (Inr pws', r) \<Rightarrow> (Inr (pw\<lparr>pw_segID := segID, pw_offset := off, pw_streamSeq := sq\<rparr> # pws'), r)))"

fun writeRecords :: "u8 list \<Rightarrow> pendingWrite list \<Rightarrow> StorageError option \<times> u8 list" where
  "writeRecords f [] = (None, f)"
| "writeRecords f (pw # pws) =
     (case WriteRecordFramed f (pw_offset pw) (pw_header pw) (pw_idxBuf pw) (pw_stored pw) of
        Inl e \<Rightarrow> (Some e, f)
      | Inr f' \<Rightarrow> writeRecords f' pws)"

definition publishedOf :: "pendingWrite \<Rightarrow> Value" where
  "publishedOf pw =
     (case pw_publishedValue pw of
        Some v \<Rightarrow> v
      | None \<Rightarrow> \<lparr>va_SegmentID = pw_segID pw, va_Offset = of_nat (pw_offset pw), va_StoredLen = pw_storedLen pw,
                 va_LogicalLen = pw_logicalLen pw, va_State = ExtentDurable, va_Checksum = pw_payloadCRC pw\<rparr>)"

definition publishOverlay :: "Overlay \<Rightarrow> pendingWrite list \<Rightarrow> Overlay" where
  "publishOverlay ov batch =
     foldl (\<lambda>ov' pw. ov_Put ov' (indexKey (pw_extentID pw) (pw_generation pw)) (publishedOf pw)) ov batch"

text \<open>
  \<open>commitBatch\<close>. The part before the reservations makes room; the part behind them writes, syncs and
  publishes. An error leaves the state as far as it had come.
\<close>

definition makeRoom :: "u64 \<Rightarrow> Store \<Rightarrow> pendingWrite list \<Rightarrow> (StorageError + unit) \<times> Store" where
  "makeRoom now s batch =
     (let required = BatchCommitSize + sum_list (map (\<lambda>pw. unat (framingOf pw)) batch);
          fits = (\<lambda>s. CanReserveBatch (st_alloc s) required \<and> CanReserveRecords (st_alloc s) (length batch))
      in if fits s then (Inr (), s)
         else case sealActiveLocked now s of
                (Inl e, s1) \<Rightarrow> (Inl e, s1)
              | (Inr _, s1) \<Rightarrow> if fits s1 then (Inr (), s1) else (Inl ErrSegmentFull, s1))"

definition publishCommitted :: "Store \<Rightarrow> BatchCommit \<Rightarrow> pendingWrite list \<Rightarrow> (StorageError + pendingWrite list) \<times> Store" where
  "publishCommitted s bc batch =
     (let s1 = s\<lparr>st_alloc := RecordCommit (st_alloc s) (st_streamSeq s)\<rparr>;
          b = \<lparr>rb_previousSeq = bc_Seq bc - of_nat (length batch), rb_seq = bc_Seq bc,
               rb_remaining = int (length batch), rb_mutations = int (length batch)\<rparr>
      in case st_faults s1 CrashBeforeOverlayApply of
           Some e \<Rightarrow> (Inl e, s1)
         | None \<Rightarrow>
             let s2 = s1\<lparr>st_overlay := publishOverlay (st_overlay s1) batch\<rparr> in
             (case st_faults s2 CrashAfterOverlayApply of
                Some e \<Rightarrow> (Inl e, s2)
              | None \<Rightarrow> (Inr batch, publishEach (length batch) b s2)))"

definition appendBatch :: "Store \<Rightarrow> nat \<Rightarrow> pendingWrite list \<Rightarrow> (StorageError + pendingWrite list) \<times> Store" where
  "appendBatch s commitOffset batch =
     (case writeRecords (activeFile s) batch of
        (Some e, f1) \<Rightarrow> (Inl e, setActive s f1)
      | (None, f1) \<Rightarrow>
          let s1 = setActive s f1 in
          case st_faults s1 CrashAfterRecordAppend of
            Some e \<Rightarrow> (Inl e, s1)
          | None \<Rightarrow>
              let bc = \<lparr>bc_Magic = BatchCommitMagic, bc_Version = FormatVersion, bc_StreamID = st_streamID s1,
                        bc_Seq = st_streamSeq s1, bc_RecordCount = of_nat (length batch),
                        bc_FirstOffset = of_nat (pw_offset (hd batch)), bc_LastOffset = of_nat commitOffset,
                        bc_DescriptorsCRC = batchDescriptorsCRC batch\<rparr>;
                  s2 = setActive s1 (WriteBatchCommit f1 commitOffset bc)
              in case st_faults s2 CrashAfterBatchCommitWrite of
                   Some e \<Rightarrow> (Inl e, s2)
                 | None \<Rightarrow>
                     let s3 = s2\<lparr>st_syncCalls := Suc (st_syncCalls s2)\<rparr> in
                     case st_faults s3 CrashAfterBatchSync of
                       Some e \<Rightarrow> (Inl e, s3)
                     | None \<Rightarrow> publishCommitted s3 bc batch)"

definition commitBatch :: "u64 \<Rightarrow> Store \<Rightarrow> pendingWrite list \<Rightarrow> (StorageError + pendingWrite list) \<times> Store" where
  "commitBatch now s0 batch =
     (case makeRoom now s0 batch of
        (Inl e, s) \<Rightarrow> (Inl e, s)
      | (Inr _, s) \<Rightarrow>
          (case reserveBatch (al_segmentID (st_alloc s)) (st_alloc s) (st_streamSeq s) batch of
             (Inl e, a, sq) \<Rightarrow> (Inl e, s\<lparr>st_alloc := a, st_streamSeq := sq\<rparr>)
           | (Inr batch', a, sq) \<Rightarrow>
               (case ReserveCommit a BatchCommitSize of
                  (Inl e, a') \<Rightarrow> (Inl e, s\<lparr>st_alloc := a', st_streamSeq := sq\<rparr>)
                | (Inr commitOffset, a') \<Rightarrow>
                    appendBatch (s\<lparr>st_alloc := a', st_streamSeq := sq\<rparr>) commitOffset batch')))"

text \<open>The coordinator: a batch is the first request and those that arrive before its timer fires, at most \<open>MaxBatch\<close>.\<close>

definition MaxBatch :: nat where
  "MaxBatch = 256"

definition collectAndCommit ::
  "u64 \<Rightarrow> bool \<Rightarrow> Store \<Rightarrow> pendingWrite \<Rightarrow> pendingWrite list \<Rightarrow> (StorageError + pendingWrite list) \<times> Store" where
  "collectAndCommit now stopped s first arrivals =
     (if stopped then (Inl ErrCapacity, s) else commitBatch now s (first # take (MaxBatch - 1) arrivals))"

subsection \<open>The index behind the log\<close>

definition applyNow :: "Store \<Rightarrow> Mutation list \<Rightarrow> Store" where
  "applyNow s muts = s\<lparr>st_index := applyMutations (st_index s) muts\<rparr>"

definition applyChCapacity :: nat where
  "applyChCapacity = 256"

definition enqueueApply :: "Store \<Rightarrow> Mutation list \<Rightarrow> StorageError option \<times> Store" where
  "enqueueApply s muts =
     (case st_faults s CrashAfterAck of
        Some e \<Rightarrow> (Some e, s)
      | None \<Rightarrow>
          if length (st_applyCh s) < applyChCapacity then (None, s\<lparr>st_applyCh := st_applyCh s @ [muts]\<rparr>)
          else (None, applyNow s muts))"

text \<open>One round of \<open>applyLoop\<close>.\<close>

definition applyStep :: "Store \<Rightarrow> Store" where
  "applyStep s = (case st_applyCh s of [] \<Rightarrow> s | muts # rest \<Rightarrow> applyNow (s\<lparr>st_applyCh := rest\<rparr>) muts)"

definition writeIndexSafeLocked :: "Store \<Rightarrow> u64 \<Rightarrow> (StorageError + RecoveryCheckpoint) \<times> Store" where
  "writeIndexSafeLocked s safeSeq =
     (let body = encodeCommitRecord
                   \<lparr>cr_Seq = safeSeq, cr_Op = OpIndexSafe, cr_ExtentID = 0, cr_Generation = 0, cr_SegmentID = 0,
                    cr_Offset = 0, cr_StoredLen = 0, cr_LogicalLen = 0, cr_Checksum = 0, cr_SourceSegment = 0,
                    cr_SourceOffset = 0\<rparr>
      in case CurrentTail (st_alloc s) of
           Inl e \<Rightarrow> (Inl e, s)
         | Inr tail \<Rightarrow>
             let s1 = setActive s (writeAt (activeFile s) tail body) in
             (Inr \<lparr>ck_FormatVersion = 0, ck_StreamID = st_streamID s, ck_SegmentID = al_segmentID (st_alloc s),
                   ck_SafeOffset = int (tail + CommitRecordSize), ck_SafeSeq = safeSeq\<rparr>,
              s1\<lparr>st_alloc := Consume (st_alloc s1) CommitRecordSize\<rparr>))"

definition flush :: "Store \<Rightarrow> (StorageError + unit) \<times> Store" where
  "flush s =
     (case ov_Drain (st_overlay s) of (muts, ov) \<Rightarrow>
        let s1 = s\<lparr>st_overlay := ov\<rparr>;
            reinsert = (\<lambda>s. s\<lparr>st_overlay := ov_RestoreDrained (st_overlay s)\<rparr>)
        in if muts = [] then (Inr (), s1)
           else case writeIndexSafeLocked (applyNow s1 muts) (st_flushSeq s) of
                  (Inl e, s2) \<Rightarrow> (Inl e, reinsert s2)
                | (Inr checkpoint, s2) \<Rightarrow>
                    (case StoreRecoveryCheckpoint (st_persistent s2) (st_sidecars s2) checkpoint of
                       Inl e \<Rightarrow> (Inl e, reinsert s2)
                     | Inr side \<Rightarrow>
                         (Inr (), s2\<lparr>st_sidecars := side, st_overlay := ov_DiscardDrained (st_overlay s2),
                                     st_safeSeq := st_flushSeq s,
                                     st_flushMutations := st_flushMutations s2 - st_flushMutations s\<rparr>)))"

subsection \<open>Requests\<close>

definition lookup :: "Store \<Rightarrow> u64 \<Rightarrow> u64 \<Rightarrow> StorageError + Value" where
  "lookup s extentID generation =
     (case ov_Get (st_overlay s) (indexKey extentID generation) of
        Some v \<Rightarrow> Inr v
      | None \<Rightarrow> index_Get (st_index s) extentID generation)"

definition cachedLookup :: "Store \<Rightarrow> u64 \<Rightarrow> u64 \<Rightarrow> (StorageError + Value) \<times> Store" where
  "cachedLookup s extentID generation =
     (let key = indexKey extentID generation in
      case lc_Get (st_locCache s) key of
        (Some v, c) \<Rightarrow> (Inr v, s\<lparr>st_locCache := c\<rparr>)
      | (None, c) \<Rightarrow>
          (case lookup s extentID generation of
             Inl e \<Rightarrow> (Inl e, s)
           | Inr v \<Rightarrow> (Inr v, s\<lparr>st_locCache := lc_Put c key v\<rparr>)))"

definition emitChangeEvent :: "Store \<Rightarrow> storeEvent \<Rightarrow> Store" where
  "emitChangeEvent s ev = s\<lparr>st_changeJournal := map_option (\<lambda>evs. evs @ [ev]) (st_changeJournal s)\<rparr>"

text \<open>The key new records are sealed with.\<close>

definition storeKey ::
  "frameCodec \<Rightarrow> u8 list option \<Rightarrow> u8 list option \<Rightarrow> Store \<Rightarrow> (StorageError + u64 \<times> u8 list option) \<times> Store" where
  "storeKey z rnd nonce s =
     (case st_enc s of
        None \<Rightarrow> (Inr (0, None), s)
      | Some reg \<Rightarrow>
          if Enabled reg then (case ActiveKey (fc_aead z) rnd nonce reg of (k, reg') \<Rightarrow> (k, s\<lparr>st_enc := Some reg'\<rparr>))
          else (Inr (0, None), s))"

record WriteRequest =
  wr_ExtentID :: u64
  wr_Generation :: u64
  wr_Data :: "u8 list"

record DurableReceipt =
  re_ExtentID :: u64
  re_Generation :: u64
  re_SegmentID :: u64
  re_Offset :: int
  re_StoredLen :: u32
  re_LogicalLen :: u32
  re_Seq :: u64

definition receiptFor :: "Store \<Rightarrow> WriteRequest \<Rightarrow> Value \<Rightarrow> DurableReceipt" where
  "receiptFor s req v =
     \<lparr>re_ExtentID = wr_ExtentID req, re_Generation = wr_Generation req, re_SegmentID = va_SegmentID v,
      re_Offset = sint (va_Offset v), re_StoredLen = va_StoredLen v, re_LogicalLen = va_LogicalLen v, re_Seq = st_streamSeq s\<rparr>"

text \<open>A request is answered at once or has a record to commit.\<close>

datatype 'a prepared = Answered "StorageError + 'a" | Submitted pendingWrite

definition writePrepare ::
  "frameCodec \<Rightarrow> u8 list option \<Rightarrow> u8 list option \<Rightarrow> (nat \<Rightarrow> u8 list option) \<Rightarrow> Store \<Rightarrow> WriteRequest
     \<Rightarrow> DurableReceipt prepared \<times> Store" where
  "writePrepare z rnd nonce nonces s req =
     (if st_closing s then (Answered (Inl ErrStoreClosed), s)
      else case lookup s (wr_ExtentID req) (wr_Generation req) of
        Inr v \<Rightarrow>
          (Answered (if va_Checksum v = checksumOf (wr_Data req) then Inr (receiptFor s req v) else Inl ErrStaleGeneration), s)
      | Inl e \<Rightarrow>
          if e \<noteq> ErrExtentNotFound then (Answered (Inl e), s)
          else case st_faults s CrashBeforeBatchAppend of
                 Some e \<Rightarrow> (Answered (Inl e), s)
               | None \<Rightarrow>
                   (case storeKey z rnd nonce s of
                      (Inl e, s1) \<Rightarrow> (Answered (Inl e), s1)
                    | (Inr key, s1) \<Rightarrow>
                        (case putMaterial z nonces key (wr_ExtentID req) (wr_Generation req) (wr_Data req) of
                           Inl e \<Rightarrow> (Answered (Inl e), s1)
                         | Inr (header, idxBuf, stored) \<Rightarrow>
                             (case st_faults s1 CrashAfterFrameIndex of
                                Some e \<Rightarrow> (Answered (Inl e), s1)
                              | None \<Rightarrow>
                                  (Submitted
                                     \<lparr>pw_extentID = wr_ExtentID req, pw_generation = wr_Generation req, pw_header = header,
                                      pw_idxBuf = idxBuf, pw_stored = stored, pw_storedLen = of_nat (length stored),
                                      pw_logicalLen = of_nat (length (wr_Data req)), pw_payloadCRC = checksumOf (wr_Data req),
                                      pw_publishedValue = None, pw_segID = 0, pw_offset = 0, pw_streamSeq = 0\<rparr>, s1)))))"

text \<open>The pending write \<open>pw\<close> carries what the batch assigned to it.\<close>

definition writeFinish :: "Store \<Rightarrow> pendingWrite \<Rightarrow> DurableReceipt \<times> Store" where
  "writeFinish s pw =
     (\<lparr>re_ExtentID = pw_extentID pw, re_Generation = pw_generation pw, re_SegmentID = pw_segID pw,
       re_Offset = int (pw_offset pw), re_StoredLen = pw_storedLen pw, re_LogicalLen = pw_logicalLen pw,
       re_Seq = pw_streamSeq pw\<rparr>,
      snd (enqueueApply s
             [\<lparr>mu_ExtentID = pw_extentID pw, mu_Generation = pw_generation pw,
               mu_Value = \<lparr>va_SegmentID = pw_segID pw, va_Offset = of_nat (pw_offset pw), va_StoredLen = pw_storedLen pw,
                           va_LogicalLen = pw_logicalLen pw, va_State = ExtentDurable, va_Checksum = pw_payloadCRC pw\<rparr>\<rparr>]))"

text \<open>A write that is alone in its batch.\<close>

definition Write ::
  "frameCodec \<Rightarrow> u64 \<Rightarrow> u8 list option \<Rightarrow> u8 list option \<Rightarrow> (nat \<Rightarrow> u8 list option) \<Rightarrow> Store \<Rightarrow> WriteRequest
     \<Rightarrow> (StorageError + DurableReceipt) \<times> Store" where
  "Write z now rnd nonce nonces s req =
     (case writePrepare z rnd nonce nonces s req of
        (Answered r, s1) \<Rightarrow> (r, s1)
      | (Submitted pw, s1) \<Rightarrow>
          (case commitBatch now s1 [pw] of
             (Inl e, s2) \<Rightarrow> (Inl e, s2)
           | (Inr batch, s2) \<Rightarrow> (case writeFinish s2 (hd batch) of (receipt, s3) \<Rightarrow> (Inr receipt, s3))))"

record ReadRequest =
  rq_ExtentID :: u64
  rq_Generation :: u64
  rq_LogicalOffset :: int
  rq_Length :: int

definition Read :: "frameCodec \<Rightarrow> Store \<Rightarrow> ReadRequest \<Rightarrow> (StorageError + u8 list \<times> u32) \<times> Store" where
  "Read z s req =
     (if st_closing s then (Inl ErrStoreClosed, s)
      else case cachedLookup s (rq_ExtentID req) (rq_Generation req) of
        (Inl e, s1) \<Rightarrow> (Inl e, s1)
      | (Inr v, s1) \<Rightarrow>
          if va_State v = ExtentTombstoned then (Inl ErrExtentNotFound, s1)
          else if va_State v = ExtentCorrupt then (Inl ErrQuarantined, s1)
          else case dc_Get (st_files s1) (st_segCache s1) (va_SegmentID v) (st_enc s1) of
                 (Inl _, c) \<Rightarrow> (Inl ErrSegmentUnavailable, s1\<lparr>st_segCache := c\<rparr>)
               | (Inr rd, c) \<Rightarrow>
                   (case (if 0 < rq_Length req
                          then ReadRangeFrames z rd (nat (sint (va_Offset v))) (va_StoredLen v) (va_LogicalLen v)
                                 (rq_LogicalOffset req) (rq_Length req)
                          else ReadPayloadFrames z rd (nat (sint (va_Offset v))) (va_StoredLen v) (va_LogicalLen v)) of
                      (r, rd') \<Rightarrow>
                        let s2 = s1\<lparr>st_segCache := dc_Store c (va_SegmentID v) rd', st_enc := rd_enc rd'\<rparr> in
                        (case r of
                           Inl e \<Rightarrow>
                             (Inl e,
                              if e = ErrChecksumMismatch \<or> e = ErrDecryptFailed
                              then emitChangeEvent s2 (EventCorrupt (rq_ExtentID req) (rq_Generation req) (va_SegmentID v))
                              else s2)
                         | Inr payload \<Rightarrow> (Inr (payload, va_Checksum v), s2))))"

definition deletePrepare :: "Store \<Rightarrow> u64 \<Rightarrow> u64 \<Rightarrow> unit prepared \<times> Store" where
  "deletePrepare s extentID generation =
     (if st_closing s then (Answered (Inl ErrStoreClosed), s)
      else case lookup s extentID generation of
        Inl e \<Rightarrow> (Answered (if e = ErrExtentNotFound then Inr () else Inl e), s)
      | Inr v \<Rightarrow>
          (Submitted
             \<lparr>pw_extentID = extentID, pw_generation = generation,
              pw_header = \<lparr>rh_Magic = RecordMagic, rh_Version = FormatVersion, rh_Op = RecordDelete, rh_ExtentID = extentID,
                           rh_Generation = generation, rh_LogicalLen = 0, rh_StoredLen = 0, rh_Codec = 0, rh_KeyID = 0,
                           rh_FrameSize = 0, rh_FrameCount = 0, rh_PayloadChecksum = 0, rh_FrameIndexCRC = CRC32C []\<rparr>,
              pw_idxBuf = [], pw_stored = [], pw_storedLen = 0, pw_logicalLen = 0, pw_payloadCRC = 0,
              pw_publishedValue = Some (v\<lparr>va_State := ExtentTombstoned\<rparr>), pw_segID = 0, pw_offset = 0, pw_streamSeq = 0\<rparr>, s))"

definition deleteFinish :: "Store \<Rightarrow> pendingWrite \<Rightarrow> (StorageError + unit) \<times> Store" where
  "deleteFinish s pw =
     (let key = indexKey (pw_extentID pw) (pw_generation pw);
          s1 = s\<lparr>st_locCache := lc_Put (st_locCache s) key (publishedOf pw)\<rparr>
      in case enqueueApply s1
                [\<lparr>mu_ExtentID = pw_extentID pw, mu_Generation = pw_generation pw, mu_Value = publishedOf pw\<rparr>] of
           (Some e, s2) \<Rightarrow> (Inl e, s2)
         | (None, s2) \<Rightarrow> (Inr (), s2))"

definition Delete :: "u64 \<Rightarrow> Store \<Rightarrow> u64 \<Rightarrow> u64 \<Rightarrow> (StorageError + unit) \<times> Store" where
  "Delete now s extentID generation =
     (case deletePrepare s extentID generation of
        (Answered r, s1) \<Rightarrow> (r, s1)
      | (Submitted pw, s1) \<Rightarrow>
          (case commitBatch now s1 [pw] of
             (Inl e, s2) \<Rightarrow> (Inl e, s2)
           | (Inr batch, s2) \<Rightarrow> deleteFinish s2 (hd batch)))"

definition Stat :: "Store \<Rightarrow> u64 \<Rightarrow> u64 \<Rightarrow> StorageError + Value" where
  "Stat s extentID generation = (if st_closing s then Inl ErrStoreClosed else lookup s extentID generation)"

definition SealedSegments :: "Store \<Rightarrow> u64 list" where
  "SealedSegments s = sort (map fst (filter (\<lambda>e. hasEncodedSegmentFooter (snd e)) (st_files s)))"

type_synonym LiveExtent = "u64 \<times> u64 \<times> Value"

definition mergeExtent :: "(u64 \<times> u64 \<times> Value) list \<Rightarrow> LiveExtent \<Rightarrow> (u64 \<times> u64 \<times> Value) list" where
  "mergeExtent merged e =
     (case map_of merged (fst e) of
        None \<Rightarrow> AList.update (fst e) (snd e) merged
      | Some cur \<Rightarrow> if fst cur < fst (snd e) then AList.update (fst e) (snd e) merged else merged)"

definition ListExtents :: "Store \<Rightarrow> StorageError + LiveExtent list" where
  "ListExtents s =
     (if st_closing s then Inl ErrStoreClosed
      else let fromOverlay = map (\<lambda>(k, v). (ExtentFromKey k, GenerationFromKey k, v))
                               (filter (\<lambda>e. KeyLen \<le> length (fst e)) (ov_Snapshot (st_overlay s)))
           in case index_Iterate (st_index s) of
                Inl e \<Rightarrow> Inl e
              | Inr fromIndex \<Rightarrow>
                  Inr (filter (\<lambda>e. va_State (snd (snd e)) \<noteq> ExtentTombstoned)
                         (foldl mergeExtent [] (fromOverlay @ fromIndex))))"

end
