(* ===== verification/Segment_Lifecycle.thy ===== *)
theory Segment_Lifecycle
  imports Segment_Store
begin

text \<open>
  Opening and closing a store (\<open>New\<close>, \<open>Close\<close> and the startup recovery of \<open>segment/store.go\<close>, the small
  file stream of \<open>small_store.go\<close>) and compaction: the scan of \<open>segment/scan.go\<close>, \<open>AppendRecord\<close> and
  \<open>Relocate\<close> of the store, and \<open>maintenance/compactor.go\<close>, \<open>scheduler.go\<close>, \<open>compaction_worker.go\<close>. What is
  on disk is the files of the segments, the rows of the index and the side files. The answers of the
  clock to the deadline checks of startup are arguments.
\<close>

section \<open>Opening\<close>

definition maxSegmentID :: "(u64 \<times> u8 list) list \<Rightarrow> u64" where
  "maxSegmentID files = foldl max 0 (map fst files)"

text \<open>The callback of recovery: it replays one committed descriptor into the overlay.\<close>

definition replayDescriptor :: "CommitDescriptor \<Rightarrow> Overlay \<Rightarrow> StorageError + Overlay" where
  "replayDescriptor d ov =
     (if cd_Op d = RecordRelocate then Inr ov
      else if cd_Op d = RecordPut \<or> cd_Op d = RecordDelete
      then Inr (ov_Put ov (indexKey (cd_ExtentID d) (cd_Generation d))
             \<lparr>va_SegmentID = cd_SegmentID d, va_Offset = of_nat (cd_Offset d), va_StoredLen = cd_StoredLen d,
              va_LogicalLen = cd_LogicalLen d,
              va_State = (if cd_Op d = RecordDelete then ExtentTombstoned else ExtentDurable),
              va_Checksum = cd_Checksum d\<rparr>)
      else Inl ErrUnsupportedRecordOperation)"

record startupClock =
  sc_scan :: "nat \<Rightarrow> bool"
  sc_empty :: bool
  sc_beforePersist :: bool
  sc_afterPersist :: bool
  sc_finish :: bool

definition recoveryOptions :: "Store \<Rightarrow> RecoveryCheckpoint option \<Rightarrow> u64 \<Rightarrow> RecoverOptions" where
  "recoveryOptions s checkpoint path =
     (let (safeOffset, safeSeq) =
            (case checkpoint of
               Some c \<Rightarrow> if ck_SegmentID c = path then (ck_SafeOffset c, ck_SafeSeq c) else (int SegmentHeaderSize, 0)
             | None \<Rightarrow> (int SegmentHeaderSize, 0))
      in \<lparr>ro_StreamID = st_streamID s, ro_SafeOffset = safeOffset, ro_SafeSeq = safeSeq,
          ro_RequireSafeMarker = (int SegmentHeaderSize < safeOffset), ro_MaxRecords = MaxRecoveryRecords,
          ro_MaxReplayBytes = int MaxRecoveryReplayBytes, ro_MaxTrailingBytes = int MaxRecoveryTrailingBytes\<rparr>)"

definition recoverActiveSegment ::
  "startupClock \<Rightarrow> Store \<Rightarrow> RecoveryCheckpoint option \<Rightarrow> u64 \<Rightarrow> (StorageError + unit) \<times> Store" where
  "recoverActiveSegment clock s checkpoint path =
     (case map_of (st_files s) path of
        None \<Rightarrow> (if sc_empty clock then Inl ErrRecoveryBudgetExceeded else Inr (), s)
      | Some f \<Rightarrow>
          (case RecoverFromSegmentLog (sc_scan clock) replayDescriptor path (recoveryOptions s checkpoint path) f (st_overlay s) of
             (ov, res, err, f') \<Rightarrow>
               let s1 = s\<lparr>st_overlay := ov, st_files := AList.update path f' (st_files s),
                          st_recoveryResult := (case res of None \<Rightarrow> st_recoveryResult s | Some _ \<Rightarrow> res)\<rparr>
               in (case err of
                     Some e \<Rightarrow> (Inl e, s1)
                   | None \<Rightarrow>
                       (case res of
                          None \<Rightarrow> (Inl (ErrPanic ''nil pointer dereference''), s1)
                        | Some r \<Rightarrow>
                            (Inr (),
                             s1\<lparr>st_safeSeq := (if 0 < rr_SafeSeq r then rr_SafeSeq r else st_safeSeq s1),
                                st_streamSeq := (if st_streamSeq s1 < rr_LastSeq r then rr_LastSeq r else st_streamSeq s1),
                                st_publishedSeq := (if 0 < rr_LastSeq r then rr_LastSeq r else st_publishedSeq s1),
                                st_flushSeq := (if 0 < rr_LastSeq r then rr_LastSeq r else st_flushSeq s1)\<rparr>)))))"

definition checkRecoveryDeadline :: "bool \<Rightarrow> Store \<Rightarrow> (StorageError + unit) \<times> Store" where
  "checkRecoveryDeadline late s =
     (if late
      then (Inl ErrRecoveryBudgetExceeded,
            s\<lparr>st_recoveryResult := map_option (\<lambda>r. r\<lparr>rr_DataReady := False\<rparr>) (st_recoveryResult s)\<rparr>)
      else (Inr (), s))"

definition persistRecoveredOverlay ::
  "startupClock \<Rightarrow> u64 \<Rightarrow> Store \<Rightarrow> u64 \<Rightarrow> u8 \<Rightarrow> nat \<Rightarrow> (StorageError + unit) \<times> Store" where
  "persistRecoveredOverlay clock now s path class segSize =
     (if ov_Len (st_overlay s) = 0 then checkRecoveryDeadline (sc_afterPersist clock) s
      else case checkRecoveryDeadline (sc_beforePersist clock) s of
        (Inl e, s1) \<Rightarrow> (Inl e, s1)
      | (Inr _, s1) \<Rightarrow>
          (case map_of (st_files s1) path of
             None \<Rightarrow> (Inl ErrSegmentUnavailable, s1)
           | Some f \<Rightarrow>
               if length f < SegmentHeaderSize then (Inl (ErrFormat ''recovered segment shorter than header''), s1)
               else let a = RecordCommit (Consume (NewAllocator path class segSize now) (length f - SegmentHeaderSize))
                              (st_streamSeq s1)
                    in case flush (s1\<lparr>st_writer := Some path, st_alloc := a\<rparr>) of
                         (Inl e, s2) \<Rightarrow> (Inl e, s2\<lparr>st_writer := None\<rparr>)
                       | (Inr _, s2) \<Rightarrow>
                           (case checkRecoveryDeadline (sc_afterPersist clock) s2 of
                              (r, s3) \<Rightarrow> (r, s3\<lparr>st_writer := None\<rparr>))))"

definition finishRecoveryStartup :: "startupClock \<Rightarrow> Store \<Rightarrow> (StorageError + unit) \<times> Store" where
  "finishRecoveryStartup clock s =
     (case checkRecoveryDeadline (sc_finish clock) s of
        (Inl e, s1) \<Rightarrow> (Inl e, s1)
      | (Inr _, s1) \<Rightarrow>
          (Inr (), s1\<lparr>st_dataReady := True,
                      st_recoveryResult := map_option (\<lambda>r. r\<lparr>rr_DataReady := True\<rparr>) (st_recoveryResult s1)\<rparr>))"

record Config =
  cf_SegmentSize :: int
  cf_persistent :: bool
  cf_Faults :: "CrashPoint \<Rightarrow> StorageError option"
  cf_StreamID :: u8
  cf_Enc :: "KeyRegistry option"
  cf_LocationCacheSize :: nat
  cf_SegCacheSize :: nat
  cf_ChangeJournal :: "storeEvent list option"

record Disk =
  dk_files :: "(u64 \<times> u8 list) list"
  dk_index :: Index
  dk_sidecars :: "(u8 \<times> u8 list) list"

definition diskOf :: "Store \<Rightarrow> Disk" where
  "diskOf s = \<lparr>dk_files = st_files s, dk_index = st_index s, dk_sidecars = st_sidecars s\<rparr>"

definition segmentSizeOf :: "Config \<Rightarrow> nat" where
  "segmentSizeOf cfg = (if cf_SegmentSize cfg \<le> 0 then DefaultDataSegmentSize else nat (cf_SegmentSize cfg))"

text \<open>The store before recovery. There is no allocator yet; the model has one without a segment in its place.\<close>

definition emptyStore :: "Config \<Rightarrow> Disk \<Rightarrow> Store" where
  "emptyStore cfg disk =
     \<lparr>st_alloc = NewAllocator 0 0 0 0, st_writer = None, st_files = dk_files disk, st_index = dk_index disk,
      st_persistent = cf_persistent cfg, st_sidecars = dk_sidecars disk, st_overlay = NewOverlay,
      st_streamID = cf_StreamID cfg, st_streamSeq = 0, st_dataReady = False, st_nextSeg = 0,
      st_segmentSize = segmentSizeOf cfg, st_applyCh = [], st_syncCalls = 0, st_flushSeq = 0, st_flushMutations = 0,
      st_publishedSeq = 0, st_readyBatches = [], st_safeSeq = 0, st_enc = cf_Enc cfg,
      st_locCache = NewLocationCache (cf_LocationCacheSize cfg), st_segCache = NewSegmentDescriptorCache (cf_SegCacheSize cfg),
      st_changeJournal = cf_ChangeJournal cfg, st_recoveryResult = None, st_closing = False, st_faults = cf_Faults cfg\<rparr>"

definition New :: "startupClock \<Rightarrow> u64 \<Rightarrow> Config \<Rightarrow> Disk \<Rightarrow> (StorageError + unit) \<times> Store" where
  "New clock now cfg disk =
     (let s = emptyStore cfg disk;
          activePath = maxSegmentID (st_files s);
          class = classForStream (cf_StreamID cfg)
      in case LoadRecoveryCheckpoint (cf_persistent cfg) (dk_sidecars disk) (cf_StreamID cfg) of
           Inl e \<Rightarrow> (Inl e, s)
         | Inr checkpoint \<Rightarrow>
             (case recoverActiveSegment clock s checkpoint activePath of
                (Inl e, s1) \<Rightarrow> (Inl e, s1)
              | (Inr _, s1) \<Rightarrow>
                  (case persistRecoveredOverlay clock now s1 activePath class (segmentSizeOf cfg) of
                     (Inl e, s2) \<Rightarrow> (Inl e, s2)
                   | (Inr _, s2) \<Rightarrow>
                       finishRecoveryStartup clock
                         (newActiveSegment now (s2\<lparr>st_nextSeg := maxSegmentID (st_files s2)\<rparr>) class (segmentSizeOf cfg)))))"

definition DefaultSmallSegmentSize :: nat where
  "DefaultSmallSegmentSize = 1073741824"

definition NewSmallStore :: "startupClock \<Rightarrow> u64 \<Rightarrow> Config \<Rightarrow> Disk \<Rightarrow> (StorageError + unit) \<times> Store" where
  "NewSmallStore clock now cfg disk =
     New clock now
       (cfg\<lparr>cf_SegmentSize := (if cf_SegmentSize cfg = 0 then int DefaultSmallSegmentSize else cf_SegmentSize cfg),
            cf_StreamID := 0\<rparr>) disk"

definition WriteSmallFile ::
  "frameCodec \<Rightarrow> u64 \<Rightarrow> u8 list option \<Rightarrow> u8 list option \<Rightarrow> (nat \<Rightarrow> u8 list option) \<Rightarrow> Store \<Rightarrow> WriteRequest
     \<Rightarrow> (StorageError + DurableReceipt) \<times> Store" where
  "WriteSmallFile z now rnd nonce nonces s req =
     (if SmallFileThreshold < length (wr_Data req) then (Inl ErrCapacity, s) else Write z now rnd nonce nonces s req)"

section \<open>Closing\<close>

text \<open>
  \<open>closeInternal\<close>. The flush loop flushes a last time while the apply loop empties its queue; \<open>early\<close> is
  the number of queued mutations that are applied before that flush.
\<close>

definition closeInternal :: "nat \<Rightarrow> Store \<Rightarrow> Store" where
  "closeInternal early s =
     (let s1 = (applyStep ^^ early) (s\<lparr>st_closing := True\<rparr>);
          s2 = snd (flush s1);
          s3 = (applyStep ^^ length (st_applyCh s2)) s2
      in case ov_Drain (st_overlay s3) of (muts, ov) \<Rightarrow>
           let s4 = (if muts = [] then s3\<lparr>st_overlay := ov\<rparr>
                     else (applyNow s3 muts)\<lparr>st_overlay := ov_DiscardDrained ov\<rparr>)
           in s4\<lparr>st_writer := None, st_segCache := dc_Close (st_segCache s4)\<rparr>)"

section \<open>Compaction\<close>

record ScannedRecord =
  sr_ExtentID :: u64
  sr_Generation :: u64
  sr_Offset :: nat
  sr_StoredLen :: u32
  sr_LogicalLen :: u32
  sr_Codec :: u8
  sr_StoredBytes :: "u8 list"

text \<open>The walk over a segment; every entry takes at least one byte, so the length of the file is enough fuel.\<close>

fun scanFrom :: "nat \<Rightarrow> u8 list \<Rightarrow> nat \<Rightarrow> ScannedRecord list" where
  "scanFrom 0 f off = []"
| "scanFrom (Suc fuel) f off =
     (if length f < off + RecordHeaderSize then []
      else let magic = getUint32 (slice off (off + 4) f) in
           if magic = BatchCommitMagic then scanFrom fuel f (off + BatchCommitSize)
           else if magic \<noteq> RecordMagic then []
           else case decodeHeader (slice off (off + RecordHeaderSize) f) of
                  Inl _ \<Rightarrow> []
                | Inr h \<Rightarrow>
                    let indexBytes = unat (rh_FrameCount h) * FrameIndexEntrySize;
                        totalStored = unat (rh_StoredLen h);
                        framing = RecordHeaderSize + indexBytes + totalStored + RecordTrailerSize;
                        firstFrame = off + RecordHeaderSize + indexBytes
                    in if length f < off + framing then []
                       else (if 0 < unat (rh_FrameCount h)
                             then [\<lparr>sr_ExtentID = rh_ExtentID h, sr_Generation = rh_Generation h, sr_Offset = off,
                                    sr_StoredLen = rh_StoredLen h, sr_LogicalLen = rh_LogicalLen h, sr_Codec = rh_Codec h,
                                    sr_StoredBytes = slice firstFrame (firstFrame + totalStored) f\<rparr>]
                             else [])
                            @ scanFrom fuel f (off + framing))"

definition ScanSegmentRecords :: "u8 list \<Rightarrow> ScannedRecord list" where
  "ScanSegmentRecords f = scanFrom (length f) f SegmentHeaderSize"

record Reloc =
  rc_ExtentID :: u64
  rc_Generation :: u64
  rc_SegmentID :: u64
  rc_Offset :: u64
  rc_StoredLen :: u32
  rc_LogicalLen :: u32
  rc_Checksum :: u32

definition relocValue :: "Reloc \<Rightarrow> Value" where
  "relocValue r =
     \<lparr>va_SegmentID = rc_SegmentID r, va_Offset = rc_Offset r, va_StoredLen = rc_StoredLen r,
      va_LogicalLen = rc_LogicalLen r, va_State = ExtentDurable, va_Checksum = rc_Checksum r\<rparr>"

text \<open>The reservation of one record, after sealing a full segment if need be.\<close>

definition reserveOne :: "u64 \<Rightarrow> Store \<Rightarrow> u32 \<Rightarrow> u64 \<Rightarrow> u32 \<Rightarrow> (StorageError + nat) \<times> Store" where
  "reserveOne now s framing extentID storedLen =
     (case Reserve (st_alloc s) framing extentID storedLen of
        (Inr off, a) \<Rightarrow> (Inr off, s\<lparr>st_alloc := a\<rparr>)
      | (Inl e, a) \<Rightarrow>
          if e = ErrSegmentFull
          then (case sealActiveLocked now s of
                  (Inl e, s1) \<Rightarrow> (Inl e, s1)
                | (Inr _, s1) \<Rightarrow> (case Reserve (st_alloc s1) framing extentID storedLen of (r, a) \<Rightarrow> (r, s1\<lparr>st_alloc := a\<rparr>)))
          else (Inl e, s\<lparr>st_alloc := a\<rparr>))"

text \<open>What \<open>AppendRecord\<close> does once its record is written and synced.\<close>

definition publishAppended :: "Store \<Rightarrow> u64 \<Rightarrow> Reloc \<Rightarrow> Store" where
  "publishAppended s streamSeq r =
     (let key = indexKey (rc_ExtentID r) (rc_Generation r);
          s1 = s\<lparr>st_overlay := ov_Put (st_overlay s) key (relocValue r)\<rparr>;
          s2 = snd (publishRecoveryBatch
                      \<lparr>rb_previousSeq = streamSeq, rb_seq = streamSeq + 1, rb_remaining = 1, rb_mutations = 1\<rparr> s1);
          s3 = snd (enqueueApply s2
                      [\<lparr>mu_ExtentID = rc_ExtentID r, mu_Generation = rc_Generation r, mu_Value = relocValue r\<rparr>])
      in s3\<lparr>st_alloc := RecordCommit (st_alloc s3) (streamSeq + 1)\<rparr>)"

definition writeAppended ::
  "Store \<Rightarrow> u64 \<Rightarrow> nat \<Rightarrow> u32 \<Rightarrow> RecordHeader \<Rightarrow> u8 list \<Rightarrow> u8 list \<Rightarrow> (StorageError + Reloc) \<times> Store" where
  "writeAppended s streamSeq off framing header idxBuf stored =
     (case WriteRecordFramed (activeFile s) off header idxBuf stored of
        Inl e \<Rightarrow> (Inl e, s)
      | Inr f \<Rightarrow>
          let segID = al_segmentID (st_alloc s);
              commitOffset = off + unat framing;
              d = \<lparr>cd_ExtentID = rh_ExtentID header, cd_Generation = rh_Generation header, cd_SegmentID = segID,
                   cd_Offset = off, cd_StoredLen = rh_StoredLen header, cd_LogicalLen = rh_LogicalLen header,
                   cd_Checksum = rh_PayloadChecksum header, cd_Op = RecordPut\<rparr>;
              bc = \<lparr>bc_Magic = BatchCommitMagic, bc_Version = FormatVersion, bc_StreamID = st_streamID s,
                    bc_Seq = streamSeq + 1, bc_RecordCount = 1, bc_FirstOffset = of_nat off,
                    bc_LastOffset = of_nat commitOffset, bc_DescriptorsCRC = snd (EncodeDescriptors [d])\<rparr>;
              r = \<lparr>rc_ExtentID = rh_ExtentID header, rc_Generation = rh_Generation header, rc_SegmentID = segID,
                   rc_Offset = of_nat off, rc_StoredLen = rh_StoredLen header, rc_LogicalLen = rh_LogicalLen header,
                   rc_Checksum = rh_PayloadChecksum header\<rparr>
          in (Inr r, publishAppended (setActive s (WriteBatchCommit f commitOffset bc)) streamSeq r))"

definition AppendRecord ::
  "frameCodec \<Rightarrow> u64 \<Rightarrow> u8 list option \<Rightarrow> u8 list option \<Rightarrow> (nat \<Rightarrow> u8 list option) \<Rightarrow> Store \<Rightarrow> u64 \<Rightarrow> u64 \<Rightarrow> u8 list
     \<Rightarrow> u8 \<Rightarrow> (StorageError + Reloc) \<times> Store" where
  "AppendRecord z now rnd nonce nonces s0 extentID gen data codec =
     (if st_closing s0 then (Inl ErrStoreClosed, s0)
      else case storeKey z rnd nonce s0 of
        (Inl e, s) \<Rightarrow> (Inl e, s)
      | (Inr key, s) \<Rightarrow>
          (case BuildFramedRecord z nonces data DefaultFrameSize (codec = CompressionZstd) (snd key) of
             Inl e \<Rightarrow> (Inl e, s)
           | Inr (stored, es, _) \<Rightarrow>
               let storedLen = of_nat (length stored);
                   framing = of_nat RecordHeaderSize + of_nat (length es * FrameIndexEntrySize) + storedLen
                             + of_nat RecordTrailerSize
               in case reserveOne now s framing extentID storedLen of
                    (Inl e, s1) \<Rightarrow> (Inl e, s1)
                  | (Inr off, s1) \<Rightarrow>
                      (case ReserveCommit (st_alloc s1) BatchCommitSize of
                         (Inl e, a) \<Rightarrow> (Inl e, s1\<lparr>st_alloc := a\<rparr>)
                       | (Inr _, a) \<Rightarrow>
                           (case encodeFrameIndex es of (idxBuf, crc) \<Rightarrow>
                              writeAppended (s1\<lparr>st_alloc := a, st_streamSeq := st_streamSeq s1 + 1\<rparr>) (st_streamSeq s1) off framing
                                \<lparr>rh_Magic = RecordMagic, rh_Version = FormatVersion, rh_Op = RecordPut,
                                 rh_ExtentID = extentID, rh_Generation = gen, rh_LogicalLen = of_nat (length data),
                                 rh_StoredLen = storedLen, rh_Codec = codec, rh_KeyID = fst key,
                                 rh_FrameSize = of_nat DefaultFrameSize, rh_FrameCount = of_nat (length es),
                                 rh_PayloadChecksum = checksumOf data, rh_FrameIndexCRC = crc\<rparr> idxBuf stored))))"

definition relocateOne :: "Store \<Rightarrow> Reloc \<Rightarrow> Store" where
  "relocateOne s r =
     (let key = indexKey (rc_ExtentID r) (rc_Generation r);
          s1 = s\<lparr>st_overlay := ov_Put (st_overlay s) key (relocValue r), st_locCache := lc_Delete (st_locCache s) key\<rparr>;
          moved = emitChangeEvent s1 (EventRelocated (rc_ExtentID r) (rc_Generation r) (rc_SegmentID r))
      in case ov_Get (st_overlay s) key of
           Some v \<Rightarrow> if va_State v = ExtentTombstoned then s else moved
         | None \<Rightarrow> moved)"

definition Relocate :: "Store \<Rightarrow> Reloc list \<Rightarrow> (StorageError + unit) \<times> Store" where
  "Relocate s relocs =
     (if st_closing s then (Inl ErrStoreClosed, s) else (Inr (), foldl relocateOne s relocs))"

text \<open>
  \<open>Compact\<close>: the live records are appended to the active segment one after the other, then relocated.
  The count of copied records is returned also when it stops with an error. \<open>rand i\<close> is what the random
  source yields for the \<open>i\<close>-th record: a key, a nonce for wrapping it, and the nonces of its frames.
\<close>

type_synonym randomness = "nat \<Rightarrow> u8 list option \<times> u8 list option \<times> (nat \<Rightarrow> u8 list option)"

definition latestGenerations :: "Store \<Rightarrow> (u64 \<times> u64) list" where
  "latestGenerations s = (case ListExtents s of Inl _ \<Rightarrow> [] | Inr es \<Rightarrow> map (\<lambda>e. (fst e, fst (snd e))) es)"

definition isLive :: "Store \<Rightarrow> u64 \<Rightarrow> u64 \<Rightarrow> u64 \<Rightarrow> bool" where
  "isLive s srcID ext gen =
     (case Stat s ext gen of
        Inl _ \<Rightarrow> False
      | Inr v \<Rightarrow> va_State v \<noteq> ExtentTombstoned \<and> va_State v \<noteq> ExtentCorrupt \<and> va_SegmentID v = srcID)"

definition liveRecord :: "(u64 \<times> u64) list \<Rightarrow> u64 \<Rightarrow> Store \<Rightarrow> ScannedRecord \<Rightarrow> bool" where
  "liveRecord latest srcID s rec \<longleftrightarrow>
     map_of latest (sr_ExtentID rec) = Some (sr_Generation rec) \<and> isLive s srcID (sr_ExtentID rec) (sr_Generation rec)"

fun copyLive ::
  "frameCodec \<Rightarrow> u64 \<Rightarrow> randomness \<Rightarrow> (Store \<Rightarrow> ScannedRecord \<Rightarrow> bool) \<Rightarrow> nat \<Rightarrow> Store \<Rightarrow> ScannedRecord list \<Rightarrow> Reloc list
     \<Rightarrow> StorageError option \<times> Reloc list \<times> Store" where
  "copyLive z now rand live i s [] relocs = (None, relocs, s)"
| "copyLive z now rand live i s (rec # recs) relocs =
     (if \<not> live s rec then copyLive z now rand live (Suc i) s recs relocs
      else case rand i of (rnd, nonce, nonces) \<Rightarrow>
        (case AppendRecord z now rnd nonce nonces s (sr_ExtentID rec) (sr_Generation rec) (sr_StoredBytes rec) (sr_Codec rec) of
           (Inl e, s1) \<Rightarrow> (Some e, relocs, s1)
         | (Inr loc, s1) \<Rightarrow> copyLive z now rand live (Suc i) s1 recs (relocs @ [loc])))"

definition Compact ::
  "frameCodec \<Rightarrow> u64 \<Rightarrow> randomness \<Rightarrow> (Store \<Rightarrow> ScannedRecord \<Rightarrow> bool) \<Rightarrow> Store \<Rightarrow> ScannedRecord list
     \<Rightarrow> StorageError option \<times> nat \<times> Store" where
  "Compact z now rand live s records =
     (case copyLive z now rand live 0 s records [] of
        (Some e, relocs, s1) \<Rightarrow> (Some e, length relocs, s1)
      | (None, relocs, s1) \<Rightarrow>
          if relocs = [] then (None, 0, s1)
          else (case Relocate s1 relocs of
                  (Inl e, s2) \<Rightarrow> (Some e, length relocs, s2)
                | (Inr _, s2) \<Rightarrow> (None, length relocs, s2)))"

record CompactionCandidate =
  cc_SegmentID :: u64
  cc_RecordCount :: nat
  cc_DeadBytes :: nat
  cc_LiveBytes :: nat
  cc_DeadRecordRatio :: rat
  cc_Score :: rat

definition Eligible :: "CompactionCandidate \<Rightarrow> bool" where
  "Eligible c =
     (let total = cc_DeadBytes c + cc_LiveBytes c in
      if total = 0 then False
      else 3 / 10 \<le> rat_of_nat (cc_DeadBytes c) / rat_of_nat total \<or> 4 / 10 \<le> cc_DeadRecordRatio c
           \<or> (0 < cc_DeadBytes c \<and> cc_LiveBytes c = 0))"

definition ScoreWith :: "rat \<Rightarrow> rat \<Rightarrow> rat \<Rightarrow> CompactionCandidate \<Rightarrow> CompactionCandidate" where
  "ScoreWith ageFactor spacePressure mediaHealth c =
     (let total = cc_DeadBytes c + cc_LiveBytes c in
      c\<lparr>cc_Score := (if total = 0 then 0
                     else rat_of_nat (cc_DeadBytes c) / rat_of_nat total * ageFactor * spacePressure * mediaHealth)\<rparr>)"

text \<open>\<open>Select\<close>; candidates of equal score keep their order, one of the orders \<open>sort.Slice\<close> may leave them in.\<close>

definition selectCandidates :: "u64 list \<Rightarrow> CompactionCandidate list \<Rightarrow> nat \<Rightarrow> CompactionCandidate list" where
  "selectCandidates queued candidates maxCandidates =
     take maxCandidates
       (filter (\<lambda>c. Eligible c \<and> cc_SegmentID c \<notin> set queued)
          (sort_key (\<lambda>c. - cc_Score c) (map (ScoreWith 1 1 1) candidates)))"

definition score :: "Store \<Rightarrow> u64 \<Rightarrow> CompactionCandidate option" where
  "score s seg =
     (case map_of (st_files s) seg of
        None \<Rightarrow> None
      | Some f \<Rightarrow>
          (case OpenReaderWithEnc False f None of
             Inl _ \<Rightarrow> None
           | Inr _ \<Rightarrow>
               let records = ScanSegmentRecords f;
                   latest = latestGenerations s;
                   (lives, deads) = partition (liveRecord latest seg s) records;
                   bytes = (\<lambda>rs. sum_list (map (\<lambda>r. unat (sr_StoredLen r)) rs));
                   c = \<lparr>cc_SegmentID = seg, cc_RecordCount = length records, cc_DeadBytes = bytes deads,
                        cc_LiveBytes = bytes lives,
                        cc_DeadRecordRatio = (if records = [] then 0 else rat_of_nat (length deads) / rat_of_nat (length records)),
                        cc_Score = 0\<rparr>
               in Some (if records = [] then c else ScoreWith 1 1 1 c)))"

definition compactSegment :: "frameCodec \<Rightarrow> u64 \<Rightarrow> randomness \<Rightarrow> Store \<Rightarrow> u64 \<Rightarrow> Store" where
  "compactSegment z now rand s seg =
     (case map_of (st_files s) seg of
        None \<Rightarrow> s
      | Some f \<Rightarrow>
          (case OpenReaderWithEnc False f None of
             Inl _ \<Rightarrow> s
           | Inr _ \<Rightarrow>
               (case Compact z now rand (liveRecord (latestGenerations s) seg) s (ScanSegmentRecords f) of
                  (Some _, _, s1) \<Rightarrow> s1
                | (None, _, s1) \<Rightarrow> s1\<lparr>st_files := AList.delete seg (st_files s1)\<rparr>)))"

definition maxPerTick :: nat where
  "maxPerTick = 1"

definition compactOne :: "frameCodec \<Rightarrow> u64 \<Rightarrow> randomness \<Rightarrow> Store \<Rightarrow> Store" where
  "compactOne z now rand s =
     foldl (\<lambda>s c. compactSegment z now rand s (cc_SegmentID c)) s
       (selectCandidates [] (List.map_filter (score s) (SealedSegments s)) maxPerTick)"

end
