(* ===== verification/Recovery_Scan.thy ===== *)
theory Recovery_Scan
  imports Record_Props Segment_Lifecycle
begin

text \<open>
  The recovery scan reads back what the store writes. A log is a sequence of batches of well-formed
  records, each closed by a batch commit. The lemmas show that every record and every commit of such
  a log is accepted, that the scan stops without an error in a batch whose bytes are cut off
  anywhere, and that recovery then truncates the file behind the last complete batch after it has
  handed exactly the descriptors of the complete batches to the caller.
\<close>

section \<open>One record\<close>

text \<open>A record of the log: its header and its stored frames.\<close>

type_synonym logged = "RecordHeader \<times> (u8 list \<times> u8) list"

definition record_ok :: "logged \<Rightarrow> bool" where
  "record_ok r \<longleftrightarrow> describes (fst r) (snd r)
     \<and> (rh_Op (fst r) = RecordDelete \<longrightarrow> snd r = [] \<and> rh_LogicalLen (fst r) = 0)"

definition recordBytes :: "logged \<Rightarrow> u8 list" where
  "recordBytes r = imageOf (fst r) (snd r)"

definition descAt :: "u64 \<Rightarrow> nat \<Rightarrow> RecordHeader \<Rightarrow> CommitDescriptor" where
  "descAt segID off h =
     \<lparr>cd_ExtentID = rh_ExtentID h, cd_Generation = rh_Generation h, cd_SegmentID = segID, cd_Offset = off,
      cd_StoredLen = rh_StoredLen h, cd_LogicalLen = rh_LogicalLen h, cd_Checksum = rh_PayloadChecksum h, cd_Op = rh_Op h\<rparr>"

lemma length_recordBytes: "length (recordBytes r) = framingLen (snd r)"
  by (simp add: recordBytes_def length_imageOf)

lemma recordBytes_min: "RecordHeaderSize \<le> length (recordBytes r)"
  by (simp add: length_recordBytes framingLen_def)

lemma checkBounds_entries:
  assumes "length (storedBytes scs) < 2 ^ 32" "before + length (concat (map fst todo)) = length (storedBytes scs)"
  shows "checkBounds (length (storedBytes scs)) (entriesFor before todo) before = Inr ()"
  using assms(2)
proof (induction todo arbitrary: before)
  case (Cons sc todo)
  have "before < 2 ^ 32" "length (fst sc) < 2 ^ 32" using Cons.prems assms(1) by simp_all
  then have "unat (of_nat before :: u32) = before" "unat (of_nat (length (fst sc)) :: u32) = length (fst sc)"
    by (simp_all add: unsigned_of_nat take_bit_nat_eq_self)
  then show ?case using Cons.prems Cons.IH [of "before + length (fst sc)"] by (simp add: entryFor_def)
qed simp

lemma parseEntries_indexBytes: "n = length scs \<Longrightarrow> parseEntries n (indexBytes scs) = entriesFor 0 scs"
  using parseEntries_encode [of "entriesFor 0 scs"] by (simp add: indexBytes_def)

lemma record_index_small: "describes h scs \<Longrightarrow> length scs * FrameIndexEntrySize \<le> 1048576"
proof -
  assume "describes h scs"
  then have "length scs = unat (rh_FrameCount h)" by (simp add: describes_def)
  moreover have "unat (rh_FrameCount h) < 2 ^ LENGTH(16)" by (rule unsigned_less)
  ultimately show ?thesis by (simp add: FrameIndexEntrySize_def)
qed

lemma parseHeaderAt_record:
  assumes ok: "record_ok r" and at: "holds_at f off (recordBytes r)"
  shows "parseHeaderAt (length f) f off = Inr (fst r, framingLen (snd r))"
proof -
  obtain h scs where r: "r = (h, scs)" by fastforce
  have d: "describes h scs" and del: "rh_Op h = RecordDelete \<Longrightarrow> scs = [] \<and> rh_LogicalLen h = 0"
    using ok by (auto simp: record_ok_def r)
  have n: "unat (rh_FrameCount h) = length scs" "unat (rh_StoredLen h) = length (storedBytes scs)"
    "rh_FrameIndexCRC h = CRC32C (indexBytes scs)" using d by (simp_all add: describes_def)
  have l: "length (storedBytes scs) < 2 ^ 32" using d by (simp add: describes_def framingLen_def)
  have p: "partsAt f off h scs" using at by (simp add: recordBytes_def r imageOf_parts)
  have hd: "readAt ErrEOF f off RecordHeaderSize = Inr (headerBytes h)"
    "readAt ErrEOF f (off + RecordHeaderSize) (length scs * FrameIndexEntrySize) = Inr (indexBytes scs)"
    "readAt ErrEOF f (off + RecordHeaderSize + length scs * FrameIndexEntrySize + length (storedBytes scs)) RecordTrailerSize
       = Inr (encodeTrailer (of_nat (framingLen scs)))"
    using p by (auto intro!: readAt_here simp: partsAt_def)
  have z: "scs = [] \<Longrightarrow> rh_StoredLen h = 0" using n(2) by (simp add: storedBytes_def unsigned_eq_0_iff)
  have z0: "rh_FrameCount h = 0 \<longleftrightarrow> scs = []" using n(1) by (metis length_0_conv unsigned_eq_0_iff)
  have fit: "off + framingLen scs \<le> length f" using holds_at_length [OF at] by (simp add: length_recordBytes r)
  have bounds: "checkBounds (length (storedBytes scs)) (entriesFor 0 scs) 0 = Inr ()"
    by (rule checkBounds_entries [OF l]) (simp add: storedBytes_def)
  have tr: "checkTrailer f (off + RecordHeaderSize + length scs * FrameIndexEntrySize + length (storedBytes scs)) (framingLen scs) = Inr ()"
    by (simp add: checkTrailer_def hd)
  have fr: "RecordHeaderSize + length scs * FrameIndexEntrySize + length (storedBytes scs) + RecordTrailerSize = framingLen scs"
    by (simp add: framingLen_def)
  show ?thesis
    using fit record_index_small [OF d] z del
    by (auto simp: parseHeaderAt_def r hd decode_headerBytes [OF d] Let_def n z0 fr tr bounds parseEntries_indexBytes)
qed

lemma record_magic:
  assumes "record_ok r" "holds_at f off (recordBytes r)"
  shows "readAt e f off 4 = Inr (putUint32 RecordMagic)"
    "readAt e f off 5 = Inr (putUint32 RecordMagic @ [FormatVersion])"
proof -
  obtain rest where "recordBytes r = (putUint32 RecordMagic @ [FormatVersion]) @ rest"
    using assms(1) by (auto simp: recordBytes_def imageOf_def headerBytes_def headerBody_def record_ok_def describes_def headerOK_def)
  then have "holds_at f off (putUint32 RecordMagic @ [FormatVersion])"
    using assms(2) holds_at_append [of f off "putUint32 RecordMagic @ [FormatVersion]" rest] by simp
  then show "readAt e f off 4 = Inr (putUint32 RecordMagic)" "readAt e f off 5 = Inr (putUint32 RecordMagic @ [FormatVersion])"
    by (auto intro!: readAt_here simp: holds_at_append)
qed

text \<open>What the scan adds to its state for one record.\<close>

definition noteRecord :: "nat \<Rightarrow> logged \<Rightarrow> 'o recoveryState \<Rightarrow> 'o recoveryState" where
  "noteRecord off r s =
     s\<lparr>rs_records := Suc (rs_records s), rs_pendingBytes := rs_pendingBytes s + framingLen (snd r),
       rs_pending := rs_pending s @ [descAt (rs_segID s) off (fst r)]\<rparr>"

lemma parseEntryAt_record:
  assumes "record_ok r" "holds_at f off (recordBytes r)" "rs_size s = length f" "rs_records s \<noteq> rs_recordLimit s"
  shows "parseEntryAt late apply opts f s off = (Inr (off + framingLen (snd r), False), noteRecord off r s)"
proof -
  have v: "FormatVersion \<noteq> 2" by (simp add: FormatVersion_def)
  have m: "RecordMagic \<noteq> BatchCommitMagic" by (simp add: RecordMagic_def BatchCommitMagic_def)
  have p: "parseRecord f s off = (Inr (off + framingLen (snd r), False), noteRecord off r s)"
    using assms(3,4) v
    by (simp add: parseRecord_def record_magic [OF assms(1,2)] parseHeaderAt_record [OF assms(1,2)] noteRecord_def
        descAt_def nth_append)
  then show ?thesis using m by (simp add: parseEntryAt_def record_magic [OF assms(1,2)] indexSafeAt_def)
qed

section \<open>One commit\<close>

lemma length_encodeBatchCommit [simp]: "length (encodeBatchCommit b) = BatchCommitSize"
  by (simp add: encodeBatchCommit_def batchBody_def BatchCommitSize_def)

lemma length_batchBody [simp]: "length (batchBody b) = 38"
  by (simp add: batchBody_def)

lemma decodeBatchCommit_encode:
  assumes "bc_Magic b = BatchCommitMagic"
  shows "decodeBatchCommit (encodeBatchCommit b) = Inr b"
proof -
  let ?e = "encodeBatchCommit b"
  have s: "slice 0 38 ?e = batchBody b" "getUint32 (slice 38 42 ?e) = CRC32C (batchBody b)"
    by (simp_all add: encodeBatchCommit_def)
  have f: "getUint32 (slice 0 4 ?e) = bc_Magic b" "?e ! 4 = bc_Version b" "?e ! 5 = bc_StreamID b"
    "getUint64 (slice 6 14 ?e) = bc_Seq b" "getUint32 (slice 14 18 ?e) = bc_RecordCount b"
    "getUint64 (slice 18 26 ?e) = bc_FirstOffset b" "getUint64 (slice 26 34 ?e) = bc_LastOffset b"
    "getUint32 (slice 34 38 ?e) = bc_DescriptorsCRC b"
    by (simp_all add: encodeBatchCommit_def batchBody_def nth_append)
  show ?thesis using assms by (simp add: decodeBatchCommit_def Let_def s f)
qed

lemma pendingDescriptorsCRC_eq: "pendingDescriptorsCRC ds = CRC32C (concat (map encodeDescriptor ds))"
proof -
  have "foldl (\<lambda>h d. foldl crcByte h (encodeDescriptor d)) h ds = foldl crcByte h (concat (map encodeDescriptor ds))" for h
    by (induction ds arbitrary: h) simp_all
  then show ?thesis by (simp add: pendingDescriptorsCRC_def CRC32C_def)
qed

section \<open>Batches\<close>

fun descsAt :: "u64 \<Rightarrow> nat \<Rightarrow> logged list \<Rightarrow> CommitDescriptor list" where
  "descsAt segID off [] = []"
| "descsAt segID off (r # rs) = descAt segID off (fst r) # descsAt segID (off + length (recordBytes r)) rs"

definition recordsBytes :: "logged list \<Rightarrow> u8 list" where
  "recordsBytes rs = concat (map recordBytes rs)"

definition commitFor :: "u64 \<Rightarrow> u8 \<Rightarrow> nat \<Rightarrow> u64 \<Rightarrow> logged list \<Rightarrow> BatchCommit" where
  "commitFor segID streamID off sq rs =
     \<lparr>bc_Magic = BatchCommitMagic, bc_Version = FormatVersion, bc_StreamID = streamID, bc_Seq = sq,
      bc_RecordCount = of_nat (length rs), bc_FirstOffset = of_nat off,
      bc_LastOffset = of_nat (off + length (recordsBytes rs)),
      bc_DescriptorsCRC = pendingDescriptorsCRC (descsAt segID off rs)\<rparr>"

definition batchBytes :: "u64 \<Rightarrow> u8 \<Rightarrow> nat \<Rightarrow> u64 \<Rightarrow> logged list \<Rightarrow> u8 list" where
  "batchBytes segID streamID off sq rs = recordsBytes rs @ encodeBatchCommit (commitFor segID streamID off sq rs)"

lemma recordsBytes_simps [simp]: "recordsBytes [] = []" "recordsBytes (r # rs) = recordBytes r @ recordsBytes rs"
  by (simp_all add: recordsBytes_def)

lemma length_descsAt [simp]: "length (descsAt segID off rs) = length rs"
  by (induction rs arbitrary: off) simp_all

text \<open>The state after the records of a batch: nothing but the notes and the number of clock checks has changed.\<close>

definition notedRecords :: "nat \<Rightarrow> logged list \<Rightarrow> 'o recoveryState \<Rightarrow> 'o recoveryState \<Rightarrow> bool" where
  "notedRecords off rs s s' \<longleftrightarrow>
     (\<exists>n. s' = s\<lparr>rs_records := rs_records s + length rs, rs_pendingBytes := rs_pendingBytes s + length (recordsBytes rs),
                rs_pending := rs_pending s @ descsAt (rs_segID s) off rs, rs_checks := n\<rparr>)"

lemma scan_records:
  assumes "list_all record_ok rs" "holds_at f off (recordsBytes rs)" "rs_size s = length f"
    "rs_records s + length rs \<le> rs_recordLimit s"
  shows "\<exists>s'. notedRecords off rs s s' \<and>
    scanLog (\<lambda>_. False) apply opts f (length rs + fuel) s off
      = scanLog (\<lambda>_. False) apply opts f fuel s' (off + length (recordsBytes rs))"
  using assms
proof (induction rs arbitrary: s off)
  case Nil
  show ?case by (intro exI [of _ s]) (simp add: notedRecords_def, metis recoveryState.surjective recoveryState.update_convs(15))
next
  case (Cons r rs)
  let ?s0 = "s\<lparr>rs_checks := Suc (rs_checks s)\<rparr>"
  let ?s1 = "noteRecord off r ?s0"
  have r: "record_ok r" "holds_at f off (recordBytes r)" "holds_at f (off + length (recordBytes r)) (recordsBytes rs)"
    using Cons.prems by (simp_all add: holds_at_append)
  have "off < length f" using holds_at_length [OF r(2)] recordBytes_min [of r] by (simp add: RecordHeaderSize_def)
  then have step: "scanLog (\<lambda>_. False) apply opts f (Suc (length rs + fuel)) s off
      = scanLog (\<lambda>_. False) apply opts f (length rs + fuel) ?s1 (off + length (recordBytes r))"
    using Cons.prems parseEntryAt_record [OF r(1,2), of ?s0] by (simp add: deadlineExceeded_def length_recordBytes)
  obtain s' where "notedRecords (off + length (recordBytes r)) rs ?s1 s'"
    "scanLog (\<lambda>_. False) apply opts f (length rs + fuel) ?s1 (off + length (recordBytes r))
       = scanLog (\<lambda>_. False) apply opts f fuel s' (off + length (recordBytes r) + length (recordsBytes rs))"
    using Cons.IH [of "off + length (recordBytes r)" ?s1] Cons.prems r by (auto simp: noteRecord_def)
  then show ?case using step
    by (intro exI [of _ s']) (auto simp: notedRecords_def noteRecord_def length_recordBytes add.assoc)
qed

fun applyEach :: "(CommitDescriptor \<Rightarrow> 'o \<Rightarrow> StorageError + 'o) \<Rightarrow> CommitDescriptor list \<Rightarrow> 'o \<Rightarrow> StorageError + 'o" where
  "applyEach apply [] t = Inr t"
| "applyEach apply (d # ds) t = (case apply d t of Inl e \<Rightarrow> Inl e | Inr t' \<Rightarrow> applyEach apply ds t')"

lemma applyEach_append: "applyEach apply (ds @ es) t = (case applyEach apply ds t of Inl e \<Rightarrow> Inl e | Inr t' \<Rightarrow> applyEach apply es t')"
  by (induction ds arbitrary: t) (auto split: sum.split)

lemma checkDeadlines_False: "\<exists>m. checkDeadlines (\<lambda>_. False) n s = (False, s\<lparr>rs_checks := m\<rparr>)"
proof (induction n arbitrary: s)
  case 0
  show ?case by (intro exI [of _ "rs_checks s"]) simp
next
  case (Suc n)
  obtain m where "checkDeadlines (\<lambda>_. False) n (s\<lparr>rs_checks := Suc (rs_checks s)\<rparr>)
      = (False, s\<lparr>rs_checks := Suc (rs_checks s)\<rparr>\<lparr>rs_checks := m\<rparr>)" using Suc by blast
  then show ?case by (intro exI [of _ m]) (simp add: deadlineExceeded_def)
qed

lemma applyPending_ok:
  assumes "applyEach apply ds (rs_target s) = Inr t"
  shows "\<exists>m. applyPending (\<lambda>_. False) apply e sq ds s
    = (Inr (), s\<lparr>rs_target := t, rs_applied := rs_applied s + length ds, rs_checks := m\<rparr>)"
  using assms
proof (induction ds arbitrary: s)
  case Nil
  show ?case by (intro exI [of _ "rs_checks s"]) (use Nil in simp)
next
  case (Cons d ds)
  let ?s0 = "s\<lparr>rs_checks := Suc (rs_checks s)\<rparr>"
  obtain u where u: "apply d (rs_target s) = Inr u" "applyEach apply ds u = Inr t"
    using Cons.prems by (auto split: sum.splits)
  obtain m where "applyPending (\<lambda>_. False) apply e sq ds (?s0\<lparr>rs_target := u, rs_applied := Suc (rs_applied s)\<rparr>)
      = (Inr (), ?s0\<lparr>rs_target := t, rs_applied := Suc (rs_applied s) + length ds, rs_checks := m\<rparr>)"
    using Cons.IH [of "?s0\<lparr>rs_target := u, rs_applied := Suc (rs_applied s)\<rparr>"] u by auto
  then show ?case using u by (intro exI [of _ m]) (simp add: deadlineExceeded_def)
qed

text \<open>The scan stands behind a commit.\<close>

definition atBoundary :: "u8 list \<Rightarrow> u64 \<Rightarrow> u64 \<Rightarrow> nat \<Rightarrow> nat \<Rightarrow> 'o \<Rightarrow> 'o recoveryState \<Rightarrow> nat \<Rightarrow> bool" where
  "atBoundary f segID sq recs bytes t s off \<longleftrightarrow>
     rs_size s = length f \<and> rs_segID s = segID \<and> rs_pending s = [] \<and> rs_pendingBytes s = 0 \<and> rs_lastValid s = off
     \<and> rs_lastCommittedSeq s = sq \<and> rs_records s = recs \<and> rs_replayBytes s = bytes \<and> rs_target s = t
     \<and> rs_recordLimit s = MaxRecoveryRecords \<and> rs_replayLimit s = MaxRecoveryReplayBytes"

lemma sint_of_small: "n < 2 ^ 63 \<Longrightarrow> sint (of_nat n :: u64) = int n"
  by (simp add: signed_of_nat signed_take_bit_int_eq_self)

lemma of_nat_count: "n \<le> MaxRecoveryRecords \<Longrightarrow> unat (of_nat n :: u32) = n"
  by (simp add: MaxRecoveryRecords_def unsigned_of_nat take_bit_nat_eq_self)

lemma commit_magic:
  assumes "bc_Magic bc = BatchCommitMagic" "holds_at f off (encodeBatchCommit bc)"
  shows "readAt e f off 4 = Inr (putUint32 BatchCommitMagic)"
proof -
  have "holds_at f off (putUint32 BatchCommitMagic)"
    using assms by (simp add: encodeBatchCommit_def batchBody_def holds_at_append)
  then show ?thesis by (rule readAt_here) simp
qed

lemma scan_batch:
  assumes rs: "list_all record_ok rs" "rs \<noteq> []" and at: "holds_at f off (batchBytes segID (ro_StreamID opts) off sq rs)"
    and b: "atBoundary f segID sq0 recs bytes t s off" and sq: "sq0 < sq" "ro_SafeSeq opts < sq"
    and lim: "recs + length rs \<le> MaxRecoveryRecords"
      "bytes + length (batchBytes segID (ro_StreamID opts) off sq rs) \<le> MaxRecoveryReplayBytes"
    and t': "applyEach apply (descsAt segID off rs) t = Inr t'" and small: "length f < 2 ^ 63"
  shows "\<exists>s'. atBoundary f segID sq (recs + length rs) (bytes + length (batchBytes segID (ro_StreamID opts) off sq rs)) t' s'
        (off + length (batchBytes segID (ro_StreamID opts) off sq rs)) \<and> rs_safeSeq s' = rs_safeSeq s \<and>
    scanLog (\<lambda>_. False) apply opts f (length rs + Suc fuel) s off
      = scanLog (\<lambda>_. False) apply opts f fuel s' (off + length (batchBytes segID (ro_StreamID opts) off sq rs))"
proof -
  let ?bc = "commitFor segID (ro_StreamID opts) off sq rs"
  let ?co = "off + length (recordsBytes rs)"
  have h: "holds_at f off (recordsBytes rs)" "holds_at f ?co (encodeBatchCommit ?bc)"
    using at by (simp_all add: batchBytes_def holds_at_append)
  obtain s1 where s1: "notedRecords off rs s s1"
    "scanLog (\<lambda>_. False) apply opts f (length rs + Suc fuel) s off = scanLog (\<lambda>_. False) apply opts f (Suc fuel) s1 ?co"
    using scan_records [OF rs(1) h(1), of s "apply" opts "Suc fuel"] b lim by (auto simp: atBoundary_def)
  obtain n1 where s1': "s1 = s\<lparr>rs_records := recs + length rs, rs_pendingBytes := length (recordsBytes rs),
      rs_pending := descsAt segID off rs, rs_checks := n1\<rparr>"
    using s1(1) b by (auto simp: notedRecords_def atBoundary_def)
  let ?s0 = "s1\<lparr>rs_checks := Suc (rs_checks s1)\<rparr>"
  have len: "?co + BatchCommitSize \<le> length f" using holds_at_length [OF h(2)] by simp
  have off: "sint (bc_FirstOffset ?bc) = int off" "sint (bc_LastOffset ?bc) = int ?co"
    using len small sint_of_small [of ?co] sint_of_small [of off] by (simp_all add: commitFor_def)
  have fst_off: "cd_Offset (hd (descsAt segID off rs)) = off" using rs(2) by (cases rs) (simp_all add: descAt_def)
  obtain m1 where m1: "checkDeadlines (\<lambda>_. False) (length rs) ?s0 = (False, ?s0\<lparr>rs_checks := m1\<rparr>)"
    using checkDeadlines_False by blast
  let ?s2 = "?s0\<lparr>rs_checks := m1, rs_replayBytes := bytes + (length (recordsBytes rs) + BatchCommitSize)\<rparr>"
  obtain m2 where m2: "applyPending (\<lambda>_. False) apply (?co + BatchCommitSize) sq (descsAt segID off rs) ?s2
      = (Inr (), ?s2\<lparr>rs_target := t', rs_applied := rs_applied ?s2 + length rs, rs_checks := m2\<rparr>)"
    using applyPending_ok [of "apply" "descsAt segID off rs" ?s2 t' "?co + BatchCommitSize" sq] t' b s1'
    by (auto simp: atBoundary_def)
  let ?s3 = "?s2\<lparr>rs_target := t', rs_applied := rs_applied ?s2 + length rs, rs_checks := m2, rs_pending := [],
      rs_pendingBytes := 0, rs_lastCommittedSeq := sq, rs_commits := Suc (rs_commits ?s2)\<rparr>"
  have rp: "addReplayBytes (?s0\<lparr>rs_checks := m1\<rparr>) (length (recordsBytes rs) + BatchCommitSize) = Some ?s2"
    using lim(2) b s1' by (simp add: addReplayBytes_def batchBytes_def atBoundary_def)
  have rd: "readAt ErrEOF f ?co BatchCommitSize = Inr (encodeBatchCommit ?bc)"
    by (rule readAt_here [OF h(2)]) simp
  have dec: "decodeBatchCommit (encodeBatchCommit ?bc) = Inr ?bc"
    by (rule decodeBatchCommit_encode) (simp add: commitFor_def)
  have v: "FormatVersion \<noteq> 2" by (simp add: FormatVersion_def)
  have flds: "bc_Version ?bc = FormatVersion" "bc_StreamID ?bc = ro_StreamID opts" "bc_Seq ?bc = sq"
    "bc_RecordCount ?bc = of_nat (length rs)" "bc_DescriptorsCRC ?bc = pendingDescriptorsCRC (descsAt segID off rs)"
    by (simp_all add: commitFor_def)
  have st: "rs_pending s1 = descsAt segID off rs" "rs_lastCommittedSeq s1 = sq0" "rs_pendingBytes s1 = length (recordsBytes rs)"
    using b s1' by (simp_all add: atBoundary_def)
  have ne: "descsAt segID off rs \<noteq> []" using rs(2) by (cases rs) simp_all
  have mg: "readAt ErrEOF f ?co 4 = Inr (putUint32 BatchCommitMagic)"
    by (rule commit_magic [OF _ h(2)]) (simp add: commitFor_def)
  have pc: "parseCommit (\<lambda>_. False) apply opts f ?s0 ?co = (Inr (?co + BatchCommitSize, True), ?s3)"
    using sq v ne m1 m2 rp not_le [of sq sq0]
    by (simp add: parseCommit_def rd dec flds st off fst_off finishCommit_def)
  have "parseEntryAt (\<lambda>_. False) apply opts f ?s0 ?co = (Inr (?co + BatchCommitSize, True), ?s3)"
    using pc by (simp add: parseEntryAt_def mg)
  then have "scanLog (\<lambda>_. False) apply opts f (Suc fuel) s1 ?co
      = scanLog (\<lambda>_. False) apply opts f fuel (?s3\<lparr>rs_lastValid := ?co + BatchCommitSize\<rparr>) (?co + BatchCommitSize)"
    using len b s1' by (simp add: deadlineExceeded_def atBoundary_def BatchCommitSize_def)
  moreover have "atBoundary f segID sq (recs + length rs) (bytes + length (batchBytes segID (ro_StreamID opts) off sq rs)) t'
      (?s3\<lparr>rs_lastValid := ?co + BatchCommitSize\<rparr>) (?co + BatchCommitSize)"
    using b s1' by (simp add: atBoundary_def batchBytes_def)
  ultimately show ?thesis using s1(2) s1'
    by (intro exI [of _ "?s3\<lparr>rs_lastValid := ?co + BatchCommitSize\<rparr>"]) (simp add: batchBytes_def add.assoc)
qed

section \<open>Logs\<close>

text \<open>A batch of the log: the sequence number of its commit and its records.\<close>

type_synonym loggedBatch = "u64 \<times> logged list"

fun logBytes :: "u64 \<Rightarrow> u8 \<Rightarrow> nat \<Rightarrow> loggedBatch list \<Rightarrow> u8 list" where
  "logBytes segID streamID off [] = []"
| "logBytes segID streamID off (b # bs) =
     (let bytes = batchBytes segID streamID off (fst b) (snd b)
      in bytes @ logBytes segID streamID (off + length bytes) bs)"

fun logDescs :: "u64 \<Rightarrow> u8 \<Rightarrow> nat \<Rightarrow> loggedBatch list \<Rightarrow> CommitDescriptor list" where
  "logDescs segID streamID off [] = []"
| "logDescs segID streamID off (b # bs) =
     descsAt segID off (snd b) @ logDescs segID streamID (off + length (batchBytes segID streamID off (fst b) (snd b))) bs"

fun rising :: "u64 \<Rightarrow> loggedBatch list \<Rightarrow> bool" where
  "rising sq [] = True"
| "rising sq (b # bs) = (sq < fst b \<and> rising (fst b) bs)"

definition lastSeq :: "u64 \<Rightarrow> loggedBatch list \<Rightarrow> u64" where
  "lastSeq sq bs = last (sq # map fst bs)"

definition recordCount :: "loggedBatch list \<Rightarrow> nat" where
  "recordCount bs = sum_list (map (\<lambda>b. length (snd b)) bs)"

definition batch_ok :: "loggedBatch \<Rightarrow> bool" where
  "batch_ok b \<longleftrightarrow> snd b \<noteq> [] \<and> list_all record_ok (snd b)"

lemma rising_trans: "rising sq bs \<Longrightarrow> sq' \<le> sq \<Longrightarrow> rising sq' bs"
  by (cases bs) auto

lemma lastSeq_simps [simp]: "lastSeq sq [] = sq" "lastSeq sq (b # bs) = lastSeq (fst b) bs"
  by (simp_all add: lastSeq_def)

lemma recordCount_simps [simp]: "recordCount [] = 0" "recordCount (b # bs) = length (snd b) + recordCount bs"
  by (simp_all add: recordCount_def)

lemma scan_batches:
  assumes "list_all batch_ok bs" "holds_at f off (logBytes segID (ro_StreamID opts) off bs)"
    "atBoundary f segID sq0 recs bytes t s off" "rising sq0 bs" "ro_SafeSeq opts \<le> sq0"
    "recs + recordCount bs \<le> MaxRecoveryRecords"
    "bytes + length (logBytes segID (ro_StreamID opts) off bs) \<le> MaxRecoveryReplayBytes"
    "applyEach apply (logDescs segID (ro_StreamID opts) off bs) t = Inr t'" "length f < 2 ^ 63"
  shows "\<exists>s'. atBoundary f segID (lastSeq sq0 bs) (recs + recordCount bs)
        (bytes + length (logBytes segID (ro_StreamID opts) off bs)) t' s' (off + length (logBytes segID (ro_StreamID opts) off bs))
      \<and> rs_safeSeq s' = rs_safeSeq s
      \<and> scanLog (\<lambda>_. False) apply opts f (recordCount bs + length bs + fuel) s off
        = scanLog (\<lambda>_. False) apply opts f fuel s' (off + length (logBytes segID (ro_StreamID opts) off bs))"
  using assms
proof (induction bs arbitrary: off sq0 recs bytes t s)
  case Nil
  then show ?case by (intro exI [of _ s]) simp
next
  case (Cons b bs)
  obtain sq rs where b: "b = (sq, rs)" by fastforce
  let ?B = "batchBytes segID (ro_StreamID opts) off sq rs"
  have h: "holds_at f off ?B" "holds_at f (off + length ?B) (logBytes segID (ro_StreamID opts) (off + length ?B) bs)"
    using Cons.prems(2) by (simp_all add: b Let_def holds_at_append)
  obtain u where u: "applyEach apply (descsAt segID off rs) t = Inr u"
    "applyEach apply (logDescs segID (ro_StreamID opts) (off + length ?B) bs) u = Inr t'"
    using Cons.prems(8) by (auto simp: b applyEach_append split: sum.splits)
  have rs: "list_all record_ok rs" "rs \<noteq> []" using Cons.prems(1) by (simp_all add: b batch_ok_def)
  have sq: "sq0 < sq" "ro_SafeSeq opts < sq" using Cons.prems(4,5) by (auto simp: b)
  obtain s1 where s1: "atBoundary f segID sq (recs + length rs) (bytes + length ?B) u s1 (off + length ?B)"
    "rs_safeSeq s1 = rs_safeSeq s"
    "scanLog (\<lambda>_. False) apply opts f (length rs + Suc (recordCount bs + length bs + fuel)) s off
      = scanLog (\<lambda>_. False) apply opts f (recordCount bs + length bs + fuel) s1 (off + length ?B)"
    using scan_batch [OF rs h(1) Cons.prems(3) sq _ _ u(1) Cons.prems(9)] Cons.prems(6,7) by (fastforce simp: b Let_def)
  have f: "recordCount (b # bs) + length (b # bs) + fuel = length rs + Suc (recordCount bs + length bs + fuel)"
    by (simp add: b)
  have sb: "list_all batch_ok bs" "rising sq bs" "ro_SafeSeq opts \<le> sq" using Cons.prems sq by (simp_all add: b)
  have lim: "recs + length rs + recordCount bs \<le> MaxRecoveryRecords"
    "bytes + length ?B + length (logBytes segID (ro_StreamID opts) (off + length ?B) bs) \<le> MaxRecoveryReplayBytes"
    using Cons.prems(6,7) by (simp_all add: b Let_def)
  show ?case
    using Cons.IH [OF sb(1) h(2) s1(1) sb(2,3) lim u(2) Cons.prems(9)] s1(2,3) unfolding f
    by (simp add: b Let_def add.assoc)
qed

section \<open>Torn batches\<close>

lemma holds_take: "j \<le> k \<Longrightarrow> j \<le> length x \<Longrightarrow> holds_at (g @ take k x) (length g) (take j x)"
  by (simp add: holds_at_def min_def)

lemma readAt_short: "length f < off + n \<Longrightarrow> 0 < n \<Longrightarrow> readAt e f off n = Inl e"
  by (simp add: readAt_def)

lemma torn_header:
  assumes r: "record_ok r" and k: "k < length (recordBytes r)" and f: "f = g @ take k (recordBytes r)"
  shows "\<exists>e. parseHeaderAt (length f) f (length g) = Inl e"
proof (cases "k < RecordHeaderSize")
  case True
  then have "readAt ErrEOF f (length g) RecordHeaderSize = Inl ErrEOF"
    using f by (intro readAt_short) (simp_all add: RecordHeaderSize_def)
  then show ?thesis by (simp add: parseHeaderAt_def)
next
  case False
  have d: "describes (fst r) (snd r)" using r by (simp add: record_ok_def)
  have n: "unat (rh_FrameCount (fst r)) = length (snd r)" "unat (rh_StoredLen (fst r)) = length (storedBytes (snd r))"
    using d by (simp_all add: describes_def)
  have "take RecordHeaderSize (recordBytes r) = headerBytes (fst r)" by (simp add: recordBytes_def imageOf_def)
  then have "holds_at f (length g) (headerBytes (fst r))"
    using False holds_take [of RecordHeaderSize k "recordBytes r" g] recordBytes_min [of r] f by simp
  then have hd: "readAt ErrEOF f (length g) RecordHeaderSize = Inr (headerBytes (fst r))" by (rule readAt_here) simp
  have "length f < length g + (RecordHeaderSize + length (snd r) * FrameIndexEntrySize + length (storedBytes (snd r)) + RecordTrailerSize)"
    using k f by (simp add: length_recordBytes framingLen_def)
  then show ?thesis by (simp add: parseHeaderAt_def hd decode_headerBytes [OF d] Let_def n)
qed

lemma torn_record:
  assumes r: "record_ok r" and k: "k < length (recordBytes r)" and f: "f = g @ take k (recordBytes r)" and s: "rs_size s = length f"
  shows "\<exists>e. parseEntryAt late apply opts f s (length g) = (Inl (Torn e), s)"
proof -
  have m: "take 4 (recordBytes r) = putUint32 RecordMagic" "take 5 (recordBytes r) = putUint32 RecordMagic @ [FormatVersion]"
    using r by (simp_all add: recordBytes_def imageOf_def headerBytes_def headerBody_def record_ok_def describes_def headerOK_def)
  have len: "5 \<le> length (recordBytes r)" using recordBytes_min [of r] by (simp add: RecordHeaderSize_def)
  have v: "FormatVersion \<noteq> 2" "RecordMagic \<noteq> BatchCommitMagic" by (simp_all add: FormatVersion_def RecordMagic_def BatchCommitMagic_def)
  show ?thesis
  proof (cases "k < 4")
    case True
    then have "readAt ErrEOF f (length g) 4 = Inl ErrEOF" using f by (intro readAt_short) simp_all
    then show ?thesis by (simp add: parseEntryAt_def)
  next
    case False
    then have "holds_at f (length g) (putUint32 RecordMagic)"
      using holds_take [of 4 k "recordBytes r" g] m len f by simp
    then have a: "readAt ErrEOF f (length g) 4 = Inr (putUint32 RecordMagic)" by (rule readAt_here) simp
    have "\<exists>e. parseRecord f s (length g) = (Inl (Torn e), s)"
    proof (cases "k < 5")
      case True
      then have "readAt ErrEOF f (length g) 5 = Inl ErrEOF" using f by (intro readAt_short) simp_all
      then show ?thesis by (simp add: parseRecord_def)
    next
      case False
      then have "holds_at f (length g) (putUint32 RecordMagic @ [FormatVersion])"
        using holds_take [of 5 k "recordBytes r" g] m len f by simp
      then have b: "readAt ErrEOF f (length g) 5 = Inr (putUint32 RecordMagic @ [FormatVersion])" by (rule readAt_here) simp
      show ?thesis using torn_header [OF r k f] v s by (auto simp: parseRecord_def b nth_append)
    qed
    then show ?thesis using v by (simp add: parseEntryAt_def a indexSafeAt_def)
  qed
qed

lemma torn_commit:
  assumes bc: "bc_Magic bc = BatchCommitMagic" and k: "k < BatchCommitSize" and f: "f = g @ take k (encodeBatchCommit bc)"
  shows "\<exists>e. parseEntryAt late apply opts f s (length g) = (Inl (Torn e), s)"
proof (cases "k < 4")
  case True
  then have "readAt ErrEOF f (length g) 4 = Inl ErrEOF" using f by (intro readAt_short) simp_all
  then show ?thesis by (simp add: parseEntryAt_def)
next
  case False
  have "take 4 (encodeBatchCommit bc) = putUint32 BatchCommitMagic" using bc by (simp add: encodeBatchCommit_def batchBody_def)
  then have "holds_at f (length g) (putUint32 BatchCommitMagic)"
    using False holds_take [of 4 k "encodeBatchCommit bc" g] f by (simp add: BatchCommitSize_def)
  then have a: "readAt ErrEOF f (length g) 4 = Inr (putUint32 BatchCommitMagic)" by (rule readAt_here) simp
  have "readAt ErrEOF f (length g) BatchCommitSize = Inl ErrEOF"
    using k f by (intro readAt_short) (simp_all add: BatchCommitSize_def)
  then show ?thesis by (simp add: parseEntryAt_def a parseCommit_def)
qed

text \<open>What a scan that stops in a torn batch leaves as it was.\<close>

definition sameCommitted :: "'o recoveryState \<Rightarrow> 'o recoveryState \<Rightarrow> bool" where
  "sameCommitted s s' \<longleftrightarrow> rs_size s' = rs_size s \<and> rs_lastValid s' = rs_lastValid s \<and> rs_target s' = rs_target s
     \<and> rs_lastCommittedSeq s' = rs_lastCommittedSeq s \<and> rs_safeSeq s' = rs_safeSeq s"

lemma scan_torn_entry:
  assumes "\<And>s. rs_size s = length f \<Longrightarrow> \<exists>e. parseEntryAt (\<lambda>_. False) apply opts f s off = (Inl (Torn e), s)"
    "rs_size s = length f"
  shows "\<exists>s'. sameCommitted s s' \<and> scanLog (\<lambda>_. False) apply opts f fuel s off = (ScanDone, s')"
proof (cases fuel)
  case 0
  then show ?thesis by (simp add: sameCommitted_def)
next
  case (Suc n)
  obtain e where "parseEntryAt (\<lambda>_. False) apply opts f (s\<lparr>rs_checks := Suc (rs_checks s)\<rparr>) off
      = (Inl (Torn e), s\<lparr>rs_checks := Suc (rs_checks s)\<rparr>)" using assms by fastforce
  then show ?thesis using Suc by (simp add: sameCommitted_def deadlineExceeded_def)
qed

lemma scan_torn:
  assumes "list_all record_ok rs" "bc_Magic bc = BatchCommitMagic" "f = g @ take k (recordsBytes rs @ encodeBatchCommit bc)"
    "k < length (recordsBytes rs @ encodeBatchCommit bc)" "rs_size s = length f" "rs_records s + length rs \<le> rs_recordLimit s"
  shows "\<exists>s'. sameCommitted s s' \<and> scanLog (\<lambda>_. False) apply opts f fuel s (length g) = (ScanDone, s')"
  using assms(1,3-)
proof (induction rs arbitrary: g k s fuel)
  case Nil
  have "\<exists>e. parseEntryAt (\<lambda>_. False) apply opts f s (length g) = (Inl (Torn e), s)" if "rs_size s = length f" for s :: "'a recoveryState"
    by (rule torn_commit [OF assms(2), of k]) (use Nil in simp_all)
  then show ?case using Nil.prems(4) by (rule scan_torn_entry)
next
  case (Cons r rs)
  have r: "record_ok r" "list_all record_ok rs" using Cons.prems(1) by simp_all
  let ?L = "length (recordBytes r)"
  show ?case
  proof (cases "k < ?L")
    case True
    have "\<exists>e. parseEntryAt (\<lambda>_. False) apply opts f s (length g) = (Inl (Torn e), s)" if "rs_size s = length f" for s :: "'a recoveryState"
      by (rule torn_record [OF r(1) True _ that]) (use Cons.prems True in simp)
    then show ?thesis using Cons.prems(4) by (rule scan_torn_entry)
  next
    case False
    show ?thesis
    proof (cases fuel)
      case 0
      then show ?thesis by (simp add: sameCommitted_def)
    next
      case (Suc n)
      have f: "f = (g @ recordBytes r) @ take (k - ?L) (recordsBytes rs @ encodeBatchCommit bc)"
        using Cons.prems(2) False by simp
      have at: "holds_at f (length g) (recordBytes r)" using f by (simp add: holds_at_def)
      let ?s0 = "s\<lparr>rs_checks := Suc (rs_checks s)\<rparr>"
      let ?s1 = "noteRecord (length g) r ?s0"
      have lt: "length g < length f" using holds_at_length [OF at] recordBytes_min [of r] by (simp add: RecordHeaderSize_def)
      have step: "scanLog (\<lambda>_. False) apply opts f fuel s (length g)
          = scanLog (\<lambda>_. False) apply opts f n ?s1 (length (g @ recordBytes r))"
      proof -
        have "parseEntryAt (\<lambda>_. False) apply opts f ?s0 (length g) = (Inr (length g + framingLen (snd r), False), ?s1)"
          by (rule parseEntryAt_record [OF r(1) at]) (use Cons.prems(4,5) in simp_all)
        then show ?thesis using lt Cons.prems(4) by (simp add: Suc deadlineExceeded_def length_recordBytes)
      qed
      have "\<exists>s'. sameCommitted ?s1 s' \<and>
          scanLog (\<lambda>_. False) apply opts f n ?s1 (length (g @ recordBytes r)) = (ScanDone, s')"
        by (rule Cons.IH [OF r(2) f]) (use Cons.prems False in \<open>auto simp: noteRecord_def\<close>)
      then show ?thesis unfolding step by (auto simp: sameCommitted_def noteRecord_def)
    qed
  qed
qed

section \<open>Recovery of a log with a torn batch\<close>

lemma length_recordsBytes_ge: "length rs \<le> length (recordsBytes rs)"
proof (induction rs)
  case (Cons r rs)
  then show ?case using recordBytes_min [of r] by (simp add: RecordHeaderSize_def)
qed simp

lemma logBytes_fuel: "recordCount bs + length bs \<le> length (logBytes segID streamID off bs)"
proof (induction bs arbitrary: off)
  case (Cons b bs)
  let ?B = "batchBytes segID streamID off (fst b) (snd b)"
  have "Suc (length (snd b)) \<le> length ?B" using length_recordsBytes_ge [of "snd b"] by (simp add: batchBytes_def BatchCommitSize_def)
  then show ?case using Cons [of "off + length ?B"] by (simp add: Let_def)
qed simp

lemma segmentHeader_ok:
  assumes "sh_Magic h = SegmentMagic" "sh_Version h = FormatVersion"
  shows "length (encodeSegmentHeader h) = SegmentHeaderSize" "decodeSegmentHeader (encodeSegmentHeader h) = Inr h"
proof -
  let ?e = "encodeSegmentHeader h"
  have l: "length (segmentHeaderBody h) = 18" by (simp add: segmentHeaderBody_def)
  then show len: "length ?e = SegmentHeaderSize" by (simp add: encodeSegmentHeader_def SegmentHeaderSize_def)
  have s: "slice 0 18 ?e = segmentHeaderBody h" "getUint32 (slice 18 22 ?e) = CRC32C (segmentHeaderBody h)"
    using l by (simp_all add: encodeSegmentHeader_def)
  have f: "getUint32 (slice 0 4 ?e) = sh_Magic h" "?e ! 4 = sh_Version h" "getUint64 (slice 5 13 ?e) = sh_ID h"
    "?e ! 13 = sh_SegmentClass h" "getUint32 (slice 14 18 ?e) = sh_Reserved h"
    by (simp_all add: encodeSegmentHeader_def segmentHeaderBody_def nth_append)
  show "decodeSegmentHeader ?e = Inr h" using assms len by (simp add: decodeSegmentHeader_def Let_def s f)
qed


text \<open>
  A recovery that starts behind \<open>pre\<close>, the trusted part of the file: at the head of the segment, or
  behind an index-safe marker with the sequence number \<open>base\<close>.
\<close>

definition startsAt :: "RecoverOptions \<Rightarrow> u8 list \<Rightarrow> u64 \<Rightarrow> bool" where
  "startsAt opts pre base \<longleftrightarrow>
     ro_SafeOffset opts = int (length pre) \<and> ro_SafeSeq opts = base
     \<and> ro_MaxRecords opts = MaxRecoveryRecords \<and> ro_MaxReplayBytes opts = int MaxRecoveryReplayBytes
     \<and> ro_MaxTrailingBytes opts = int MaxRecoveryTrailingBytes
     \<and> SegmentHeaderSize \<le> length pre \<and> (\<exists>h. decodeSegmentHeader (take SegmentHeaderSize pre) = Inr h)
     \<and> (if length pre = SegmentHeaderSize then base = 0 else checkpointMarker pre (length pre) = Some base
          \<and> checkpointCommit pre (length pre) (ro_StreamID opts) = None)"

lemma startsAt_limits:
  assumes "startsAt opts pre base"
  shows "recoveryRecordLimit opts = MaxRecoveryRecords"
    "recoveryByteLimits opts = (MaxRecoveryReplayBytes, MaxRecoveryTrailingBytes)"
  using assms by (simp_all add: startsAt_def recoveryRecordLimit_def recoveryByteLimits_def MaxRecoveryRecords_def
      MaxRecoveryReplayBytes_def MaxRecoveryTrailingBytes_def)

lemma readAt_append: "off + n \<le> length pre \<Longrightarrow> readAt e (pre @ g) off n = readAt e pre off n"
  by (simp add: readAt_def)

lemma startsAt_validate:
  assumes "startsAt opts pre base" "length pre \<noteq> SegmentHeaderSize"
  shows "validateSafeRecoveryStart (pre @ g) (length pre) (ro_StreamID opts) = Inr (base, True)"
proof -
  have "checkpointCommit (pre @ g) (length pre) i = checkpointCommit pre (length pre) i" for i
    by (simp add: checkpointCommit_def Let_def readAt_append)
  moreover have "checkpointMarker (pre @ g) (length pre) = checkpointMarker pre (length pre)"
    by (simp add: checkpointMarker_def readAt_append)
  ultimately show ?thesis using assms by (simp add: startsAt_def validateSafeRecoveryStart_def)
qed

text \<open>Such a recovery is the scan from there.\<close>

lemma recover_is_scan:
  assumes st: "startsAt opts pre base" and f: "f = pre @ g"
  shows "RecoverFromSegmentLog late apply segID opts f t =
    finishScan late opts f (length pre) (scanLog late apply opts f (length f) (startState segID opts (length f) (length pre) base t) (length pre))"
proof -
  obtain h where h: "decodeSegmentHeader (take SegmentHeaderSize f) = Inr h" using st f by (auto simp: startsAt_def)
  have l: "SegmentHeaderSize \<le> length pre" "ro_SafeOffset opts = int (length pre)" "ro_SafeSeq opts = base"
    "length pre = SegmentHeaderSize \<Longrightarrow> base = 0" using st by (auto simp: startsAt_def)
  show ?thesis
    using l startsAt_validate [OF st, of g] h
    by (cases "length pre = SegmentHeaderSize") (simp_all add: RecoverFromSegmentLog_def h Let_def f)
qed

lemma recover_torn_log:
  assumes st: "startsAt opts pre base" and bs: "list_all batch_ok bs" "rising base bs"
    and rs: "list_all record_ok rs" and bc: "bc_Magic bc = BatchCommitMagic"
    and l: "l = pre @ logBytes segID (ro_StreamID opts) (length pre) bs"
    and f: "f = l @ take k (recordsBytes rs @ encodeBatchCommit bc)" and k: "k < length (recordsBytes rs @ encodeBatchCommit bc)"
    and lim: "recordCount bs + length rs \<le> MaxRecoveryRecords" "length f \<le> length pre + MaxRecoveryTrailingBytes" "length f < 2 ^ 63"
    and t': "applyEach apply (logDescs segID (ro_StreamID opts) (length pre) bs) t = Inr t'"
  obtains r where "RecoverFromSegmentLog (\<lambda>_. False) apply segID opts f t = (t', Some r, None, l)"
    "rr_LastSeq r = lastSeq base bs" "rr_SafeSeq r = base"
proof -
  let ?L = "logBytes segID (ro_StreamID opts) (length pre) bs"
  let ?s0 = "startState segID opts (length f) (length pre) base t"
  note lo = startsAt_limits [OF st]
  have sq: "ro_SafeSeq opts \<le> base" "ro_SafeSeq opts = base" using st by (simp_all add: startsAt_def)
  have small: "length f < 2 ^ 63" "length pre + length ?L \<le> length f"
    using lim(3) f l by simp_all
  have at: "holds_at f (length pre) ?L"
    using holds_at_here [of pre ?L "take k (recordsBytes rs @ encodeBatchCommit bc)"] f l by simp
  have b0: "atBoundary f segID base 0 0 t ?s0 (length pre)"
    by (simp add: atBoundary_def startState_def lo)
  define fuel where "fuel = length f - (recordCount bs + length bs)"
  have fuel: "length f = recordCount bs + length bs + fuel"
    using logBytes_fuel [of bs segID "ro_StreamID opts" "length pre"] small(2) by (simp add: fuel_def)
  have "\<exists>s1. atBoundary f segID (lastSeq base bs) (0 + recordCount bs) (0 + length ?L) t' s1 (length pre + length ?L)
      \<and> rs_safeSeq s1 = rs_safeSeq ?s0
      \<and> scanLog (\<lambda>_. False) apply opts f (recordCount bs + length bs + fuel) ?s0 (length pre)
        = scanLog (\<lambda>_. False) apply opts f fuel s1 (length pre + length ?L)"
    using lim small(2) by (intro scan_batches [OF bs(1) at b0 bs(2) sq(1) _ _ t' small(1)])
      (simp_all add: MaxRecoveryTrailingBytes_def MaxRecoveryReplayBytes_def)
  then obtain s1 where s1: "atBoundary f segID (lastSeq base bs) (recordCount bs) (length ?L) t' s1 (length pre + length ?L)"
    "rs_safeSeq s1 = base"
    "scanLog (\<lambda>_. False) apply opts f (length f) ?s0 (length pre)
        = scanLog (\<lambda>_. False) apply opts f fuel s1 (length pre + length ?L)"
    unfolding fuel by (auto simp: startState_def sq)
  have ll: "length l = length pre + length ?L" using l by simp
  obtain s2 where s2: "sameCommitted s1 s2" "scanLog (\<lambda>_. False) apply opts f fuel s1 (length l) = (ScanDone, s2)"
    using scan_torn [OF rs bc f k, of s1 "apply" opts fuel] s1(1) lim(1) by (auto simp: atBoundary_def)
  have st2: "rs_size s2 = length f" "rs_lastValid s2 = length l" "rs_target s2 = t'" "rs_lastCommittedSeq s2 = lastSeq base bs"
    "rs_safeSeq s2 = base"
    using s1(1,2) s2(1) ll by (auto simp: atBoundary_def sameCommitted_def)
  have ge: "length pre \<le> length l" using ll by simp
  have tk: "truncateTo f (length l) = l" using f by (simp add: truncateTo_def)
  have nt: "\<not> 0 < length f - length l \<Longrightarrow> f = l" using f by (auto simp: BatchCommitSize_def)
  have fin: "finishScan (\<lambda>_. False) opts f (length pre) (ScanDone, s2)
      = (t', Some (recoverResult (s2\<lparr>rs_checks := Suc (rs_checks s2)\<rparr>) True), None, l)"
    using lim(2) ge nt
    by (auto simp: finishScan_def st2 Let_def lo tk deadlineExceeded_def split: if_splits)
  have "RecoverFromSegmentLog (\<lambda>_. False) apply segID opts f t
      = (t', Some (recoverResult (s2\<lparr>rs_checks := Suc (rs_checks s2)\<rparr>) True), None, l)"
    using recover_is_scan [OF st, of f "?L @ take k (recordsBytes rs @ encodeBatchCommit bc)" "\<lambda>_. False" "apply" segID t]
      f l s1(3) s2(2) ll fin by simp
  then show ?thesis using that st2 by (simp add: recoverResult_def)
qed

end
