(* ===== verification/Commit_Laws.thy ===== *)
theory Commit_Laws
  imports Recovery_Scan
begin

text \<open>
  What \<open>commitBatch\<close> and \<open>flush\<close> do to the active segment. A pending write that a request has prepared
  stands for a well-formed record; a batch that commits without rotating the segment appends exactly
  the bytes of these records and their commit, at the offsets the allocator has handed out, and
  publishes their locations. Requests and index applies in between leave the log alone.
\<close>

section \<open>Pending writes\<close>

definition pends :: "pendingWrite \<Rightarrow> logged \<Rightarrow> bool" where
  "pends pw r \<longleftrightarrow> record_ok r \<and> pw_header pw = fst r \<and> pw_idxBuf pw = indexBytes (snd r) \<and> pw_stored pw = storedBytes (snd r)
     \<and> pw_storedLen pw = rh_StoredLen (fst r) \<and> pw_logicalLen pw = rh_LogicalLen (fst r)
     \<and> pw_payloadCRC pw = rh_PayloadChecksum (fst r)
     \<and> pw_extentID pw = rh_ExtentID (fst r) \<and> pw_generation pw = rh_Generation (fst r)
     \<and> (case pw_publishedValue pw of
          None \<Rightarrow> rh_Op (fst r) = RecordPut
        | Some v \<Rightarrow> rh_Op (fst r) = RecordDelete \<and> va_State v = ExtentTombstoned)"

text \<open>What the requests hand to the coordinator.\<close>

inductive prepared :: "frameCodec \<Rightarrow> pendingWrite \<Rightarrow> bool" for z where
  prepared_write: "writePrepare z rnd nonce nonces s req = (Submitted pw, s') \<Longrightarrow> length (wr_Data req) \<le> MaxExtentSize
     \<Longrightarrow> (\<And>j x. nonces j = Some x \<Longrightarrow> length x = NonceSize) \<Longrightarrow> prepared z pw"
| prepared_delete: "deletePrepare s e g = (Submitted pw, s') \<Longrightarrow> prepared z pw"

lemma writePrepare_Submitted:
  assumes "writePrepare z rnd nonce nonces s req = (Submitted pw, s')"
  obtains key header idxBuf stored where
    "storeKey z rnd nonce s = (Inr key, s')"
    "putMaterial z nonces key (wr_ExtentID req) (wr_Generation req) (wr_Data req) = Inr (header, idxBuf, stored)"
    "pw = \<lparr>pw_extentID = wr_ExtentID req, pw_generation = wr_Generation req, pw_header = header,
           pw_idxBuf = idxBuf, pw_stored = stored, pw_storedLen = of_nat (length stored),
           pw_logicalLen = of_nat (length (wr_Data req)), pw_payloadCRC = checksumOf (wr_Data req),
           pw_publishedValue = None, pw_segID = 0, pw_offset = 0, pw_streamSeq = 0\<rparr>"
    "lookup s (wr_ExtentID req) (wr_Generation req) = Inl ErrExtentNotFound" "\<not> st_closing s"
  using assms by (auto simp: writePrepare_def split: if_splits sum.splits option.splits prod.splits)

lemma putMaterial_fields:
  assumes "putMaterial z nonces key ext gen data = Inr (h, idx, stored)"
  shows "rh_Op h = RecordPut" "rh_ExtentID h = ext" "rh_Generation h = gen" "rh_StoredLen h = of_nat (length stored)"
    "rh_PayloadChecksum h = checksumOf data"
  using assms by (auto simp: putMaterial_def Let_def split: sum.splits prod.splits)

lemma prepared_pends:
  assumes "frameCodec_ok z" "prepared z pw"
  shows "\<exists>r. pends pw r"
  using assms(2)
proof cases
  case (prepared_write rnd nonce nonces s req s')
  obtain key h idx stored where m: "putMaterial z nonces key (wr_ExtentID req) (wr_Generation req) (wr_Data req) = Inr (h, idx, stored)"
    and pw: "pw = \<lparr>pw_extentID = wr_ExtentID req, pw_generation = wr_Generation req, pw_header = h,
           pw_idxBuf = idx, pw_stored = stored, pw_storedLen = of_nat (length stored),
           pw_logicalLen = of_nat (length (wr_Data req)), pw_payloadCRC = checksumOf (wr_Data req),
           pw_publishedValue = None, pw_segID = 0, pw_offset = 0, pw_streamSeq = 0\<rparr>"
    by (rule writePrepare_Submitted [OF prepared_write(1)])
  obtain scs where d: "describes h scs" "idx = indexBytes scs" "stored = storedBytes scs" "rh_LogicalLen h = of_nat (length (wr_Data req))"
    by (rule putMaterial_record [OF assms(1) prepared_write(3) m prepared_write(2)])
  note f = putMaterial_fields [OF m]
  have "RecordPut \<noteq> RecordDelete" by (simp add: RecordPut_def RecordDelete_def)
  then have "pends pw (h, scs)" using d f by (simp add: pends_def record_ok_def pw)
  then show ?thesis ..
next
  case (prepared_delete s e g s')
  let ?h = "\<lparr>rh_Magic = RecordMagic, rh_Version = FormatVersion, rh_Op = RecordDelete, rh_ExtentID = e,
                           rh_Generation = g, rh_LogicalLen = 0, rh_StoredLen = 0, rh_Codec = 0, rh_KeyID = 0,
                           rh_FrameSize = 0, rh_FrameCount = 0, rh_PayloadChecksum = 0, rh_FrameIndexCRC = CRC32C []\<rparr>"
  have "record_ok (?h, [])"
    by (simp add: record_ok_def describes_def headerOK_def validOp_def storedBytes_def indexBytes_def framingLen_def size_defs)
  then have "pends pw (?h, [])"
    using prepared_delete by (auto simp: deletePrepare_def pends_def storedBytes_def indexBytes_def split: if_splits sum.splits)
  then show ?thesis ..
qed

section \<open>Reservation\<close>

text \<open>The batch with the places the allocator gives it.\<close>

fun placeAll :: "u64 \<Rightarrow> nat \<Rightarrow> u64 \<Rightarrow> pendingWrite list \<Rightarrow> pendingWrite list" where
  "placeAll w off sq [] = []"
| "placeAll w off sq (pw # pws) =
     pw\<lparr>pw_segID := w, pw_offset := off, pw_streamSeq := sq\<rparr> # placeAll w (off + unat (framingOf pw)) (sq + 1) pws"

lemma length_placeAll [simp]: "length (placeAll w off sq pws) = length pws"
  by (induction pws arbitrary: off sq) simp_all

lemma reserveBatch_Inr:
  assumes "reserveBatch w a sq batch = (Inr batch', a', sq')"
  shows "batch' = placeAll w (al_offset a) sq batch"
    "al_offset a' = al_offset a + sum_list (map (\<lambda>pw. unat (framingOf pw)) batch)"
    "al_segmentID a' = al_segmentID a" "sq' = sq + of_nat (length batch)"
  using assms
  by (induction batch arbitrary: a sq batch' a' sq')
    (fastforce simp: Reserve_def algebra_simps split: if_splits prod.splits sum.splits)+

lemma framing_pends: "pends pw r \<Longrightarrow> unat (framingOf pw) = length (recordBytes r)"
  using framing_value [of "fst r" "snd r"] by (simp add: framingOf_def pends_def record_ok_def length_recordBytes)

lemma framing_sum: "list_all2 pends batch rs \<Longrightarrow> sum_list (map (\<lambda>pw. unat (framingOf pw)) batch) = length (recordsBytes rs)"
  by (induction rule: list_all2_induct) (simp_all add: framing_pends)

lemma writeRecords_append:
  assumes "list_all2 pends batch rs" "length f = off"
  shows "writeRecords f (placeAll w off sq batch) = (None, f @ recordsBytes rs)"
  using assms
proof (induction arbitrary: f off sq rule: list_all2_induct)
  case (Cons pw batch r rs)
  have "recordImage (fst r) (indexBytes (snd r)) (storedBytes (snd r)) = Inr (recordBytes r)"
    using Cons.hyps(1) recordImage_imageOf [of "fst r" "snd r"] by (simp add: pends_def record_ok_def recordBytes_def)
  then have "WriteRecordFramed f off (pw_header pw) (pw_idxBuf pw) (pw_stored pw) = Inr (f @ recordBytes r)"
    using Cons.hyps(1) Cons.prems by (auto simp: WriteRecordFramed_def pends_def writeAt_end)
  then show ?case using Cons.IH [of "f @ recordBytes r" "off + length (recordBytes r)"] Cons.prems Cons.hyps(1)
    by (simp add: framing_pends)
qed simp

lemma descriptors_placed:
  assumes "list_all2 pends batch rs"
  shows "map descriptorOf (placeAll w off sq batch) = descsAt w off rs"
  using assms
proof (induction arbitrary: off sq rule: list_all2_induct)
  case (Cons pw batch r rs)
  have "descriptorOf (pw\<lparr>pw_segID := w, pw_offset := off, pw_streamSeq := sq\<rparr>) = descAt w off (fst r)"
    using Cons.hyps(1) by (simp add: descriptorOf_def descAt_def pends_def)
  then show ?case using Cons framing_pends [OF Cons.hyps(1)] by simp
qed simp

lemma crc_placed: "list_all2 pends batch rs \<Longrightarrow> batchDescriptorsCRC (placeAll w off sq batch) = pendingDescriptorsCRC (descsAt w off rs)"
  by (simp add: batchDescriptorsCRC_def EncodeDescriptors_def Let_def descriptors_placed pendingDescriptorsCRC_eq)

section \<open>Committing a batch\<close>

text \<open>The part of the store that the log and its recovery depend on.\<close>

definition sameLog :: "Store \<Rightarrow> Store \<Rightarrow> bool" where
  "sameLog s s' \<longleftrightarrow> st_alloc s' = st_alloc s \<and> st_writer s' = st_writer s \<and> st_files s' = st_files s
     \<and> st_overlay s' = st_overlay s \<and> st_streamID s' = st_streamID s \<and> st_streamSeq s' = st_streamSeq s
     \<and> st_nextSeg s' = st_nextSeg s \<and> st_faults s' = st_faults s \<and> st_persistent s' = st_persistent s
     \<and> st_sidecars s' = st_sidecars s"

lemma sameLog_refl [simp]: "sameLog s s"
  by (simp add: sameLog_def)

lemma sameLog_trans: "sameLog s s' \<Longrightarrow> sameLog s' s'' \<Longrightarrow> sameLog s s''"
  by (simp add: sameLog_def)

lemma drainReady_log: "sameLog s (drainReady n s) \<and> st_index (drainReady n s) = st_index s"
  by (induction n arbitrary: s) (auto simp: sameLog_def split: option.split)

lemma publish_log: "sameLog s (snd (publishRecoveryBatch b s))" "st_index (snd (publishRecoveryBatch b s)) = st_index s"
  using drainReady_log [of "s\<lparr>st_readyBatches := AList.update (rb_previousSeq b) (b\<lparr>rb_remaining := rb_remaining b - 1\<rparr>) (st_readyBatches s)\<rparr>"]
  by (auto simp: publishRecoveryBatch_def Let_def sameLog_def)

lemma publishEach_log: "sameLog s (publishEach n b s) \<and> st_index (publishEach n b s) = st_index s"
proof (induction n arbitrary: b s)
  case (Suc n)
  obtain b' s' where p: "publishRecoveryBatch b s = (b', s')" by fastforce
  then show ?case using Suc [where b = b' and s = s'] publish_log [where s = s and b = b] sameLog_trans [of s s'] by simp
qed simp

text \<open>The watermark: with every earlier batch published it moves to the batch's sequence number.\<close>

lemma publishEach_waiting:
  "int n < rb_remaining b \<Longrightarrow> publishEach n b s = s"
  by (induction n arbitrary: b) (simp_all add: publishRecoveryBatch_def Let_def)

lemma publishRecoveryBatch_waiting:
  "rb_remaining b \<noteq> 1 \<Longrightarrow> publishRecoveryBatch b s = (b\<lparr>rb_remaining := rb_remaining b - 1\<rparr>, s)"
  by (simp add: publishRecoveryBatch_def Let_def)

lemma publishEach_last:
  assumes "rb_remaining b = int (Suc n)" "st_readyBatches s = []" "rb_previousSeq b = st_publishedSeq s" "rb_seq b \<noteq> st_publishedSeq s"
  shows "publishEach (Suc n) b s =
    s\<lparr>st_publishedSeq := rb_seq b, st_flushSeq := rb_seq b, st_flushMutations := st_flushMutations s + rb_mutations b\<rparr>"
  using assms
proof (induction n arbitrary: b)
  case 0
  then show ?case by (simp add: publishRecoveryBatch_def Let_def)
next
  case (Suc n)
  have "publishEach (Suc (Suc n)) b s = publishEach (Suc n) (b\<lparr>rb_remaining := rb_remaining b - 1\<rparr>) s"
    using Suc.prems(1) by (simp only: publishEach.simps(2) publishRecoveryBatch_waiting) (simp add: publishRecoveryBatch_waiting)
  then show ?case using Suc by simp
qed

definition appendable :: "u64 \<Rightarrow> Store \<Rightarrow> bool" where
  "appendable w s \<longleftrightarrow> st_writer s = Some w \<and> al_segmentID (st_alloc s) = w \<and> st_nextSeg s = w
     \<and> length (activeFile s) = al_offset (st_alloc s) \<and> st_faults s = (\<lambda>_. None)"

lemma activeFile_set [simp]: "st_writer s = Some w \<Longrightarrow> activeFile (setActive s f) = f"
  by (simp add: activeFile_def setActive_def)

lemma setActive_simps [simp]:
  "st_writer (setActive s f) = st_writer s" "st_alloc (setActive s f) = st_alloc s" "st_overlay (setActive s f) = st_overlay s"
  "st_streamID (setActive s f) = st_streamID s" "st_streamSeq (setActive s f) = st_streamSeq s" "st_faults (setActive s f) = st_faults s"
  "st_nextSeg (setActive s f) = st_nextSeg s" "st_index (setActive s f) = st_index s" "st_persistent (setActive s f) = st_persistent s"
  "st_sidecars (setActive s f) = st_sidecars s" "st_readyBatches (setActive s f) = st_readyBatches s"
  "st_publishedSeq (setActive s f) = st_publishedSeq s" "st_flushSeq (setActive s f) = st_flushSeq s"
  "st_closing (setActive s f) = st_closing s" "st_enc (setActive s f) = st_enc s" "st_locCache (setActive s f) = st_locCache s"
  "st_segCache (setActive s f) = st_segCache s" "st_applyCh (setActive s f) = st_applyCh s"
  "st_flushMutations (setActive s f) = st_flushMutations s"
  by (simp_all add: setActive_def split: option.split)

lemma setActive_other: "w' \<noteq> w \<Longrightarrow> st_writer s = Some w \<Longrightarrow> map_of (st_files (setActive s f)) w' = map_of (st_files s) w'"
  by (simp add: setActive_def update_conv')

lemma activeFile_cong: "st_writer s' = st_writer s \<Longrightarrow> st_files s' = st_files s \<Longrightarrow> activeFile s' = activeFile s"
  by (simp add: activeFile_def split: option.split)

text \<open>The watermark is where the stream is: no published batch waits for an earlier one.\<close>

definition caughtUp :: "Store \<Rightarrow> bool" where
  "caughtUp s \<longleftrightarrow> st_readyBatches s = [] \<and> st_publishedSeq s = st_streamSeq s \<and> st_flushSeq s = st_streamSeq s"

lemma newActiveSegment_ids: "al_segmentID (st_alloc (newActiveSegment now s c n)) = st_nextSeg s + 1"
  by (simp add: newActiveSegment_def Let_def NewAllocator_def)

lemma makeRoom_cases:
  assumes "makeRoom now s batch = (Inr (), s1)"
  shows "s1 = s \<or> al_segmentID (st_alloc s1) = st_nextSeg s + 1"
  using assms
  by (auto simp: makeRoom_def Let_def sealActiveLocked_def newActiveSegment_ids split: if_splits prod.splits sum.splits)

lemma publishCommitted_Inr:
  assumes "st_faults s = (\<lambda>_. None)" "publishCommitted s bc batch = (Inr batch', s')"
  shows "batch' = batch"
    "s' = publishEach (length batch)
       \<lparr>rb_previousSeq = bc_Seq bc - of_nat (length batch), rb_seq = bc_Seq bc,
        rb_remaining = int (length batch), rb_mutations = int (length batch)\<rparr>
       (s\<lparr>st_alloc := RecordCommit (st_alloc s) (st_streamSeq s), st_overlay := publishOverlay (st_overlay s) batch\<rparr>)"
  using assms by (auto simp: publishCommitted_def Let_def)

text \<open>A batch that is appended behind the end of the active file, with the records it stands for.\<close>

lemma appendBatch_Inr:
  assumes w: "st_writer s = Some w" "st_faults s = (\<lambda>_. None)" and b: "list_all2 pends batch rs" "batch \<noteq> []"
    and off: "length (activeFile s) = off" and co: "co = off + length (recordsBytes rs)"
    and r: "appendBatch s co (placeAll w off sq batch) = (Inr batch', s')"
  obtains s2 where "batch' = placeAll w off sq batch"
    "sameLog (s\<lparr>st_alloc := RecordCommit (st_alloc s) (st_streamSeq s), st_overlay := publishOverlay (st_overlay s) batch',
        st_files := AList.update w (activeFile s @ batchBytes w (st_streamID s) off (st_streamSeq s) rs) (st_files s)\<rparr>) s2"
    "st_index s2 = st_index s" "st_readyBatches s2 = st_readyBatches s" "st_publishedSeq s2 = st_publishedSeq s"
    "st_flushMutations s2 = st_flushMutations s"
    "s' = publishEach (length batch)
       \<lparr>rb_previousSeq = st_streamSeq s - of_nat (length batch), rb_seq = st_streamSeq s,
        rb_remaining = int (length batch), rb_mutations = int (length batch)\<rparr> s2"
proof -
  let ?p = "placeAll w off sq batch"
  let ?bc = "\<lparr>bc_Magic = BatchCommitMagic, bc_Version = FormatVersion, bc_StreamID = st_streamID s,
              bc_Seq = st_streamSeq s, bc_RecordCount = of_nat (length ?p), bc_FirstOffset = of_nat (pw_offset (hd ?p)),
              bc_LastOffset = of_nat co, bc_DescriptorsCRC = batchDescriptorsCRC ?p\<rparr>"
  let ?f1 = "activeFile s @ recordsBytes rs"
  let ?s2 = "setActive (setActive s ?f1) (WriteBatchCommit ?f1 co ?bc)"
  let ?s3 = "?s2\<lparr>st_syncCalls := Suc (st_syncCalls ?s2)\<rparr>"
  have wr: "writeRecords (activeFile s) ?p = (None, ?f1)" by (rule writeRecords_append [OF b(1) off])
  have ln: "length batch = length rs" using b(1) by (rule list_all2_lengthD)
  have hd: "pw_offset (hd ?p) = off" using b(2) by (cases batch) simp_all
  have bc: "?bc = commitFor w (st_streamID s) off (st_streamSeq s) rs"
    by (simp add: commitFor_def hd ln co crc_placed [OF b(1)])
  have pc: "publishCommitted ?s3 ?bc ?p = (Inr batch', s')"
    using r by (simp add: appendBatch_def wr w Let_def)
  have fl: "WriteBatchCommit ?f1 co ?bc = activeFile s @ batchBytes w (st_streamID s) off (st_streamSeq s) rs"
    using off co bc writeAt_end [of ?f1] by (simp add: WriteBatchCommit_def batchBytes_def)
  have files: "st_files ?s2 = AList.update w (activeFile s @ batchBytes w (st_streamID s) off (st_streamSeq s) rs) (st_files s)"
    unfolding fl by (simp add: setActive_def w)
  have fa: "st_faults ?s3 = (\<lambda>_. None)" using w by simp
  let ?s4 = "?s3\<lparr>st_alloc := RecordCommit (st_alloc ?s3) (st_streamSeq ?s3), st_overlay := publishOverlay (st_overlay ?s3) ?p\<rparr>"
  show ?thesis
    by (rule that [of ?s4])
      (use publishCommitted_Inr [OF fa pc] files in \<open>simp_all add: sameLog_def\<close>)
qed

lemma appendBatch_segment: "appendBatch s co batch = (r, s') \<Longrightarrow> al_segmentID (st_alloc s') = al_segmentID (st_alloc s)"
proof -
  have p: "st_alloc (publishEach n b s) = st_alloc s" for n b s using publishEach_log [of s n b] by (simp add: sameLog_def)
  show "appendBatch s co batch = (r, s') \<Longrightarrow> al_segmentID (st_alloc s') = al_segmentID (st_alloc s)"
    by (auto simp: appendBatch_def publishCommitted_def Let_def p RecordCommit_def split: prod.splits option.splits)
qed

lemma commitBatch_parts:
  assumes a: "appendable w s" and c: "commitBatch now s batch = (Inr batch', s')" "al_segmentID (st_alloc s') = w"
  obtains a1 a2 where "reserveBatch w (st_alloc s) (st_streamSeq s) batch
      = (Inr (placeAll w (al_offset (st_alloc s)) (st_streamSeq s) batch), a1, st_streamSeq s + of_nat (length batch))"
    "al_offset a1 = al_offset (st_alloc s) + sum_list (map (\<lambda>pw. unat (framingOf pw)) batch)"
    "a2 = a1\<lparr>al_offset := al_offset a1 + BatchCommitSize\<rparr>" "al_segmentID a1 = w"
    "appendBatch (s\<lparr>st_alloc := a2, st_streamSeq := st_streamSeq s + of_nat (length batch)\<rparr>) (al_offset a1)
       (placeAll w (al_offset (st_alloc s)) (st_streamSeq s) batch) = (Inr batch', s')"
proof -
  obtain s1 where s1: "makeRoom now s batch = (Inr (), s1)"
    using c(1) by (auto simp: commitBatch_def split: prod.splits sum.splits)
  obtain p a1 sq co a2 where r: "reserveBatch (al_segmentID (st_alloc s1)) (st_alloc s1) (st_streamSeq s1) batch = (Inr p, a1, sq)"
    and rc: "ReserveCommit a1 BatchCommitSize = (Inr co, a2)"
    and ap: "appendBatch (s1\<lparr>st_alloc := a2, st_streamSeq := sq\<rparr>) co p = (Inr batch', s')"
    using c(1) s1 by (auto simp: commitBatch_def split: prod.splits sum.splits)
  note res = reserveBatch_Inr [OF r]
  have a2: "co = al_offset a1" "a2 = a1\<lparr>al_offset := al_offset a1 + BatchCommitSize\<rparr>"
    using rc by (auto simp: ReserveCommit_def split: if_splits)
  have "al_segmentID (st_alloc s1) = w"
    using appendBatch_segment [OF ap] c(2) res(3) a2(2) by simp
  then have "s1 = s" using makeRoom_cases [OF s1] a by (auto simp: appendable_def)
  then show ?thesis using that [of a1 a2] r res a2 ap a by (simp add: appendable_def)
qed

lemma commitBatch_Inr:
  assumes a: "appendable w s" and b: "list_all2 pends batch rs" "batch \<noteq> []"
    and c: "commitBatch now s batch = (Inr batch', s')" "al_segmentID (st_alloc s') = w"
  shows "batch' = placeAll w (al_offset (st_alloc s)) (st_streamSeq s) batch"
    "activeFile s' = activeFile s @ batchBytes w (st_streamID s) (length (activeFile s)) (st_streamSeq s + of_nat (length batch)) rs"
    "st_files s' = AList.update w (activeFile s') (st_files s)"
    "st_overlay s' = publishOverlay (st_overlay s) batch'" "st_streamSeq s' = st_streamSeq s + of_nat (length batch)"
    "appendable w s'" "st_index s' = st_index s" "st_streamID s' = st_streamID s" "st_sidecars s' = st_sidecars s"
    "st_persistent s' = st_persistent s"
    "caughtUp s \<Longrightarrow> 0 < (of_nat (length batch) :: u64) \<Longrightarrow>
       caughtUp s' \<and> st_flushMutations s' = st_flushMutations s + int (length batch)"
proof -
  let ?sq = "st_streamSeq s + of_nat (length batch)"
  obtain a1 a2 where a1: "al_offset a1 = al_offset (st_alloc s) + sum_list (map (\<lambda>pw. unat (framingOf pw)) batch)" "al_segmentID a1 = w"
    and a2: "a2 = a1\<lparr>al_offset := al_offset a1 + BatchCommitSize\<rparr>"
    and ap: "appendBatch (s\<lparr>st_alloc := a2, st_streamSeq := ?sq\<rparr>) (al_offset a1)
       (placeAll w (al_offset (st_alloc s)) (st_streamSeq s) batch) = (Inr batch', s')"
    by (rule commitBatch_parts [OF a c])
  let ?s1 = "s\<lparr>st_alloc := a2, st_streamSeq := ?sq\<rparr>"
  have af: "activeFile ?s1 = activeFile s" by (rule activeFile_cong) simp_all
  have w: "st_writer ?s1 = Some w" "st_faults ?s1 = (\<lambda>_. None)" "length (activeFile ?s1) = al_offset (st_alloc s)"
    using a af by (simp_all add: appendable_def)
  have co: "al_offset a1 = al_offset (st_alloc s) + length (recordsBytes rs)" using a1(1) framing_sum [OF b(1)] by simp
  let ?B = "batchBytes w (st_streamID s) (al_offset (st_alloc s)) ?sq rs"
  obtain s2 where s2: "batch' = placeAll w (al_offset (st_alloc s)) (st_streamSeq s) batch"
    "sameLog (?s1\<lparr>st_alloc := RecordCommit (st_alloc ?s1) (st_streamSeq ?s1), st_overlay := publishOverlay (st_overlay ?s1) batch',
        st_files := AList.update w (activeFile ?s1 @ batchBytes w (st_streamID ?s1) (al_offset (st_alloc s)) (st_streamSeq ?s1) rs) (st_files ?s1)\<rparr>) s2"
    "st_index s2 = st_index ?s1" "st_readyBatches s2 = st_readyBatches ?s1" "st_publishedSeq s2 = st_publishedSeq ?s1"
    "st_flushMutations s2 = st_flushMutations ?s1"
    "s' = publishEach (length batch)
       \<lparr>rb_previousSeq = st_streamSeq ?s1 - of_nat (length batch), rb_seq = st_streamSeq ?s1,
        rb_remaining = int (length batch), rb_mutations = int (length batch)\<rparr> s2"
    by (rule appendBatch_Inr [OF w(1,2) b w(3) co ap])
  let ?b = "\<lparr>rb_previousSeq = st_streamSeq ?s1 - of_nat (length batch), rb_seq = st_streamSeq ?s1,
        rb_remaining = int (length batch), rb_mutations = int (length batch)\<rparr>"
  have sl: "sameLog s2 s'" "st_index s' = st_index s2" using publishEach_log [of s2 "length batch" ?b] s2(7) by simp_all
  have fl: "st_files s' = AList.update w (activeFile s @ ?B) (st_files s)" using s2(2) sl af by (simp add: sameLog_def)
  have wr: "st_writer s' = Some w" using s2(2) sl w by (simp add: sameLog_def)
  have lf: "al_offset (st_alloc s) = length (activeFile s)" using a by (simp add: appendable_def)
  have act: "activeFile s' = activeFile s @ ?B" using fl wr by (simp add: activeFile_def)
  then show "activeFile s' = activeFile s @ batchBytes w (st_streamID s) (length (activeFile s)) ?sq rs" using lf by simp
  show "st_files s' = AList.update w (activeFile s') (st_files s)" using fl act by simp
  show "batch' = placeAll w (al_offset (st_alloc s)) (st_streamSeq s) batch" by (rule s2(1))
  show "st_overlay s' = publishOverlay (st_overlay s) batch'" "st_streamSeq s' = ?sq" "st_index s' = st_index s"
    "st_streamID s' = st_streamID s" "st_sidecars s' = st_sidecars s" "st_persistent s' = st_persistent s"
    using s2 sl by (simp_all add: sameLog_def)
  have "length ?B = length (recordsBytes rs) + BatchCommitSize" by (simp add: batchBytes_def)
  then show "appendable w s'"
    using s2(2) sl act wr a c(2) co a2 by (simp add: appendable_def sameLog_def RecordCommit_def)
  show "caughtUp s' \<and> st_flushMutations s' = st_flushMutations s + int (length batch)" if cu: "caughtUp s" and n: "0 < (of_nat (length batch) :: u64)"
  proof -
    obtain n where ln: "length batch = Suc n" using b(2) by (cases batch) simp_all
    have "s' = s2\<lparr>st_publishedSeq := rb_seq ?b, st_flushSeq := rb_seq ?b, st_flushMutations := st_flushMutations s2 + rb_mutations ?b\<rparr>"
      unfolding s2(7) ln
      by (rule publishEach_last) (use cu n s2 ln in \<open>simp_all add: caughtUp_def\<close>)
    then show ?thesis using s2 cu by (simp add: caughtUp_def sameLog_def)
  qed
qed

lemma reserveBatch_fits:
  assumes "al_offset a + sum_list (map (\<lambda>pw. unat (framingOf pw)) batch) \<le> al_maxSegmentBytes a" "CanReserveRecords a (length batch)"
  shows "\<exists>batch' a' sq'. reserveBatch w a sq batch = (Inr batch', a', sq') \<and> al_maxSegmentBytes a' = al_maxSegmentBytes a"
  using assms
proof (induction batch arbitrary: a sq)
  case (Cons pw batch)
  have free: "al_recordCount a \<le> al_maxRecords a" "Suc (length batch) \<le> unat (al_maxRecords a - al_recordCount a)"
    using Cons.prems(2) by (simp_all add: CanReserveRecords_def)
  then have u: "unat (al_recordCount a) + Suc (length batch) \<le> unat (al_maxRecords a)"
    by (simp add: unat_sub)
  then have lt: "al_recordCount a < al_maxRecords a" by (simp add: word_less_nat_alt)
  then have nle: "\<not> al_maxRecords a \<le> al_recordCount a" by (metis leD)
  have u1: "unat (al_recordCount a + 1) = Suc (unat (al_recordCount a))"
  proof -
    have "unat (al_maxRecords a) < 2 ^ LENGTH(64)" by (rule unsigned_less)
    then show ?thesis using u by (simp add: unat_word_ariths)
  qed
  obtain a0 where r: "Reserve a (framingOf pw) (pw_extentID pw) (pw_storedLen pw) = (Inr (al_offset a), a0)" "al_offset a0 = al_offset a + unat (framingOf pw)"
    "al_maxSegmentBytes a0 = al_maxSegmentBytes a" "al_recordCount a0 = al_recordCount a + 1" "al_maxRecords a0 = al_maxRecords a"
    using Cons.prems(1) nle by (simp_all add: Reserve_def)
  have "al_recordCount a + 1 \<le> al_maxRecords a" using u u1 by (simp add: word_le_nat_alt)
  then have "CanReserveRecords a0 (length batch)"
    using u u1 by (simp add: CanReserveRecords_def r unat_sub)
  then obtain batch' a' sq' where "reserveBatch w a0 (sq + 1) batch = (Inr batch', a', sq')" "al_maxSegmentBytes a' = al_maxSegmentBytes a"
    using Cons.IH [of a0 "sq + 1"] Cons.prems(1) r by auto
  then show ?case using r(1) by simp
qed simp

text \<open>A batch for which the active segment has room is committed there.\<close>

lemma commitBatch_fits:
  assumes a: "appendable w s" and b: "list_all2 pends batch rs" "batch \<noteq> []"
    and room: "CanReserveBatch (st_alloc s) (BatchCommitSize + length (recordsBytes rs))" "CanReserveRecords (st_alloc s) (length batch)"
  shows "\<exists>batch' s'. commitBatch now s batch = (Inr batch', s') \<and> al_segmentID (st_alloc s') = w"
proof -
  have w: "st_writer s = Some w" "al_segmentID (st_alloc s) = w" "st_faults s = (\<lambda>_. None)" "length (activeFile s) = al_offset (st_alloc s)"
    using a by (simp_all add: appendable_def)
  note fs = framing_sum [OF b(1)]
  have mk: "makeRoom now s batch = (Inr (), s)" using room by (simp add: makeRoom_def Let_def fs)
  have fit: "al_offset (st_alloc s) + sum_list (map (\<lambda>pw. unat (framingOf pw)) batch) \<le> al_maxSegmentBytes (st_alloc s)"
    using room(1) unfolding fs CanReserveBatch_def by arith
  obtain p a1 sq where r: "reserveBatch w (st_alloc s) (st_streamSeq s) batch = (Inr p, a1, sq)" "al_maxSegmentBytes a1 = al_maxSegmentBytes (st_alloc s)"
    using reserveBatch_fits [OF fit room(2), of w "st_streamSeq s"] by blast
  note R = reserveBatch_Inr [OF r(1)]
  have rc: "ReserveCommit a1 BatchCommitSize = (Inr (al_offset a1), a1\<lparr>al_offset := al_offset a1 + BatchCommitSize\<rparr>)"
  proof -
    have "al_offset a1 + BatchCommitSize \<le> al_maxSegmentBytes a1" using room(1) r(2) R(2) fs unfolding CanReserveBatch_def by linarith
    then show ?thesis by (simp add: ReserveCommit_def)
  qed
  let ?s = "s\<lparr>st_alloc := a1\<lparr>al_offset := al_offset a1 + BatchCommitSize\<rparr>, st_streamSeq := sq\<rparr>"
  have cb: "commitBatch now s batch = appendBatch ?s (al_offset a1) p"
    by (simp add: commitBatch_def mk w(2) r(1) rc)
  have af: "activeFile ?s = activeFile s" by (rule activeFile_cong) simp_all
  have "writeRecords (activeFile ?s) p = (None, activeFile s @ recordsBytes rs)"
    unfolding af R(1) by (rule writeRecords_append [OF b(1) w(4)])
  then obtain s' where "appendBatch ?s (al_offset a1) p = (Inr p, s')"
    using w(3) by (simp add: appendBatch_def publishCommitted_def Let_def)
  then show ?thesis using cb appendBatch_segment [of ?s "al_offset a1" p "Inr p" s'] R(3) w(2) by simp
qed
end
