(* ===== verification/Store_View.thy ===== *)
theory Store_View
  imports Commit_Laws
begin

text \<open>
  Where the store finds an extent: the overlay first, then the index. The lemmas show that the rows of
  the index decode to what was encoded, that draining the overlay into the index keeps every lookup,
  and therefore that a flush keeps what readers see, whether it succeeds or fails.
\<close>

section \<open>Rows of the index\<close>

lemma length_indexKey [simp]: "length (indexKey e g) = KeyLen"
  by (simp add: indexKey_def KeyLen_def)

lemma key_fields [simp]: "getUint64 (slice 0 8 (indexKey e g)) = e" "getUint64 (slice 8 16 (indexKey e g)) = g"
  by (simp_all add: indexKey_def)

lemma indexKey_inject [simp]: "indexKey e g = indexKey e' g' \<longleftrightarrow> e = e' \<and> g = g'"
  by (metis key_fields)

lemma length_encodeValue [simp]: "length (encodeValue v) = ValueLen"
  by (simp add: encodeValue_def ValueLen_def)

lemma decodeValue_encodeValue [simp]: "decodeValue (encodeValue v) = Inr v"
  by (simp add: decodeValue_def encodeValue_def ValueLen_def nth_append)

lemma index_Get_apply:
  "index_Get (applyMutation ix m) e g =
     (if mu_ExtentID m = e \<and> mu_Generation m = g then Inr (mu_Value m) else index_Get ix e g)"
  by (auto simp: index_Get_def applyMutation_def update_conv')

section \<open>Overlays\<close>

text \<open>An overlay between flushes: nothing is staged, and its keys are index keys, each once.\<close>

definition ov_ok :: "Overlay \<Rightarrow> bool" where
  "ov_ok ov \<longleftrightarrow> ov_draining ov = [] \<and> distinct (map fst (ov_entries ov)) \<and> (\<forall>k \<in> fst ` set (ov_entries ov). \<exists>e g. k = indexKey e g)"

lemma NewOverlay_ok [simp]: "ov_ok NewOverlay"
  by (simp add: ov_ok_def NewOverlay_def)

lemma ov_Put_ok: "ov_ok ov \<Longrightarrow> ov_ok (ov_Put ov (indexKey e g) v)"
  by (auto simp: ov_ok_def ov_Put_def distinct_update dom_update)

lemma publishOverlay_ok: "ov_ok ov \<Longrightarrow> ov_ok (publishOverlay ov batch)"
  unfolding publishOverlay_def by (induction batch arbitrary: ov) (simp_all add: ov_Put_ok)

lemma ov_Get_Put: "ov_Get (ov_Put ov k v) k' = (if k' = k then Some v else ov_Get ov k')"
  by (simp add: ov_Get_def ov_Put_def update_conv' split: option.split)

lemma ov_Get_New [simp]: "ov_Get NewOverlay k = None"
  by (simp add: ov_Get_def NewOverlay_def)

lemma foldl_update_fresh:
  "distinct (map fst es) \<Longrightarrow> fst ` set d \<inter> fst ` set es = {} \<Longrightarrow> foldl (\<lambda>d e. AList.update (fst e) (snd e) d) d es = d @ es"
proof (induction es arbitrary: d)
  case (Cons e es)
  have fresh: "AList.update k v d = d @ [(k, v)]" if "k \<notin> fst ` set d" for k v and d :: "('a \<times> 'b) list"
    using that by (induction d) auto
  have "AList.update (fst e) (snd e) d = d @ [e]" using fresh [of "fst e" d "snd e"] Cons.prems(2) by auto
  moreover have "fst ` set (d @ [e]) \<inter> fst ` set es = {}" using Cons.prems by auto
  ultimately show ?case using Cons.IH [of "d @ [e]"] Cons.prems(1) by simp
qed simp

lemma ov_Drain_ok:
  assumes "ov_ok ov"
  shows "ov_Drain ov = (map mutationOf (ov_entries ov), \<lparr>ov_entries = [], ov_draining = ov_entries ov\<rparr>)"
  using assms foldl_update_fresh [of "ov_entries ov" "[]"] by (simp add: ov_Drain_def ov_ok_def)

lemma drained_back: "ov_ok ov \<Longrightarrow> ov_RestoreDrained \<lparr>ov_entries = [], ov_draining = ov_entries ov\<rparr> = ov"
  by (simp add: ov_RestoreDrained_def ov_ok_def)

lemma drained_gone: "ov_DiscardDrained \<lparr>ov_entries = [], ov_draining = d\<rparr> = NewOverlay"
  by (simp add: ov_DiscardDrained_def NewOverlay_def)

lemma index_Get_drained:
  assumes "distinct (map fst es)" "\<forall>k \<in> fst ` set es. \<exists>e g. k = indexKey e g"
  shows "index_Get (applyMutations ix (map mutationOf es)) e g =
    (case map_of es (indexKey e g) of Some v \<Rightarrow> Inr v | None \<Rightarrow> index_Get ix e g)"
  using assms
proof (induction es arbitrary: ix)
  case (Cons p es)
  obtain e' g' v where p: "p = (indexKey e' g', v)" using Cons.prems(2) by (cases p) auto
  let ?m = "\<lparr>mu_ExtentID = e', mu_Generation = g', mu_Value = v\<rparr>"
  have a: "applyMutations ix (map mutationOf (p # es)) = applyMutations (applyMutation ix ?m) (map mutationOf es)"
    by (simp add: p applyMutations_def mutationOf_def)
  have n: "e' = e \<and> g' = g \<Longrightarrow> map_of es (indexKey e g) = None" using Cons.prems(1) by (auto simp: p map_of_eq_None_iff)
  have q: "index_Get (applyMutation ix ?m) e g = (if e' = e \<and> g' = g then Inr v else index_Get ix e g)"
    by (auto simp: index_Get_apply)
  have k: "map_of (p # es) (indexKey e g) = (if e' = e \<and> g' = g then Some v else map_of es (indexKey e g))"
    by (auto simp: p)
  have "index_Get (applyMutations (applyMutation ix ?m) (map mutationOf es)) e g =
    (case map_of es (indexKey e g) of Some v \<Rightarrow> Inr v | None \<Rightarrow> index_Get (applyMutation ix ?m) e g)"
    using Cons.IH Cons.prems by simp
  then show ?case unfolding a k q using n by (cases "e' = e"; cases "g' = g"; cases "map_of es (indexKey e g)") simp_all
qed (simp add: applyMutations_def)

section \<open>Flushing keeps what readers see\<close>

lemma lookup_cong: "st_overlay s' = st_overlay s \<Longrightarrow> st_index s' = st_index s \<Longrightarrow> lookup s' e g = lookup s e g"
  by (simp add: lookup_def split: option.split)

lemma lookup_drained:
  assumes "ov_ok ov" "ov = st_overlay s"
  shows "index_Get (applyMutations (st_index s) (map mutationOf (ov_entries ov))) e g = lookup s e g"
  using assms index_Get_drained [of "ov_entries ov" "st_index s" e g]
  by (simp add: ov_ok_def lookup_def ov_Get_def split: option.split)


text \<open>The three ways a flush can go.\<close>

definition markerFor :: "u64 \<Rightarrow> u8 list" where
  "markerFor sq = encodeCommitRecord
     \<lparr>cr_Seq = sq, cr_Op = OpIndexSafe, cr_ExtentID = 0, cr_Generation = 0, cr_SegmentID = 0, cr_Offset = 0,
      cr_StoredLen = 0, cr_LogicalLen = 0, cr_Checksum = 0, cr_SourceSegment = 0, cr_SourceOffset = 0\<rparr>"

definition checkpointFor :: "Store \<Rightarrow> RecoveryCheckpoint" where
  "checkpointFor s = \<lparr>ck_FormatVersion = 0, ck_StreamID = st_streamID s, ck_SegmentID = al_segmentID (st_alloc s),
     ck_SafeOffset = int (al_offset (st_alloc s) + CommitRecordSize), ck_SafeSeq = st_flushSeq s\<rparr>"

definition drainedIndex :: "Store \<Rightarrow> Index" where
  "drainedIndex s = applyMutations (st_index s) (map mutationOf (ov_entries (st_overlay s)))"

lemma setActive_upds:
  "setActive (s\<lparr>st_overlay := ov\<rparr>) f = (setActive s f)\<lparr>st_overlay := ov\<rparr>"
  "setActive (s\<lparr>st_index := ix\<rparr>) f = (setActive s f)\<lparr>st_index := ix\<rparr>"
  by (simp_all add: setActive_def split: option.split)

lemma activeFile_upds:
  "activeFile (s\<lparr>st_overlay := ov\<rparr>) = activeFile s" "activeFile (s\<lparr>st_index := ix\<rparr>) = activeFile s"
  by (rule activeFile_cong; simp)+

definition marked :: "Store \<Rightarrow> Store" where
  "marked s = (setActive s (writeAt (activeFile s) (al_offset (st_alloc s)) (markerFor (st_flushSeq s))))
     \<lparr>st_index := drainedIndex s, st_alloc := Consume (st_alloc s) CommitRecordSize\<rparr>"

lemma flush_eq:
  assumes ok: "ov_ok (st_overlay s)"
  shows "flush s = (if ov_entries (st_overlay s) = [] then (Inr (), s)
    else case CurrentTail (st_alloc s) of Inl e \<Rightarrow> (Inl e, s\<lparr>st_index := drainedIndex s\<rparr>)
    | Inr _ \<Rightarrow> case StoreRecoveryCheckpoint (st_persistent s) (st_sidecars s) (checkpointFor s) of
         Inl e \<Rightarrow> (Inl e, marked s)
       | Inr side \<Rightarrow> (Inr (), (marked s)\<lparr>st_sidecars := side, st_overlay := NewOverlay, st_safeSeq := st_flushSeq s,
                                        st_flushMutations := 0\<rparr>))"
proof (cases "ov_entries (st_overlay s) = []")
  case True
  have "st_overlay s = \<lparr>ov_entries = [], ov_draining = []\<rparr>" using ok True by (cases "st_overlay s") (simp add: ov_ok_def)
  then have "s\<lparr>st_overlay := \<lparr>ov_entries = [], ov_draining = []\<rparr>\<rparr> = s" by (cases s) simp
  then show ?thesis unfolding flush_def ov_Drain_ok [OF ok] using True by (simp add: Let_def)
next
  case False
  let ?d = "\<lparr>ov_entries = [], ov_draining = ov_entries (st_overlay s)\<rparr>"
  let ?ms = "map mutationOf (ov_entries (st_overlay s))"
  define d where "d = ?d"
  have rest: "ov_RestoreDrained d = st_overlay s" unfolding d_def using drained_back [OF ok] .
  have gone: "ov_DiscardDrained d = NewOverlay" unfolding d_def by (rule drained_gone)
  have ne: "?ms \<noteq> []" using False by simp
  have an: "applyNow (s\<lparr>st_overlay := d\<rparr>) ?ms = s\<lparr>st_overlay := d, st_index := drainedIndex s\<rparr>"
    by (simp add: applyNow_def drainedIndex_def)
  have w: "writeIndexSafeLocked (s\<lparr>st_overlay := d, st_index := drainedIndex s\<rparr>) (st_flushSeq s) =
    (case CurrentTail (st_alloc s) of Inl e \<Rightarrow> (Inl e, s\<lparr>st_overlay := d, st_index := drainedIndex s\<rparr>)
     | Inr _ \<Rightarrow> (Inr (checkpointFor s), (marked s)\<lparr>st_overlay := d\<rparr>))"
    by (simp add: writeIndexSafeLocked_def Let_def CurrentTail_def markerFor_def checkpointFor_def marked_def setActive_upds activeFile_upds)
  have same: "s\<lparr>st_overlay := st_overlay s, st_index := ix\<rparr> = s\<lparr>st_index := ix\<rparr>" for ix by (cases s) simp
  have mk: "(marked s)\<lparr>st_overlay := st_overlay s\<rparr> = marked s" "st_persistent (marked s) = st_persistent s"
    "st_sidecars (marked s) = st_sidecars s" "st_flushMutations (marked s) = st_flushMutations s"
    by (simp_all add: marked_def)
  show ?thesis
    unfolding flush_def ov_Drain_ok [OF ok] d_def [symmetric] prod.case Let_def an w if_not_P [OF ne] if_not_P [OF False]
    by (cases "CurrentTail (st_alloc s)"; cases "StoreRecoveryCheckpoint (st_persistent s) (st_sidecars s) (checkpointFor s)")
      (simp_all add: rest gone same mk)
qed

lemma marked_view: "st_overlay (marked s) = st_overlay s" "st_index (marked s) = drainedIndex s"
  by (simp_all add: marked_def)

lemma flush_view:
  assumes ok: "ov_ok (st_overlay s)" and f: "flush s = (r, s')"
  shows "lookup s' e g = lookup s e g \<and> ov_ok (st_overlay s')"
proof -
  note d = lookup_drained [OF ok refl, folded drainedIndex_def]
  have "st_overlay s' = st_overlay s \<and> (st_index s' = st_index s \<or> st_index s' = drainedIndex s)
      \<or> st_overlay s' = NewOverlay \<and> st_index s' = drainedIndex s"
    using f unfolding flush_eq [OF ok] by (auto simp: marked_view split: if_splits sum.splits)
  then show ?thesis using ok d by (auto simp: lookup_def split: option.split)
qed

end
