(* ===== verification/Recovery_Laws.thy ===== *)
theory Recovery_Laws
  imports Store_View
begin

text \<open>
  A store that serves requests and the store that is opened after a crash. The invariant ties the
  active segment, the recovery checkpoint and the overlay together: behind the checkpoint the
  segment is a log of complete batches, and replaying it gives the overlay up to the place a
  tombstone remembers. Commits, flushes and all other requests keep the invariant, and a store that
  is opened on the files of such a store finds every extent where it was.
\<close>

section \<open>Locations that agree\<close>

text \<open>A live location survives unchanged; of a deleted extent only the tombstone matters.\<close>

definition sameLocation :: "Value \<Rightarrow> Value \<Rightarrow> bool" where
  "sameLocation v v' \<longleftrightarrow> va_State v' = va_State v \<and> (va_State v \<noteq> ExtentTombstoned \<longrightarrow> v' = v)"

definition sameAnswer :: "StorageError + Value \<Rightarrow> StorageError + Value \<Rightarrow> bool" where
  "sameAnswer a b \<longleftrightarrow>
     (case a of
        Inl e \<Rightarrow> b = Inl e
      | Inr v \<Rightarrow> (case b of Inl _ \<Rightarrow> False | Inr v' \<Rightarrow> sameLocation v v'))"

definition sameOverlay :: "Overlay \<Rightarrow> Overlay \<Rightarrow> bool" where
  "sameOverlay ov ov' \<longleftrightarrow> (\<forall>k. rel_option sameLocation (ov_Get ov k) (ov_Get ov' k))"

lemma sameLocation_refl [simp]: "sameLocation v v"
  by (simp add: sameLocation_def)

lemma sameAnswer_refl [simp]: "sameAnswer a a"
  by (simp add: sameAnswer_def split: sum.split)

lemma sameOverlay_New [simp]: "sameOverlay NewOverlay NewOverlay"
  by (simp add: sameOverlay_def)

lemma sameOverlay_Put:
  "sameOverlay ov ov' \<Longrightarrow> sameLocation v v' \<Longrightarrow> sameOverlay (ov_Put ov k v) (ov_Put ov' k v')"
  by (simp add: sameOverlay_def ov_Get_Put)

lemma sameOverlay_lookup:
  assumes "sameOverlay (st_overlay s) (st_overlay s')" "st_index s' = st_index s"
  shows "sameAnswer (lookup s e g) (lookup s' e g)"
proof -
  have "rel_option sameLocation (ov_Get (st_overlay s) (indexKey e g)) (ov_Get (st_overlay s') (indexKey e g))"
    using assms(1) by (simp add: sameOverlay_def)
  then show ?thesis
    using assms(2) by (cases "ov_Get (st_overlay s) (indexKey e g)"; cases "ov_Get (st_overlay s') (indexKey e g)")
      (simp_all add: lookup_def sameAnswer_def split: sum.split)
qed

lemma sameOverlay_empty:
  assumes "sameOverlay ov NewOverlay" "ov_ok ov"
  shows "ov_entries ov = []"
proof (rule ccontr)
  assume "ov_entries ov \<noteq> []"
  then obtain k v es where "ov_entries ov = (k, v) # es" by (cases "ov_entries ov") auto
  then have "ov_Get ov k = Some v" by (simp add: ov_Get_def)
  moreover have "rel_option sameLocation (ov_Get ov k) None" using assms(1) by (simp add: sameOverlay_def)
  ultimately show False by simp
qed

section \<open>Replay\<close>

lemma replay_one:
  assumes "pends pw r" "p = pw\<lparr>pw_segID := w, pw_offset := off, pw_streamSeq := sq\<rparr>"
  obtains v where "replayDescriptor (descAt w off (fst r)) ov = Inr (ov_Put ov (indexKey (pw_extentID p) (pw_generation p)) v)"
    "sameLocation (publishedOf p) v"
proof -
  have d: "RecordPut \<noteq> RecordRelocate" "RecordDelete \<noteq> RecordRelocate" "RecordDelete \<noteq> RecordPut" "RecordPut \<noteq> RecordDelete"
    by (simp_all add: RecordPut_def RecordDelete_def RecordRelocate_def)
  show ?thesis
    using assms d
    by (cases "pw_publishedValue pw") (auto simp: pends_def replayDescriptor_def descAt_def publishedOf_def sameLocation_def intro!: that)
qed

lemma replay_batch:
  assumes "list_all2 pends batch rs" "sameOverlay ov ov'" "ov_ok ov'"
  shows "\<exists>ov''. applyEach replayDescriptor (descsAt w off rs) ov' = Inr ov''
    \<and> sameOverlay (publishOverlay ov (placeAll w off sq batch)) ov'' \<and> ov_ok ov''"
  using assms
proof (induction arbitrary: ov ov' off sq rule: list_all2_induct)
  case (Cons pw batch r rs)
  let ?p = "pw\<lparr>pw_segID := w, pw_offset := off, pw_streamSeq := sq\<rparr>"
  obtain v where v: "replayDescriptor (descAt w off (fst r)) ov' = Inr (ov_Put ov' (indexKey (pw_extentID ?p) (pw_generation ?p)) v)"
    "sameLocation (publishedOf ?p) v" by (rule replay_one [OF Cons.hyps(1) refl, where ov = ov'])
  let ?k = "indexKey (pw_extentID pw) (pw_generation pw)"
  have "sameOverlay (ov_Put ov ?k (publishedOf ?p)) (ov_Put ov' ?k v)" "ov_ok (ov_Put ov' ?k v)"
    using Cons.prems v(2) by (simp_all add: sameOverlay_Put ov_Put_ok)
  from Cons.IH [OF this, of "off + length (recordBytes r)" "sq + 1"] show ?case
    using v(1) framing_pends [OF Cons.hyps(1)] by (simp add: publishOverlay_def)
qed (simp add: publishOverlay_def)

lemma logBytes_snoc:
  "logBytes w i off (bs @ [b]) = logBytes w i off bs @ batchBytes w i (off + length (logBytes w i off bs)) (fst b) (snd b)"
  by (induction bs arbitrary: off) (simp_all add: Let_def add.assoc)

lemma logDescs_snoc: "logDescs w i off (bs @ [b]) = logDescs w i off bs @ descsAt w (off + length (logBytes w i off bs)) (snd b)"
  by (induction bs arbitrary: off) (simp_all add: Let_def add.assoc)

lemma rising_snoc: "rising sq (bs @ [b]) \<longleftrightarrow> rising sq bs \<and> lastSeq sq bs < fst b"
  by (induction bs arbitrary: sq) auto

lemma lastSeq_snoc [simp]: "lastSeq sq (bs @ [b]) = fst b"
  by (simp add: lastSeq_def)

lemma rising_lastSeq: "rising sq bs \<Longrightarrow> sq \<le> lastSeq sq bs"
proof (induction bs arbitrary: sq)
  case (Cons b bs)
  then have "sq \<le> fst b" "fst b \<le> lastSeq (fst b) bs" using Cons.IH [of "fst b"] by (simp_all add: less_imp_le)
  from order_trans [OF this] show ?case by simp
qed simp

lemma rising_lastSeq_pos: "rising sq bs \<Longrightarrow> bs \<noteq> [] \<Longrightarrow> sq < lastSeq sq bs"
  using rising_lastSeq [of "fst (hd bs)" "tl bs"] less_le_trans [of sq "fst (hd bs)"] by (cases bs) simp_all

lemma recordCount_append [simp]: "recordCount (bs @ bs') = recordCount bs + recordCount bs'"
  by (simp add: recordCount_def)

section \<open>Markers and checkpoints\<close>

lemma putBE_0: "putBE k 0 = replicate k 0"
  by (induction k) (simp_all add: replicate_append_same)

lemma putUint64_0: "putUint64 0 = [0, 0, 0, 0, 0, 0, 0, 0]" and putUint32_0: "putUint32 0 = [0, 0, 0, 0]"
proof -
  have "replicate 8 (0 :: u8) = [0, 0, 0, 0, 0, 0, 0, 0]" "replicate 4 (0 :: u8) = [0, 0, 0, 0]" by code_simp+
  then show "putUint64 0 = [0, 0, 0, 0, 0, 0, 0, 0]" "putUint32 0 = [0, 0, 0, 0]"
    by (simp_all add: putUint64_def putUint32_def putBE_0)
qed

lemma length_markerFor [simp]: "length (markerFor sq) = CommitRecordSize"
  by (simp add: markerFor_def encodeCommitRecord_def commitBody_def CommitRecordSize_def)

lemma decode_markerFor:
  "\<exists>r. decodeCommitRecord (markerFor sq) = Inr r \<and> cr_Op r = OpIndexSafe \<and> cr_Seq r = sq"
proof -
  let ?r = "\<lparr>cr_Seq = sq, cr_Op = OpIndexSafe, cr_ExtentID = 0, cr_Generation = 0, cr_SegmentID = 0, cr_Offset = 0,
      cr_StoredLen = 0, cr_LogicalLen = 0, cr_Checksum = 0, cr_SourceSegment = 0, cr_SourceOffset = 0\<rparr>"
  have l: "length (commitBody ?r) = 69" by (simp add: commitBody_def)
  have "slice 0 69 (markerFor sq) = commitBody ?r" "getUint32 (slice 69 73 (markerFor sq)) = CRC32C (commitBody ?r)"
    using l by (simp_all add: markerFor_def encodeCommitRecord_def)
  moreover have "getUint64 (slice 0 8 (markerFor sq)) = sq" "markerFor sq ! 8 = OpIndexSafe"
    by (simp_all add: markerFor_def encodeCommitRecord_def commitBody_def nth_append)
  ultimately show ?thesis by (simp add: decodeCommitRecord_def)
qed

lemma checkpointMarker_here:
  assumes "SegmentHeaderSize \<le> length f" "sq \<noteq> 0"
  shows "checkpointMarker (f @ markerFor sq) (length (f @ markerFor sq)) = Some sq"
proof -
  have "holds_at (f @ markerFor sq) (length f) (markerFor sq)" using holds_at_here [of f "markerFor sq" "[]"] by simp
  then have "readAt ErrEOF (f @ markerFor sq) (length f) CommitRecordSize = Inr (markerFor sq)" by (rule readAt_here) simp
  then show ?thesis using assms decode_markerFor [of sq] by (auto simp: checkpointMarker_def)
qed

text \<open>The last bytes of a marker are not taken for a batch commit.\<close>

lemma checkpointCommit_not_here:
  assumes "SegmentHeaderSize \<le> length f"
  shows "checkpointCommit (f @ markerFor sq) (length (f @ markerFor sq)) i = None"
proof -
  have d: "drop 31 (markerFor sq) = [0, 0, 0, 0] @ drop 35 (markerFor sq)"
    by (simp add: markerFor_def encodeCommitRecord_def commitBody_def putUint64_0 putUint32_0)
  have "f @ markerFor sq = (f @ take 31 (markerFor sq)) @ drop 31 (markerFor sq)" by simp
  then have "holds_at (f @ markerFor sq) (length f + 31) (drop 31 (markerFor sq))"
    using holds_at_here [of "f @ take 31 (markerFor sq)" "drop 31 (markerFor sq)" "[]"] by (simp add: CommitRecordSize_def)
  then have "readAt ErrEOF (f @ markerFor sq) (length f + 31) BatchCommitSize = Inr (drop 31 (markerFor sq))"
    by (rule readAt_here) (simp add: CommitRecordSize_def BatchCommitSize_def)
  moreover have "getUint32 (slice 0 4 (drop 31 (markerFor sq))) \<noteq> BatchCommitMagic"
    unfolding d by (simp add: slice_def getUint32_def getBE_def BatchCommitMagic_def)
  moreover have "length f + 31 = length (f @ markerFor sq) - BatchCommitSize"
    by (simp add: CommitRecordSize_def BatchCommitSize_def)
  ultimately show ?thesis
    by (simp add: checkpointCommit_def Let_def decodeBatchCommit_def)
qed

lemma decode_checkpoint:
  assumes "ck_FormatVersion c = recoveryCheckpointVersion" "ck_SegmentID c \<noteq> 0" "int SegmentHeaderSize \<le> ck_SafeOffset c"
    "ck_SafeOffset c < 2 ^ 63" "ck_SafeSeq c \<noteq> 0"
  shows "decodeRecoveryCheckpoint (encodeRecoveryCheckpoint c) = Inr c"
proof -
  let ?e = "encodeRecoveryCheckpoint c"
  have l: "length (checkpointBody c) = 30" by (simp add: checkpointBody_def)
  have s: "slice 0 30 ?e = checkpointBody c" "getUint32 (slice 30 34 ?e) = CRC32C (checkpointBody c)" "length ?e = 34"
    using l by (simp_all add: encodeRecoveryCheckpoint_def)
  have f: "getUint32 (slice 0 4 ?e) = recoveryCheckpointMagic" "?e ! 4 = ck_FormatVersion c" "?e ! 5 = ck_StreamID c"
    "getUint64 (slice 6 14 ?e) = ck_SegmentID c" "getUint64 (slice 14 22 ?e) = word_of_int (ck_SafeOffset c)"
    "getUint64 (slice 22 30 ?e) = ck_SafeSeq c"
    by (simp_all add: encodeRecoveryCheckpoint_def checkpointBody_def nth_append)
  have "sint (word_of_int (ck_SafeOffset c) :: u64) = ck_SafeOffset c"
    using assms by (simp add: signed_of_int signed_take_bit_int_eq_self)
  then show ?thesis using assms by (simp add: decodeRecoveryCheckpoint_def recoveryCheckpointSize_def Let_def s f)
qed

section \<open>The invariant\<close>

definition logInv :: "u64 \<Rightarrow> Store \<Rightarrow> u8 list \<Rightarrow> u64 \<Rightarrow> loggedBatch list \<Rightarrow> bool" where
  "logInv w s pre base bs \<longleftrightarrow>
     appendable w s \<and> caughtUp s \<and> ov_ok (st_overlay s) \<and> st_persistent s \<and> w \<noteq> 0
     \<and> maxSegmentID (st_files s) = w \<and> w \<in> fst ` set (st_files s)
     \<and> activeFile s = pre @ logBytes w (st_streamID s) (length pre) bs
     \<and> list_all batch_ok bs \<and> rising base bs \<and> lastSeq base bs \<le> st_streamSeq s
     \<and> st_flushMutations s = int (recordCount bs)
     \<and> (\<exists>ck. LoadRecoveryCheckpoint True (st_sidecars s) (st_streamID s) = Inr ck
           \<and> (\<forall>c. ck = Some c \<longrightarrow> ck_SegmentID c \<le> w) \<and> startsAt (recoveryOptions s ck w) pre base)
     \<and> (\<exists>ov. applyEach replayDescriptor (logDescs w (st_streamID s) (length pre) bs) NewOverlay = Inr ov
           \<and> ov_ok ov \<and> sameOverlay (st_overlay s) ov)"

text \<open>Steps that leave the log, the overlay and the watermarks alone; the rows of the index may change.\<close>

definition sameStore :: "Store \<Rightarrow> Store \<Rightarrow> bool" where
  "sameStore s s' \<longleftrightarrow> sameLog s s' \<and> st_readyBatches s' = st_readyBatches s \<and> st_publishedSeq s' = st_publishedSeq s
     \<and> st_flushSeq s' = st_flushSeq s \<and> st_flushMutations s' = st_flushMutations s"

lemma recoveryOptions_cong: "st_streamID s' = st_streamID s \<Longrightarrow> recoveryOptions s' = recoveryOptions s"
  by (simp add: recoveryOptions_def fun_eq_iff)

lemma logInv_sameStore:
  assumes "sameStore s s'" "logInv w s pre base bs"
  shows "logInv w s' pre base bs"
proof -
  have l: "sameLog s s'" using assms(1) by (simp add: sameStore_def)
  have f: "activeFile s' = activeFile s" by (rule activeFile_cong) (use l in \<open>simp_all add: sameLog_def\<close>)
  have "appendable w s" "caughtUp s" using assms(2) by (simp_all add: logInv_def)
  then have "appendable w s'" "caughtUp s'"
    using assms(1) f by (simp_all add: sameStore_def sameLog_def appendable_def caughtUp_def)
  moreover have "recoveryOptions s' = recoveryOptions s" by (rule recoveryOptions_cong) (use l in \<open>simp add: sameLog_def\<close>)
  ultimately show ?thesis using assms f by (simp add: logInv_def sameStore_def sameLog_def)
qed

lemma emitChangeEvent_same: "sameStore s s' \<Longrightarrow> sameStore s (emitChangeEvent s' e)"
  by (simp add: emitChangeEvent_def sameStore_def sameLog_def split: option.split)

lemma cachedLookup_same: "cachedLookup s e g = (r, s') \<Longrightarrow> sameStore s s'"
  by (auto simp: cachedLookup_def sameStore_def sameLog_def Let_def split: prod.splits option.splits sum.splits)

lemma Read_same: "Read z s req = (r, s') \<Longrightarrow> sameStore s s'"
proof -
  assume r: "Read z s req = (r, s')"
  obtain q s1 where c: "cachedLookup s (rq_ExtentID req) (rq_Generation req) = (q, s1)" by fastforce
  note s1 = cachedLookup_same [OF c]
  have upd: "sameStore s (s1\<lparr>st_segCache := a\<rparr>)" "sameStore s (s1\<lparr>st_segCache := a, st_enc := b\<rparr>)" for a b
    using s1 by (simp_all add: sameStore_def sameLog_def)
  have "sameStore s s" by (simp add: sameStore_def)
  then show ?thesis using r c s1
    by (auto simp: Read_def Let_def upd emitChangeEvent_same split: if_splits sum.splits prod.splits)
qed

lemma writePrepare_same: "writePrepare z rnd nonce nonces s req = (p, s') \<Longrightarrow> sameStore s s'"
proof -
  have k: "sameStore s s1" if "storeKey z rnd nonce s = (q, s1)" for q s1
    using that by (auto simp: storeKey_def sameStore_def sameLog_def split: option.splits if_splits prod.splits)
  have "sameStore s s" by (simp add: sameStore_def)
  then show "writePrepare z rnd nonce nonces s req = (p, s') \<Longrightarrow> sameStore s s'"
    using k by (auto simp: writePrepare_def split: if_splits sum.splits option.splits prod.splits)
qed

lemma enqueueApply_same: "sameStore s (snd (enqueueApply s muts))"
  by (auto simp: enqueueApply_def applyNow_def sameStore_def sameLog_def split: option.splits if_splits)

lemma writeFinish_same: "writeFinish s pw = (r, s') \<Longrightarrow> sameStore s s'"
  by (auto simp: writeFinish_def enqueueApply_same)

lemma deleteFinish_same: "deleteFinish s pw = (r, s') \<Longrightarrow> sameStore s s'"
proof -
  let ?s1 = "s\<lparr>st_locCache := lc_Put (st_locCache s) (indexKey (pw_extentID pw) (pw_generation pw)) (publishedOf pw)\<rparr>"
  have t: "sameStore s t" if "sameStore ?s1 t" for t using that by (simp add: sameStore_def sameLog_def)
  assume "deleteFinish s pw = (r, s')"
  then have "s' = snd (enqueueApply ?s1 [\<lparr>mu_ExtentID = pw_extentID pw, mu_Generation = pw_generation pw, mu_Value = publishedOf pw\<rparr>])"
    by (auto simp: deleteFinish_def Let_def split: prod.splits option.splits)
  then show "sameStore s s'" using t [OF enqueueApply_same] by simp
qed

lemma applyStep_same: "sameStore s (applyStep s)"
  by (auto simp: applyStep_def applyNow_def sameStore_def sameLog_def split: list.split)

lemma files_update: "w \<in> fst ` set fs \<Longrightarrow> map fst (AList.update w f fs) = map fst fs"
  by (induction fs) auto

lemma maxSegmentID_update: "w \<in> fst ` set fs \<Longrightarrow> maxSegmentID (AList.update w f fs) = maxSegmentID fs"
  by (simp add: maxSegmentID_def files_update)

lemma files_update_mem: "w \<in> fst ` set (AList.update w f fs)"
  by (simp add: dom_update)

lemma all_prepared: "frameCodec_ok z \<Longrightarrow> list_all (prepared z) batch \<Longrightarrow> \<exists>rs. list_all2 pends batch rs"
proof (induction batch)
  case (Cons pw batch)
  obtain r rs where "pends pw r" "list_all2 pends batch rs" using Cons prepared_pends [of z pw] by auto
  then show ?case by (intro exI [of _ "r # rs"]) simp
qed (simp add: exI [of _ "[]"])

lemma pends_ok: "list_all2 pends batch rs \<Longrightarrow> list_all record_ok rs"
  by (induction rule: list_all2_induct) (simp_all add: pends_def)

lemma logInv_commit:
  assumes inv: "logInv w s pre base bs" and b: "list_all2 pends batch rs" "batch \<noteq> []"
    and c: "commitBatch now s batch = (Inr batch', s')" "al_segmentID (st_alloc s') = w"
    and sq: "st_streamSeq s < st_streamSeq s + of_nat (length batch)"
  shows "activeFile s' = activeFile s @ batchBytes w (st_streamID s) (length (activeFile s)) (st_streamSeq s') rs"
    "logInv w s' pre base (bs @ [(st_streamSeq s', rs)])" "st_files s' = AList.update w (activeFile s') (st_files s)"
    "st_index s' = st_index s" "st_sidecars s' = st_sidecars s" "st_streamID s' = st_streamID s"
proof -
  let ?i = "st_streamID s"
  have ap: "appendable w s" "caughtUp s" and f: "activeFile s = pre @ logBytes w ?i (length pre) bs"
    and lo: "al_offset (st_alloc s) = length pre + length (logBytes w ?i (length pre) bs)"
    using inv by (auto simp: logInv_def appendable_def)
  note C = commitBatch_Inr [OF ap(1) b c]
  have n: "0 < (of_nat (length batch) :: u64)" using sq by (metis add.right_neutral word_gt_0 less_irrefl)
  note cu = C(11) [OF ap(2) n]
  show fl: "activeFile s' = activeFile s @ batchBytes w ?i (length (activeFile s)) (st_streamSeq s') rs" using C(2,5) by simp
  show fs: "st_files s' = AList.update w (activeFile s') (st_files s)" "st_index s' = st_index s" "st_sidecars s' = st_sidecars s"
    "st_streamID s' = st_streamID s" by (rule C)+
  obtain ov where ov: "applyEach replayDescriptor (logDescs w ?i (length pre) bs) NewOverlay = Inr ov" "ov_ok ov"
    "sameOverlay (st_overlay s) ov" using inv by (auto simp: logInv_def)
  obtain ov' where ov': "applyEach replayDescriptor (descsAt w (al_offset (st_alloc s)) rs) ov = Inr ov'" "ov_ok ov'"
    "sameOverlay (st_overlay s') ov'"
    using replay_batch [OF b(1) ov(3,2), of w "al_offset (st_alloc s)" "st_streamSeq s"] C(1,4) by auto
  have rp: "applyEach replayDescriptor (logDescs w ?i (length pre) (bs @ [(st_streamSeq s', rs)])) NewOverlay = Inr ov'"
    using ov(1) ov'(1) lo by (simp add: logDescs_snoc applyEach_append)
  have lt: "lastSeq base bs < st_streamSeq s'" using inv sq C(5) by (auto simp: logInv_def intro: le_less_trans)
  have ro: "recoveryOptions s' = recoveryOptions s" by (rule recoveryOptions_cong) (rule C)
  have len: "length batch = length rs" "rs \<noteq> []" using b by (auto dest: list_all2_lengthD)
  have parts: "activeFile s' = pre @ logBytes w ?i (length pre) (bs @ [(st_streamSeq s', rs)])"
    "list_all batch_ok (bs @ [(st_streamSeq s', rs)])" "rising base (bs @ [(st_streamSeq s', rs)])"
    "st_flushMutations s' = int (recordCount (bs @ [(st_streamSeq s', rs)]))"
    "maxSegmentID (st_files s') = w" "w \<in> fst ` set (st_files s')" "ov_ok (st_overlay s')" "st_persistent s'"
    using inv fl f lt cu len pends_ok [OF b(1)] C(4,10) fs(1)
    by (simp_all add: logInv_def logBytes_snoc batch_ok_def rising_snoc maxSegmentID_update files_update_mem publishOverlay_ok)
  show "logInv w s' pre base (bs @ [(st_streamSeq s', rs)])"
    unfolding logInv_def C(8,9) ro using parts rp ov'(2,3) C(6) cu inv by (auto simp: logInv_def)
qed

section \<open>Flushes\<close>

lemma marked_file:
  assumes "st_writer s = Some w" "length (activeFile s) = al_offset (st_alloc s)"
  shows "st_files (marked s) = AList.update w (activeFile s @ markerFor (st_flushSeq s)) (st_files s)"
    "activeFile (marked s) = activeFile s @ markerFor (st_flushSeq s)"
proof -
  have w: "writeAt (activeFile s) (al_offset (st_alloc s)) (markerFor (st_flushSeq s)) = activeFile s @ markerFor (st_flushSeq s)"
    using assms(2) writeAt_end by metis
  show f: "st_files (marked s) = AList.update w (activeFile s @ markerFor (st_flushSeq s)) (st_files s)"
    unfolding marked_def w by (simp add: setActive_def assms(1))
  show "activeFile (marked s) = activeFile s @ markerFor (st_flushSeq s)"
    using assms(1) f by (simp add: activeFile_def marked_def)
qed

lemma StoreRecoveryCheckpoint_ok:
  assumes "st_persistent s" "al_segmentID (st_alloc s) \<noteq> 0" "st_flushSeq s \<noteq> 0" "SegmentHeaderSize \<le> al_offset (st_alloc s)"
  shows "StoreRecoveryCheckpoint (st_persistent s) (st_sidecars s) (checkpointFor s)
    = Inr (AList.update (st_streamID s) (encodeRecoveryCheckpoint ((checkpointFor s)\<lparr>ck_FormatVersion := recoveryCheckpointVersion\<rparr>)) (st_sidecars s))"
  using assms by (simp add: StoreRecoveryCheckpoint_def checkpointFor_def Let_def recoveryCheckpointVersion_def)

text \<open>A flush that has something to write and the room for it moves the checkpoint to the end of the file.\<close>

lemma flush_moves_checkpoint:
  assumes ok: "ov_ok (st_overlay s)" "ov_entries (st_overlay s) \<noteq> []"
    and w: "al_segmentID (st_alloc s) = w" "w \<noteq> 0" "st_persistent s" "st_flushSeq s \<noteq> 0"
    and off: "al_offset (st_alloc s) = length (activeFile s)" "SegmentHeaderSize \<le> length (activeFile s)"
      "length (activeFile s) + CommitRecordSize < 2 ^ 63"
    and room: "length (activeFile s) + BatchCommitSize \<le> al_maxSegmentBytes (st_alloc s)"
  obtains side c where
    "flush s = (Inr (), (marked s)\<lparr>st_sidecars := side, st_overlay := NewOverlay, st_safeSeq := st_flushSeq s, st_flushMutations := 0\<rparr>)"
    "LoadRecoveryCheckpoint True side (st_streamID s) = Inr (Some c)" "ck_SegmentID c = w"
    "ck_SafeOffset c = int (length (activeFile s) + CommitRecordSize)" "ck_SafeSeq c = st_flushSeq s"
proof -
  let ?c = "(checkpointFor s)\<lparr>ck_FormatVersion := recoveryCheckpointVersion\<rparr>"
  let ?side = "AList.update (st_streamID s) (encodeRecoveryCheckpoint ?c) (st_sidecars s)"
  have st: "StoreRecoveryCheckpoint (st_persistent s) (st_sidecars s) (checkpointFor s) = Inr ?side"
    by (rule StoreRecoveryCheckpoint_ok) (use w off in simp_all)
  have t: "CurrentTail (st_alloc s) = Inr (al_offset (st_alloc s))" using room off by (simp add: CurrentTail_def)
  have fl: "flush s = (Inr (), (marked s)\<lparr>st_sidecars := ?side, st_overlay := NewOverlay, st_safeSeq := st_flushSeq s, st_flushMutations := 0\<rparr>)"
    unfolding flush_eq [OF ok(1)] t st using ok(2) by simp
  have o3: "int (length (activeFile s)) + int CommitRecordSize < 2 ^ 63"
    using off(3) by (metis of_nat_add of_nat_less_numeral_power_cancel_iff)
  have "decodeRecoveryCheckpoint (encodeRecoveryCheckpoint ?c) = Inr ?c"
    by (rule decode_checkpoint) (use w off(1,2) o3 in \<open>simp_all add: checkpointFor_def\<close>)
  then have "LoadRecoveryCheckpoint True ?side (st_streamID s) = Inr (Some ?c)"
    by (simp add: LoadRecoveryCheckpoint_def update_conv' checkpointFor_def)
  moreover have "ck_SegmentID ?c = w" "ck_SafeOffset ?c = int (length (activeFile s) + CommitRecordSize)" "ck_SafeSeq ?c = st_flushSeq s"
    using w(1) off(1) by (simp_all add: checkpointFor_def)
  ultimately show ?thesis using fl that by blast
qed

lemma startsAt_marker:
  assumes "SegmentHeaderSize \<le> length f" "decodeSegmentHeader (take SegmentHeaderSize f) = Inr h" "sq \<noteq> 0"
    "ck_SegmentID c = w" "ck_SafeOffset c = int (length f + CommitRecordSize)" "ck_SafeSeq c = sq"
  shows "startsAt (recoveryOptions s (Some c) w) (f @ markerFor sq) sq"
proof -
  have n: "length (f @ markerFor sq) \<noteq> SegmentHeaderSize" using assms(1) by (simp add: CommitRecordSize_def)
  note m = checkpointMarker_here [OF assms(1,3)] checkpointCommit_not_here [OF assms(1), of sq]
  show ?thesis unfolding startsAt_def using assms n m by (simp add: recoveryOptions_def)
qed

lemma logInv_overlay:
  assumes "logInv w s pre base bs" "ov_entries (st_overlay s) \<noteq> []"
  shows "0 < st_streamSeq s"
proof -
  have "bs \<noteq> []"
  proof
    assume "bs = []"
    then have "sameOverlay (st_overlay s) NewOverlay" "ov_ok (st_overlay s)" using assms(1) by (auto simp: logInv_def)
    then show False using sameOverlay_empty assms(2) by blast
  qed
  then have "base < lastSeq base bs" "lastSeq base bs \<le> st_streamSeq s" using assms(1) rising_lastSeq_pos by (auto simp: logInv_def)
  then have "base < st_streamSeq s" by (rule less_le_trans)
  then show ?thesis using word_gt_0 [of "st_streamSeq s"] by auto
qed

lemma logInv_start:
  assumes "logInv w s pre base bs"
  shows "SegmentHeaderSize \<le> length (activeFile s)" "\<exists>h. decodeSegmentHeader (take SegmentHeaderSize (activeFile s)) = Inr h"
proof -
  have f: "activeFile s = pre @ logBytes w (st_streamID s) (length pre) bs"
    and st: "\<exists>opts. startsAt opts pre base" using assms by (auto simp: logInv_def)
  then show "SegmentHeaderSize \<le> length (activeFile s)" "\<exists>h. decodeSegmentHeader (take SegmentHeaderSize (activeFile s)) = Inr h"
    by (auto simp: startsAt_def)
qed

lemma logInv_index: "logInv w s pre base bs \<Longrightarrow> logInv w (s\<lparr>st_index := ix\<rparr>) pre base bs"
  by (rule logInv_sameStore) (simp_all add: sameStore_def sameLog_def)

lemma logInv_flush:
  assumes inv: "logInv w s pre base bs" and fl: "flush s = (r, s')" and lim: "length (activeFile s') < 2 ^ 63"
  shows "\<exists>pre' base' bs'. logInv w s' pre' base' bs'"
proof -
  have ok: "ov_ok (st_overlay s)" "appendable w s" "caughtUp s" "w \<noteq> 0" "st_persistent s" using inv by (simp_all add: logInv_def)
  have a: "st_writer s = Some w" "al_segmentID (st_alloc s) = w" "length (activeFile s) = al_offset (st_alloc s)"
    using ok(2) by (simp_all add: appendable_def)
  show ?thesis
  proof (cases "ov_entries (st_overlay s) = [] \<or> al_maxSegmentBytes (st_alloc s) < al_offset (st_alloc s) + BatchCommitSize")
    case True
    then have "s' = s \<or> s' = s\<lparr>st_index := drainedIndex s\<rparr>"
      using fl unfolding flush_eq [OF ok(1)] by (auto simp: CurrentTail_def split: if_splits)
    then show ?thesis using inv logInv_index by blast
  next
    case False
    then have ne: "ov_entries (st_overlay s) \<noteq> []" and room: "length (activeFile s) + BatchCommitSize \<le> al_maxSegmentBytes (st_alloc s)"
      using a by auto
    have sq: "st_flushSeq s = st_streamSeq s" "st_flushSeq s \<noteq> 0" using logInv_overlay [OF inv ne] ok(3) by (auto simp: caughtUp_def)
    note mf = marked_file [OF a(1,3)]
    obtain h where h: "SegmentHeaderSize \<le> length (activeFile s)" "decodeSegmentHeader (take SegmentHeaderSize (activeFile s)) = Inr h"
      using logInv_start [OF inv] by blast
    have st: "CurrentTail (st_alloc s) = Inr (al_offset (st_alloc s))" using room a by (simp add: CurrentTail_def)
    have scs: "StoreRecoveryCheckpoint (st_persistent s) (st_sidecars s) (checkpointFor s)
      = Inr (AList.update (st_streamID s) (encodeRecoveryCheckpoint ((checkpointFor s)\<lparr>ck_FormatVersion := recoveryCheckpointVersion\<rparr>)) (st_sidecars s))"
      by (rule StoreRecoveryCheckpoint_ok) (use ok a sq h in simp_all)
    have "st_files s' = st_files (marked s)" "st_writer s' = st_writer (marked s)"
      using fl unfolding flush_eq [OF ok(1)] st scs using ne by auto
    then have "activeFile s' = activeFile (marked s)" by (intro activeFile_cong) simp_all
    then have lim': "length (activeFile s) + CommitRecordSize < 2 ^ 63" using lim mf(2) by simp
    obtain side c where
      f: "flush s = (Inr (), (marked s)\<lparr>st_sidecars := side, st_overlay := NewOverlay, st_safeSeq := st_flushSeq s, st_flushMutations := 0\<rparr>)"
      and c: "LoadRecoveryCheckpoint True side (st_streamID s) = Inr (Some c)" "ck_SegmentID c = w"
        "ck_SafeOffset c = int (length (activeFile s) + CommitRecordSize)" "ck_SafeSeq c = st_flushSeq s"
      by (rule flush_moves_checkpoint [OF ok(1) ne a(2) ok(4,5) sq(2) a(3) [symmetric] h(1) lim' room])
    let ?s = "(marked s)\<lparr>st_sidecars := side, st_overlay := NewOverlay, st_safeSeq := st_flushSeq s, st_flushMutations := 0\<rparr>"
    have s': "s' = ?s" using fl f by simp
    have af: "activeFile s' = activeFile s @ markerFor (st_flushSeq s)"
      unfolding s' using mf by (subst activeFile_cong [of _ "marked s"]) simp_all
    have sta: "startsAt (recoveryOptions s' (Some c) w) (activeFile s @ markerFor (st_flushSeq s)) (st_flushSeq s)"
      by (rule startsAt_marker [OF h sq(2) c(2,3,4)])
    have mk: "st_writer (marked s) = Some w" "st_alloc (marked s) = Consume (st_alloc s) CommitRecordSize" "st_nextSeg (marked s) = w"
      "st_faults (marked s) = (\<lambda>_. None)" "st_persistent (marked s)" "st_streamID (marked s) = st_streamID s"
      "st_streamSeq (marked s) = st_streamSeq s" "caughtUp (marked s)"
      using ok a by (simp_all add: marked_def appendable_def caughtUp_def)
    have "appendable w s'" using af mk a by (simp add: s' appendable_def Consume_def)
    moreover have "caughtUp s'" using mk(8) by (simp add: s' caughtUp_def)
    moreover have "maxSegmentID (st_files s') = w" "w \<in> fst ` set (st_files s')"
      using inv mf(1) by (simp_all add: s' logInv_def maxSegmentID_update files_update_mem)
    moreover have "st_overlay s' = NewOverlay" "st_persistent s'" "st_streamID s' = st_streamID s" "st_streamSeq s' = st_flushSeq s"
      "st_flushMutations s' = 0" "st_sidecars s' = side" using mk sq by (simp_all add: s')
    ultimately have "logInv w s' (activeFile s @ markerFor (st_flushSeq s)) (st_flushSeq s) []"
      unfolding logInv_def af using sta c ok(4) by simp
    then show ?thesis by blast
  qed
qed

end
