(* ===== verification/Recovery_Props.thy ===== *)
theory Recovery_Props
  imports Recovery_Laws
begin

text \<open>
  Crash recovery of the segment store. A store is alive when it was opened on an empty directory, has
  served requests, committed batches and flushed, and was opened again after crashes. The property says
  that opening the files which a crash leaves behind, with the batch that was being written cut off at
  any byte, succeeds and finds every extent where it was: a batch takes effect as a whole or not at all.
\<close>

section \<open>Opening the files of a crashed store\<close>

definition timely :: "startupClock \<Rightarrow> bool" where
  "timely clock \<longleftrightarrow> sc_scan clock = (\<lambda>_. False) \<and> \<not> sc_empty clock \<and> \<not> sc_beforePersist clock \<and> \<not> sc_afterPersist clock
     \<and> \<not> sc_finish clock"

lemma checkRecoveryDeadline_ok [simp]: "checkRecoveryDeadline False s = (Inr (), s)"
  by (simp add: checkRecoveryDeadline_def)

text \<open>The store after the recovery scan, which has truncated the file and filled the overlay.\<close>

definition scanned :: "Config \<Rightarrow> Disk \<Rightarrow> u64 \<Rightarrow> u8 list \<Rightarrow> Overlay \<Rightarrow> RecoverResult \<Rightarrow> Store" where
  "scanned cfg disk w l ov r =
     (emptyStore cfg disk)\<lparr>st_overlay := ov, st_files := AList.update w l (dk_files disk), st_recoveryResult := Some r,
        st_safeSeq := rr_SafeSeq r, st_streamSeq := rr_LastSeq r, st_publishedSeq := rr_LastSeq r, st_flushSeq := rr_LastSeq r\<rparr>"

lemma recoverActiveSegment_torn:
  assumes inv: "logInv w s pre base bs" and cfg: "cf_StreamID cfg = st_streamID s" "timely clock"
    and ck: "LoadRecoveryCheckpoint True (st_sidecars s) (st_streamID s) = Inr ck"
    and rs: "list_all record_ok rs" "bc_Magic bc = BatchCommitMagic"
    and f: "map_of (dk_files disk) w = Some f" "f = activeFile s @ take k (recordsBytes rs @ encodeBatchCommit bc)"
      "k < length (recordsBytes rs @ encodeBatchCommit bc)"
    and lim: "recordCount bs + length rs \<le> MaxRecoveryRecords" "length f \<le> length pre + MaxRecoveryTrailingBytes" "length f < 2 ^ 63"
  obtains ov r where "recoverActiveSegment clock (emptyStore cfg disk) ck w = (Inr (), scanned cfg disk w (activeFile s) ov r)"
    "ov_ok ov" "sameOverlay (st_overlay s) ov" "rr_LastSeq r = lastSeq base bs" "bs = [] \<longrightarrow> ov = NewOverlay"
proof -
  let ?e = "emptyStore cfg disk"
  have ro: "recoveryOptions ?e = recoveryOptions s" by (rule recoveryOptions_cong) (simp add: emptyStore_def cfg)
  have st: "startsAt (recoveryOptions s ck w) pre base" using inv ck by (auto simp: logInv_def)
  have i: "ro_StreamID (recoveryOptions s ck w) = st_streamID s" by (simp add: recoveryOptions_def split: prod.split)
  obtain ov where ov: "applyEach replayDescriptor (logDescs w (st_streamID s) (length pre) bs) NewOverlay = Inr ov" "ov_ok ov"
    "sameOverlay (st_overlay s) ov" using inv by (auto simp: logInv_def)
  have l: "activeFile s = pre @ logBytes w (ro_StreamID (recoveryOptions s ck w)) (length pre) bs"
    "list_all batch_ok bs" "rising base bs" using inv by (simp_all add: logInv_def i)
  obtain r where r: "RecoverFromSegmentLog (\<lambda>_. False) replayDescriptor w (recoveryOptions s ck w) f NewOverlay = (ov, Some r, None, activeFile s)"
    "rr_LastSeq r = lastSeq base bs"
    by (rule recover_torn_log [OF st l(2,3) rs l(1) f(2,3) lim, of replayDescriptor NewOverlay ov]) (use ov(1) i in auto)
  have e: "st_files ?e = dk_files disk" "st_overlay ?e = NewOverlay" "st_safeSeq ?e = 0" "st_streamSeq ?e = 0" "st_publishedSeq ?e = 0"
    "st_flushSeq ?e = 0" by (simp_all add: emptyStore_def)
  have "recoverActiveSegment clock ?e ck w = (Inr (), scanned cfg disk w (activeFile s) ov r)"
    using cfg(2) r(1) f(1) by (simp add: recoverActiveSegment_def ro e timely_def scanned_def Let_def word_gt_0)
  moreover have "bs = [] \<longrightarrow> ov = NewOverlay" using ov(1) by auto
  ultimately show ?thesis using that ov r by blast
qed

text \<open>What is known of the store when the recovered overlay is in the index.\<close>

definition settled :: "Config \<Rightarrow> Disk \<Rightarrow> u64 \<Rightarrow> Store \<Rightarrow> bool" where
  "settled cfg disk w s \<longleftrightarrow> st_overlay s = NewOverlay \<and> maxSegmentID (st_files s) = w
     \<and> st_publishedSeq s = st_streamSeq s \<and> st_flushSeq s = st_streamSeq s \<and> st_readyBatches s = [] \<and> st_flushMutations s = 0
     \<and> st_faults s = cf_Faults cfg \<and> st_persistent s = cf_persistent cfg \<and> st_streamID s = cf_StreamID cfg
     \<and> (\<exists>ck. LoadRecoveryCheckpoint True (st_sidecars s) (st_streamID s) = Inr ck \<and> (\<forall>c. ck = Some c \<longrightarrow> ck_SegmentID c \<le> w))"

lemma ov_Len_0: "ov_ok ov \<Longrightarrow> ov_Len ov = 0 \<longleftrightarrow> ov = NewOverlay"
  by (cases ov) (auto simp: ov_Len_def ov_ok_def NewOverlay_def)

lemma persist_settles:
  assumes cfg: "cf_persistent cfg" "timely clock" "cf_StreamID cfg = i"
    and w: "w \<noteq> 0" "w \<in> fst ` set (dk_files disk)" "maxSegmentID (dk_files disk) = w"
    and ck: "LoadRecoveryCheckpoint True (dk_sidecars disk) i = Inr ck" "\<forall>c. ck = Some c \<longrightarrow> ck_SegmentID c \<le> w"
    and ov: "ov_ok ov" "ov \<noteq> NewOverlay \<Longrightarrow> rr_LastSeq r \<noteq> 0"
    and l: "SegmentHeaderSize \<le> length l" "length l + CommitRecordSize < 2 ^ 63" "length l + BatchCommitSize \<le> segmentSizeOf cfg"
  obtains s2 m where "persistRecoveredOverlay clock now (scanned cfg disk w l ov r) w class (segmentSizeOf cfg) = (Inr (), s2)"
    "settled cfg disk w s2" "map_of (st_files s2) w = Some (l @ m)"
    "\<forall>e g. lookup s2 e g = lookup (scanned cfg disk w l ov r) e g" "ov \<noteq> NewOverlay \<longrightarrow> (\<exists>sq. m = markerFor sq)"
proof (cases "ov = NewOverlay")
  case True
  let ?s = "scanned cfg disk w l ov r"
  have "persistRecoveredOverlay clock now ?s w class (segmentSizeOf cfg) = (Inr (), ?s)"
    using cfg(2) ov(1) True by (simp add: persistRecoveredOverlay_def ov_Len_0 scanned_def timely_def)
  moreover have "settled cfg disk w ?s"
    using True w ck cfg by (simp add: settled_def scanned_def emptyStore_def maxSegmentID_update)
  ultimately show ?thesis using that [of ?s "[]"] True by (simp add: scanned_def)
next
  case False
  let ?s = "scanned cfg disk w l ov r"
  let ?a = "RecordCommit (Consume (NewAllocator w class (segmentSizeOf cfg) now) (length l - SegmentHeaderSize)) (rr_LastSeq r)"
  let ?s1 = "?s\<lparr>st_writer := Some w, st_alloc := ?a\<rparr>"
  have sz: "segmentSizeOf cfg \<noteq> 0" using l by (simp add: BatchCommitSize_def)
  have af: "activeFile ?s1 = l" by (simp add: activeFile_def scanned_def)
  have a: "al_offset ?a = length l" "al_segmentID ?a = w" "al_maxSegmentBytes ?a = segmentSizeOf cfg"
    using l(1) sz by (simp_all add: RecordCommit_def Consume_def NewAllocator_def)
  have f1: "st_overlay ?s1 = ov" "st_persistent ?s1" "st_flushSeq ?s1 = rr_LastSeq r" "st_streamID ?s1 = i" "st_alloc ?s1 = ?a" "st_writer ?s1 = Some w"
    "st_files ?s1 = AList.update w l (dk_files disk)"
    using cfg by (simp_all add: scanned_def emptyStore_def)
  have ne: "ov_entries ov \<noteq> []" using ov_Len_0 [OF ov(1)] ov(1) False by (cases ov) (auto simp: ov_ok_def NewOverlay_def)
  have pre: "ov_ok (st_overlay ?s1)" "ov_entries (st_overlay ?s1) \<noteq> []" "al_segmentID (st_alloc ?s1) = w" "st_flushSeq ?s1 \<noteq> 0"
    "al_offset (st_alloc ?s1) = length (activeFile ?s1)" "SegmentHeaderSize \<le> length (activeFile ?s1)"
    "length (activeFile ?s1) + CommitRecordSize < 2 ^ 63" "length (activeFile ?s1) + BatchCommitSize \<le> al_maxSegmentBytes (st_alloc ?s1)"
    unfolding f1 af using ov ne a l False by simp_all
  obtain side c where
    fl: "flush ?s1 = (Inr (), (marked ?s1)\<lparr>st_sidecars := side, st_overlay := NewOverlay, st_safeSeq := st_flushSeq ?s1, st_flushMutations := 0\<rparr>)"
    and c: "LoadRecoveryCheckpoint True side (st_streamID ?s1) = Inr (Some c)" "ck_SegmentID c = w"
    by (rule flush_moves_checkpoint [OF pre(1-3) w(1) f1(2) pre(4-)])
  let ?s2 = "(marked ?s1)\<lparr>st_sidecars := side, st_overlay := NewOverlay, st_safeSeq := st_flushSeq ?s1, st_flushMutations := 0\<rparr>"
  have mf: "st_files (marked ?s1) = AList.update w (l @ markerFor (rr_LastSeq r)) (AList.update w l (dk_files disk))"
    using marked_file(1) [of ?s1 w] pre(5) f1 af by simp
  have view: "lookup ?s2 e g = lookup ?s1 e g" for e g using flush_view [OF pre(1) fl] by blast
  have "persistRecoveredOverlay clock now ?s w class (segmentSizeOf cfg) = (Inr (), ?s2\<lparr>st_writer := None\<rparr>)"
  proof -
    have "ov_Len (st_overlay ?s) \<noteq> 0" "map_of (st_files ?s) w = Some l" "st_streamSeq ?s = rr_LastSeq r"
      using ov_Len_0 [OF ov(1)] False by (simp_all add: scanned_def)
    then show ?thesis using cfg(2) l(1) fl by (simp add: persistRecoveredOverlay_def timely_def Let_def)
  qed
  moreover have "settled cfg disk w (?s2\<lparr>st_writer := None\<rparr>)"
  proof -
    have "maxSegmentID (st_files (marked ?s1)) = w" unfolding mf using w by (simp add: maxSegmentID_update files_update_mem)
    moreover have "st_publishedSeq (marked ?s1) = rr_LastSeq r" "st_streamSeq (marked ?s1) = rr_LastSeq r" "st_flushSeq (marked ?s1) = rr_LastSeq r"
      "st_readyBatches (marked ?s1) = []" "st_faults (marked ?s1) = cf_Faults cfg" "st_persistent (marked ?s1) = cf_persistent cfg"
      "st_streamID (marked ?s1) = cf_StreamID cfg"
      by (simp_all add: marked_def scanned_def emptyStore_def)
    ultimately show ?thesis using c f1(4) cfg(3) by (simp add: settled_def)
  qed
  moreover have "map_of (st_files (?s2\<lparr>st_writer := None\<rparr>)) w = Some (l @ markerFor (rr_LastSeq r))" using mf by simp
  moreover have "lookup (?s2\<lparr>st_writer := None\<rparr>) e g = lookup ?s e g" for e g
  proof -
    have "lookup (?s2\<lparr>st_writer := None\<rparr>) e g = lookup ?s2 e g" by (rule lookup_cong) simp_all
    moreover have "lookup ?s1 e g = lookup ?s e g" by (rule lookup_cong) simp_all
    ultimately show ?thesis using view by simp
  qed
  ultimately show ?thesis using that by blast
qed

text \<open>The new active segment.\<close>

lemma maxSegmentID_ge: "k \<in> fst ` set fs \<Longrightarrow> k \<le> maxSegmentID fs"
proof -
  have "k \<in> set ks \<or> k \<le> m \<Longrightarrow> k \<le> foldl max m ks" for ks and m :: u64
  proof (induction ks arbitrary: m)
    case (Cons a ks)
    have "k \<in> set ks \<or> k \<le> max m a" using Cons.prems max.cobounded2 [of a m] by (auto intro: max.coboundedI1)
    from Cons.IH [OF this] show ?case by simp
  qed simp
  then show "k \<in> fst ` set fs \<Longrightarrow> k \<le> maxSegmentID fs" by (simp add: maxSegmentID_def)
qed

lemma maxSegmentID_new:
  assumes "k \<notin> fst ` set fs" "maxSegmentID fs < k"
  shows "maxSegmentID (AList.update k f fs) = k"
proof -
  have "map fst (AList.update k f fs) = map fst fs @ [k]" using assms(1) by (induction fs) auto
  then show ?thesis using max_absorb2 [OF less_imp_le [OF assms(2)]] by (simp add: maxSegmentID_def)
qed

definition freshHeader :: "u64 \<Rightarrow> u8 \<Rightarrow> u8 list" where
  "freshHeader segID class = encodeSegmentHeader
     \<lparr>sh_Magic = SegmentMagic, sh_Version = FormatVersion, sh_ID = segID, sh_SegmentClass = class, sh_Reserved = 0\<rparr>"

lemma fresh_segment:
  assumes st: "settled cfg disk w s" and w: "w < w + 1" and cfg: "cf_persistent cfg" "cf_Faults cfg = (\<lambda>_. None)" "timely clock"
  obtains s3 where "finishRecoveryStartup clock (newActiveSegment now (s\<lparr>st_nextSeg := maxSegmentID (st_files s)\<rparr>) class n) = (Inr (), s3)"
    "logInv (w + 1) s3 (freshHeader (w + 1) class) 0 []" "\<forall>e g. lookup s3 e g = lookup s e g" "st_streamID s3 = cf_StreamID cfg"
    "\<forall>k. k \<noteq> w + 1 \<longrightarrow> map_of (st_files s3) k = map_of (st_files s) k"
proof -
  let ?h = "freshHeader (w + 1) class"
  have mx: "maxSegmentID (st_files s) = w" using st by (simp add: settled_def)
  have nf: "w + 1 \<notin> fst ` set (st_files s)" using maxSegmentID_ge [of "w + 1" "st_files s"] w mx leD by blast
  then have nk: "map_of (st_files s) (w + 1) = None" by (simp add: map_of_eq_None_iff)
  have wr: "writeAt [] 0 ?h = ?h" using writeAt_end [of "[]" ?h] by simp
  have hd: "length ?h = SegmentHeaderSize" "\<exists>h. decodeSegmentHeader ?h = Inr h"
    by (simp_all add: freshHeader_def segmentHeader_ok)
  let ?s1 = "newActiveSegment now (s\<lparr>st_nextSeg := w\<rparr>) class n"
  let ?s3 = "?s1\<lparr>st_dataReady := True, st_recoveryResult := map_option (\<lambda>r. r\<lparr>rr_DataReady := True\<rparr>) (st_recoveryResult ?s1)\<rparr>"
  have fin: "finishRecoveryStartup clock ?s1 = (Inr (), ?s3)" using cfg(3) by (simp add: finishRecoveryStartup_def timely_def)
  have fields: "st_nextSeg ?s3 = w + 1" "st_files ?s3 = AList.update (w + 1) ?h (st_files s)" "st_writer ?s3 = Some (w + 1)"
    "st_alloc ?s3 = NewAllocator (w + 1) class n now" "st_overlay ?s3 = NewOverlay" "st_index ?s3 = st_index s" "st_sidecars ?s3 = st_sidecars s"
    "st_streamID ?s3 = cf_StreamID cfg" "st_streamSeq ?s3 = st_streamSeq s" "st_persistent ?s3" "st_faults ?s3 = (\<lambda>_. None)"
    "st_flushMutations ?s3 = 0" "st_readyBatches ?s3 = []" "st_publishedSeq ?s3 = st_streamSeq s" "st_flushSeq ?s3 = st_streamSeq s"
    using st cfg nk wr by (simp_all add: newActiveSegment_def Let_def settled_def freshHeader_def)
  have af: "activeFile ?s3 = ?h" unfolding activeFile_def fields by (simp add: update_conv')
  have ap: "appendable (w + 1) ?s3" "caughtUp ?s3"
    unfolding appendable_def caughtUp_def fields af by (simp_all add: NewAllocator_def hd)
  have fl: "maxSegmentID (st_files ?s3) = w + 1" "w + 1 \<in> fst ` set (st_files ?s3)" "w + 1 \<noteq> 0"
    unfolding fields using maxSegmentID_new [OF nf] mx w by (auto simp: files_update_mem)
  obtain ck where ck: "LoadRecoveryCheckpoint True (st_sidecars s) (cf_StreamID cfg) = Inr ck" "\<forall>c. ck = Some c \<longrightarrow> ck_SegmentID c \<le> w"
    using st by (auto simp: settled_def)
  have "startsAt (recoveryOptions ?s3 ck (w + 1)) ?h 0"
    using hd ck(2) w by (auto simp: startsAt_def recoveryOptions_def split: option.split)
  moreover have "\<forall>c. ck = Some c \<longrightarrow> ck_SegmentID c \<le> w + 1" using ck(2) order_trans [OF _ less_imp_le [OF w]] by blast
  ultimately have inv: "logInv (w + 1) ?s3 ?h 0 []"
    unfolding logInv_def using ap fl ck(1) by (auto simp: fields af)
  have ovs: "st_overlay s = NewOverlay" using st by (simp add: settled_def)
  have "lookup ?s3 e g = lookup s e g" for e g by (rule lookup_cong) (use fields ovs in simp_all)
  moreover have "k \<noteq> w + 1 \<longrightarrow> map_of (st_files ?s3) k = map_of (st_files s) k" for k by (simp add: fields update_conv')
  ultimately show ?thesis using that [of ?s3] fin inv fields(8) mx by simp
qed

lemma reopen:
  assumes inv: "logInv w s pre base bs" and cfg: "cf_persistent cfg" "cf_Faults cfg = (\<lambda>_. None)" "cf_StreamID cfg = st_streamID s" "timely clock"
    and rs: "list_all record_ok rs" "bc_Magic bc = BatchCommitMagic"
    and f: "f = activeFile s @ take k (recordsBytes rs @ encodeBatchCommit bc)" "k < length (recordsBytes rs @ encodeBatchCommit bc)"
    and disk: "dk_files disk = AList.update w f (st_files s)" "dk_index disk = ix" "dk_sidecars disk = st_sidecars s"
    and lim: "recordCount bs + length rs \<le> MaxRecoveryRecords" "length f \<le> length pre + MaxRecoveryTrailingBytes"
      "length f + CommitRecordSize < 2 ^ 63" "length (activeFile s) + BatchCommitSize \<le> segmentSizeOf cfg" and w: "w < w + 1"
  obtains s3 pre' m where "New clock now cfg disk = (Inr (), s3)" "logInv (w + 1) s3 pre' 0 []"
    "\<forall>e g. sameAnswer (lookup (s\<lparr>st_index := ix\<rparr>) e g) (lookup s3 e g)" "map_of (st_files s3) w = Some (activeFile s @ m)"
    "st_streamID s3 = cf_StreamID cfg" "(\<exists>k. ov_Get (st_overlay s) k \<noteq> None) \<longrightarrow> (\<exists>sq. m = markerFor sq)"
proof -
  obtain ck where ck: "LoadRecoveryCheckpoint True (st_sidecars s) (st_streamID s) = Inr ck" "\<forall>c. ck = Some c \<longrightarrow> ck_SegmentID c \<le> w"
    using inv by (auto simp: logInv_def)
  have fw: "w \<in> fst ` set (st_files s)" "maxSegmentID (st_files s) = w" "w \<noteq> 0" using inv by (simp_all add: logInv_def)
  have dw: "w \<in> fst ` set (dk_files disk)" "maxSegmentID (dk_files disk) = w" "map_of (dk_files disk) w = Some f"
    using fw by (simp_all add: disk files_update_mem maxSegmentID_update update_conv')
  have lf: "length f < 2 ^ 63" using lim(3) by simp
  obtain ov r where r: "recoverActiveSegment clock (emptyStore cfg disk) ck w = (Inr (), scanned cfg disk w (activeFile s) ov r)"
    "ov_ok ov" "sameOverlay (st_overlay s) ov" "rr_LastSeq r = lastSeq base bs" "bs = [] \<longrightarrow> ov = NewOverlay"
    by (rule recoverActiveSegment_torn [OF inv cfg(3,4) ck(1) rs dw(3) f lim(1,2) lf])
  have ne: "rr_LastSeq r \<noteq> 0" if "ov \<noteq> NewOverlay"
  proof -
    have "bs \<noteq> []" using r(5) that by blast
    then have "base < lastSeq base bs" using inv rising_lastSeq_pos by (auto simp: logInv_def)
    then show ?thesis using r(4) by auto
  qed
  have la: "length (activeFile s) + CommitRecordSize < 2 ^ 63" using lim(3) f by simp
  have ckd: "LoadRecoveryCheckpoint True (dk_sidecars disk) (st_streamID s) = Inr ck" using ck disk by simp
  obtain s2 m where p: "persistRecoveredOverlay clock now (scanned cfg disk w (activeFile s) ov r) w (classForStream (cf_StreamID cfg)) (segmentSizeOf cfg) = (Inr (), s2)"
    "settled cfg disk w s2" "map_of (st_files s2) w = Some (activeFile s @ m)"
    "\<forall>e g. lookup s2 e g = lookup (scanned cfg disk w (activeFile s) ov r) e g" "ov \<noteq> NewOverlay \<longrightarrow> (\<exists>sq. m = markerFor sq)"
    by (rule persist_settles [OF cfg(1,4,3) fw(3) dw(1,2) ckd ck(2) r(2) ne logInv_start(1) [OF inv] la lim(4)])
  obtain s3 where s3: "finishRecoveryStartup clock (newActiveSegment now (s2\<lparr>st_nextSeg := maxSegmentID (st_files s2)\<rparr>) (classForStream (cf_StreamID cfg)) (segmentSizeOf cfg)) = (Inr (), s3)"
    "logInv (w + 1) s3 (freshHeader (w + 1) (classForStream (cf_StreamID cfg))) 0 []" "\<forall>e g. lookup s3 e g = lookup s2 e g" "st_streamID s3 = cf_StreamID cfg"
    "\<forall>k. k \<noteq> w + 1 \<longrightarrow> map_of (st_files s3) k = map_of (st_files s2) k"
    by (rule fresh_segment [OF p(2) w cfg(1,2,4)])
  have files: "st_files (emptyStore cfg disk) = dk_files disk" by (simp add: emptyStore_def)
  have "New clock now cfg disk = (Inr (), s3)"
    using r(1) p(1) s3(1) ckd cfg(1,3) dw(2) by (simp add: New_def Let_def files)
  moreover have "sameAnswer (lookup (s\<lparr>st_index := ix\<rparr>) e g) (lookup s3 e g)" for e g
  proof -
    have "sameAnswer (lookup (s\<lparr>st_index := ix\<rparr>) e g) (lookup (scanned cfg disk w (activeFile s) ov r) e g)"
      by (rule sameOverlay_lookup) (use r(3) disk in \<open>simp_all add: scanned_def emptyStore_def\<close>)
    then show ?thesis using p(4) s3(3) by simp
  qed
  moreover have "map_of (st_files s3) w = Some (activeFile s @ m)" using s3(5) p(3) w by (metis less_irrefl)
  moreover have "(\<exists>k. ov_Get (st_overlay s) k \<noteq> None) \<longrightarrow> (\<exists>sq. m = markerFor sq)"
  proof
    assume "\<exists>k. ov_Get (st_overlay s) k \<noteq> None"
    then obtain k v where "ov_Get (st_overlay s) k = Some v" by blast
    moreover have "rel_option sameLocation (ov_Get (st_overlay s) k) (ov_Get ov k)" using r(3) by (simp add: sameOverlay_def)
    ultimately have "ov \<noteq> NewOverlay" by auto
    then show "\<exists>sq. m = markerFor sq" using p(5) by blast
  qed
  ultimately show ?thesis using that s3(2,4) by blast
qed

section \<open>Stores that are alive\<close>

text \<open>A batch of prepared requests is committed into the active segment \<open>w\<close>; the sequence number does not wrap.\<close>

definition commits :: "frameCodec \<Rightarrow> u64 \<Rightarrow> u64 \<Rightarrow> Store \<Rightarrow> pendingWrite list \<Rightarrow> Store \<Rightarrow> bool" where
  "commits z now w s batch s' \<longleftrightarrow> batch \<noteq> [] \<and> list_all (prepared z) batch \<and> (\<exists>batch'. commitBatch now s batch = (Inr batch', s'))
     \<and> al_segmentID (st_alloc s') = w \<and> st_streamSeq s < st_streamSeq s + of_nat (length batch)"

text \<open>What a crash leaves on disk when \<open>n\<close> bytes of the active file have reached it while a batch was being written.\<close>

definition crashDisk :: "u64 \<Rightarrow> Store \<Rightarrow> Store \<Rightarrow> nat \<Rightarrow> Disk" where
  "crashDisk w s s' n = \<lparr>dk_files = AList.update w (take n (activeFile s')) (st_files s), dk_index = st_index s, dk_sidecars = st_sidecars s\<rparr>"

text \<open>The store whose answers survive: the batch counts if and only if its last byte is on disk.\<close>

definition survivor :: "Store \<Rightarrow> Store \<Rightarrow> nat \<Rightarrow> Store" where
  "survivor s s' n = (if n < length (activeFile s') then s else s')"

text \<open>The recovery budgets: records and bytes behind the checkpoint, and the room for the next marker.\<close>

definition recoveryStart :: "u64 \<Rightarrow> Store \<Rightarrow> int" where
  "recoveryStart w s =
     (case LoadRecoveryCheckpoint (st_persistent s) (st_sidecars s) (st_streamID s) of
        Inl _ \<Rightarrow> 0
      | Inr ck \<Rightarrow> ro_SafeOffset (recoveryOptions s ck w))"

definition recoverable :: "Config \<Rightarrow> u64 \<Rightarrow> Store \<Rightarrow> Store \<Rightarrow> nat \<Rightarrow> bool" where
  "recoverable cfg w s s' n \<longleftrightarrow>
     st_flushMutations s' \<le> int MaxRecoveryRecords \<and> int n \<le> recoveryStart w s + int MaxRecoveryTrailingBytes
     \<and> n + CommitRecordSize < 2 ^ 63 \<and> length (activeFile (survivor s s' n)) + BatchCommitSize \<le> segmentSizeOf cfg"

definition emptyDisk :: Disk where
  "emptyDisk = \<lparr>dk_files = [], dk_index = [], dk_sidecars = []\<rparr>"

inductive alive :: "frameCodec \<Rightarrow> Config \<Rightarrow> u64 \<Rightarrow> Store \<Rightarrow> bool" for z cfg where
  alive_new: "timely clock \<Longrightarrow> New clock now cfg emptyDisk = (Inr (), s) \<Longrightarrow> alive z cfg 1 s"
| alive_commit: "alive z cfg w s \<Longrightarrow> commits z now w s batch s' \<Longrightarrow> alive z cfg w s'"
| alive_flush: "alive z cfg w s \<Longrightarrow> flush s = (r, s') \<Longrightarrow> length (activeFile s') < 2 ^ 63 \<Longrightarrow> alive z cfg w s'"
| alive_read: "alive z cfg w s \<Longrightarrow> Read z s req = (answer, s') \<Longrightarrow> alive z cfg w s'"
| alive_prepare: "alive z cfg w s \<Longrightarrow> writePrepare z rnd nonce nonces s wreq = (p, s') \<Longrightarrow> alive z cfg w s'"
| alive_write_done: "alive z cfg w s \<Longrightarrow> writeFinish s pw = (receipt, s') \<Longrightarrow> alive z cfg w s'"
| alive_delete_done: "alive z cfg w s \<Longrightarrow> deleteFinish s pw = (r, s') \<Longrightarrow> alive z cfg w s'"
| alive_apply: "alive z cfg w s \<Longrightarrow> alive z cfg w (applyStep s)"
| alive_restart: "alive z cfg w s \<Longrightarrow> commits z now w s batch s' \<Longrightarrow> length (activeFile s) \<le> n \<Longrightarrow> n \<le> length (activeFile s')
    \<Longrightarrow> recoverable cfg w s s' n \<Longrightarrow> timely clock \<Longrightarrow> w < w + 1 \<Longrightarrow> New clock now' cfg (crashDisk w s s' n) = (Inr (), s2)
    \<Longrightarrow> alive z cfg (w + 1) s2"

lemma update_again: "AList.update k v (AList.update k v al) = AList.update k v al"
  by (induction al) auto

lemma commits_pends:
  assumes "frameCodec_ok z" "commits z now w s batch s'"
  obtains batch' rs where "batch \<noteq> []" "list_all2 pends batch rs" "commitBatch now s batch = (Inr batch', s')"
    "al_segmentID (st_alloc s') = w" "st_streamSeq s < st_streamSeq s + of_nat (length batch)"
proof -
  obtain rs where "list_all2 pends batch rs" using all_prepared [OF assms(1)] assms(2) by (auto simp: commits_def)
  then show ?thesis using that assms(2) by (auto simp: commits_def)
qed

lemma crash_reopen:
  assumes inv: "logInv w s pre base bs" and z: "frameCodec_ok z"
    and cfg: "cf_persistent cfg" "cf_Faults cfg = (\<lambda>_. None)" "cf_StreamID cfg = st_streamID s" "timely clock"
    and c: "commits z now w s batch s'" and n: "length (activeFile s) \<le> n" "n \<le> length (activeFile s')"
    and lim: "recoverable cfg w s s' n" and w: "w < w + 1"
  shows "\<exists>s2 pre' m. New clock now' cfg (crashDisk w s s' n) = (Inr (), s2) \<and> logInv (w + 1) s2 pre' 0 []
    \<and> (\<forall>e g. sameAnswer (lookup (survivor s s' n) e g) (lookup s2 e g))
    \<and> map_of (st_files s2) w = Some (activeFile (survivor s s' n) @ m) \<and> st_streamID s2 = cf_StreamID cfg
    \<and> ((\<exists>k. ov_Get (st_overlay (survivor s s' n)) k \<noteq> None) \<longrightarrow> (\<exists>sq. m = markerFor sq))"
proof -
  obtain batch' rs where b: "batch \<noteq> []" "list_all2 pends batch rs" "commitBatch now s batch = (Inr batch', s')"
    "al_segmentID (st_alloc s') = w" "st_streamSeq s < st_streamSeq s + of_nat (length batch)"
    by (rule commits_pends [OF z c])
  note C = logInv_commit [OF inv b(2,1,3,4,5)]
  let ?bc = "commitFor w (st_streamID s) (length (activeFile s)) (st_streamSeq s') rs"
  have bc: "bc_Magic ?bc = BatchCommitMagic" by (simp add: commitFor_def)
  have af: "activeFile s' = activeFile s @ recordsBytes rs @ encodeBatchCommit ?bc" using C(1) by (simp add: batchBytes_def)
  obtain ck where ck: "LoadRecoveryCheckpoint True (st_sidecars s) (st_streamID s) = Inr ck" "startsAt (recoveryOptions s ck w) pre base"
    using inv by (auto simp: logInv_def)
  have start: "recoveryStart w s = int (length pre)" using ck inv by (simp add: recoveryStart_def logInv_def startsAt_def)
  have fm: "st_flushMutations s' = int (recordCount bs + length rs)" using C(2) by (simp add: logInv_def)
  have rc: "recordCount bs + length rs \<le> MaxRecoveryRecords" using lim fm by (simp add: recoverable_def)
  have nl: "n \<le> length pre + MaxRecoveryTrailingBytes" "n + CommitRecordSize < 2 ^ 63" using lim start by (simp_all add: recoverable_def)
  show ?thesis
  proof (cases "n < length (activeFile s')")
    case True
    let ?f = "activeFile s @ take (n - length (activeFile s)) (recordsBytes rs @ encodeBatchCommit ?bc)"
    have f: "take n (activeFile s') = ?f" using n(1) by (simp add: af)
    have k: "n - length (activeFile s) < length (recordsBytes rs @ encodeBatchCommit ?bc)" using True n(1) by (simp add: af)
    have fl: "length ?f \<le> length pre + MaxRecoveryTrailingBytes" "length ?f + CommitRecordSize < 2 ^ 63"
      using nl True unfolding f [symmetric] by simp_all
    have sv: "survivor s s' n = s" using True by (simp add: survivor_def)
    have room: "length (activeFile s) + BatchCommitSize \<le> segmentSizeOf cfg" using lim by (simp add: recoverable_def sv)
    obtain s3 pre' m where r: "New clock now' cfg (crashDisk w s s' n) = (Inr (), s3)" "logInv (w + 1) s3 pre' 0 []"
      "\<forall>e g. sameAnswer (lookup (s\<lparr>st_index := st_index s\<rparr>) e g) (lookup s3 e g)" "map_of (st_files s3) w = Some (activeFile s @ m)"
      "st_streamID s3 = cf_StreamID cfg" "(\<exists>k. ov_Get (st_overlay s) k \<noteq> None) \<longrightarrow> (\<exists>sq. m = markerFor sq)"
      by (rule reopen [OF inv cfg pends_ok [OF b(2)] bc refl k _ _ _ rc fl room w, of "crashDisk w s s' n" "st_index s"])
        (simp_all add: crashDisk_def f)
    then show ?thesis unfolding sv by auto
  next
    case False
    then have ne: "n = length (activeFile s')" using n(2) by simp
    have sv: "survivor s s' n = s'" using False by (simp add: survivor_def)
    have f: "activeFile s' = activeFile s' @ take 0 (recordsBytes [] @ encodeBatchCommit ?bc)" by simp
    have k: "0 < length (recordsBytes [] @ encodeBatchCommit ?bc)" by (simp add: BatchCommitSize_def)
    have rc': "recordCount (bs @ [(st_streamSeq s', rs)]) + length ([] :: logged list) \<le> MaxRecoveryRecords" using rc by simp
    have fl: "length (activeFile s') \<le> length pre + MaxRecoveryTrailingBytes" "length (activeFile s') + CommitRecordSize < 2 ^ 63"
      using nl by (simp_all add: ne)
    have room: "length (activeFile s') + BatchCommitSize \<le> segmentSizeOf cfg" using lim by (simp add: recoverable_def sv)
    have cfg3: "cf_StreamID cfg = st_streamID s'" using cfg(3) C(6) by simp
    have d: "dk_files (crashDisk w s s' n) = AList.update w (activeFile s') (st_files s')" "dk_index (crashDisk w s s' n) = st_index s'"
      "dk_sidecars (crashDisk w s s' n) = st_sidecars s'"
      using C(3,4,5) by (simp_all add: crashDisk_def ne update_again)
    obtain s3 pre' m where r: "New clock now' cfg (crashDisk w s s' n) = (Inr (), s3)" "logInv (w + 1) s3 pre' 0 []"
      "\<forall>e g. sameAnswer (lookup (s'\<lparr>st_index := st_index s'\<rparr>) e g) (lookup s3 e g)" "map_of (st_files s3) w = Some (activeFile s' @ m)"
      "st_streamID s3 = cf_StreamID cfg" "(\<exists>k. ov_Get (st_overlay s') k \<noteq> None) \<longrightarrow> (\<exists>sq. m = markerFor sq)"
      by (rule reopen [OF C(2) cfg(1,2) cfg3 cfg(4) _ bc f k d rc' fl room w]) simp
    then show ?thesis unfolding sv by auto
  qed
qed

lemma New_empty:
  assumes "timely clock" "New clock now cfg emptyDisk = (Inr (), s)" "cf_persistent cfg" "cf_Faults cfg = (\<lambda>_. None)"
  shows "st_streamID s = cf_StreamID cfg \<and> (\<exists>pre base bs. logInv 1 s pre base bs)"
proof -
  let ?e = "emptyStore cfg emptyDisk"
  have st: "settled cfg emptyDisk 0 ?e"
    by (simp add: settled_def emptyStore_def emptyDisk_def maxSegmentID_def LoadRecoveryCheckpoint_def)
  obtain s3 where s3: "finishRecoveryStartup clock (newActiveSegment now (?e\<lparr>st_nextSeg := maxSegmentID (st_files ?e)\<rparr>)
      (classForStream (cf_StreamID cfg)) (segmentSizeOf cfg)) = (Inr (), s3)"
    "logInv (0 + 1) s3 (freshHeader (0 + 1) (classForStream (cf_StreamID cfg))) 0 []" "st_streamID s3 = cf_StreamID cfg"
    by (rule fresh_segment [OF st _ assms(3,4,1), of now "classForStream (cf_StreamID cfg)" "segmentSizeOf cfg"]) simp_all
  have "ov_Len NewOverlay = 0" by (simp add: ov_Len_def NewOverlay_def)
  then have "New clock now cfg emptyDisk = (Inr (), s3)"
    using s3(1) assms(1,3)
    by (simp add: New_def Let_def LoadRecoveryCheckpoint_def emptyDisk_def recoverActiveSegment_def persistRecoveredOverlay_def
        emptyStore_def timely_def)
  then show ?thesis using assms(2) s3 by auto
qed

lemma flush_streamID: "ov_ok (st_overlay s) \<Longrightarrow> flush s = (r, s') \<Longrightarrow> st_streamID s' = st_streamID s"
  unfolding flush_eq by (auto simp: marked_def split: if_splits sum.splits)

definition serving :: "Config \<Rightarrow> u64 \<Rightarrow> Store \<Rightarrow> bool" where
  "serving cfg w s \<longleftrightarrow> st_streamID s = cf_StreamID cfg \<and> (\<exists>pre base bs. logInv w s pre base bs)"

lemma serving_same: "sameStore s s' \<Longrightarrow> serving cfg w s \<Longrightarrow> serving cfg w s'"
  unfolding serving_def using logInv_sameStore [of s s' w] by (metis sameStore_def sameLog_def)

lemma alive_inv:
  assumes "alive z cfg w s" "frameCodec_ok z" "cf_persistent cfg" "cf_Faults cfg = (\<lambda>_. None)"
  shows "serving cfg w s"
  using assms(1)
proof induction
  case (alive_new clock now s)
  then show ?case using New_empty assms(3,4) by (simp add: serving_def)
next
  case (alive_commit w s now batch s')
  obtain pre base bs where inv: "logInv w s pre base bs" using alive_commit by (auto simp: serving_def)
  obtain batch' rs where b: "batch \<noteq> []" "list_all2 pends batch rs" "commitBatch now s batch = (Inr batch', s')"
    "al_segmentID (st_alloc s') = w" "st_streamSeq s < st_streamSeq s + of_nat (length batch)"
    by (rule commits_pends [OF assms(2) alive_commit.hyps(2)])
  show ?case using logInv_commit [OF inv b(2,1,3,4,5)] alive_commit.IH by (auto simp: serving_def)
next
  case (alive_flush w s r s')
  obtain pre base bs where inv: "logInv w s pre base bs" using alive_flush by (auto simp: serving_def)
  have "ov_ok (st_overlay s)" using inv by (simp add: logInv_def)
  then have "st_streamID s' = st_streamID s" using flush_streamID alive_flush.hyps(2) by blast
  then show ?case using logInv_flush [OF inv alive_flush.hyps(2,3)] alive_flush.IH by (simp add: serving_def)
next
  case (alive_restart w s now batch s' n clock now' s2)
  obtain pre base bs where inv: "logInv w s pre base bs" using alive_restart by (auto simp: serving_def)
  have i: "cf_StreamID cfg = st_streamID s" using alive_restart.IH by (simp add: serving_def)
  show ?case
    using crash_reopen [OF inv assms(2,3,4) i alive_restart.hyps(6,2,3,4,5,7), of now'] alive_restart.hyps(8)
    by (auto simp: serving_def)
qed (blast intro: serving_same Read_same writePrepare_same writeFinish_same deleteFinish_same applyStep_same)+


section \<open>A small store\<close>

definition demoClock :: startupClock where
  "demoClock = \<lparr>sc_scan = (\<lambda>_. False), sc_empty = False, sc_beforePersist = False, sc_afterPersist = False, sc_finish = False\<rparr>"

definition demoConfig :: Config where
  "demoConfig = \<lparr>cf_SegmentSize = 1024, cf_persistent = True, cf_Faults = (\<lambda>_. None), cf_StreamID = 1, cf_Enc = None,
     cf_LocationCacheSize = 4, cf_SegCacheSize = 4, cf_ChangeJournal = None\<rparr>"

definition demoOpen :: Store where
  "demoOpen = snd (New demoClock 0 demoConfig emptyDisk)"

lemma New_on_empty:
  assumes "timely clock" "cf_persistent cfg"
  shows "New clock now cfg emptyDisk =
    (Inr (), (newActiveSegment now ((emptyStore cfg emptyDisk)\<lparr>st_nextSeg := 0\<rparr>) (classForStream (cf_StreamID cfg)) (segmentSizeOf cfg))\<lparr>st_dataReady := True\<rparr>)"
proof -
  let ?e = "emptyStore cfg emptyDisk"
  have "ov_Len (st_overlay ?e) = 0" "st_files ?e = []" "maxSegmentID [] = 0" "st_recoveryResult ?e = None"
    by (simp_all add: emptyStore_def emptyDisk_def ov_Len_def NewOverlay_def maxSegmentID_def)
  moreover have "LoadRecoveryCheckpoint (cf_persistent cfg) (dk_sidecars emptyDisk) (cf_StreamID cfg) = Inr None"
    by (simp add: LoadRecoveryCheckpoint_def emptyDisk_def)
  ultimately show ?thesis using assms
    by (simp add: New_def Let_def recoverActiveSegment_def persistRecoveredOverlay_def timely_def finishRecoveryStartup_def newActiveSegment_def)
qed

lemma demo_timely: "timely demoClock"
  by (simp add: timely_def demoClock_def)

lemma demoOpen_eq: "New demoClock 0 demoConfig emptyDisk = (Inr (), demoOpen)"
  "demoOpen = (newActiveSegment 0 ((emptyStore demoConfig emptyDisk)\<lparr>st_nextSeg := 0\<rparr>) SegmentData 1024)\<lparr>st_dataReady := True\<rparr>"
proof -
  have "classForStream (cf_StreamID demoConfig) = SegmentData" "segmentSizeOf demoConfig = 1024" "cf_persistent demoConfig"
    by (simp_all add: demoConfig_def classForStream_def segmentSizeOf_def)
  then show "New demoClock 0 demoConfig emptyDisk = (Inr (), demoOpen)"
    "demoOpen = (newActiveSegment 0 ((emptyStore demoConfig emptyDisk)\<lparr>st_nextSeg := 0\<rparr>) SegmentData 1024)\<lparr>st_dataReady := True\<rparr>"
    using New_on_empty [OF demo_timely, of demoConfig 0] by (simp_all add: demoOpen_def)
qed

lemma demoOpen_fields:
  "st_alloc demoOpen = NewAllocator 1 SegmentData 1024 0" "st_closing demoOpen = False" "st_enc demoOpen = None"
  "st_overlay demoOpen = NewOverlay" "st_index demoOpen = []" "st_streamSeq demoOpen = 0" "st_sidecars demoOpen = []"
  "st_persistent demoOpen" "st_streamID demoOpen = 1" "st_faults demoOpen = (\<lambda>_. None)"
  unfolding demoOpen_eq(2) by (simp_all add: newActiveSegment_def Let_def emptyStore_def emptyDisk_def demoConfig_def)

text \<open>A write of three bytes to the extent 7, and the store when it is committed.\<close>

definition demoRequest :: WriteRequest where
  "demoRequest = \<lparr>wr_ExtentID = 7, wr_Generation = 1, wr_Data = [1, 2, 3]\<rparr>"

definition demoBatch :: "pendingWrite list" where
  "demoBatch = (case fst (writePrepare plainFrames None None (\<lambda>_. None) demoOpen demoRequest) of Answered _ \<Rightarrow> [] | Submitted pw \<Rightarrow> [pw])"

definition demoWritten :: Store where
  "demoWritten = snd (commitBatch 0 demoOpen demoBatch)"

text \<open>What such a write prepares.\<close>

lemma demo_prepare:
  assumes "lookup demoOpen e 1 = Inl ErrExtentNotFound"
  obtains pw where "writePrepare plainFrames None None (\<lambda>_. None) demoOpen \<lparr>wr_ExtentID = e, wr_Generation = 1, wr_Data = [1, 2, 3]\<rparr> = (Submitted pw, demoOpen)"
    "prepared plainFrames pw" "unat (framingOf pw) = 83" "pw_extentID pw = e" "pw_generation pw = 1" "pw_publishedValue pw = None"
    "\<exists>c q. pw_idxBuf pw = putUint32 0 @ putUint32 3 @ [c] @ putUint32 q" "pw_stored pw = [1, 2, 3]"
proof -
  obtain h idx where m: "putMaterial plainFrames (\<lambda>_. None) (0, None) e 1 [1, 2, 3] = Inr (h, idx, [1, 2, 3])" and h: "rh_FrameCount h = 1"
    and idx: "\<exists>c q. idx = putUint32 0 @ putUint32 3 @ [c] @ putUint32 q"
    by (simp add: putMaterial_def BuildFramedRecord_def ShouldCompress_def CompressionNoCompressionThreshold_def splitFrames_def
        frameNumber_def DefaultFrameSize_def storeFrame_def encodeFrameIndex_def encodeEntry_def Let_def)
  have k: "storeKey plainFrames None None demoOpen = (Inr (0, None), demoOpen)" by (simp add: storeKey_def demoOpen_fields)
  obtain pw where w: "writePrepare plainFrames None None (\<lambda>_. None) demoOpen \<lparr>wr_ExtentID = e, wr_Generation = 1, wr_Data = [1, 2, 3]\<rparr> = (Submitted pw, demoOpen)"
    "pw_header pw = h" "pw_storedLen pw = 3" "pw_extentID pw = e" "pw_generation pw = 1" "pw_publishedValue pw = None"
    "pw_idxBuf pw = idx" "pw_stored pw = [1, 2, 3]"
    by (simp add: writePrepare_def demoOpen_fields assms k m)
  have "prepared plainFrames pw" by (rule prepared_write [OF w(1)]) (simp_all add: MaxExtentSize_def)
  moreover have "unat (framingOf pw) = 83" by (simp add: framingOf_def RecordFraming_def w h size_defs)
  ultimately show ?thesis using that [of pw] w idx by simp
qed

lemma demo_unknown: "lookup demoOpen e g = Inl ErrExtentNotFound"
  by (simp add: lookup_def demoOpen_fields index_Get_def)

lemma demoBatch_eq:
  obtains pw where "demoBatch = [pw]" "prepared plainFrames pw" "unat (framingOf pw) = 83" "pw_extentID pw = 7" "pw_generation pw = 1"
    "pw_publishedValue pw = None"
proof -
  obtain pw where "writePrepare plainFrames None None (\<lambda>_. None) demoOpen \<lparr>wr_ExtentID = 7, wr_Generation = 1, wr_Data = [1, 2, 3]\<rparr> = (Submitted pw, demoOpen)"
    "prepared plainFrames pw" "unat (framingOf pw) = 83" "pw_extentID pw = 7" "pw_generation pw = 1" "pw_publishedValue pw = None"
    by (rule demo_prepare [OF demo_unknown])
  then show ?thesis using that by (simp add: demoBatch_def demoRequest_def)
qed

lemma demo_config: "cf_persistent demoConfig" "cf_Faults demoConfig = (\<lambda>_. None)" "segmentSizeOf demoConfig = 1024"
  by (simp_all add: demoConfig_def segmentSizeOf_def)

lemma demo_alive: "alive plainFrames demoConfig 1 demoOpen"
  by (rule alive_new [OF demo_timely demoOpen_eq(1)])

lemma demo_commit:
  "commits plainFrames 0 1 demoOpen demoBatch demoWritten" "length (activeFile demoOpen) = 22" "length (activeFile demoWritten) = 147"
  "st_flushMutations demoWritten = 1" "\<exists>v. lookup demoWritten 7 1 = Inr v \<and> va_State v = ExtentDurable \<and> va_Offset v = 22"
proof -
  obtain pre base bs where inv: "logInv 1 demoOpen pre base bs"
    using alive_inv [OF demo_alive plainFrames_ok demo_config(1,2)] by (auto simp: serving_def)
  then have ap: "appendable 1 demoOpen" "caughtUp demoOpen" by (simp_all add: logInv_def)
  have lo: "length (activeFile demoOpen) = 22" using ap(1) by (simp add: appendable_def demoOpen_fields NewAllocator_def SegmentHeaderSize_def)
  obtain pw where pw: "demoBatch = [pw]" "prepared plainFrames pw" "unat (framingOf pw) = 83" "pw_extentID pw = 7" "pw_generation pw = 1"
    "pw_publishedValue pw = None" by (rule demoBatch_eq)
  obtain r where r: "pends pw r" using prepared_pends [OF plainFrames_ok pw(2)] by blast
  have rs: "list_all2 pends demoBatch [r]" "demoBatch \<noteq> []" unfolding pw(1) using r by simp_all
  have lr: "length (recordsBytes [r]) = 83" using framing_pends [OF r] pw(3) by simp
  have room: "CanReserveBatch (st_alloc demoOpen) (BatchCommitSize + length (recordsBytes [r]))" "CanReserveRecords (st_alloc demoOpen) (length demoBatch)"
    unfolding lr demoOpen_fields pw(1)
    by (simp_all add: CanReserveBatch_def CanReserveRecords_def NewAllocator_def SegmentHeaderSize_def BatchCommitSize_def MaxRecordsPerSegment_def)
  obtain batch' where c: "commitBatch 0 demoOpen demoBatch = (Inr batch', demoWritten)" "al_segmentID (st_alloc demoWritten) = 1"
    using commitBatch_fits [OF ap(1) rs room, of 0] by (auto simp: demoWritten_def)
  note C = commitBatch_Inr [OF ap(1) rs c]
  show "commits plainFrames 0 1 demoOpen demoBatch demoWritten" using c pw(2) unfolding pw(1) by (simp add: commits_def demoOpen_fields)
  show "length (activeFile demoOpen) = 22" by (rule lo)
  show "length (activeFile demoWritten) = 147" using C(2) lo lr by (simp add: batchBytes_def BatchCommitSize_def)
  have "st_flushMutations demoOpen = 0" unfolding demoOpen_eq(2) by (simp add: newActiveSegment_def Let_def emptyStore_def)
  then show "st_flushMutations demoWritten = 1" using C(11) [OF ap(2)] unfolding pw(1) by simp
  have "ov_Get (st_overlay demoWritten) (indexKey 7 1) = Some (publishedOf (pw\<lparr>pw_segID := 1, pw_offset := 22, pw_streamSeq := 0\<rparr>))"
    unfolding C(4,1) pw(1) using pw(4,5)
    by (simp add: publishOverlay_def ov_Get_Put demoOpen_fields NewAllocator_def SegmentHeaderSize_def)
  then show "\<exists>v. lookup demoWritten 7 1 = Inr v \<and> va_State v = ExtentDurable \<and> va_Offset v = 22"
    using pw(6) by (simp add: lookup_def publishedOf_def)
qed


end
