(* ===== verification/Store_Frames.thy ===== *)
theory Store_Frames
  imports Recovery_Props
begin

text \<open>
  What the operations on the log leave alone: the key registry, the location cache and the closing
  flag; and how a read finds a record once the lookup has answered.
\<close>

definition sameRequests :: "Store \<Rightarrow> Store \<Rightarrow> bool" where
  "sameRequests s s' \<longleftrightarrow> st_enc s' = st_enc s \<and> st_locCache s' = st_locCache s \<and> st_closing s' = st_closing s"

lemma sameRequests_refl [simp]: "sameRequests s s"
  by (simp add: sameRequests_def)

lemma sameRequests_trans: "sameRequests s s' \<Longrightarrow> sameRequests s' s'' \<Longrightarrow> sameRequests s s''"
  by (simp add: sameRequests_def)

lemma drainReady_requests: "sameRequests s (drainReady n s)"
  by (induction n arbitrary: s) (auto simp: sameRequests_def split: option.split)

lemma publishEach_requests: "sameRequests s (publishEach n b s)"
proof (induction n arbitrary: b s)
  case (Suc n)
  obtain b' s' where p: "publishRecoveryBatch b s = (b', s')" by fastforce
  have "sameRequests s s'"
    using p drainReady_requests [of "s\<lparr>st_readyBatches := AList.update (rb_previousSeq b) (b\<lparr>rb_remaining := rb_remaining b - 1\<rparr>) (st_readyBatches s)\<rparr>"]
    by (auto simp: publishRecoveryBatch_def Let_def sameRequests_def split: if_splits)
  then show ?case using p Suc [of s' b'] sameRequests_trans by simp
qed simp

lemma appendBatch_requests: "appendBatch s co batch = (r, s') \<Longrightarrow> sameRequests s s'"
proof -
  have p: "st_enc (publishEach n b t) = st_enc t" "st_locCache (publishEach n b t) = st_locCache t" "st_closing (publishEach n b t) = st_closing t" for n b t
    using publishEach_requests [of t n b] by (simp_all add: sameRequests_def)
  show "appendBatch s co batch = (r, s') \<Longrightarrow> sameRequests s s'"
    by (auto simp: appendBatch_def publishCommitted_def Let_def p sameRequests_def split: prod.splits option.splits)
qed

lemma makeRoom_requests: "makeRoom now s batch = (r, s') \<Longrightarrow> sameRequests s s'"
  by (auto simp: makeRoom_def Let_def sealActiveLocked_def newActiveSegment_def sameRequests_def split: if_splits prod.splits sum.splits)

lemma commitBatch_requests: "commitBatch now s batch = (r, s') \<Longrightarrow> sameRequests s s'"
proof -
  assume c: "commitBatch now s batch = (r, s')"
  obtain q s1 where m: "makeRoom now s batch = (q, s1)" by fastforce
  have s1: "sameRequests s (s1\<lparr>st_alloc := a, st_streamSeq := sq\<rparr>)" "sameRequests s s1" for a sq
    using makeRoom_requests [OF m] by (simp_all add: sameRequests_def)
  show ?thesis
  proof (cases q)
    case (Inl e)
    then show ?thesis using c m s1 by (simp add: commitBatch_def)
  next
    case (Inr u)
    have "sameRequests s t" if "appendBatch (s1\<lparr>st_alloc := a, st_streamSeq := sq\<rparr>) co b = (r, t)" for a sq co b r t
      using s1(1) appendBatch_requests [OF that] by (rule sameRequests_trans)
    then show ?thesis using c m Inr s1 by (auto simp: commitBatch_def split: prod.splits sum.splits)
  qed
qed

lemma flush_requests: "flush s = (r, s') \<Longrightarrow> sameRequests s s'"
  by (auto simp: flush_def writeIndexSafeLocked_def applyNow_def Let_def sameRequests_def split: prod.splits if_splits sum.splits)

lemma writeFinish_requests: "writeFinish s pw = (r, s') \<Longrightarrow> sameRequests s s'"
proof -
  have "sameRequests s (snd (enqueueApply s muts))" for muts
    by (simp add: enqueueApply_def applyNow_def sameRequests_def split: option.split)
  then show "writeFinish s pw = (r, s') \<Longrightarrow> sameRequests s s'" by (auto simp: writeFinish_def)
qed

lemma New_requests:
  assumes "New clock now cfg disk = (r, s)"
  shows "sameRequests (emptyStore cfg disk) s"
proof -
  let ?e = "emptyStore cfg disk"
  have dl: "sameRequests s (snd (checkRecoveryDeadline late s))" for late s by (simp add: checkRecoveryDeadline_def sameRequests_def)
  have rec: "sameRequests s t" if "recoverActiveSegment clock s ck p = (q, t)" for s ck p q t
    using that by (auto simp: recoverActiveSegment_def Let_def sameRequests_def split: option.splits prod.splits)
  have per: "sameRequests s t" if p: "persistRecoveredOverlay clock now s p c n = (q, t)" for s p c n q t
  proof -
    obtain q1 s1 where d: "checkRecoveryDeadline (sc_beforePersist clock) s = (q1, s1)" by fastforce
    have s1: "sameRequests s s1" using dl [of s "sc_beforePersist clock"] d by simp
    have "sameRequests s s2 \<and> sameRequests s (s2\<lparr>st_writer := None\<rparr>) \<and> sameRequests s ((snd (checkRecoveryDeadline late s2))\<lparr>st_writer := None\<rparr>)"
      if "flush (s1\<lparr>st_writer := w, st_alloc := a\<rparr>) = (x, s2)" for w a x s2 late
      using s1 flush_requests [OF that] by (simp add: sameRequests_def checkRecoveryDeadline_def)
    then have "sameRequests s (snd (persistRecoveredOverlay clock now s p c n))"
      using s1 dl d by (simp add: persistRecoveredOverlay_def Let_def split: sum.split option.split prod.split) (metis snd_conv)
    then show ?thesis using p by simp
  qed
  have fin: "sameRequests s (snd (finishRecoveryStartup clock (newActiveSegment now (s\<lparr>st_nextSeg := k\<rparr>) c n)))" for s k c n
    by (simp add: finishRecoveryStartup_def checkRecoveryDeadline_def newActiveSegment_def Let_def sameRequests_def)
  obtain q1 s1 where r: "recoverActiveSegment clock ?e (projr (LoadRecoveryCheckpoint (cf_persistent cfg) (dk_sidecars disk) (cf_StreamID cfg)))
      (maxSegmentID (st_files ?e)) = (q1, s1)" by fastforce
  obtain q2 s2 where p: "persistRecoveredOverlay clock now s1 (maxSegmentID (st_files ?e)) (classForStream (cf_StreamID cfg)) (segmentSizeOf cfg) = (q2, s2)"
    by fastforce
  have "sameRequests ?e s1" "sameRequests ?e s2" using rec [OF r] per [OF p] sameRequests_trans by blast+
  moreover from this(2) have "sameRequests ?e (snd (finishRecoveryStartup clock (newActiveSegment now (s2\<lparr>st_nextSeg := k\<rparr>) c n)))" for k c n
    using sameRequests_trans [OF _ fin] by blast
  ultimately have "sameRequests ?e (snd (New clock now cfg disk))"
    using r p by (auto simp: New_def Let_def split: sum.split)
  then show ?thesis using assms by simp
qed

section \<open>Reading a record\<close>

definition resolves :: "frameCodec \<Rightarrow> KeyRegistry option \<Rightarrow> u64 \<Rightarrow> u8 list option \<Rightarrow> bool" where
  "resolves z enc keyID key \<longleftrightarrow>
     (if keyID = 0 then key = None
      else (case enc of None \<Rightarrow> False | Some reg \<Rightarrow> key \<noteq> None \<and> fst (ResolveNumeric (fc_aead z) reg keyID) = Inr key))"

lemma resolves_keyFor: "resolves z enc (rh_KeyID h) key \<Longrightarrow> rd_enc r = enc \<Longrightarrow> keyFor z r h key"
  by (auto simp: resolves_def keyFor_def split: if_splits option.splits)

lemma dc_Get_file:
  assumes "map_of files w = Some f" "\<not> hasEncodedSegmentFooter f"
  shows "\<exists>rd c'. dc_Get files c w enc = (Inr rd, c') \<and> rd_file rd = f \<and> rd_enc rd = enc"
proof (cases "find (\<lambda>e. ce_path e = w) (dc_lru c)")
  case None
  then show ?thesis using assms by (simp add: dc_Get_def OpenReaderWithEnc_def Let_def)
next
  case (Some e)
  then have "ce_path e = w" by (auto simp: find_Some_iff)
  then show ?thesis using Some assms by (simp add: dc_Get_def freshReader_def)
qed

lemma read_located:
  assumes z: "frameCodec_ok z" "\<forall>j x. nonces j = Some x \<longrightarrow> length x = NonceSize"
    and m: "putMaterial z nonces (keyID, encKey) e g data = Inr (h, idx, stored)" "length data \<le> MaxExtentSize"
    and img: "recordImage h idx stored = Inr img" "SegmentHeaderSize \<le> off" "off < 2 ^ 63"
    and s: "\<not> st_closing s" "lookup s e g = Inr v" "map_of (lc_lru (st_locCache s)) (indexKey e g) = None"
    and v: "v = \<lparr>va_SegmentID = w, va_Offset = of_nat off, va_StoredLen = rh_StoredLen h, va_LogicalLen = of_nat (length data),
               va_State = ExtentDurable, va_Checksum = c\<rparr>"
    and f: "map_of (st_files s) w = Some f" "holds_at f off img" "\<not> hasEncodedSegmentFooter f"
    and k: "resolves z (st_enc s) (rh_KeyID h) encKey"
  shows "fst (Read z s \<lparr>rq_ExtentID = e, rq_Generation = g, rq_LogicalOffset = lo, rq_Length = 0\<rparr>) = Inr (data, c)"
    "0 \<le> lo \<Longrightarrow> lo < int (length data) \<Longrightarrow> 0 < n \<Longrightarrow>
       fst (Read z s \<lparr>rq_ExtentID = e, rq_Generation = g, rq_LogicalOffset = lo, rq_Length = n\<rparr>) = Inr (take (nat n) (drop (nat lo) data), c)"
proof -
  obtain s1 where s1: "cachedLookup s e g = (Inr v, s1)" "st_files s1 = st_files s" "st_enc s1 = st_enc s"
    using s by (simp add: cachedLookup_def lc_Get_def)
  obtain rd c' where rd: "dc_Get (st_files s1) (st_segCache s1) w (st_enc s1) = (Inr rd, c')" "rd_file rd = f" "rd_enc rd = st_enc s"
    using dc_Get_file [OF f(1,3)] s1 by metis
  have o: "nat (sint (va_Offset v)) = off" using sint_of_small [OF img(3)] by (simp add: v)
  have st: "va_State v \<noteq> ExtentTombstoned" "va_State v \<noteq> ExtentCorrupt"
    by (simp_all add: v ExtentDurable_def ExtentTombstoned_def ExtentCorrupt_def)
  have at: "holds_at (rd_file rd) off img" using f(2) rd(2) by simp
  note R = material_reads [OF z m img(2,1) at resolves_keyFor [OF k rd(3)]]
  have vf: "va_SegmentID v = w" "va_StoredLen v = rh_StoredLen h" "va_LogicalLen v = of_nat (length data)" "va_Checksum v = c" by (simp_all add: v)
  show "fst (Read z s \<lparr>rq_ExtentID = e, rq_Generation = g, rq_LogicalOffset = lo, rq_Length = 0\<rparr>) = Inr (data, c)"
    using s(1) s1(1) st rd(1) R(1) by (auto simp: Read_def o vf Let_def split: prod.splits)
  show "fst (Read z s \<lparr>rq_ExtentID = e, rq_Generation = g, rq_LogicalOffset = lo, rq_Length = n\<rparr>) = Inr (take (nat n) (drop (nat lo) data), c)"
    if "0 \<le> lo" "lo < int (length data)" "0 < n"
    using s(1) s1(1) st rd(1) R(2) [OF that] that by (auto simp: Read_def o vf Let_def split: prod.splits)
qed

end
