(* ===== verification/Store_Types.thy ===== *)
theory Store_Types
  imports Recovery_Props
begin

text \<open>
  The typing of the location data of a store (\<open>index/index.go\<close>, \<open>segment/overlay.go\<close>, \<open>segment/store.go\<close>): the rows
  of the index have keys and values of the fixed encoded lengths, and so have the keys of the overlay.
  Every operation keeps this, also one that fails and also a restart after any damage to the segment
  files, so that no lookup and no listing ever answers with a corrupt index.
\<close>

section \<open>Well formed rows\<close>

definition rowOk :: "u8 list \<times> u8 list \<Rightarrow> bool" where
  "rowOk r \<longleftrightarrow> length (fst r) = KeyLen \<and> length (snd r) = ValueLen"

definition keysOk :: "Locations \<Rightarrow> bool" where
  "keysOk ls \<longleftrightarrow> list_all (\<lambda>e. length (fst e) = KeyLen) ls"

definition typedOverlay :: "Overlay \<Rightarrow> bool" where
  "typedOverlay ov \<longleftrightarrow> keysOk (ov_entries ov) \<and> keysOk (ov_draining ov)"

definition typed :: "Store \<Rightarrow> bool" where
  "typed s \<longleftrightarrow> list_all rowOk (st_index s) \<and> typedOverlay (st_overlay s)"

lemma typed_cong: "st_index s' = st_index s \<Longrightarrow> st_overlay s' = st_overlay s \<Longrightarrow> typed s' = typed s"
  by (simp add: typed_def)

lemma all_update: "list_all P al \<Longrightarrow> P (k, v) \<Longrightarrow> list_all P (AList.update k v al)"
  by (induction al) auto

lemma typedOverlay_New [simp]: "typedOverlay NewOverlay"
  by (simp add: typedOverlay_def keysOk_def NewOverlay_def)

lemma typedOverlay_Put: "typedOverlay ov \<Longrightarrow> typedOverlay (ov_Put ov (indexKey e g) v)"
  by (simp add: typedOverlay_def keysOk_def ov_Put_def all_update)

lemma typedOverlay_publish: "typedOverlay ov \<Longrightarrow> typedOverlay (publishOverlay ov batch)"
  unfolding publishOverlay_def by (induction batch arbitrary: ov) (simp_all add: typedOverlay_Put)

lemma typedOverlay_Drain: "typedOverlay ov \<Longrightarrow> ov_Drain ov = (muts, ov') \<Longrightarrow> typedOverlay ov'"
proof -
  have "keysOk d \<Longrightarrow> keysOk es \<Longrightarrow> keysOk (foldl (\<lambda>d e. AList.update (fst e) (snd e) d) d es)" for d es
    by (induction es arbitrary: d) (simp_all add: keysOk_def all_update)
  then show "typedOverlay ov \<Longrightarrow> ov_Drain ov = (muts, ov') \<Longrightarrow> typedOverlay ov'"
    by (auto simp: ov_Drain_def typedOverlay_def keysOk_def)
qed

lemma typedOverlay_Restore: "typedOverlay ov \<Longrightarrow> typedOverlay (ov_RestoreDrained ov)"
  by (auto simp: typedOverlay_def keysOk_def ov_RestoreDrained_def list_all_iff)

lemma typedOverlay_Discard: "typedOverlay ov \<Longrightarrow> typedOverlay (ov_DiscardDrained ov)"
  by (simp add: typedOverlay_def keysOk_def ov_DiscardDrained_def)

lemma typed_applyMutations: "list_all rowOk ix \<Longrightarrow> list_all rowOk (applyMutations ix ms)"
  unfolding applyMutations_def
  by (induction ms arbitrary: ix) (simp_all add: applyMutation_def all_update rowOk_def)

section \<open>What typing gives\<close>

lemma index_Get_typed: "list_all rowOk ix \<Longrightarrow> index_Get ix e g = Inl err \<Longrightarrow> err = ErrExtentNotFound"
proof -
  assume t: "list_all rowOk ix" and g: "index_Get ix e g = Inl err"
  have "length raw = ValueLen" if "map_of ix k = Some raw" for k raw
    using t map_of_SomeD [OF that] by (auto simp: list_all_iff rowOk_def)
  then show "err = ErrExtentNotFound" using g by (auto simp: index_Get_def decodeValue_def split: option.splits)
qed

lemma lookup_typed: "typed s \<Longrightarrow> lookup s e g = Inl err \<Longrightarrow> err = ErrExtentNotFound"
  using index_Get_typed by (auto simp: lookup_def typed_def split: option.splits)

lemma iterateKeys_typed:
  assumes "list_all rowOk ix" "set ks \<subseteq> fst ` set ix"
  shows "\<exists>out. iterateKeys ix ks cur = Inr out"
  using assms(2)
proof (induction ks arbitrary: cur)
  case (Cons k ks)
  obtain raw where raw: "map_of ix k = Some raw" using Cons.prems by (metis list.set_intros(1) map_of_eq_None_iff not_None_eq subsetD)
  then have "length raw = ValueLen" using assms(1) map_of_SomeD [OF raw] by (auto simp: list_all_iff rowOk_def)
  then obtain v where v: "decodeValue (the (map_of ix k)) = Inr v" using raw by (simp add: decodeValue_def)
  have ih: "\<exists>out. iterateKeys ix ks c = Inr out" for c using Cons by simp
  obtain out where o: "iterateKeys ix ks (Some (ExtentFromKey k, GenerationFromKey k, v)) = Inr out" using ih by blast
  show ?case using ih v o by (simp add: Let_def split: option.split)
qed simp

lemma ListExtents_typed: "typed s \<Longrightarrow> \<not> st_closing s \<Longrightarrow> \<exists>es. ListExtents s = Inr es"
proof -
  assume "typed s" "\<not> st_closing s"
  moreover have "\<exists>out. index_Iterate (st_index s) = Inr out" if "list_all rowOk (st_index s)"
    unfolding index_Iterate_def by (rule iterateKeys_typed [OF that]) (simp add: indexKeys_def)
  ultimately show ?thesis by (auto simp: ListExtents_def typed_def Let_def)
qed

section \<open>The operations keep it\<close>

lemma typed_applyNow: "typed s \<Longrightarrow> typed (applyNow s muts)"
  by (simp add: typed_def applyNow_def typed_applyMutations)

lemma typed_enqueue: "typed s \<Longrightarrow> typed (snd (enqueueApply s muts))"
  using typed_applyNow by (auto simp: enqueueApply_def typed_def split: option.split)

lemma typed_applyStep: "typed s \<Longrightarrow> typed (applyStep s)"
  by (auto simp: applyStep_def typed_def typed_applyMutations applyNow_def split: list.split)

lemma typed_applySteps: "typed s \<Longrightarrow> typed ((applyStep ^^ n) s)"
  by (induction n) (simp_all add: typed_applyStep)

lemma typed_setActive: "typed (setActive s f) = typed s"
  by (rule typed_cong) (simp_all add: setActive_def split: option.split)

lemma writeIndexSafe_typed: "typed s \<Longrightarrow> typed (snd (writeIndexSafeLocked s sq))"
  by (auto simp: writeIndexSafeLocked_def Let_def typed_def setActive_def split: sum.split option.split)

lemma typed_flush: "typed s \<Longrightarrow> typed (snd (flush s))"
proof -
  assume t: "typed s"
  obtain muts ov where d: "ov_Drain (st_overlay s) = (muts, ov)" by fastforce
  have ov: "typedOverlay ov" using typedOverlay_Drain [OF _ d] t by (simp add: typed_def)
  have t1: "typed (applyNow (s\<lparr>st_overlay := ov\<rparr>) muts)" by (rule typed_applyNow) (use t ov in \<open>simp add: typed_def\<close>)
  obtain r s2 where w: "writeIndexSafeLocked (applyNow (s\<lparr>st_overlay := ov\<rparr>) muts) (st_flushSeq s) = (r, s2)" by fastforce
  have t2: "typed s2" using writeIndexSafe_typed [OF t1, of "st_flushSeq s"] w by simp
  show ?thesis
    using t ov t2 typedOverlay_Restore typedOverlay_Discard
    by (auto simp: flush_def d w Let_def typed_def split: sum.split)
qed

lemma newActiveSegment_typed: "typed (newActiveSegment now s c n) = typed s"
  by (rule typed_cong) (simp_all add: newActiveSegment_def Let_def)

lemma seal_typed: "sealActiveLocked now s = (r, s') \<Longrightarrow> typed s' = typed s"
  by (auto simp: sealActiveLocked_def Let_def newActiveSegment_typed typed_setActive split: sum.splits)

lemma makeRoom_typed: "makeRoom now s batch = (r, s') \<Longrightarrow> typed s' = typed s"
  using seal_typed by (auto simp: makeRoom_def Let_def split: if_splits prod.splits sum.splits)

lemma publishEach_typed: "typed (publishEach n b s) = typed s"
  using publishEach_log [of s n b] by (intro typed_cong) (simp_all add: sameLog_def)

lemma publishCommitted_typed: "typed s \<Longrightarrow> typed (snd (publishCommitted s bc batch))"
proof -
  assume t: "typed s"
  let ?s1 = "s\<lparr>st_alloc := RecordCommit (st_alloc s) (st_streamSeq s)\<rparr>"
  have "typed ?s1" "typed (?s1\<lparr>st_overlay := publishOverlay (st_overlay ?s1) batch\<rparr>)"
    using t by (simp_all add: typed_def typedOverlay_publish)
  then show ?thesis by (simp add: publishCommitted_def Let_def publishEach_typed split: option.split)
qed

lemma appendBatch_typed: "typed s \<Longrightarrow> typed (snd (appendBatch s co batch))"
proof -
  assume t: "typed s"
  have u: "typed (setActive (setActive s f) g\<lparr>st_syncCalls := n\<rparr>)" "typed (setActive (setActive s f) g)" "typed (setActive s f)" for f g n
    using t typed_cong [of "setActive (setActive s f) g\<lparr>st_syncCalls := n\<rparr>" "setActive (setActive s f) g"] by (simp_all add: typed_setActive)
  show ?thesis
    by (auto simp: appendBatch_def Let_def u publishCommitted_typed split: prod.split option.split)
qed

lemma commitBatch_typed: "typed s \<Longrightarrow> typed (snd (commitBatch now s batch))"
proof -
  assume t: "typed s"
  obtain r s1 where m: "makeRoom now s batch = (r, s1)" by fastforce
  have "typed s1" using makeRoom_typed [OF m] t by simp
  then have u: "typed (s1\<lparr>st_alloc := a, st_streamSeq := sq\<rparr>)" "typed s1" for a sq by (simp_all add: typed_def)
  show ?thesis by (auto simp: commitBatch_def m u appendBatch_typed split: sum.split prod.split)
qed

lemma storeKey_typed: "storeKey z rnd nonce s = (r, s') \<Longrightarrow> typed s' = typed s"
  by (rule typed_cong) (auto simp: storeKey_def split: option.splits if_splits prod.splits)

lemma writePrepare_typed: "writePrepare z rnd nonce nonces s req = (p, s') \<Longrightarrow> typed s' = typed s"
proof -
  obtain k s1 where k: "storeKey z rnd nonce s = (k, s1)" by fastforce
  have "typed (snd (writePrepare z rnd nonce nonces s req)) = typed s"
    using storeKey_typed [OF k] k by (simp add: writePrepare_def split: sum.split option.split prod.split)
  then show "writePrepare z rnd nonce nonces s req = (p, s') \<Longrightarrow> typed s' = typed s" by simp
qed

lemma writeFinish_typed: "typed s \<Longrightarrow> typed (snd (writeFinish s pw))"
  by (simp add: writeFinish_def typed_enqueue)

lemma Write_typed: "typed s \<Longrightarrow> typed (snd (Write z now rnd nonce nonces s req))"
proof -
  assume t: "typed s"
  obtain p s1 where p: "writePrepare z rnd nonce nonces s req = (p, s1)" by fastforce
  have t1: "typed s1" using writePrepare_typed [OF p] t by simp
  show ?thesis
  proof (cases p)
    case (Submitted pw)
    obtain r s2 where c: "commitBatch now s1 [pw] = (r, s2)" by fastforce
    have "typed s2" using commitBatch_typed [OF t1, of now "[pw]"] c by simp
    then have "typed s3" if "writeFinish s2 q = (x, s3)" for q x s3 using writeFinish_typed [of s2 q] that by simp
    then show ?thesis using p Submitted c \<open>typed s2\<close> by (simp add: Write_def split: sum.split prod.split)
  qed (use p t1 in \<open>simp add: Write_def\<close>)
qed

lemma deleteFinish_typed: "typed s \<Longrightarrow> typed (snd (deleteFinish s pw))"
proof -
  assume t: "typed s"
  have "typed (s\<lparr>st_locCache := c\<rparr>)" for c using t by (simp add: typed_def)
  then have "typed (snd (enqueueApply (s\<lparr>st_locCache := c\<rparr>) ms))" for c ms by (rule typed_enqueue)
  then show ?thesis by (simp add: deleteFinish_def Let_def split: prod.split option.split) (metis snd_conv)
qed

lemma deletePrepare_typed: "deletePrepare s e g = (p, s') \<Longrightarrow> s' = s"
  by (auto simp: deletePrepare_def split: if_splits sum.splits)

lemma Delete_typed: "typed s \<Longrightarrow> typed (snd (Delete now s e g))"
proof -
  assume t: "typed s"
  obtain p s1 where p: "deletePrepare s e g = (p, s1)" by fastforce
  note s1 = deletePrepare_typed [OF p]
  show ?thesis
  proof (cases p)
    case (Submitted pw)
    obtain r s2 where c: "commitBatch now s [pw] = (r, s2)" by fastforce
    have "typed s2" using commitBatch_typed [OF t, of now "[pw]"] c by simp
    then show ?thesis using p s1 Submitted c deleteFinish_typed by (auto simp: Delete_def split: sum.split)
  qed (use p s1 t in \<open>simp add: Delete_def\<close>)
qed

lemma Read_typed: "typed (snd (Read z s req)) = typed s"
proof (rule typed_cong)
  obtain r s' where r: "Read z s req = (r, s')" by fastforce
  show "st_overlay (snd (Read z s req)) = st_overlay s" using Read_same [OF r] r by (simp add: sameStore_def sameLog_def)
  show "st_index (snd (Read z s req)) = st_index s"
  proof -
    obtain q s1 where c: "cachedLookup s (rq_ExtentID req) (rq_Generation req) = (q, s1)" by fastforce
    then have "st_index s1 = st_index s" by (auto simp: cachedLookup_def Let_def split: prod.splits sum.splits option.splits)
    then show ?thesis using c by (simp add: Read_def emitChangeEvent_def Let_def split: prod.split sum.split)
  qed
qed

section \<open>Compaction\<close>

lemma publishAppended_typed: "typed s \<Longrightarrow> typed (publishAppended s sq r)"
proof -
  assume t: "typed s"
  let ?s1 = "s\<lparr>st_overlay := ov_Put (st_overlay s) (indexKey (rc_ExtentID r) (rc_Generation r)) (relocValue r)\<rparr>"
  have "typed ?s1" using t by (simp add: typed_def typedOverlay_Put)
  then have "typed (snd (publishRecoveryBatch b ?s1))" for b
    using publish_log(1) [of ?s1 b] publish_log(2) [of b ?s1] typed_cong [of "snd (publishRecoveryBatch b ?s1)" ?s1] by (simp add: sameLog_def)
  then have "typed (snd (enqueueApply (snd (publishRecoveryBatch b ?s1)) ms))" for b ms by (rule typed_enqueue)
  then show ?thesis unfolding publishAppended_def Let_def by (simp add: typed_def)
qed

lemma writeAppended_typed: "typed s \<Longrightarrow> typed (snd (writeAppended s sq off fr h idx st))"
  by (auto simp: writeAppended_def Let_def publishAppended_typed typed_setActive split: sum.split)

lemma reserveOne_typed: "reserveOne now s fr e l = (r, s') \<Longrightarrow> typed s' = typed s"
proof -
  have a: "typed (t\<lparr>st_alloc := a\<rparr>) = typed t" for t a by (simp add: typed_def)
  show "reserveOne now s fr e l = (r, s') \<Longrightarrow> typed s' = typed s"
    using seal_typed by (auto simp: reserveOne_def a split: prod.splits sum.splits if_splits)
qed

lemma AppendRecord_typed: "typed s \<Longrightarrow> typed (snd (AppendRecord z now rnd nonce nonces s e g data c))"
proof -
  assume t: "typed s"
  obtain k s1 where k: "storeKey z rnd nonce s = (k, s1)" by fastforce
  have t1: "typed s1" using storeKey_typed [OF k] t by simp
  have t2: "typed s2" if "reserveOne now s1 fr e l = (r, s2)" for fr l r s2 using reserveOne_typed [OF that] t1 by simp
  have t3: "typed (s2\<lparr>st_alloc := a, st_streamSeq := q\<rparr>)" "typed (s2\<lparr>st_alloc := a\<rparr>)" if "typed s2" for s2 a q
    using that by (simp_all add: typed_def)
  show ?thesis
    using t t1 k by (cases k) (auto simp: AppendRecord_def Let_def t3 writeAppended_typed dest!: t2 split: sum.split prod.split)
qed

lemma relocateOne_typed: "typed s \<Longrightarrow> typed (relocateOne s r)"
  by (auto simp: relocateOne_def emitChangeEvent_def Let_def typed_def typedOverlay_Put split: option.split)

lemma Relocate_typed: "typed s \<Longrightarrow> typed (snd (Relocate s rs))"
proof -
  have "typed s \<Longrightarrow> typed (foldl relocateOne s rs)" by (induction rs arbitrary: s) (simp_all add: relocateOne_typed)
  then show "typed s \<Longrightarrow> typed (snd (Relocate s rs))" by (simp add: Relocate_def)
qed

lemma copyLive_typed: "typed s \<Longrightarrow> typed (snd (snd (copyLive z now rand live i s recs relocs)))"
proof (induction recs arbitrary: i s relocs)
  case (Cons rec recs)
  obtain rnd nonce nonces where ra: "rand i = (rnd, nonce, nonces)" by (metis prod_cases3)
  obtain r s1 where a: "AppendRecord z now rnd nonce nonces s (sr_ExtentID rec) (sr_Generation rec) (sr_StoredBytes rec) (sr_Codec rec) = (r, s1)"
    by fastforce
  have "typed s1" using AppendRecord_typed [OF Cons.prems] a by (metis snd_conv)
  then show ?case using Cons a ra by (auto split: sum.split)
qed simp

lemma Compact_typed: "typed s \<Longrightarrow> typed (snd (snd (Compact z now rand live s recs)))"
proof -
  assume t: "typed s"
  obtain e relocs s1 where c: "copyLive z now rand live 0 s recs [] = (e, relocs, s1)" by (metis prod_cases3)
  have t1: "typed s1" using copyLive_typed [OF t, of z now rand live 0 recs "[]"] c by simp
  obtain r s2 where "Relocate s1 relocs = (r, s2)" by fastforce
  moreover from this have "typed s2" using Relocate_typed [OF t1, of relocs] by simp
  ultimately show ?thesis using c t1 by (auto simp: Compact_def split: option.split sum.split)
qed

lemma compactSegment_typed: "typed s \<Longrightarrow> typed (compactSegment z now rand s seg)"
proof -
  assume t: "typed s"
  have u1: "typed s1" if "Compact z now rand live s recs = (e, n, s1)" for live recs e n s1
    using Compact_typed [OF t, of z now rand live recs] that by simp
  then have u: "typed s1 \<and> typed (s1\<lparr>st_files := fs\<rparr>)" if "Compact z now rand live s recs = (e, n, s1)" for live recs e n s1 fs
    using that by (simp add: typed_def)
  show ?thesis using t u by (auto simp: compactSegment_def split: option.split sum.split prod.split)
qed

lemma compactOne_typed: "typed s \<Longrightarrow> typed (compactOne z now rand s)"
proof -
  have "typed s \<Longrightarrow> typed (foldl (\<lambda>s c. compactSegment z now rand s (cc_SegmentID c)) s cs)" for cs
    by (induction cs arbitrary: s) (simp_all add: compactSegment_typed)
  then show "typed s \<Longrightarrow> typed (compactOne z now rand s)" by (simp add: compactOne_def)
qed

lemma closeInternal_typed: "typed s \<Longrightarrow> typed (closeInternal early s)"
proof -
  assume t: "typed s"
  define s1 where "s1 = (applyStep ^^ early) (s\<lparr>st_closing := True\<rparr>)"
  define s2 where "s2 = snd (flush s1)"
  define s3 where "s3 = (applyStep ^^ length (st_applyCh s2)) s2"
  have t3: "typed s3"
    unfolding s3_def s2_def s1_def by (intro typed_applySteps typed_flush) (use t in \<open>simp add: typed_def\<close>)
  obtain muts ov where d: "ov_Drain (st_overlay s3) = (muts, ov)" by fastforce
  have "typedOverlay ov" using typedOverlay_Drain [OF _ d] t3 by (simp add: typed_def)
  then show ?thesis
    using t3 typedOverlay_Discard
    by (simp add: closeInternal_def Let_def d typed_def applyNow_def typed_applyMutations flip: s1_def s2_def s3_def)
qed

section \<open>Startup\<close>

lemma replayDescriptor_typed: "replayDescriptor d ov = Inr ov' \<Longrightarrow> typedOverlay ov \<Longrightarrow> typedOverlay ov'"
  by (auto simp: replayDescriptor_def typedOverlay_Put split: if_splits)

lemma deadline_target: "deadlineExceeded late s = (b, s') \<Longrightarrow> rs_target s' = rs_target s"
  by (auto simp: deadlineExceeded_def Let_def split: if_splits)

lemma checkDeadlines_target: "checkDeadlines late n s = (b, s') \<Longrightarrow> rs_target s' = rs_target s"
  by (induction n arbitrary: s) (auto dest: deadline_target split: prod.splits bool.splits)

lemma addReplayBytes_target: "addReplayBytes s n = Some s' \<Longrightarrow> rs_target s' = rs_target s"
  by (auto simp: addReplayBytes_def Let_def split: if_splits)

lemma applyPending_typed:
  "applyPending late replayDescriptor ce sq ds s = (r, s') \<Longrightarrow> typedOverlay (rs_target s) \<Longrightarrow> typedOverlay (rs_target s')"
proof (induction ds arbitrary: s)
  case (Cons d ds)
  obtain b s1 where b: "deadlineExceeded late s = (b, s1)" by fastforce
  note t = deadline_target [OF b]
  show ?case using Cons b t replayDescriptor_typed by (auto split: bool.splits sum.splits)
qed simp

lemma parseRecord_target: "parseRecord f s off = (r, s') \<Longrightarrow> rs_target s' = rs_target s"
  by (auto simp: parseRecord_def split: sum.splits if_splits prod.splits)

lemma parseCommit_typed:
  assumes "typedOverlay (rs_target s)"
  shows "typedOverlay (rs_target (snd (parseCommit late replayDescriptor opts f s off)))"
proof -
  obtain b s1 where b: "checkDeadlines late (length (rs_pending s)) s = (b, s1)" by fastforce
  have t1: "typedOverlay (rs_target s1)" using checkDeadlines_target [OF b] assms by simp
  have t2: "typedOverlay (rs_target s2)" if "addReplayBytes s1 n = Some s2" for n s2 using addReplayBytes_target [OF that] t1 by simp
  have t3: "typedOverlay (rs_target s3)" if "addReplayBytes s1 n = Some s2" "applyPending late replayDescriptor ce sq ds s2 = (r, s3)" for n s2 ce sq ds r s3
    using applyPending_typed [OF that(2) t2 [OF that(1)]] .
  have t4: "rs_target (snd (finishCommit off c s3)) = rs_target s3" for c s3 by (simp add: finishCommit_def)
  show ?thesis
    using assms t1 by (auto simp: parseCommit_def b t4 dest: t3 split: sum.split prod.split bool.split option.split)
qed

lemma parseEntryAt_typed:
  "parseEntryAt late replayDescriptor opts f s off = (r, s') \<Longrightarrow> typedOverlay (rs_target s) \<Longrightarrow> typedOverlay (rs_target s')"
  using parseCommit_typed [of s late opts f off]
  by (auto simp: parseEntryAt_def Let_def split: sum.splits if_splits option.splits
      dest: parseRecord_target dest!: addReplayBytes_target)

lemma scanLog_typed:
  "typedOverlay (rs_target s) \<Longrightarrow> typedOverlay (rs_target (snd (scanLog late replayDescriptor opts f fuel s off)))"
proof (induction fuel arbitrary: s off)
  case (Suc fuel)
  obtain b s0 where b: "deadlineExceeded late s = (b, s0)" by fastforce
  have t0: "typedOverlay (rs_target s0)" using deadline_target [OF b] Suc.prems by simp
  obtain r s1 where r: "parseEntryAt late replayDescriptor opts f s0 off = (r, s1)" by fastforce
  have t1: "typedOverlay (rs_target s1)" using parseEntryAt_typed [OF r t0] .
  show ?case using Suc b t0 r t1 by (auto split: bool.split sum.split recoverError.split)
qed simp

lemma recover_typed:
  assumes "RecoverFromSegmentLog late replayDescriptor seg opts f ov = (ov', res, err, f')" "typedOverlay ov"
  shows "typedOverlay ov'"
proof -
  have scan: "typedOverlay (rs_target (snd (scanLog late replayDescriptor opts f n (startState seg opts m st q ov) off)))" for n m st q off
    by (rule scanLog_typed) (simp add: startState_def assms(2))
  have fin: "typedOverlay (fst (finishScan late opts f st r))" if t: "typedOverlay (rs_target (snd r))" for st r
  proof -
    obtain x s where r: "r = (x, s)" by fastforce
    obtain b s1 where b: "deadlineExceeded late s = (b, s1)" by fastforce
    have "typedOverlay (rs_target s1)" "typedOverlay (rs_target s)" using deadline_target [OF b] t r by simp_all
    then show ?thesis by (cases x; cases b) (simp_all add: finishScan_def Let_def r b)
  qed
  have "typedOverlay (fst (RecoverFromSegmentLog late replayDescriptor seg opts f ov))"
    using assms(2) fin [OF scan] by (simp add: RecoverFromSegmentLog_def Let_def split: sum.split prod.split)
  then show ?thesis using assms(1) by simp
qed

lemma recoverActiveSegment_typed:
  assumes "recoverActiveSegment clock s ck p = (r, s')" "typed s"
  shows "typed s'"
proof (cases "map_of (st_files s) p")
  case (Some f)
  obtain ov res err f' where q: "RecoverFromSegmentLog (sc_scan clock) replayDescriptor p (recoveryOptions s ck p) f (st_overlay s) = (ov, res, err, f')"
    by (metis prod_cases4)
  have "typedOverlay ov" using recover_typed [OF q] assms(2) by (simp add: typed_def)
  then show ?thesis using assms Some q by (auto simp: recoverActiveSegment_def Let_def typed_def split: option.splits)
qed (use assms in \<open>simp add: recoverActiveSegment_def\<close>)

lemma checkRecoveryDeadline_typed: "checkRecoveryDeadline late s = (r, s') \<Longrightarrow> typed s' = typed s"
  by (auto simp: checkRecoveryDeadline_def typed_def split: if_splits)

lemma persist_typed:
  assumes "persistRecoveredOverlay clock now s p c n = (r, s')" "typed s"
  shows "typed s'"
proof -
  obtain q s1 where q: "checkRecoveryDeadline (sc_beforePersist clock) s = (q, s1)" by fastforce
  have t1: "typed s1" using checkRecoveryDeadline_typed [OF q] assms(2) by simp
  have "typed (s1\<lparr>st_writer := w, st_alloc := a\<rparr>)" for w a using t1 by (simp add: typed_def)
  then have t2: "typed s2" if "flush (s1\<lparr>st_writer := w, st_alloc := a\<rparr>) = (x, s2)" for w a x s2
    using typed_flush that by (metis snd_conv)
  have t3: "typed (s2\<lparr>st_writer := None\<rparr>) = typed s2" for s2 by (simp add: typed_def)
  show ?thesis
    using assms t1
    by (auto simp: persistRecoveredOverlay_def q Let_def t3 dest: t2 checkRecoveryDeadline_typed split: if_splits sum.splits option.splits prod.splits)
qed

lemma New_typed:
  assumes "New clock now cfg disk = (r, s)" "list_all rowOk (dk_index disk)"
  shows "typed s"
proof -
  have e: "typed (emptyStore cfg disk)" using assms(2) by (simp add: typed_def emptyStore_def)
  have n: "typed (s\<lparr>st_nextSeg := k\<rparr>) = typed s" for s k by (simp add: typed_def)
  have f: "finishRecoveryStartup clock s = (r, s') \<Longrightarrow> typed s' = typed s" for s r s'
    by (auto simp: finishRecoveryStartup_def checkRecoveryDeadline_def typed_def split: if_splits)
  show ?thesis
    using assms(1) e
    by (auto simp: New_def Let_def newActiveSegment_typed n split: sum.splits prod.splits
        dest!: f dest: persist_typed recoverActiveSegment_typed)
qed

section \<open>Every reachable store\<close>

text \<open>
  The operations in any order and with any arguments, whether they succeed or not. A restart finds the
  rows of the index and otherwise any directory: any segment files, any side files, any configuration.
\<close>

inductive storeStep :: "frameCodec \<Rightarrow> Store \<Rightarrow> Store \<Rightarrow> bool" for z where
  step_write: "storeStep z s (snd (Write z now rnd nonce nonces s wreq))"
| step_read: "storeStep z s (snd (Read z s rreq))"
| step_delete: "storeStep z s (snd (Delete now s e g))"
| step_prepare: "storeStep z s (snd (writePrepare z rnd nonce nonces s wreq))"
| step_commit: "storeStep z s (snd (commitBatch now s batch))"
| step_write_done: "storeStep z s (snd (writeFinish s pw))"
| step_delete_done: "storeStep z s (snd (deleteFinish s pw))"
| step_apply: "storeStep z s (applyStep s)"
| step_flush: "storeStep z s (snd (flush s))"
| step_append: "storeStep z s (snd (AppendRecord z now rnd nonce nonces s e g data codec))"
| step_relocate: "storeStep z s (snd (Relocate s relocs))"
| step_compact: "storeStep z s (compactOne z now rand s)"
| step_close: "storeStep z s (closeInternal early s)"
| step_restart: "dk_index disk = st_index s \<Longrightarrow> storeStep z s (snd (New clock now cfg disk))"

lemma storeStep_typed: "storeStep z s s' \<Longrightarrow> typed s \<Longrightarrow> typed s'"
proof (induction rule: storeStep.induct)
  case (step_prepare s rnd nonce nonces wreq)
  then show ?case using writePrepare_typed [OF surjective_pairing] by blast
next
  case (step_restart disk s clock now cfg)
  have "list_all rowOk (dk_index disk)" using step_restart by (simp add: typed_def)
  then show ?case by (rule New_typed [OF surjective_pairing])
qed (simp_all add: Write_typed Read_typed Delete_typed commitBatch_typed writeFinish_typed deleteFinish_typed typed_applyStep
    typed_flush AppendRecord_typed Relocate_typed compactOne_typed closeInternal_typed)


text \<open>A store that is opened, written to, compacted, closed and opened again.\<close>

definition demoCompacted :: Store where
  "demoCompacted = compactOne plainFrames 8 (\<lambda>_. (None, None, \<lambda>_. None))
     (snd (Write plainFrames 7 None None (\<lambda>_. None) demoOpen demoRequest))"

definition demoReopened :: Store where
  "demoReopened = snd (New demoClock 9 demoConfig (diskOf (closeInternal 0 demoCompacted)))"


end
