(* ===== verification/Store_Props.thy ===== *)
theory Store_Props
  imports Store_Frames Store_Types
begin

text \<open>
  Whole requests of the segment store: an acknowledged write is what a read returns, at once and after
  a crash and a restart; and no sequence of operations ever corrupts the location data.
\<close>

section \<open>An acknowledged write\<close>

lemma Write_parts:
  assumes "Write z now rnd nonce nonces s req = (Inr receipt, s')" "lookup s (wr_ExtentID req) (wr_Generation req) = Inl ErrExtentNotFound"
  obtains pw s1 batch s2 where "writePrepare z rnd nonce nonces s req = (Submitted pw, s1)" "commitBatch now s1 [pw] = (Inr batch, s2)"
    "writeFinish s2 (hd batch) = (receipt, s')"
proof -
  obtain p s1 where p: "writePrepare z rnd nonce nonces s req = (p, s1)" by fastforce
  have "\<exists>pw. p = Submitted pw"
    using p assms by (auto simp: Write_def writePrepare_def split: if_splits sum.splits option.splits prod.splits)
  then obtain pw where "p = Submitted pw" ..
  then show ?thesis using that assms(1) p by (auto simp: Write_def split: prod.splits sum.splits)
qed

text \<open>The key of the record can be found again under its number in the registry \<open>enc\<close>.\<close>

definition keyHeld :: "frameCodec \<Rightarrow> u8 list option \<Rightarrow> u8 list option \<Rightarrow> Store \<Rightarrow> KeyRegistry option \<Rightarrow> bool" where
  "keyHeld z rnd nonce s enc \<longleftrightarrow>
     (case fst (storeKey z rnd nonce s) of Inl _ \<Rightarrow> True | Inr (keyID, key) \<Rightarrow> resolves z enc keyID key)"

lemma keyHeld_plain: "st_enc s = None \<Longrightarrow> keyHeld z rnd nonce s enc"
  by (simp add: keyHeld_def storeKey_def resolves_def)

text \<open>What is known of the store behind an acknowledged write: where the record is and where the lookup finds it.\<close>

lemma acked_write:
  assumes z: "frameCodec_ok z" "\<forall>j x. nonces j = Some x \<longrightarrow> length x = NonceSize" and sv: "serving cfg w s"
    and l: "lookup s (wr_ExtentID req) (wr_Generation req) = Inl ErrExtentNotFound" "length (wr_Data req) \<le> MaxExtentSize"
    and wr: "Write z now rnd nonce nonces s req = (Inr receipt, s')" "al_segmentID (st_alloc s') = w"
  obtains keyID key h idx stored img off where
    "putMaterial z nonces (keyID, key) (wr_ExtentID req) (wr_Generation req) (wr_Data req) = Inr (h, idx, stored)"
    "recordImage h idx stored = Inr img" "SegmentHeaderSize \<le> off" "off \<le> length (activeFile s')" "holds_at (activeFile s') off img"
    "ov_Get (st_overlay s') (indexKey (wr_ExtentID req) (wr_Generation req)) = Some \<lparr>va_SegmentID = w, va_Offset = of_nat off, va_StoredLen = rh_StoredLen h,
       va_LogicalLen = of_nat (length (wr_Data req)), va_State = ExtentDurable, va_Checksum = checksumOf (wr_Data req)\<rparr>"
    "map_of (st_files s') w = Some (activeFile s')" "\<not> st_closing s'" "st_locCache s' = st_locCache s"
    "storeKey z rnd nonce s = (Inr (keyID, key), s\<lparr>st_enc := st_enc s'\<rparr>)" "rh_KeyID h = keyID"
    "\<exists>pw s1 s2. writePrepare z rnd nonce nonces s req = (Submitted pw, s1) \<and> st_streamSeq s1 = st_streamSeq s
       \<and> prepared z pw \<and> (\<exists>b. commitBatch now s1 [pw] = (Inr b, s2) \<and> al_segmentID (st_alloc s2) = w \<and> writeFinish s2 (hd b) = (receipt, s'))"
proof -
  obtain pw s1 batch s2 where p: "writePrepare z rnd nonce nonces s req = (Submitted pw, s1)" and c: "commitBatch now s1 [pw] = (Inr batch, s2)"
    and f: "writeFinish s2 (hd batch) = (receipt, s')"
    by (rule Write_parts [OF wr(1) l(1)])
  obtain key h idx stored where k: "storeKey z rnd nonce s = (Inr key, s1)"
    and m: "putMaterial z nonces key (wr_ExtentID req) (wr_Generation req) (wr_Data req) = Inr (h, idx, stored)"
    and pw: "pw = \<lparr>pw_extentID = wr_ExtentID req, pw_generation = wr_Generation req, pw_header = h,
           pw_idxBuf = idx, pw_stored = stored, pw_storedLen = of_nat (length stored),
           pw_logicalLen = of_nat (length (wr_Data req)), pw_payloadCRC = checksumOf (wr_Data req),
           pw_publishedValue = None, pw_segID = 0, pw_offset = 0, pw_streamSeq = 0\<rparr>" and cl: "\<not> st_closing s"
    by (rule writePrepare_Submitted [OF p])
  have n: "length x = NonceSize" if "nonces j = Some x" for j x using z(2) that by blast
  have pr: "prepared z pw" using p l(2) n by (rule prepared_write)
  obtain r where r: "pends pw r" using prepared_pends [OF z(1) pr] by blast
  have rb: "recordImage h idx stored = Inr (recordBytes r)" using r recordImage_imageOf [of "fst r" "snd r"] by (simp add: pends_def record_ok_def recordBytes_def pw)
  have kid: "rh_KeyID h = fst key" by (rule putMaterial_record [OF z(1) n m l(2)])
  have s1: "s1 = s\<lparr>st_enc := st_enc s1\<rparr>" using k by (auto simp: storeKey_def split: option.splits if_splits prod.splits)
  have same: "sameStore s s1" "sameStore s2 s'" using writePrepare_same [OF p] writeFinish_same [OF f] by simp_all
  obtain pre base bs where inv: "logInv w s1 pre base bs" using serving_same [OF same(1) sv] by (auto simp: serving_def)
  have ap: "appendable w s1" using inv by (simp add: logInv_def)
  have w2: "al_segmentID (st_alloc s2) = w" using wr(2) same(2) by (simp add: sameStore_def sameLog_def)
  have b: "list_all2 pends [pw] [r]" "[pw] \<noteq> []" using r by simp_all
  note C = commitBatch_Inr [OF ap b c w2]
  let ?off = "length (activeFile s1)"
  have off: "al_offset (st_alloc s1) = ?off" "SegmentHeaderSize \<le> ?off" using ap logInv_start(1) [OF inv] by (simp_all add: appendable_def)
  have af: "activeFile s' = activeFile s2" by (rule activeFile_cong) (use same(2) in \<open>simp_all add: sameStore_def sameLog_def\<close>)
  have a2: "activeFile s2 = activeFile s1 @ recordBytes r @ encodeBatchCommit (commitFor w (st_streamID s1) ?off (st_streamSeq s1 + 1) [r])"
    using C(2) by (simp add: batchBytes_def)
  have ov: "st_overlay s' = ov_Put (st_overlay s1) (indexKey (wr_ExtentID req) (wr_Generation req))
      \<lparr>va_SegmentID = w, va_Offset = of_nat ?off, va_StoredLen = rh_StoredLen h, va_LogicalLen = of_nat (length (wr_Data req)),
       va_State = ExtentDurable, va_Checksum = checksumOf (wr_Data req)\<rparr>"
    using C(4) same(2) putMaterial_fields(4) [OF m] unfolding C(1)
    by (simp add: sameStore_def sameLog_def publishOverlay_def publishedOf_def off(1) pw)
  have req: "sameRequests s1 s2" "sameRequests s2 s'" using commitBatch_requests [OF c] writeFinish_requests [OF f] by simp_all
  have s1f: "st_closing s1 = st_closing s" "st_locCache s1 = st_locCache s" by (subst s1, simp)+
  show ?thesis
  proof (rule that [of "fst key" "snd key" h idx stored "recordBytes r" ?off])
    show "holds_at (activeFile s') ?off (recordBytes r)" unfolding af a2 by (rule holds_at_here)
    show "?off \<le> length (activeFile s')" unfolding af a2 by simp
    show "ov_Get (st_overlay s') (indexKey (wr_ExtentID req) (wr_Generation req)) = Some \<lparr>va_SegmentID = w, va_Offset = of_nat ?off,
       va_StoredLen = rh_StoredLen h, va_LogicalLen = of_nat (length (wr_Data req)), va_State = ExtentDurable,
       va_Checksum = checksumOf (wr_Data req)\<rparr>"
      by (simp add: ov ov_Get_Put)
    show "map_of (st_files s') w = Some (activeFile s')"
      unfolding af using same(2) C(3) by (simp add: sameStore_def sameLog_def update_conv')
    show "\<not> st_closing s'" "st_locCache s' = st_locCache s" using req s1f cl by (simp_all add: sameRequests_def)
    have "st_enc s' = st_enc s1" using req by (simp add: sameRequests_def)
    then show "storeKey z rnd nonce s = (Inr (fst key, snd key), s\<lparr>st_enc := st_enc s'\<rparr>)" using k s1 by simp
    have "st_streamSeq s1 = st_streamSeq s" by (subst s1) simp
    then show "\<exists>pw s1 s2. writePrepare z rnd nonce nonces s req = (Submitted pw, s1) \<and> st_streamSeq s1 = st_streamSeq s
       \<and> prepared z pw \<and> (\<exists>b. commitBatch now s1 [pw] = (Inr b, s2) \<and> al_segmentID (st_alloc s2) = w \<and> writeFinish s2 (hd b) = (receipt, s'))"
      using p pr c w2 f by blast
  qed (use m rb off kid in simp_all)
qed


text \<open>The batch of other requests that is in flight.\<close>

definition touches :: "pendingWrite list \<Rightarrow> u64 \<Rightarrow> u64 \<Rightarrow> bool" where
  "touches batch e g \<longleftrightarrow> list_ex (\<lambda>pw. pw_extentID pw = e \<and> pw_generation pw = g) batch"

lemma publish_untouched:
  "\<not> touches batch e g \<Longrightarrow> ov_Get (publishOverlay ov (placeAll w off sq batch)) (indexKey e g) = ov_Get ov (indexKey e g)"
proof (induction batch arbitrary: ov off sq)
  case (Cons pw batch)
  then show ?case by (auto simp: publishOverlay_def touches_def ov_Get_Put)
qed (simp add: publishOverlay_def)

lemma survivor_keeps:
  assumes "frameCodec_ok z" "logInv w s pre base bs" "commits z now w s batch s'" "\<not> touches batch e g"
  shows "\<exists>more. activeFile (survivor s s' n) = activeFile s @ more
    \<and> ov_Get (st_overlay (survivor s s' n)) (indexKey e g) = ov_Get (st_overlay s) (indexKey e g)"
proof (cases "n < length (activeFile s')")
  case False
  obtain batch' rs where b: "batch \<noteq> []" "list_all2 pends batch rs" "commitBatch now s batch = (Inr batch', s')"
    "al_segmentID (st_alloc s') = w"
    by (rule commits_pends [OF assms(1,3)])
  have "appendable w s" using assms(2) by (simp add: logInv_def)
  from commitBatch_Inr [OF this b(2,1,3,4)] show ?thesis
    using False publish_untouched [OF assms(4)] by (simp add: survivor_def)
qed (simp add: survivor_def)

lemma marker_no_footer: "\<not> hasEncodedSegmentFooter (f @ markerFor sq)"
proof -
  have "slice 0 4 (drop (length (f @ markerFor sq) - SegmentFooterSize) (f @ markerFor sq)) = [OpIndexSafe, 0, 0, 0]"
    by (simp add: slice_def CommitRecordSize_def SegmentFooterSize_def markerFor_def encodeCommitRecord_def commitBody_def putUint64_0 putUint32_0)
  moreover have "getUint32 [OpIndexSafe, 0, 0, 0] \<noteq> SegmentMagic" by (simp add: getUint32_def getBE_def OpIndexSafe_def SegmentMagic_def)
  ultimately show ?thesis unfolding hasEncodedSegmentFooter_def by simp
qed


section \<open>The small store again\<close>

text \<open>The room that a batch of one request leaves.\<close>

lemma appendBatch_room:
  "appendBatch s co batch = (r, s') \<Longrightarrow> al_maxSegmentBytes (st_alloc s') = al_maxSegmentBytes (st_alloc s)
     \<and> al_recordCount (st_alloc s') = al_recordCount (st_alloc s) \<and> al_maxRecords (st_alloc s') = al_maxRecords (st_alloc s)"
proof -
  have p: "st_alloc (publishEach n b s) = st_alloc s" for n b s using publishEach_log [of s n b] by (simp add: sameLog_def)
  show "appendBatch s co batch = (r, s') \<Longrightarrow> al_maxSegmentBytes (st_alloc s') = al_maxSegmentBytes (st_alloc s)
     \<and> al_recordCount (st_alloc s') = al_recordCount (st_alloc s) \<and> al_maxRecords (st_alloc s') = al_maxRecords (st_alloc s)"
    by (auto simp: appendBatch_def publishCommitted_def Let_def p RecordCommit_def split: prod.splits option.splits)
qed

lemma commit_one_room:
  assumes "appendable w s" "commitBatch now s [pw] = (Inr batch, s')" "al_segmentID (st_alloc s') = w"
  shows "al_maxSegmentBytes (st_alloc s') = al_maxSegmentBytes (st_alloc s)
     \<and> al_recordCount (st_alloc s') = al_recordCount (st_alloc s) + 1 \<and> al_maxRecords (st_alloc s') = al_maxRecords (st_alloc s)"
proof -
  obtain a1 a2 where a: "reserveBatch w (st_alloc s) (st_streamSeq s) [pw]
      = (Inr (placeAll w (al_offset (st_alloc s)) (st_streamSeq s) [pw]), a1, st_streamSeq s + of_nat (length [pw]))"
    "a2 = a1\<lparr>al_offset := al_offset a1 + BatchCommitSize\<rparr>"
    "appendBatch (s\<lparr>st_alloc := a2, st_streamSeq := st_streamSeq s + of_nat (length [pw])\<rparr>) (al_offset a1)
       (placeAll w (al_offset (st_alloc s)) (st_streamSeq s) [pw]) = (Inr batch, s')"
    by (rule commitBatch_parts [OF assms])
  have "al_maxSegmentBytes a1 = al_maxSegmentBytes (st_alloc s) \<and> al_recordCount a1 = al_recordCount (st_alloc s) + 1
     \<and> al_maxRecords a1 = al_maxRecords (st_alloc s)"
    using a(1) by (auto simp: Reserve_def split: if_splits)
  then show ?thesis using appendBatch_room [OF a(3)] a(2) by simp
qed

text \<open>A small write committed by a store that has room for it.\<close>

lemma demo_append:
  assumes s: "logInv 1 s pre base bs" and pw: "prepared plainFrames pw" "unat (framingOf pw) = 83"
    and room: "length (activeFile s) + 125 \<le> al_maxSegmentBytes (st_alloc s)" "CanReserveRecords (st_alloc s) 1"
  obtains batch s' r where "commitBatch 0 s [pw] = (Inr batch, s')" "al_segmentID (st_alloc s') = 1" "pends pw r"
    "activeFile s' = activeFile s @ recordBytes r @ encodeBatchCommit (commitFor 1 (st_streamID s) (length (activeFile s)) (st_streamSeq s + 1) [r])"
    "length (activeFile s') = length (activeFile s) + 125" "st_flushMutations s' = st_flushMutations s + 1"
    "st_streamSeq s' = st_streamSeq s + 1" "st_sidecars s' = st_sidecars s" "st_persistent s' = st_persistent s" "st_streamID s' = st_streamID s"
proof -
  have ap: "appendable 1 s" "caughtUp s" using s by (simp_all add: logInv_def)
  obtain r where r: "pends pw r" using prepared_pends [OF plainFrames_ok pw(1)] by blast
  have rs: "list_all2 pends [pw] [r]" "[pw] \<noteq> []" using r by simp_all
  have lr: "length (recordBytes r) = 83" using framing_pends [OF r] pw(2) by simp
  have "CanReserveBatch (st_alloc s) (BatchCommitSize + length (recordsBytes [r]))" "CanReserveRecords (st_alloc s) (length [pw])"
    using room ap(1) lr by (simp_all add: CanReserveBatch_def BatchCommitSize_def appendable_def)
  then obtain batch s' where c: "commitBatch 0 s [pw] = (Inr batch, s')" "al_segmentID (st_alloc s') = 1"
    using commitBatch_fits [OF ap(1) rs] by blast
  note C = commitBatch_Inr [OF ap(1) rs c]
  show ?thesis using that [OF c r] C(2,5,8-10) C(11) [OF ap(2)] lr by (simp add: batchBytes_def BatchCommitSize_def)
qed

text \<open>Its segment does not look sealed: sixty five bytes before its end is the frame index of the record.\<close>

lemma demo_no_footer:
  assumes "pends pw r" "\<exists>c q. pw_idxBuf pw = putUint32 0 @ putUint32 3 @ [c] @ putUint32 q" "pw_stored pw = [1, 2, 3]"
  shows "\<not> hasEncodedSegmentFooter (f @ recordBytes r @ encodeBatchCommit bc)"
proof -
  obtain c q where i: "indexBytes (snd r) = putUint32 0 @ putUint32 3 @ [c] @ putUint32 q" "storedBytes (snd r) = [1, 2, 3]"
    using assms by (auto simp: pends_def)
  let ?f = "f @ recordBytes r @ encodeBatchCommit bc"
  let ?tl = "[0, 0, 3, c] @ putUint32 q @ [1, 2, 3] @ encodeTrailer (of_nat (framingLen (snd r))) @ encodeBatchCommit bc"
  have "putUint32 3 = [0, 0, 0, 3]" by code_simp
  then have f: "?f = (f @ headerBytes (fst r) @ putUint32 0 @ [0]) @ ?tl" by (simp add: recordBytes_def imageOf_def i)
  have "length ?tl = SegmentFooterSize" by (simp add: SegmentFooterSize_def RecordTrailerSize_def BatchCommitSize_def)
  then have "drop (length ?f - SegmentFooterSize) ?f = ?tl" unfolding f by simp
  then have "slice 0 4 (drop (length ?f - SegmentFooterSize) ?f) = [0, 0, 3, c]" by (simp add: slice_def)
  moreover have "getUint32 [0, 0, 3, c] \<noteq> SegmentMagic"
  proof -
    have "unat c < 2 ^ LENGTH(8)" by (rule unsigned_less)
    then have "getBE [0, 0, 3, c] < 1024" by (simp add: getBE_def)
    then have "unat (getUint32 [0, 0, 3, c]) < 1024" by (simp add: getUint32_def unat_of_nat)
    then show ?thesis by (auto simp: SegmentMagic_def)
  qed
  ultimately show ?thesis unfolding hasEncodedSegmentFooter_def by simp
qed

lemma demo_write:
  obtains receipt s' where
    "Write plainFrames 0 None None (\<lambda>_. None) demoOpen \<lparr>wr_ExtentID = 7, wr_Generation = 1, wr_Data = [1, 2, 3]\<rparr> = (Inr receipt, s')"
    "alive plainFrames demoConfig 1 s'" "al_segmentID (st_alloc s') = 1" "length (activeFile s') = 147"
    "\<not> hasEncodedSegmentFooter (activeFile s')" "al_maxSegmentBytes (st_alloc s') = 1024" "CanReserveRecords (st_alloc s') 1"
    "st_sidecars s' = []" "st_flushMutations s' = 1" "st_streamSeq s' = 1" "st_persistent s'" "st_streamID s' = 1"
proof -
  let ?req = "\<lparr>wr_ExtentID = 7, wr_Generation = 1, wr_Data = [1, 2, 3]\<rparr>"
  obtain pre base bs where inv: "logInv 1 demoOpen pre base bs"
    using alive_inv [OF demo_alive plainFrames_ok demo_config(1,2)] by (auto simp: serving_def)
  obtain pw where pw: "writePrepare plainFrames None None (\<lambda>_. None) demoOpen ?req = (Submitted pw, demoOpen)"
    "prepared plainFrames pw" "unat (framingOf pw) = 83" "\<exists>c q. pw_idxBuf pw = putUint32 0 @ putUint32 3 @ [c] @ putUint32 q" "pw_stored pw = [1, 2, 3]"
    using demo_prepare [OF demo_unknown] by metis
  have room: "length (activeFile demoOpen) + 125 \<le> al_maxSegmentBytes (st_alloc demoOpen)" "CanReserveRecords (st_alloc demoOpen) 1"
    using demo_commit(2) by (simp_all add: demoOpen_fields CanReserveRecords_def NewAllocator_def MaxRecordsPerSegment_def)
  obtain batch s2 r where c: "commitBatch 0 demoOpen [pw] = (Inr batch, s2)" "al_segmentID (st_alloc s2) = 1" "pends pw r"
    "activeFile s2 = activeFile demoOpen @ recordBytes r @ encodeBatchCommit (commitFor 1 (st_streamID demoOpen) (length (activeFile demoOpen)) (st_streamSeq demoOpen + 1) [r])"
    "length (activeFile s2) = length (activeFile demoOpen) + 125" "st_flushMutations s2 = st_flushMutations demoOpen + 1"
    "st_streamSeq s2 = st_streamSeq demoOpen + 1" "st_sidecars s2 = st_sidecars demoOpen" "st_persistent s2 = st_persistent demoOpen"
    "st_streamID s2 = st_streamID demoOpen"
    by (rule demo_append [OF inv pw(2,3) room])
  have ap: "appendable 1 demoOpen" using inv by (simp add: logInv_def)
  have a2: "al_maxSegmentBytes (st_alloc s2) = 1024" "CanReserveRecords (st_alloc s2) 1"
    using commit_one_room [OF ap c(1,2)] by (simp_all add: demoOpen_fields NewAllocator_def CanReserveRecords_def MaxRecordsPerSegment_def)
  have fm: "st_flushMutations demoOpen = 0" unfolding demoOpen_eq(2) by (simp add: newActiveSegment_def Let_def emptyStore_def)
  have "commits plainFrames 0 1 demoOpen [pw] s2" using c pw(2) by (simp add: commits_def demoOpen_fields)
  then have al: "alive plainFrames demoConfig 1 s2" by (rule alive_commit [OF demo_alive])
  obtain receipt s' where f: "writeFinish s2 (hd batch) = (receipt, s')" by fastforce
  have same: "sameStore s2 s'" by (rule writeFinish_same [OF f])
  have af: "activeFile s' = activeFile s2" by (rule activeFile_cong) (use same in \<open>simp_all add: sameStore_def sameLog_def\<close>)
  have nf: "\<not> hasEncodedSegmentFooter (activeFile s2)" unfolding c(4) by (rule demo_no_footer [OF c(3) pw(4,5)])
  have w: "Write plainFrames 0 None None (\<lambda>_. None) demoOpen ?req = (Inr receipt, s')" by (simp add: Write_def pw(1) c(1) f)
  show ?thesis
    by (rule that [OF w alive_write_done [OF al f]])
      (use same af nf a2 c demo_commit(2) fm in \<open>simp_all add: sameStore_def sameLog_def demoOpen_fields\<close>)
qed

lemma demo_caches: "lc_lru (st_locCache demoOpen) = []" "keyHeld plainFrames rnd nonce demoOpen enc"
proof -
  show "lc_lru (st_locCache demoOpen) = []"
    unfolding demoOpen_eq(2) by (simp add: newActiveSegment_def Let_def emptyStore_def NewLocationCache_def)
  show "keyHeld plainFrames rnd nonce demoOpen enc" by (rule keyHeld_plain) (rule demoOpen_fields)
qed



end
