(* ===== verification/Spec2Isabelle.thy ===== *)
theory Spec2Isabelle
  imports Directory_Listing Advisory_Locks Placement Extent_Props Backup_Props Record_Damage Store_Props
begin

text \<open>
  A verification development for nufs, a distributed file system in Go (\<open>src/nufs-core\<close>). Two parts of
  the program are modelled. The metadata service (\<open>src/nufs-core/metadata\<close>) keeps inodes, directory
  entries, chunk references, placement data and backup records as rows of an ordered key-value store
  and replicates changes as raft log entries. A data node (\<open>src/nufs-core/datanode/storage\<close>) keeps
  extents as checksummed, optionally compressed and encrypted records in append-only segment files,
  finds them through an overlay and an index, and rebuilds the overlay from the log after a crash.

  \<^bold>\<open>How the code is modelled.\<close> A Go function is a HOL function with the same name (where HOL has a
  constant of that name, or two packages share it, with a short prefix of the receiver, as in \<open>ov_Get\<close>,
  \<open>fk_GenerateDEK\<close>). A method takes the state and returns its answer with the new state; an error is
  the left side of a sum, over \<open>Error\<close> in the metadata service and \<open>StorageError\<close> in the data node.
  Go's sized integers are words, so that wrap-around is the code's; file offsets and lengths are
  natural numbers and become 64-bit words where they are stored; floating-point scores are rational
  numbers. A mutex makes an operation atomic. Where a lock is released between a read and the commit
  that depends on it, the two are separate definitions and the properties quantify over what the read
  saw. Clocks, random bytes, injected faults and the order in which requests reach the group commit
  are arguments.

  \<^bold>\<open>Code that is not in the sources\<close> is a parameter with its documented behaviour as a hypothesis:
  the msgpack and JSON encoders (\<open>codec_ok\<close>), the AEAD cipher (\<open>aead_ok\<close>: opening undoes sealing) and
  zstd (\<open>frameCodec_ok\<close>: decoding undoes encoding). Every property with such a hypothesis has a witness
  with a concrete codec. Pebble is the association list of its rows by key; the locale
  \<open>ordered_kv\<close> states what the metadata code relies on and is interpreted on that model.

  \<^bold>\<open>Metadata service.\<close>
  \<^item> \<open>Nufs_Prelude\<close>, \<open>Nufs_Types\<close>, \<open>Key_Space\<close>, \<open>Meta_Rows\<close>: shared lemmas, the structs and errors of
    \<open>types.go\<close> and \<open>errors.go\<close>, the keys of \<open>keys.go\<close> with their parsers and the upper bound of a prefix,
    the rows and their encoding.
  \<^item> \<open>Kv_Store\<close>: typed reads, the sorted multi-get, prefix scans, paging and batches. Shown: the
    multi-get is a point read per key, and paging returns every row once and ends.
  \<^item> \<open>Backup_Rules\<close>, \<open>Conditional_Batch\<close>, \<open>Reference_Batch\<close>, \<open>Raft_Log\<close>: compare-and-mutate batches with their
    validation and canonical form, the check that attaches chunks to inodes, the binary log format
    and the state machine. Shown: a batch commits exactly its changes or nothing, tombstoned chunks
    are not attached, entries decode to what was encoded, and applying an encoded entry is applying
    the entry.
  \<^item> \<open>Degradation\<close>, \<open>Meta_Store\<close>, \<open>Namespace\<close>: the read-only switch, the state and write paths of
    \<open>PebbleStore\<close>, and its namespace handlers. \<open>Namespace_Spec\<close> is the abstract file tree;
    \<open>Namespace_Laws\<close>, \<open>Namespace_Refine\<close>, \<open>Namespace_Live\<close>, \<open>Namespace_Sample\<close> and \<open>Namespace_Props\<close> show that
    the handlers implement it, that creates succeed when they must, and that in every reachable store
    names resolve and link counts are exact. \<open>Directory_Listing\<close> treats listing with a cursor.
  \<^item> \<open>Advisory_Locks\<close>, \<open>Placement\<close>: the sharded lock table as one counted table; node choice, quorum
    sizes and chunk identifiers.
  \<^item> \<open>Extent_Pages\<close>, \<open>Extent_Props\<close>: the copy-on-write extent pages and the commit that chooses between
    the layouts; what is committed is what resolves.
  \<^item> \<open>Backup_Catalog\<close>, \<open>Backup_Props\<close>: tasks, catalog, cluster identity and restore marker, under every
    interleaving of calls.

  \<^bold>\<open>Data node.\<close>
  \<^item> \<open>Byte_Codec\<close>, \<open>Record_Crypto\<close>, \<open>Segment_Record\<close>: integers and slices of buffers, CRC-32C, key services and
    key registry, the record format with framing, compression and encryption and both read paths.
    \<open>Record_Props\<close> shows that what is written is read, \<open>Record_Damage\<close> that a changed byte is noticed.
  \<^item> \<open>Segment_Log\<close>: commit records, batch commits, segment headers and footers, the allocator and the
    recovery scan of \<open>recover.go\<close>.
  \<^item> \<open>Segment_Index\<close>: index rows, the recovery checkpoint, the overlay and the two caches.
  \<^item> \<open>Segment_Store\<close>, \<open>Segment_Lifecycle\<close>: the store of \<open>store.go\<close>, \<open>flush.go\<close> and \<open>commit_coordinator.go\<close> with
    group commit, rotation, flush and requests; opening with recovery, closing, the small-file store
    and compaction.
  \<^item> \<open>Recovery_Scan\<close>, \<open>Commit_Laws\<close>, \<open>Store_View\<close>, \<open>Recovery_Laws\<close>, \<open>Recovery_Props\<close>: the scan accepts every log of
    complete batches and cuts off a torn one; a commit appends exactly such a batch; draining the
    overlay keeps every lookup; commits, flushes and requests keep the tie between log, checkpoint and
    overlay; and therefore a store that is opened after a crash answers as before.
  \<^item> \<open>Store_Frames\<close>, \<open>Store_Types\<close>, \<open>Store_Props\<close>: what commits, flushes and startup leave alone, and how a read
    finds a record; the typing of index and overlay under every operation, failure and restart; and
    that an acknowledged write is read back, at once and after a crash.

  \<^bold>\<open>Bounds and fuel.\<close> Loops of the code that consume a list or a file are structural or have as fuel
  the length of what they consume: every entry of a segment takes at least one byte, so the length
  of the file bounds the recovery scan and the scan of compaction; the eviction loop of the segment
  cache removes an entry per round; publishing a batch drains at most the batches that wait. The
  paging loop of the metadata service has a termination proof. The crash properties are about one active
  segment at a time: a commit that rotates to a new segment is not a step of them, because recovery
  replays only the newest segment. They assume the recovery budgets of the code (100000 records and
  128 MiB behind the checkpoint), 42 bytes of room for the marker that startup writes, and a clock
  that does not run out during startup.

  \<^bold>\<open>Not modelled.\<close> The raft node, its transports and snapshots, and the background loops of the metadata
  service (metrics, events, throttling, leases, rebalancing, repair, scrubbing, erasure-coding
  conversion, garbage collection): they drive the modelled operations from timers and the network.
  Shard routing, directory partitions, placement groups, cross-shard transactions and the lifecycle
  of chunk tombstones: their records and keys are modelled, their drivers are not. The backup
  repository and restore, which are file and object-store transfers. The data node's servers and its
  change journal; a store carries the journal as a list of events. The client, the gateways, the
  command line programs and the administration server, which forward to the services. Locks,
  contexts, logging and metrics have no counterpart. Small helper definitions without an entry of
  their own in the manifest's map are parts of the function that their caller there translates.
\<close>

end
